(* ===== verification/Prelude.thy ===== *)
theory Prelude
  imports
    Complex_Main
    "HOL-Library.AList"
    "HOL-Library.Multiset"
    "HOL-Library.Char_ord"
    "HOL-Library.List_Lexorder"
begin

text \<open>
  Shared vocabulary of the development: Go maps as association lists with distinct keys,
  the grouping loop \<open>m[k] = append(m[k], x)\<close> that most aggregations of the program are
  built from, \<open>slices.Sort\<close> as the library's stable sort, and results of fallible calls.

  A Go map has no iteration order the program may rely on. A map is modelled as an
  association list, so that \<open>range\<close> visits the entries in some order, and the results
  that depend on a \<open>range\<close> loop are proved not to depend on that order (the lemmas on
  permutations below).
\<close>

section \<open>Results of fallible calls\<close>

text \<open>An \<open>(T, error)\<close> result: \<open>Inl\<close> carries the error's text.\<close>

type_synonym 'a result = "string + 'a"

definition is_ok :: "'a result \<Rightarrow> bool" where
  "is_ok r = (case r of Inl _ \<Rightarrow> False | Inr _ \<Rightarrow> True)"

lemma is_ok_simps [simp]: "is_ok (Inr x)" "\<not> is_ok (Inl e)"
  by (simp_all add: is_ok_def)

section \<open>Go maps\<close>

type_synonym ('k, 'v) gomap = "('k \<times> 'v) list"

named_theorems gomap "facts about maps, lookups and grouping loops"

definition gm_wf :: "('k, 'v) gomap \<Rightarrow> bool" where
  "gm_wf m = distinct (map fst m)"

lemma gm_wf_Nil [simp]: "gm_wf []"
  by (simp add: gm_wf_def)

lemma gm_wf_update [simp]: "gm_wf m \<Longrightarrow> gm_wf (AList.update k v m)"
  by (simp add: gm_wf_def distinct_update)

lemma gm_wf_map_of [gomap]: "gm_wf m \<Longrightarrow> (k, v) \<in> set m \<longleftrightarrow> map_of m k = Some v"
  by (simp add: gm_wf_def)

lemma gm_wf_filter [simp]: "gm_wf m \<Longrightarrow> gm_wf (filter P m)"
  by (simp add: gm_wf_def distinct_map_filter)

lemma gm_wf_map_snd [simp]: "gm_wf (map (\<lambda>(k, v). (k, f k v)) m) = gm_wf m"
proof -
  have "map fst (map (\<lambda>(k, v). (k, f k v)) m) = map fst m"
    by (induction m) auto
  then show ?thesis
    by (simp only: gm_wf_def)
qed

lemma gm_wf_perm: "mset m = mset m' \<Longrightarrow> gm_wf m = gm_wf m'"
  unfolding gm_wf_def by (metis mset_eq_imp_distinct_iff mset_map)

lemma map_of_perm:
  assumes "gm_wf m" and "mset m = mset m'"
  shows "map_of m = map_of m'"
proof -
  have "distinct (map fst m)" and "distinct (map fst m')" and "set m = set m'"
    using assms gm_wf_perm [OF assms(2)] mset_eq_setD [OF assms(2)] by (simp_all add: gm_wf_def)
  then show ?thesis
    by (simp add: map_of_inject_set)
qed

lemma map_of_map_snd [gomap]:
  "map_of (map (\<lambda>(k, v). (k, f k v)) m) k = map_option (f k) (map_of m k)"
  by (induction m) auto

lemma map_of_dom_keys [gomap]: "dom (map_of m) = set (map fst m)"
  by (simp add: dom_map_of_conv_image_fst)

lemma keys_update [gomap]: "set (map fst (AList.update k v m)) = insert k (set (map fst m))"
  by (simp add: dom_update)

lemma set_update_subset: "set (AList.update k v m) \<subseteq> insert (k, v) (set m)"
  by (induction m) auto

lemma map_of_filter_wf:
  "gm_wf m \<Longrightarrow> map_of (filter (\<lambda>(k, v). P k v) m) k =
     (case map_of m k of None \<Rightarrow> None | Some v \<Rightarrow> if P k v then Some v else None)"
proof (induction m)
  case (Cons a m)
  obtain j w where a: "a = (j, w)" by fastforce
  from Cons.prems have "j \<notin> fst ` set m" and "gm_wf m"
    by (simp_all add: a gm_wf_def)
  then show ?case
    using Cons.IH by (auto simp: a map_of_eq_None_iff split: option.splits)
qed simp

lemma gm_wf_delete [simp]: "gm_wf m \<Longrightarrow> gm_wf (AList.delete k m)"
  by (simp add: gm_wf_def distinct_delete)

section \<open>The grouping loop\<close>

text \<open>
  \<^verbatim>\<open>
  m := make(map[K][]T)
  for _, x := range xs { m[f(x)] = append(m[f(x)], x) }
  \<close>
  A missing key reads as the nil slice.
\<close>

definition group_add :: "('a \<Rightarrow> 'k) \<Rightarrow> ('k, 'a list) gomap \<Rightarrow> 'a \<Rightarrow> ('k, 'a list) gomap" where
  "group_add f m x =
     AList.update (f x) ((case map_of m (f x) of None \<Rightarrow> [] | Some ys \<Rightarrow> ys) @ [x]) m"

definition group_by :: "('a \<Rightarrow> 'k) \<Rightarrow> 'a list \<Rightarrow> ('k, 'a list) gomap" where
  "group_by f xs = foldl (group_add f) [] xs"

lemma group_by_Nil [simp]: "group_by f [] = []"
  by (simp add: group_by_def)

lemma group_by_snoc: "group_by f (xs @ [x]) = group_add f (group_by f xs) x"
  by (simp add: group_by_def)

lemma group_by_wf [simp, gomap]: "gm_wf (group_by f xs)"
  by (induction xs rule: rev_induct) (simp_all add: group_by_snoc group_add_def)

lemma group_by_lookup [gomap]:
  "map_of (group_by f xs) k =
     (if \<exists>x \<in> set xs. f x = k then Some (filter (\<lambda>x. f x = k) xs) else None)"
proof (induction xs arbitrary: k rule: rev_induct)
  case Nil
  then show ?case by simp
next
  case (snoc x xs)
  have "f x = k \<Longrightarrow> \<forall>y \<in> set xs. f y \<noteq> k \<Longrightarrow> filter (\<lambda>y. f y = k) xs = []"
    by (simp add: filter_empty_conv)
  with snoc show ?case
    by (auto simp: group_by_snoc group_add_def update_conv')
qed

lemma group_by_keys [gomap]: "set (map fst (group_by f xs)) = f ` set xs"
  unfolding map_of_dom_keys [symmetric] by (auto simp: dom_def group_by_lookup)

lemma group_by_member [gomap]:
  "(k, ys) \<in> set (group_by f xs) \<longleftrightarrow> k \<in> f ` set xs \<and> ys = filter (\<lambda>x. f x = k) xs"
  by (auto simp: gm_wf_map_of group_by_lookup)

lemma group_by_nonempty: "(k, ys) \<in> set (group_by f xs) \<Longrightarrow> ys \<noteq> []"
  by (auto simp: group_by_member filter_empty_conv)

text \<open>Permuting the input permutes the groups and their members.\<close>

lemma group_by_perm_keys:
  "mset xs = mset xs' \<Longrightarrow> set (map fst (group_by f xs)) = set (map fst (group_by f xs'))"
  unfolding group_by_keys by (drule mset_eq_setD) simp

lemma group_by_perm_lookup:
  assumes "mset xs = mset xs'"
  shows "map_option mset (map_of (group_by f xs) k) = map_option mset (map_of (group_by f xs') k)"
proof -
  have "set xs = set xs'"
    using assms by (rule mset_eq_setD)
  moreover have "mset (filter (\<lambda>x. f x = k) xs) = mset (filter (\<lambda>x. f x = k) xs')"
    using assms by (simp only: mset_filter)
  ultimately show ?thesis
    by (simp only: group_by_lookup) simp
qed

section \<open>Sorting and sets of strings\<close>

text \<open>
  \<open>slices.Sort\<close> on strings is the sort by the bytewise lexicographic order. A sorted
  list of the keys of a map that satisfy a condition does not depend on the order the
  map was visited in.
\<close>

lemma sort_perm: "mset xs = mset ys \<Longrightarrow> sort xs = sort (ys :: 'a :: linorder list)"
  by (simp add: properties_for_sort)

lemma sort_distinct_set_eq:
  "distinct xs \<Longrightarrow> distinct ys \<Longrightarrow> set xs = set ys \<Longrightarrow> sort xs = sort (ys :: 'a :: linorder list)"
  by (rule sort_perm) (simp add: set_eq_iff_mset_eq_distinct)

lemma sort_idem [simp]: "sort (sort xs) = sort (xs :: 'a :: linorder list)"
  by (simp add: sorted_sort_id)

lemma map_sort_key: "map f (sort_key f xs) = sort (map f xs)"
  by (rule properties_for_sort [symmetric]) (simp_all add: mset_map [symmetric] del: mset_map, simp)

lemma sort_key_section:
  assumes "\<And>x. x \<in> set xs \<Longrightarrow> g (f x) = x"
  shows "sort_key f xs = map g (sort (map f xs))"
proof -
  have "map g (map f (sort_key f xs)) = sort_key f xs"
    unfolding map_map by (rule map_idI) (simp add: assms)
  then show ?thesis
    by (simp only: map_sort_key)
qed

lemma sort_key_perm:
  assumes "mset xs = mset ys" and "distinct (map f xs)"
  shows "sort_key f xs = sort_key f ys"
proof -
  have inj: "inj_on f (set xs)" and s: "set ys = set xs"
    using assms mset_eq_setD [OF assms(1)] by (simp_all add: distinct_map)
  have "sort_key f xs = map (the_inv_into (set xs) f) (sort (map f xs))"
    and "sort_key f ys = map (the_inv_into (set xs) f) (sort (map f ys))"
    by (rule sort_key_section; simp add: s the_inv_into_f_f [OF inj])+
  moreover have "sort (map f xs) = sort (map f ys)"
    by (rule sort_perm) (simp add: assms(1))
  ultimately show ?thesis by simp
qed

section \<open>Selecting the first match\<close>

text \<open>The loop \<open>for _, x := range xs { if p(x) { return x } }\<close> is \<open>List.find\<close>.\<close>

lemma find_Some_in: "List.find P xs = Some x \<Longrightarrow> x \<in> set xs \<and> P x"
  by (induction xs) (auto split: if_splits)

lemma find_None: "List.find P xs = None \<longleftrightarrow> (\<forall>x \<in> set xs. \<not> P x)"
  by (induction xs) auto

lemma find_unique:
  assumes "x \<in> set xs" and "P x" and "\<And>y. y \<in> set xs \<Longrightarrow> P y \<Longrightarrow> y = x"
  shows "List.find P xs = Some x"
  using assms
proof (induction xs)
  case Nil
  then show ?case by simp
next
  case (Cons a xs)
  show ?case
  proof (cases "P a")
    case True
    with Cons.prems(3) [of a] show ?thesis by simp
  next
    case False
    with Cons.prems(1,2) have "x \<in> set xs" by auto
    moreover have "\<And>y. y \<in> set xs \<Longrightarrow> P y \<Longrightarrow> y = x"
      by (rule Cons.prems(3)) simp_all
    ultimately have "List.find P xs = Some x"
      using Cons.IH Cons.prems(2) by blast
    with False show ?thesis by simp
  qed
qed

lemma map_of_find: "map_of (map (\<lambda>r. (g r, h r)) rows) k = map_option h (List.find (\<lambda>r. g r = k) rows)"
  by (induction rows) auto

section \<open>Order-preserving removal of duplicates\<close>

text \<open>
  The loop with a \<open>seen\<close> set: an element is appended the first time it is met.
\<close>

fun dedup_from :: "'a list \<Rightarrow> 'a list \<Rightarrow> 'a list" where
  "dedup_from seen [] = []"
| "dedup_from seen (x # xs) =
     (if x \<in> set seen then dedup_from seen xs else x # dedup_from (x # seen) xs)"

lemma set_dedup_from [simp]: "set (dedup_from seen xs) = set xs - set seen"
  by (induction seen xs rule: dedup_from.induct) auto

lemma distinct_dedup_from [simp]: "distinct (dedup_from seen xs)"
  by (induction seen xs rule: dedup_from.induct) auto

lemma dedup_from_id: "distinct xs \<Longrightarrow> set xs \<inter> set seen = {} \<Longrightarrow> dedup_from seen xs = xs"
  by (induction seen xs rule: dedup_from.induct) auto

lemma dedup_from_cong: "set s = set s' \<Longrightarrow> dedup_from s xs = dedup_from s' xs"
  by (induction s xs arbitrary: s' rule: dedup_from.induct) auto

end
