(* ===== verification/Go_Strings.thy ===== *)
theory Go_Strings
  imports Prelude "HOL-Library.Sublist"
begin

text \<open>
  The operations of Go's \<open>strings\<close>, \<open>strconv\<close> and \<open>fmt\<close> packages that the program uses,
  on byte strings: a \<open>string\<close> is the list of its UTF-8 bytes, as in Go.

  \<open>TrimSpace\<close> is exact: the white space runes of Unicode are listed by their encodings.
  \<open>ToLower\<close> and \<open>ToUpper\<close> map the ASCII letters and the four runes outside ASCII whose
  other case is an ASCII letter; the other runes outside ASCII keep their bytes. The program
  only compares the results with ASCII constants or searches ASCII patterns in them, and
  those answers are the ones Go gives.
\<close>

section \<open>Substrings, joining, numbers\<close>

definition contains :: "string \<Rightarrow> string \<Rightarrow> bool" where
  "contains s pat = sublist pat s"

definition contains_any :: "string \<Rightarrow> string list \<Rightarrow> bool" where
  "contains_any s pats = list_ex (contains s) pats"

lemma contains_any_iff: "contains_any s pats \<longleftrightarrow> (\<exists>p \<in> set pats. contains s p)"
  by (auto simp: contains_any_def list_ex_iff)

lemma contains_sublist_trans: "contains s t \<Longrightarrow> sublist u t \<Longrightarrow> contains s u"
  unfolding contains_def using sublist_order.order.trans by blast

fun join :: "string list \<Rightarrow> string \<Rightarrow> string" where
  "join [] sep = []"
| "join [x] sep = x"
| "join (x # y # ys) sep = x @ sep @ join (y # ys) sep"

definition digit_char :: "nat \<Rightarrow> char" where
  "digit_char d = char_of (48 + d)"

fun nat_str :: "nat \<Rightarrow> string" where
  "nat_str n = (if n < 10 then [digit_char n] else nat_str (n div 10) @ [digit_char (n mod 10)])"

declare nat_str.simps [simp del]

definition int_str :: "int \<Rightarrow> string" where
  "int_str i = (if i < 0 then ''-'' @ nat_str (nat (- i)) else nat_str (nat i))"

lemma nat_str_nonempty [simp]: "nat_str n \<noteq> []"
  by (subst nat_str.simps) simp

section \<open>TrimSpace\<close>

definition space_encodings :: "string list" where
  "space_encodings =
     [[CHR 0x09], [CHR 0x0A], [CHR 0x0B], [CHR 0x0C], [CHR 0x0D], [CHR 0x20],
      [CHR 0xC2, CHR 0x85], [CHR 0xC2, CHR 0xA0], [CHR 0xE1, CHR 0x9A, CHR 0x80],
      [CHR 0xE2, CHR 0x80, CHR 0x80], [CHR 0xE2, CHR 0x80, CHR 0x81],
      [CHR 0xE2, CHR 0x80, CHR 0x82], [CHR 0xE2, CHR 0x80, CHR 0x83],
      [CHR 0xE2, CHR 0x80, CHR 0x84], [CHR 0xE2, CHR 0x80, CHR 0x85],
      [CHR 0xE2, CHR 0x80, CHR 0x86], [CHR 0xE2, CHR 0x80, CHR 0x87],
      [CHR 0xE2, CHR 0x80, CHR 0x88], [CHR 0xE2, CHR 0x80, CHR 0x89],
      [CHR 0xE2, CHR 0x80, CHR 0x8A], [CHR 0xE2, CHR 0x80, CHR 0xA8],
      [CHR 0xE2, CHR 0x80, CHR 0xA9], [CHR 0xE2, CHR 0x80, CHR 0xAF],
      [CHR 0xE2, CHR 0x81, CHR 0x9F], [CHR 0xE3, CHR 0x80, CHR 0x80]]"

definition leading :: "string list \<Rightarrow> string \<Rightarrow> string option" where
  "leading encs s = List.find (\<lambda>e. e \<noteq> [] \<and> prefix e s) encs"

lemma leading_Some: "leading encs s = Some e \<Longrightarrow> e \<in> set encs \<and> e \<noteq> [] \<and> prefix e s"
  unfolding leading_def by (drule find_Some_in) simp

lemma leading_None: "leading encs s = None \<longleftrightarrow> (\<forall>e \<in> set encs. e = [] \<or> \<not> prefix e s)"
  by (auto simp: leading_def find_None)

function strip_leading :: "string list \<Rightarrow> string \<Rightarrow> string" where
  "strip_leading encs s =
     (case leading encs s of None \<Rightarrow> s | Some e \<Rightarrow> strip_leading encs (drop (length e) s))"
  by pat_completeness auto
termination
  by (relation "measure (\<lambda>(encs, s). length s)")
    (auto dest!: leading_Some simp: prefix_def)

declare strip_leading.simps [simp del]

lemma strip_leading_clean: "leading encs (strip_leading encs s) = None"
proof (induction encs s rule: strip_leading.induct)
  case (1 encs s)
  then show ?case
    by (cases "leading encs s") (simp_all add: strip_leading.simps [of encs s])
qed

lemma strip_leading_id [simp]: "leading encs s = None \<Longrightarrow> strip_leading encs s = s"
  by (subst strip_leading.simps) simp

lemma strip_leading_suffix: "suffix (strip_leading encs s) s"
proof (induction encs s rule: strip_leading.induct)
  case (1 encs s)
  show ?case
  proof (cases "leading encs s")
    case None
    then show ?thesis by simp
  next
    case (Some e)
    with 1 have "suffix (strip_leading encs (drop (length e) s)) (drop (length e) s)" by simp
    then show ?thesis
      using Some suffix_drop [of "length e" s] suffix_order.order_trans
      by (fastforce simp: strip_leading.simps [of encs s])
  qed
qed

lemma leading_None_prefix: "leading encs s = None \<Longrightarrow> prefix t s \<Longrightarrow> leading encs t = None"
  unfolding leading_None using prefix_order.order_trans by blast

definition trim_space :: "string \<Rightarrow> string" where
  "trim_space s =
     rev (strip_leading (map rev space_encodings) (rev (strip_leading space_encodings s)))"

lemma trim_space_id:
  assumes "leading space_encodings s = None"
    and "leading (map rev space_encodings) (rev s) = None"
  shows "trim_space s = s"
  using assms by (simp add: trim_space_def)

lemma trim_space_clean:
  "leading space_encodings (trim_space s) = None"
  "leading (map rev space_encodings) (rev (trim_space s)) = None"
proof -
  let ?l = "strip_leading space_encodings s"
  have "prefix (trim_space s) ?l"
    unfolding trim_space_def using strip_leading_suffix [of "map rev space_encodings" "rev ?l"]
    by (simp add: suffix_to_prefix)
  then show "leading space_encodings (trim_space s) = None"
    using strip_leading_clean by (rule leading_None_prefix [rotated])
  show "leading (map rev space_encodings) (rev (trim_space s)) = None"
    by (simp add: trim_space_def strip_leading_clean)
qed

lemma trim_space_idem [simp]: "trim_space (trim_space s) = trim_space s"
  by (rule trim_space_id) (rule trim_space_clean)+

text \<open>A string whose first and last bytes are printable ASCII is its own trimming.\<close>

definition space_head_byte :: "char \<Rightarrow> bool" where
  "space_head_byte c =
     (c \<in> set [CHR 0x09, CHR 0x0A, CHR 0x0B, CHR 0x0C, CHR 0x0D, CHR 0x20, CHR 0xC2, CHR 0xE1,
       CHR 0xE2, CHR 0xE3])"

definition space_last_byte :: "char \<Rightarrow> bool" where
  "space_last_byte c = (c \<in> set (map last space_encodings))"

lemma leading_head: "\<not> space_head_byte c \<Longrightarrow> leading space_encodings (c # s) = None"
  unfolding leading_None by (auto simp: space_head_byte_def space_encodings_def)

lemma trim_space_brackets:
  assumes "\<not> space_head_byte c" and "\<not> space_last_byte d"
  shows "trim_space (c # s @ [d]) = c # s @ [d]"
proof (rule trim_space_id)
  show "leading space_encodings (c # s @ [d]) = None"
    using assms(1) by (rule leading_head)
  show "leading (map rev space_encodings) (rev (c # s @ [d])) = None"
    using assms(2) unfolding leading_None by (auto simp: space_last_byte_def space_encodings_def)
qed

section \<open>Case conversion\<close>

definition lower_char :: "char \<Rightarrow> char" where
  "lower_char c = (if 65 \<le> (of_char c :: nat) \<and> (of_char c :: nat) \<le> 90
     then char_of ((of_char c :: nat) + 32) else c)"

definition upper_char :: "char \<Rightarrow> char" where
  "upper_char c = (if 97 \<le> (of_char c :: nat) \<and> (of_char c :: nat) \<le> 122
     then char_of ((of_char c :: nat) - 32) else c)"

text \<open>The Kelvin sign and the dotted capital I lower to ASCII letters.\<close>

function to_lower :: "string \<Rightarrow> string" where
  "to_lower s =
     (if s = [] then []
      else if prefix [CHR 0xE2, CHR 0x84, CHR 0xAA] s then CHR ''k'' # to_lower (drop 3 s)
      else if prefix [CHR 0xC4, CHR 0xB0] s then CHR ''i'' # to_lower (drop 2 s)
      else lower_char (hd s) # to_lower (tl s))"
  by pat_completeness auto
termination
  by (relation "measure length") auto

text \<open>The dotless i and the long s rise to ASCII letters.\<close>

function to_upper :: "string \<Rightarrow> string" where
  "to_upper s =
     (if s = [] then []
      else if prefix [CHR 0xC4, CHR 0xB1] s then CHR ''I'' # to_upper (drop 2 s)
      else if prefix [CHR 0xC5, CHR 0xBF] s then CHR ''S'' # to_upper (drop 2 s)
      else upper_char (hd s) # to_upper (tl s))"
  by pat_completeness auto
termination
  by (relation "measure length") auto

declare to_lower.simps [simp del] to_upper.simps [simp del]

definition is_ascii :: "string \<Rightarrow> bool" where
  "is_ascii s = list_all (\<lambda>c. (of_char c :: nat) < 128) s"

lemma to_lower_ascii: "is_ascii s \<Longrightarrow> to_lower s = map lower_char s"
proof (induction s)
  case Nil
  then show ?case by (simp add: to_lower.simps)
next
  case (Cons c s)
  then have "c \<noteq> CHR 0xE2" and "c \<noteq> CHR 0xC4" and "is_ascii s"
    by (auto simp: is_ascii_def)
  then show ?case
    using Cons.IH by (subst to_lower.simps) simp
qed

lemma lower_char_idem [simp]: "lower_char (lower_char c) = lower_char c"
  by (auto simp: lower_char_def of_char_of)

end
