(* ===== verification/Json.thy ===== *)
theory Json
  imports Go_Strings
begin

text \<open>
  The part of \<open>encoding/json\<close> that the program's stored values go through: \<open>json.Marshal\<close>
  of a list of strings and of a map from strings to lists of strings, and
  \<open>json.Unmarshal\<close> into them. Strings are byte strings; \<open>Marshal\<close> escapes the HTML
  characters, the control characters, the line separators U+2028 and U+2029 and the bytes
  that are not UTF-8, as Go does by default. \<open>Unmarshal\<close> first parses the whole text; the
  limit of 10000 on the nesting depth is left out.
\<close>

section \<open>UTF-8\<close>

definition byte :: "char \<Rightarrow> nat" where
  "byte c = of_char c"

text \<open>
  By the first byte: the number of bytes of the encoding, and the range of the second one;
  the later bytes range over 128 to 191.
\<close>

definition rune_spec :: "nat \<Rightarrow> (nat \<times> nat \<times> nat) option" where
  "rune_spec b =
     (if b < 128 then Some (1, 0, 255)
      else if b < 194 then None
      else if b \<le> 223 then Some (2, 128, 191)
      else if b = 224 then Some (3, 160, 191)
      else if b = 237 then Some (3, 128, 159)
      else if b \<le> 239 then Some (3, 128, 191)
      else if b = 240 then Some (4, 144, 191)
      else if b \<le> 243 then Some (4, 128, 191)
      else if b = 244 then Some (4, 128, 143)
      else None)"

fun accept_tail :: "nat \<Rightarrow> nat \<Rightarrow> string \<Rightarrow> bool" where
  "accept_tail lo hi [] = True"
| "accept_tail lo hi (c # cs) = (lo \<le> byte c \<and> byte c \<le> hi \<and> accept_tail 128 191 cs)"

text \<open>The length of the valid encoding at the head of \<open>s\<close>, 0 when there is none.\<close>

definition rune_len :: "string \<Rightarrow> nat" where
  "rune_len s =
     (case s of [] \<Rightarrow> 0
      | c # t \<Rightarrow>
        (case rune_spec (byte c) of None \<Rightarrow> 0
         | Some (n, lo, hi) \<Rightarrow>
             if n \<le> length s \<and> accept_tail lo hi (take (n - 1) t) then n else 0))"

lemma rune_spec_pos: "rune_spec b = Some (n, lo, hi) \<Longrightarrow> 1 \<le> n"
  by (auto simp: rune_spec_def split: if_splits)

lemma rune_spec_high: "128 \<le> b \<Longrightarrow> rune_spec b = Some (n, lo, hi) \<Longrightarrow> 2 \<le> n \<and> 128 \<le> lo"
  by (auto simp: rune_spec_def split: if_splits)

lemma rune_len_Nil [simp]: "rune_len [] = 0"
  by (simp add: rune_len_def)

lemma rune_len_le: "rune_len s \<le> length s"
  by (cases s) (auto simp: rune_len_def split: option.splits)

lemma rune_len_ascii [simp]: "byte c < 128 \<Longrightarrow> rune_len (c # s) = 1"
  by (simp add: rune_len_def rune_spec_def)

lemma drop_rune_less: "rune_len s \<noteq> 0 \<Longrightarrow> length (drop (rune_len s) s) < length s"
  by (cases s) auto

text \<open>Only the bytes of the encoding itself are read.\<close>

lemma rune_len_append: "rune_len s \<noteq> 0 \<Longrightarrow> rune_len (s @ r) = rune_len s"
  by (cases s) (auto simp: rune_len_def split: option.splits if_splits)

lemma rune_len_take: "rune_len s \<noteq> 0 \<Longrightarrow> rune_len (take (rune_len s) s) = rune_len s"
  by (cases s) (auto simp: rune_len_def min_def take_Cons' dest: rune_spec_pos split: option.splits if_splits)

function valid_utf8 :: "string \<Rightarrow> bool" where
  "valid_utf8 s =
     (if s = [] then True else if rune_len s = 0 then False else valid_utf8 (drop (rune_len s) s))"
  by pat_completeness auto
termination
  by (relation "measure length") (use drop_rune_less in auto)

declare valid_utf8.simps [simp del]

lemma valid_utf8_ascii: "is_ascii s \<Longrightarrow> valid_utf8 s"
proof (induction s)
  case Nil
  then show ?case by (simp add: valid_utf8.simps)
next
  case (Cons c s)
  then have "byte c < 128" and "valid_utf8 s"
    by (simp_all add: byte_def is_ascii_def)
  then show ?case
    by (subst valid_utf8.simps) simp
qed

section \<open>Encoding\<close>

definition hex_digit :: "nat \<Rightarrow> char" where
  "hex_digit d = (if d < 10 then char_of (48 + d) else char_of (87 + d))"

text \<open>The replacement character, and the two line separators.\<close>

definition replacement :: string where
  "replacement = [CHR 0xEF, CHR 0xBF, CHR 0xBD]"

definition escape_byte :: "char \<Rightarrow> string" where
  "escape_byte c =
     (let b = byte c in
      if b = 92 \<or> b = 34 then [CHR 0x5C, c]
      else if b = 8 then [CHR 0x5C, CHR ''b'']
      else if b = 12 then [CHR 0x5C, CHR ''f'']
      else if b = 10 then [CHR 0x5C, CHR ''n'']
      else if b = 13 then [CHR 0x5C, CHR ''r'']
      else if b = 9 then [CHR 0x5C, CHR ''t'']
      else if b < 32 \<or> b = 60 \<or> b = 62 \<or> b = 38
        then [CHR 0x5C, CHR ''u'', CHR ''0'', CHR ''0'', hex_digit (b div 16), hex_digit (b mod 16)]
      else [c])"

definition escape_rune :: "string \<Rightarrow> string" where
  "escape_rune r =
     (if r = [CHR 0xE2, CHR 0x80, CHR 0xA8] then CHR 0x5C # ''u2028''
      else if r = [CHR 0xE2, CHR 0x80, CHR 0xA9] then CHR 0x5C # ''u2029''
      else r)"

function escape :: "string \<Rightarrow> string" where
  "escape s =
     (case s of [] \<Rightarrow> []
      | c # t \<Rightarrow>
        (if byte c < 128 then escape_byte c @ escape t
         else let n = rune_len s in
           if n = 0 then CHR 0x5C # ''ufffd'' @ escape t
           else escape_rune (take n s) @ escape (drop n s)))"
  by pat_completeness auto
termination
  by (relation "measure length") auto

declare escape.simps [simp del]

definition enc_string :: "string \<Rightarrow> string" where
  "enc_string s = CHR 0x22 # escape s @ [CHR 0x22]"

text \<open>A non-nil slice of strings.\<close>

definition enc_strings :: "string list \<Rightarrow> string" where
  "enc_strings xs = CHR ''['' # join (map enc_string xs) '','' @ '']''"

text \<open>Map keys are written in sorted order.\<close>

definition enc_member :: "string \<times> string list \<Rightarrow> string" where
  "enc_member kv = enc_string (fst kv) @ '':'' @ enc_strings (snd kv)"

definition enc_map :: "(string, string list) gomap \<Rightarrow> string" where
  "enc_map m = CHR ''{'' # join (map enc_member (sort_key fst m)) '','' @ ''}''"

section \<open>Decoding\<close>

datatype json =
    JNull
  | JBool bool
  | JNum string
  | JStr string
  | JArr "json list"
  | JObj "(string \<times> json) list"

definition is_ws :: "char \<Rightarrow> bool" where
  "is_ws c = (c \<in> set [CHR 0x20, CHR 0x09, CHR 0x0A, CHR 0x0D])"

definition skip_ws :: "string \<Rightarrow> string" where
  "skip_ws s = dropWhile is_ws s"

definition hex_val :: "char \<Rightarrow> nat option" where
  "hex_val c =
     (let b = byte c in
      if 48 \<le> b \<and> b \<le> 57 then Some (b - 48)
      else if 97 \<le> b \<and> b \<le> 102 then Some (b - 87)
      else if 65 \<le> b \<and> b \<le> 70 then Some (b - 55)
      else None)"

definition hex4 :: "string \<Rightarrow> nat option" where
  "hex4 s =
     (case s of
        a # b # c # d # _ \<Rightarrow>
          (case (hex_val a, hex_val b, hex_val c, hex_val d) of
             (Some w, Some x, Some y, Some z) \<Rightarrow> Some (((w * 16 + x) * 16 + y) * 16 + z)
           | _ \<Rightarrow> None)
      | _ \<Rightarrow> None)"

definition utf8_bytes :: "nat \<Rightarrow> string" where
  "utf8_bytes r =
     (if r < 128 then [char_of r]
      else if r < 2048 then [char_of (192 + r div 64), char_of (128 + r mod 64)]
      else if r < 65536
        then [char_of (224 + r div 4096), char_of (128 + r div 64 mod 64), char_of (128 + r mod 64)]
      else [char_of (240 + r div 262144), char_of (128 + r div 4096 mod 64),
            char_of (128 + r div 64 mod 64), char_of (128 + r mod 64)])"

text \<open>
  A \<open>\u\<close> escape: a surrogate pair is one rune, a lone surrogate the replacement character.
  The result is the bytes to emit and the number of bytes read after the backslash.
\<close>

definition unicode_escape :: "nat \<Rightarrow> string \<Rightarrow> string \<times> nat" where
  "unicode_escape r rest =
     (if r < 55296 \<or> 57343 < r then (utf8_bytes r, 5)
      else case rest of
        b # u # t \<Rightarrow>
          (case (if b = CHR 0x5C \<and> u = CHR ''u'' then hex4 t else None) of
             Some r2 \<Rightarrow>
               (if r < 56320 \<and> 56320 \<le> r2 \<and> r2 \<le> 57343
                then (utf8_bytes ((r - 55296) * 1024 + (r2 - 56320) + 65536), 11)
                else (replacement, 5))
           | None \<Rightarrow> (replacement, 5))
      | _ \<Rightarrow> (replacement, 5))"

definition simple_escape :: "char \<Rightarrow> char option" where
  "simple_escape c =
     (if c \<in> set [CHR 0x22, CHR 0x5C, CHR ''/''] then Some c
      else if c = CHR ''b'' then Some (CHR 0x08)
      else if c = CHR ''f'' then Some (CHR 0x0C)
      else if c = CHR ''n'' then Some (CHR 0x0A)
      else if c = CHR ''r'' then Some (CHR 0x0D)
      else if c = CHR ''t'' then Some (CHR 0x09)
      else None)"

text \<open>The text of a string literal after its opening quote, and what follows the closing one.\<close>

function parse_str :: "string \<Rightarrow> (string \<times> string) option" where
  "parse_str s =
     (case s of [] \<Rightarrow> None
      | c # t \<Rightarrow>
        (if c = CHR 0x22 then Some ([], t)
         else if byte c < 32 then None
         else if c = CHR 0x5C then
           (case t of [] \<Rightarrow> None
            | e # u \<Rightarrow>
              (if e = CHR ''u'' then
                 (case hex4 u of None \<Rightarrow> None
                  | Some r \<Rightarrow>
                    (case unicode_escape r (drop 4 u) of (bytes, n) \<Rightarrow>
                       map_option (apfst ((@) bytes)) (parse_str (drop n t))))
               else
                 (case simple_escape e of None \<Rightarrow> None
                  | Some x \<Rightarrow> map_option (apfst ((#) x)) (parse_str u))))
         else if byte c < 128 then map_option (apfst ((#) c)) (parse_str t)
         else let n = rune_len s in
           if n = 0 then map_option (apfst ((@) replacement)) (parse_str t)
           else map_option (apfst ((@) (take n s))) (parse_str (drop n s))))"
  by pat_completeness auto
termination
  by (relation "measure length")
    auto

declare parse_str.simps [simp del]

fun span_digits :: "string \<Rightarrow> string \<times> string" where
  "span_digits s = (takeWhile (\<lambda>c. 48 \<le> byte c \<and> byte c \<le> 57) s,
                    dropWhile (\<lambda>c. 48 \<le> byte c \<and> byte c \<le> 57) s)"

text \<open>A number: an optional sign, an integer part, a fraction and an exponent.\<close>

definition parse_frac :: "string \<Rightarrow> (string \<times> string) option" where
  "parse_frac s =
     (case s of
        c # t \<Rightarrow>
          (if c = CHR ''.'' then
             (case span_digits t of (ds, r) \<Rightarrow> if ds = [] then None else Some (c # ds, r))
           else Some ([], s))
      | [] \<Rightarrow> Some ([], []))"

definition parse_exp :: "string \<Rightarrow> (string \<times> string) option" where
  "parse_exp s =
     (case s of
        c # t \<Rightarrow>
          (if c \<in> set ''eE'' then
             (let sg = (case t of d # _ \<Rightarrow> if d \<in> set ''+-'' then [d] else [] | [] \<Rightarrow> [])
              in case span_digits (drop (length sg) t) of
                   (ds, r) \<Rightarrow> if ds = [] then None else Some (c # sg @ ds, r))
           else Some ([], s))
      | [] \<Rightarrow> Some ([], []))"

definition parse_num :: "string \<Rightarrow> (string \<times> string) option" where
  "parse_num s =
     (let sg = (case s of c # _ \<Rightarrow> if c = CHR ''-'' then [c] else [] | [] \<Rightarrow> []);
          (ds0, r0) = span_digits (drop (length sg) s);
          \<comment> \<open>a leading zero is the whole integer part\<close>
          ds = (if ds0 \<noteq> [] \<and> hd ds0 = CHR ''0'' then [CHR ''0''] else ds0);
          r = (if ds0 \<noteq> [] \<and> hd ds0 = CHR ''0'' then tl ds0 @ r0 else r0)
      in if ds = [] then None
         else case parse_frac r of None \<Rightarrow> None
              | Some (f, r1) \<Rightarrow>
                  (case parse_exp r1 of None \<Rightarrow> None
                   | Some (e, r2) \<Rightarrow> Some (sg @ ds @ f @ e, r2)))"

definition parse_word :: "string \<Rightarrow> (json \<times> string) option" where
  "parse_word s =
     (if prefix ''null'' s then Some (JNull, drop 4 s)
      else if prefix ''true'' s then Some (JBool True, drop 4 s)
      else if prefix ''false'' s then Some (JBool False, drop 5 s)
      else map_option (apfst JNum) (parse_num s))"

text \<open>
  The fuel bounds the depth of the calls. At most two calls, for a list and for its first
  element, are made on the same text, so twice the length of the text is enough.
\<close>

fun parse_value :: "nat \<Rightarrow> string \<Rightarrow> (json \<times> string) option"
  and parse_elems :: "nat \<Rightarrow> string \<Rightarrow> (json list \<times> string) option"
  and parse_members :: "nat \<Rightarrow> string \<Rightarrow> ((string \<times> json) list \<times> string) option" where
  "parse_value 0 s = None"
| "parse_value (Suc n) s =
     (case skip_ws s of [] \<Rightarrow> None
      | c # t \<Rightarrow>
        (if c = CHR 0x22 then map_option (apfst JStr) (parse_str t)
         else if c = CHR ''['' then
           (if prefix '']'' (skip_ws t) then Some (JArr [], tl (skip_ws t))
            else map_option (apfst JArr) (parse_elems n t))
         else if c = CHR ''{'' then
           (if prefix ''}'' (skip_ws t) then Some (JObj [], tl (skip_ws t))
            else map_option (apfst JObj) (parse_members n t))
         else parse_word (c # t)))"
| "parse_elems 0 s = None"
| "parse_elems (Suc n) s =
     (case parse_value n s of None \<Rightarrow> None
      | Some (v, r) \<Rightarrow>
        (case skip_ws r of [] \<Rightarrow> None
         | c # t \<Rightarrow>
           (if c = CHR '','' then map_option (apfst ((#) v)) (parse_elems n t)
            else if c = CHR '']'' then Some ([v], t)
            else None)))"
| "parse_members 0 s = None"
| "parse_members (Suc n) s =
     (case skip_ws s of [] \<Rightarrow> None
      | q # t \<Rightarrow>
        if q \<noteq> CHR 0x22 then None
        else (case parse_str t of None \<Rightarrow> None
         | Some (k, r) \<Rightarrow>
           (case skip_ws r of [] \<Rightarrow> None
            | c # u \<Rightarrow>
              if c \<noteq> CHR '':'' then None
              else (case parse_value n u of None \<Rightarrow> None
               | Some (v, r2) \<Rightarrow>
                 (case skip_ws r2 of [] \<Rightarrow> None
                  | d # w \<Rightarrow>
                    (if d = CHR '','' then map_option (apfst ((#) (k, v))) (parse_members n w)
                     else if d = CHR ''}'' then Some ([(k, v)], w)
                     else None))))))"

definition parse_json :: "string \<Rightarrow> json option" where
  "parse_json s =
     (case parse_value (Suc (2 * length s)) s of
        Some (v, r) \<Rightarrow> if skip_ws r = [] then Some v else None
      | None \<Rightarrow> None)"

text \<open>
  Decoding into \<open>[]string\<close>: \<open>null\<close> leaves the target as it is, nil; an element of another
  type is an error; a \<open>null\<close> element stays the empty string. \<open>Some None\<close> is the nil slice.
\<close>

definition as_string :: "json \<Rightarrow> string option" where
  "as_string j = (case j of JStr s \<Rightarrow> Some s | JNull \<Rightarrow> Some [] | _ \<Rightarrow> None)"

definition all_some :: "'a option list \<Rightarrow> 'a list option" where
  "all_some xs = (if None \<in> set xs then None else Some (map the xs))"

definition as_strings :: "json \<Rightarrow> string list option option" where
  "as_strings j =
     (case j of
        JNull \<Rightarrow> Some None
      | JArr xs \<Rightarrow> map_option Some (all_some (map as_string xs))
      | _ \<Rightarrow> None)"

text \<open>Decoding into \<open>map[string][]string\<close>: the last of several equal keys wins.\<close>

definition as_strings_map :: "json \<Rightarrow> (string, string list) gomap option option" where
  "as_strings_map j =
     (case j of
        JNull \<Rightarrow> Some None
      | JObj kvs \<Rightarrow>
          map_option (\<lambda>vs. Some (foldl (\<lambda>m (k, v). AList.update k (case v of None \<Rightarrow> [] | Some xs \<Rightarrow> xs) m)
              [] (zip (map fst kvs) vs)))
            (all_some (map (\<lambda>(k, v). as_strings v) kvs))
      | _ \<Rightarrow> None)"

section \<open>Reading back what was written\<close>

lemma byte_less: "byte c < 256"
  by (simp add: byte_def)

lemma char_of_byte [simp]: "char_of (byte c) = c"
  by (simp add: byte_def)

lemma byte_char_of: "n < 256 \<Longrightarrow> byte (char_of n) = n"
  by (simp add: byte_def)

lemma hex_val_digit: "d < 16 \<Longrightarrow> hex_val (hex_digit d) = Some d"
  by (simp add: hex_val_def hex_digit_def byte_char_of)

lemma hex4_u00: "b < 128 \<Longrightarrow>
    hex4 (CHR ''0'' # CHR ''0'' # hex_digit (b div 16) # hex_digit (b mod 16) # t) = Some b"
proof -
  assume b: "b < 128"
  have "hex_val (CHR ''0'') = Some 0"
    by (simp add: hex_val_def byte_def)
  moreover have "b div 16 < 16"
    using b by simp
  ultimately show ?thesis
    by (simp add: hex4_def hex_val_digit)
qed

lemma parse_str_plain:
  assumes "byte c < 128" and "c \<noteq> CHR 0x22" and "c \<noteq> CHR 0x5C" and "32 \<le> byte c"
  shows "parse_str (c # t) = map_option (apfst ((#) c)) (parse_str t)"
  using assms by (subst parse_str.simps) simp

lemma parse_str_simple_escape:
  assumes "e \<noteq> CHR ''u''" and "simple_escape e = Some x"
  shows "parse_str (CHR 0x5C # e # t) = map_option (apfst ((#) x)) (parse_str t)"
  using assms by (subst parse_str.simps) (simp add: byte_def)

lemma parse_str_unicode_escape:
  assumes "hex4 (take 4 u) = Some r" and "length u \<ge> 4" and "r < 55296"
  shows "parse_str (CHR 0x5C # CHR ''u'' # u) =
           map_option (apfst ((@) (utf8_bytes r))) (parse_str (drop 4 u))"
proof -
  have "hex4 u = Some r"
    using assms(1,2) by (auto simp: hex4_def take_Cons' split: list.splits)
  then show ?thesis
    using assms(3) by (subst parse_str.simps) (simp add: byte_def unicode_escape_def)
qed

lemma map_option_apfst_Cons: "map_option (apfst ((@) [c])) x = map_option (apfst ((#) c)) x"
  by (cases x) auto

lemma eq_char_byte: "c = d \<longleftrightarrow> byte c = byte d"
  by (simp add: byte_def)

lemma parse_str_escape_byte:
  assumes "byte c < 128"
  shows "parse_str (escape_byte c @ t) = map_option (apfst ((#) c)) (parse_str t)"
proof -
  let ?b = "byte c"
  have c: "c = char_of ?b" by simp
  consider "?b = 92 \<or> ?b = 34" | "?b = 8" | "?b = 12" | "?b = 10" | "?b = 13" | "?b = 9"
    | "?b \<notin> {92, 34, 8, 12, 10, 13, 9}" "?b < 32 \<or> ?b = 60 \<or> ?b = 62 \<or> ?b = 38"
    | "?b \<notin> {92, 34, 8, 12, 10, 13, 9}" "\<not> (?b < 32 \<or> ?b = 60 \<or> ?b = 62 \<or> ?b = 38)"
    by blast
  then show ?thesis
  proof cases
    case 7
    then have "escape_byte c @ t = CHR 0x5C # CHR ''u'' #
        (CHR ''0'' # CHR ''0'' # hex_digit (?b div 16) # hex_digit (?b mod 16) # t)"
      by (auto simp: escape_byte_def Let_def)
    moreover have "utf8_bytes ?b = [c]"
      using assms by (simp add: utf8_bytes_def)
    ultimately show ?thesis
      using parse_str_unicode_escape [of "CHR ''0'' # CHR ''0'' # hex_digit (?b div 16) #
          hex_digit (?b mod 16) # t" ?b] hex4_u00 [OF assms, of "[]"] assms
      by (simp add: map_option_apfst_Cons)
  next
    case 8
    then have "escape_byte c = [c]" and "c \<noteq> CHR 0x22" and "c \<noteq> CHR 0x5C"
      by (auto simp: escape_byte_def Let_def byte_def)
    with 8 assms show ?thesis
      by (simp add: parse_str_plain)
  qed (auto simp: escape_byte_def simple_escape_def eq_char_byte parse_str_simple_escape
      intro!: parse_str_simple_escape simp: byte_def)
qed

lemma parse_str_quote [simp]: "parse_str (CHR 0x22 # r) = Some ([], r)"
  by (subst parse_str.simps) simp

lemma utf8_bytes_2028: "utf8_bytes 8232 = [CHR 0xE2, CHR 0x80, CHR 0xA8]"
  by (simp add: utf8_bytes_def char_of_def) code_simp

lemma utf8_bytes_2029: "utf8_bytes 8233 = [CHR 0xE2, CHR 0x80, CHR 0xA9]"
  by (simp add: utf8_bytes_def char_of_def) code_simp

lemma hex4_separators: "hex4 (''2028'' @ t) = Some 8232" "hex4 (''2029'' @ t) = Some 8233"
  by (simp_all add: hex4_def hex_val_def byte_def)

lemma parse_str_rune:
  assumes "128 \<le> byte (hd s)" and "rune_len s \<noteq> 0"
  shows "parse_str (escape_rune (take (rune_len s) s) @ t) =
           map_option (apfst ((@) (take (rune_len s) s))) (parse_str t)"
proof -
  let ?r = "take (rune_len s) s"
  have ne: "s \<noteq> []"
    using assms(2) by auto
  have len: "length ?r = rune_len s"
    using rune_len_le [of s] by simp
  have "rune_len (?r @ t) = rune_len s"
    using rune_len_append [of ?r t] rune_len_take [OF assms(2)] assms(2) by simp
  moreover obtain c u where cu: "?r = c # u" and "128 \<le> byte c"
    using ne assms by (cases s) (auto simp: take_Cons')
  moreover have "c \<noteq> CHR 0x22" "c \<noteq> CHR 0x5C"
    using \<open>128 \<le> byte c\<close> by (auto simp: byte_def)
  ultimately have "rune_len (?r @ t) = rune_len s" "?r = c # u" "128 \<le> byte c"
      "c \<noteq> CHR 0x22" "c \<noteq> CHR 0x5C"
    by simp_all
  have plain: "parse_str (?r @ t) = map_option (apfst ((@) ?r)) (parse_str t)"
  proof -
    have "take (rune_len s) (c # u @ t) = c # u \<and> drop (rune_len s) (c # u @ t) = t"
    proof -
      have "rune_len s = Suc (length u)"
        using len unfolding cu by simp
      then show ?thesis by simp
    qed
    with \<open>rune_len (?r @ t) = rune_len s\<close> \<open>128 \<le> byte c\<close> \<open>c \<noteq> CHR 0x22\<close> \<open>c \<noteq> CHR 0x5C\<close> show ?thesis
      unfolding cu using assms(2) by (subst parse_str.simps) (simp add: Let_def)
  qed
  consider "?r = [CHR 0xE2, CHR 0x80, CHR 0xA8]" | "?r = [CHR 0xE2, CHR 0x80, CHR 0xA9]"
    | "escape_rune ?r = ?r"
    unfolding escape_rune_def by presburger
  then show ?thesis
  proof cases
    case 1
    then show ?thesis
      using parse_str_unicode_escape [of "''2028'' @ t" 8232] hex4_separators(1) [of "[]"]
      by (simp add: escape_rune_def utf8_bytes_2028)
  next
    case 2
    then show ?thesis
      using parse_str_unicode_escape [of "''2029'' @ t" 8233] hex4_separators(2) [of "[]"]
      by (simp add: escape_rune_def utf8_bytes_2029)
  next
    case 3
    then show ?thesis
      using plain by simp
  qed
qed

lemma valid_utf8_step:
  "valid_utf8 s \<Longrightarrow> s \<noteq> [] \<Longrightarrow> rune_len s \<noteq> 0 \<and> valid_utf8 (drop (rune_len s) s)"
  by (subst (asm) valid_utf8.simps) (simp split: if_splits)

lemma parse_str_escape:
  "valid_utf8 s \<Longrightarrow> parse_str (escape s @ CHR 0x22 # r) = Some (s, r)"
proof (induction s rule: length_induct)
  case (1 s)
  show ?case
  proof (cases s)
    case Nil
    then show ?thesis by (simp add: escape.simps)
  next
    case (Cons c t)
    let ?n = "rune_len s"
    have n: "?n \<noteq> 0" and v: "valid_utf8 (drop ?n s)"
      using valid_utf8_step [OF 1(2)] Cons by simp_all
    then have IH: "parse_str (escape (drop ?n s) @ CHR 0x22 # r) = Some (drop ?n s, r)"
      using 1(1) drop_rune_less by blast
    show ?thesis
    proof (cases "byte c < 128")
      case True
      then have "escape s = escape_byte c @ escape t"
        using Cons by (subst escape.simps) simp
      moreover have "drop ?n s = t"
        using True Cons by simp
      ultimately show ?thesis
        using IH Cons parse_str_escape_byte [OF True] by simp
    next
      case False
      then have "escape s = escape_rune (take ?n s) @ escape (drop ?n s)"
        using Cons n by (subst escape.simps) (simp add: Let_def)
      then show ?thesis
        using IH n parse_str_rune [of s] False Cons by (simp del: drop_append take_append)
    qed
  qed
qed

lemma skip_ws_other [simp]: "\<not> is_ws c \<Longrightarrow> skip_ws (c # s) = c # s"
  by (simp add: skip_ws_def)

lemma not_ws [simp]:
  "\<not> is_ws (CHR 0x22)" "\<not> is_ws (CHR ''['')" "\<not> is_ws (CHR '']'')" "\<not> is_ws (CHR ''{'')"
  "\<not> is_ws (CHR ''}'')" "\<not> is_ws (CHR '','')" "\<not> is_ws (CHR '':'')" "\<not> is_ws (CHR ''n'')"
  by (simp_all add: is_ws_def)

lemma parse_value_string:
  "valid_utf8 s \<Longrightarrow> parse_value (Suc n) (enc_string s @ r) = Some (JStr s, r)"
  by (simp add: enc_string_def parse_str_escape)

lemma join_Cons: "join (x # xs) sep = x @ (if xs = [] then [] else sep @ join xs sep)"
  by (cases xs) simp_all

declare parse_value.simps [simp del] parse_elems.simps [simp del] parse_members.simps [simp del]

lemma parse_elems_strings:
  "xs \<noteq> [] \<Longrightarrow> list_all valid_utf8 xs \<Longrightarrow> length xs < n \<Longrightarrow>
     parse_elems n (join (map enc_string xs) '','' @ CHR '']'' # r) = Some (map JStr xs, r)"
proof (induction xs arbitrary: n)
  case Nil
  then show ?case by simp
next
  case (Cons x xs)
  then obtain m where n: "n = Suc (Suc m)"
    by (metis length_Cons less_eq_Suc_le Suc_le_D Suc_le_mono)
  have v: "\<And>r. parse_value (Suc m) (enc_string x @ r) = Some (JStr x, r)"
    using Cons.prems by (simp add: parse_value_string)
  show ?case
  proof (cases "xs = []")
    case True
    then show ?thesis
      using v by (simp add: n parse_elems.simps)
  next
    case False
    then have "parse_elems (Suc m) (join (map enc_string xs) '','' @ CHR '']'' # r) = Some (map JStr xs, r)"
      using Cons n by simp
    then show ?thesis
      using v False by (simp add: n parse_elems.simps(2) [of "Suc m"] join_Cons)
  qed
qed

lemma parse_value_strings:
  assumes "list_all valid_utf8 xs" and "length xs < n"
  shows "parse_value (Suc n) (enc_strings xs @ r) = Some (JArr (map JStr xs), r)"
proof (cases xs)
  case Nil
  then show ?thesis by (simp add: enc_strings_def parse_value.simps)
next
  case (Cons y ys)
  then have "parse_elems n (join (map enc_string xs) '','' @ CHR '']'' # r) = Some (map JStr xs, r)"
    using assms by (intro parse_elems_strings) simp_all
  moreover have "\<exists>u. join (map enc_string xs) '','' = CHR 0x22 # u"
    using Cons by (simp add: join_Cons enc_string_def)
  ultimately show ?thesis
    using Cons by (auto simp: enc_strings_def parse_value.simps)
qed

definition members_need :: "(string, string list) gomap \<Rightarrow> nat" where
  "members_need m = sum_list (map (\<lambda>kv. length (snd kv) + 3) m)"

lemma parse_members_strings:
  "m \<noteq> [] \<Longrightarrow> \<forall>kv \<in> set m. valid_utf8 (fst kv) \<and> list_all valid_utf8 (snd kv) \<Longrightarrow>
     members_need m < n \<Longrightarrow>
     parse_members n (join (map enc_member m) '','' @ CHR ''}'' # r) =
       Some (map (\<lambda>kv. (fst kv, JArr (map JStr (snd kv)))) m, r)"
proof (induction m arbitrary: n)
  case Nil
  then show ?case by simp
next
  case (Cons kv m)
  then obtain l where n: "n = Suc (Suc l)" and l: "length (snd kv) < l"
    by (cases n; cases "n - 1") (auto simp: members_need_def)
  have k: "\<And>r. parse_str (escape (fst kv) @ CHR 0x22 # r) = Some (fst kv, r)"
    using Cons.prems by (simp add: parse_str_escape)
  have v: "\<And>r. parse_value (Suc l) (enc_strings (snd kv) @ r) = Some (JArr (map JStr (snd kv)), r)"
    using Cons.prems l by (simp add: parse_value_strings)
  show ?case
  proof (cases "m = []")
    case True
    then show ?thesis
      using k v by (simp add: n parse_members.simps enc_member_def enc_string_def)
  next
    case False
    then have "parse_members (Suc l) (join (map enc_member m) '','' @ CHR ''}'' # r) =
        Some (map (\<lambda>kv. (fst kv, JArr (map JStr (snd kv)))) m, r)"
      using Cons n by (simp add: members_need_def)
    then show ?thesis
      using k v False
      by (simp add: n parse_members.simps(2) [of "Suc l"] join_Cons enc_member_def [of kv]
          enc_string_def)
  qed
qed

lemma parse_value_map:
  assumes "\<forall>kv \<in> set m. valid_utf8 (fst kv) \<and> list_all valid_utf8 (snd kv)" and "members_need m < n"
  shows "parse_value (Suc n) (CHR ''{'' # join (map enc_member m) '','' @ CHR ''}'' # r) =
           Some (JObj (map (\<lambda>kv. (fst kv, JArr (map JStr (snd kv)))) m), r)"
proof (cases m)
  case Nil
  then show ?thesis by (simp add: parse_value.simps)
next
  case (Cons y ys)
  then have "parse_members n (join (map enc_member m) '','' @ CHR ''}'' # r) =
      Some (map (\<lambda>kv. (fst kv, JArr (map JStr (snd kv)))) m, r)"
    using assms by (intro parse_members_strings) simp_all
  moreover have "\<exists>u. join (map enc_member m) '','' = CHR 0x22 # u"
    using Cons by (simp add: join_Cons enc_member_def enc_string_def)
  ultimately show ?thesis
    using Cons by (auto simp: parse_value.simps)
qed

text \<open>The text is long enough for the fuel.\<close>

lemma length_join_ge: "sum_list (map length xs) \<le> length (join xs sep)"
  by (induction xs sep rule: join.induct) simp_all

lemma length_enc_string: "2 \<le> length (enc_string s)"
  by (simp add: enc_string_def)

lemma length_enc_strings: "length xs + 2 \<le> length (enc_strings xs)"
proof -
  have "length xs \<le> sum_list (map length (map enc_string xs))"
    by (induction xs) (simp_all add: enc_string_def)
  also have "\<dots> \<le> length (join (map enc_string xs) '','')"
    by (rule length_join_ge)
  finally show ?thesis
    by (simp add: enc_strings_def)
qed

lemma length_enc_members: "members_need m \<le> length (join (map enc_member m) '','')"
proof -
  have "length (snd kv) + 3 \<le> length (enc_member kv)" for kv
    using length_enc_strings [of "snd kv"] by (simp add: enc_member_def enc_string_def)
  then have "members_need m \<le> sum_list (map length (map enc_member m))"
    unfolding members_need_def map_map comp_def by (rule sum_list_mono)
  also have "\<dots> \<le> length (join (map enc_member m) '','')"
    by (rule length_join_ge)
  finally show ?thesis .
qed

lemma all_some_map_Some [simp]: "all_some (map (\<lambda>x. Some (f x)) xs) = Some (map f xs)"
  by (auto simp: all_some_def)

lemma decode_enc_strings:
  assumes "list_all valid_utf8 xs"
  shows "map_option as_strings (parse_json (enc_strings xs)) = Some (Some (Some xs))"
proof -
  have "length xs < 2 * length (enc_strings xs)"
    using length_enc_strings [of xs] by simp
  from parse_value_strings [OF assms this, of "[]"] show ?thesis
    by (simp add: parse_json_def skip_ws_def as_strings_def as_string_def comp_def)
qed

lemma decode_fold_update:
  "gm_wf (a @ m) \<Longrightarrow> foldl (\<lambda>m (k, v). AList.update k (case v of None \<Rightarrow> [] | Some xs \<Rightarrow> xs) m) a
      (zip (map fst m) (map (\<lambda>kv. Some (snd kv)) m)) = a @ m"
proof (induction m arbitrary: a)
  case Nil
  then show ?case by simp
next
  case (Cons kv m)
  then have "AList.update (fst kv) (snd kv) a = a @ [kv]"
    by (simp add: gm_wf_def update_nonempty) (induction a, auto)
  then show ?case
    using Cons.IH [of "a @ [kv]"] Cons.prems by simp
qed

lemma decode_enc_map:
  assumes "gm_wf m" and "\<forall>kv \<in> set m. valid_utf8 (fst kv) \<and> list_all valid_utf8 (snd kv)"
  shows "map_option as_strings_map (parse_json (enc_map m)) = Some (Some (Some (sort_key fst m)))"
proof -
  let ?m = "sort_key fst m"
  have "members_need ?m < 2 * length (enc_map m)"
    using length_enc_members [of ?m] by (simp add: enc_map_def)
  then have "parse_json (enc_map m) = Some (JObj (map (\<lambda>kv. (fst kv, JArr (map JStr (snd kv)))) ?m))"
    using parse_value_map [of ?m "2 * length (enc_map m)" "[]"] assms(2)
    by (simp add: parse_json_def skip_ws_def enc_map_def)
  moreover have "gm_wf ?m"
    using assms(1) gm_wf_perm [of ?m m] by simp
  ultimately show ?thesis
    using decode_fold_update [of "[]" ?m]
    by (simp add: as_strings_map_def as_strings_def as_string_def comp_def)
qed

end
