(* ===== verification/Go_Time.thy ===== *)
theory Go_Time
  imports Prelude "HOL-Library.Signed_Division"
begin

text \<open>
  64-bit integers, durations and instants as the program uses them. A Go \<open>int\<close>, \<open>int64\<close> or
  \<open>time.Duration\<close> is an \<open>int\<close> whose arithmetic wraps by \<open>wrap64\<close> where the program
  multiplies or sums without a bound; \<open>/\<close> is \<open>sdiv\<close>, which rounds towards zero. A
  \<open>time.Time\<close> is its distance from the Unix epoch in nanoseconds: every instant the program
  stores or compares is in UTC, whose days start at multiples of 24 hours.
\<close>

section \<open>64-bit integers\<close>

definition wrap64 :: "int \<Rightarrow> int" where
  "wrap64 x = (x + 2 ^ 63) mod 2 ^ 64 - 2 ^ 63"

lemma wrap64_id: "- (2 ^ 63) \<le> x \<Longrightarrow> x < 2 ^ 63 \<Longrightarrow> wrap64 x = x"
  by (simp add: wrap64_def)

lemma wrap64_range: "- (2 ^ 63) \<le> wrap64 x" "wrap64 x < 2 ^ 63"
proof -
  let ?m = "(x + 2 ^ 63) mod (2 ^ 64 :: int)"
  have "0 \<le> ?m" and "?m < 2 ^ 64"
    by (rule pos_mod_sign pos_mod_bound; simp)+
  moreover have "(2 :: int) ^ 64 = 2 ^ 63 + 2 ^ 63"
    by simp
  ultimately show "- (2 ^ 63) \<le> wrap64 x" and "wrap64 x < 2 ^ 63"
    unfolding wrap64_def by linarith+
qed

lemma wrap64_add_left: "wrap64 (wrap64 a + b) = wrap64 (a + b)"
proof -
  have "((a + 2 ^ 63) mod 2 ^ 64 - 2 ^ 63 + b + 2 ^ 63) mod 2 ^ 64
      = ((a + 2 ^ 63) mod 2 ^ 64 + b) mod (2 ^ 64 :: int)"
    by simp
  also have "\<dots> = (a + 2 ^ 63 + b) mod 2 ^ 64"
    by (rule mod_add_left_eq)
  also have "\<dots> = (a + b + 2 ^ 63) mod 2 ^ 64"
    by (simp add: algebra_simps)
  finally show ?thesis
    by (simp add: wrap64_def)
qed

text \<open>The accumulation loop \<open>total += x\<close> on an \<open>int64\<close> is the wrapped sum.\<close>

definition sum64 :: "int list \<Rightarrow> int" where
  "sum64 xs = foldl (\<lambda>total x. wrap64 (total + x)) 0 xs"

lemma sum64_eq: "sum64 xs = wrap64 (sum_list xs)"
proof (induction xs rule: rev_induct)
  case Nil
  then show ?case by (simp add: sum64_def wrap64_def)
next
  case (snoc x xs)
  then show ?case by (simp add: sum64_def wrap64_add_left)
qed

lemma sum64_perm: "mset xs = mset ys \<Longrightarrow> sum64 xs = sum64 ys"
  unfolding sum64_eq by (metis sum_mset_sum_list)

lemma sdiv_mult_self: "0 < d \<Longrightarrow> (k * d) sdiv d = (k :: int)"
  by (cases k "0 :: int" rule: linorder_cases)
    (simp_all add: signed_divide_int_def sgn_mult abs_mult minus_mult_left del: mult_minus_left)

section \<open>Durations\<close>

type_synonym duration = int

definition second :: duration where
  "second = 1000000000"

definition minute :: duration where
  "minute = 60000000000"

definition hour :: duration where
  "hour = 3600000000000"

definition day :: duration where
  "day = 86400000000000"

text \<open>\<open>time.Duration(n) * time.Minute\<close>\<close>

definition minutes :: "int \<Rightarrow> duration" where
  "minutes n = wrap64 (n * minute)"

text \<open>No wrap-around below some 153 million minutes (290 years).\<close>

lemma minutes_small: "\<bar>n\<bar> \<le> 153000000 \<Longrightarrow> minutes n = n * minute"
  unfolding minutes_def minute_def by (rule wrap64_id) (simp_all add: abs_le_iff)

section \<open>Instants\<close>

type_synonym gotime = int

text \<open>The zero \<open>time.Time\<close>, 1 January of the year 1.\<close>

definition zero_time :: gotime where
  "zero_time = - 62135596800000000000"

text \<open>\<open>t.Sub(u)\<close> saturates at the bounds of a duration.\<close>

definition time_sub :: "gotime \<Rightarrow> gotime \<Rightarrow> duration" where
  "time_sub t u = max (- (2 ^ 63)) (min (2 ^ 63 - 1) (t - u))"

lemma time_sub_exact: "\<bar>t - u\<bar> < 2 ^ 63 \<Longrightarrow> time_sub t u = t - u"
  by (simp add: time_sub_def max_def min_def abs_if split: if_splits)

text \<open>\<open>t.Truncate(d)\<close> rounds down to a multiple of \<open>d\<close> since the zero time.\<close>

definition truncate_time :: "gotime \<Rightarrow> duration \<Rightarrow> gotime" where
  "truncate_time t d = (if d \<le> 0 then t else t - (t - zero_time) mod d)"

lemma truncate_time_bounds:
  "0 < d \<Longrightarrow> truncate_time t d \<le> t \<and> t < truncate_time t d + d"
  using pos_mod_sign [of d "t - zero_time"] pos_mod_bound [of d "t - zero_time"]
  unfolding truncate_time_def by simp

text \<open>Two truncated instants differ by a multiple of the interval.\<close>

lemma truncate_time_diff_dvd:
  "0 < d \<Longrightarrow> d dvd truncate_time t d - truncate_time u d"
proof -
  assume d: "0 < d"
  have "truncate_time t d - zero_time = (t - zero_time) div d * d" for t
    using d by (simp add: truncate_time_def minus_mod_eq_div_mult algebra_simps)
  then have "truncate_time t d - truncate_time u d =
      (t - zero_time) div d * d - (u - zero_time) div d * d"
    by (metis (no_types, opaque_lifting) diff_diff_eq2 diff_add_cancel)
  then show ?thesis
    by (simp add: dvd_diff)
qed

section \<open>Days\<close>

text \<open>\<open>CAST(t AS DATE)\<close> as a number of days since the epoch, and the midnight of a day.\<close>

definition utc_date :: "gotime \<Rightarrow> int" where
  "utc_date t = t div day"

definition utcDayStart :: "gotime \<Rightarrow> gotime" where
  "utcDayStart t = t - t mod day"

lemma utcDayStart_eq: "utcDayStart t = utc_date t * day"
  by (simp add: utcDayStart_def utc_date_def minus_mod_eq_div_mult)

lemma utcDayStart_le: "utcDayStart t \<le> t" "t < utcDayStart t + day"
  using pos_mod_sign [of day t] pos_mod_bound [of day t]
  unfolding utcDayStart_def by (simp_all add: day_def)

lemma utc_date_mono: "t \<le> u \<Longrightarrow> utc_date t \<le> utc_date u"
  unfolding utc_date_def day_def by (rule zdiv_mono1) simp_all

lemma utc_date_mult [simp]: "utc_date (k * day) = k"
  by (simp add: utc_date_def day_def)

lemma utc_date_utcDayStart [simp]: "utc_date (utcDayStart t) = utc_date t"
  by (simp add: utcDayStart_eq)

lemma utcDayStart_idem [simp]: "utcDayStart (utcDayStart t) = utcDayStart t"
  by (simp add: utcDayStart_eq)

lemma utcDayStart_less_iff: "utcDayStart t < utcDayStart u \<longleftrightarrow> utc_date t < utc_date u"
  by (simp add: utcDayStart_eq day_def)

lemma less_utcDayStart_iff: "t < utcDayStart u \<longleftrightarrow> utc_date t < utc_date u"
proof -
  have "t < k * day \<longleftrightarrow> t div day < k" for k
  proof
    show "t < k * day \<Longrightarrow> t div day < k"
      using mult_right_mono [of k "t div day" day] pos_mod_sign [of day t] div_mult_mod_eq [of t day]
      by (fastforce simp: day_def)
    assume "t div day < k"
    then have "(t div day + 1) * day \<le> k * day"
      by (intro mult_right_mono) (simp_all add: day_def)
    then show "t < k * day"
      using pos_mod_bound [of day t] div_mult_mod_eq [of t day] by (simp add: day_def algebra_simps)
  qed
  then show ?thesis
    by (simp add: utcDayStart_eq utc_date_def)
qed

text \<open>\<open>t.AddDate(0, 0, n)\<close> in UTC.\<close>

definition add_days :: "gotime \<Rightarrow> int \<Rightarrow> gotime" where
  "add_days t n = t + n * day"

lemma utc_date_add_days [simp]: "utc_date (add_days t n) = utc_date t + n"
  by (simp add: utc_date_def add_days_def day_def)

lemma utcDayStart_add_days [simp]: "utcDayStart (add_days t n) = add_days (utcDayStart t) n"
  by (simp add: utcDayStart_eq) (simp add: add_days_def algebra_simps)

definition daysAgo :: "gotime \<Rightarrow> gotime \<Rightarrow> int" where
  "daysAgo now date = time_sub (utcDayStart now) (utcDayStart date) sdiv (24 * hour)"

lemma daysAgo_eq:
  assumes "\<bar>utcDayStart now - utcDayStart date\<bar> < 2 ^ 63"
  shows "daysAgo now date = utc_date now - utc_date date"
proof -
  have "utcDayStart now - utcDayStart date = (utc_date now - utc_date date) * day"
    by (simp add: utcDayStart_eq algebra_simps)
  moreover have "24 * hour = day"
    by (simp add: hour_def day_def)
  ultimately have "daysAgo now date = ((utc_date now - utc_date date) * day) sdiv day"
    using time_sub_exact [OF assms] by (simp only: daysAgo_def)
  also have "\<dots> = utc_date now - utc_date date"
    by (rule sdiv_mult_self) (simp add: day_def)
  finally show ?thesis .
qed

end
