(* ===== verification/Config_Monitor.thy ===== *)
theory Config_Monitor
  imports Go_Strings Go_Time
begin

text \<open>
  \<open>config_monitor.go\<close>: monitors, groups, their effective settings (the per-type block
  falling back to the legacy top-level fields), validation, and the part of the
  configuration a checker receives. A pointer or a nullable value is an \<open>option\<close>; a nil
  header map differs from an empty one, so it is an \<open>option\<close> too.
\<close>

section \<open>Data\<close>

definition MonitorTypeHTTP :: string where "MonitorTypeHTTP = ''http''"
definition MonitorTypeTCP :: string where "MonitorTypeTCP = ''tcp''"
definition MonitorTypeICMP :: string where "MonitorTypeICMP = ''icmp''"
definition MonitorTypeRedis :: string where "MonitorTypeRedis = ''redis''"
definition MonitorTypePostgres :: string where "MonitorTypePostgres = ''postgres''"
definition MonitorTypeMySQL :: string where "MonitorTypeMySQL = ''mysql''"
definition MonitorTypeMSSQL :: string where "MonitorTypeMSSQL = ''mssql''"
definition MonitorTypeClickHouse :: string where "MonitorTypeClickHouse = ''clickhouse''"
definition MonitorTypeGRPC :: string where "MonitorTypeGRPC = ''grpc''"

lemmas monitor_types =
  MonitorTypeHTTP_def MonitorTypeTCP_def MonitorTypeICMP_def MonitorTypeRedis_def
  MonitorTypePostgres_def MonitorTypeMySQL_def MonitorTypeMSSQL_def MonitorTypeClickHouse_def
  MonitorTypeGRPC_def

record MonitorHTTPConfig =
  http_Method :: string
  http_SkipTLSVerify :: "bool option"
  http_CACertPath :: string
  http_ClientCertPath :: string
  http_ClientKeyPath :: string
  http_ClientKeyPassword :: string
  http_URL :: string
  http_Headers :: "(string, string) gomap option"
  http_ExpectedStatusCodes :: "int list"
  http_TimeoutSeconds :: "int option"
  http_JqAssertion :: "string option"

record MonitorTCPConfig =
  tcp_Address :: string
  tcp_UseTLS :: bool
  tcp_SkipTLSVerify :: bool
  tcp_Send :: "string option"
  tcp_ExpectContains :: "string option"
  tcp_TimeoutSeconds :: "int option"

record MonitorICMPConfig =
  icmp_Host :: string
  icmp_Count :: int
  icmp_TimeoutSeconds :: "int option"

record MonitorRedisConfig =
  redis_Address :: string
  redis_Password :: "string option"
  redis_Database :: int
  redis_UseTLS :: bool
  redis_SkipTLSVerify :: bool
  redis_TimeoutSeconds :: "int option"

record MonitorPostgresConfig =
  postgres_DSN :: string
  postgres_TimeoutSeconds :: "int option"

record MonitorMySQLConfig =
  mysql_DSN :: string
  mysql_TimeoutSeconds :: "int option"

record MonitorMSSQLConfig =
  mssql_DSN :: string
  mssql_TimeoutSeconds :: "int option"

record MonitorClickHouseConfig =
  clickhouse_DSN :: string
  clickhouse_TimeoutSeconds :: "int option"

record MonitorGRPCConfig =
  grpc_Address :: string
  grpc_Service :: string
  grpc_UseTLS :: bool
  grpc_SkipTLSVerify :: bool
  grpc_TimeoutSeconds :: "int option"

record Monitor =
  mon_ID :: string
  mon_Name :: string
  mon_Description :: "string option"
  mon_Interval :: string
  mon_Type :: string
  mon_CheckerNames :: "string list"
  mon_AlertNames :: "string list"
  mon_Method :: string
  mon_SkipTLSVerify :: bool
  mon_Url :: string
  mon_Headers :: "(string, string) gomap option"
  mon_ExpectedStatusCodes :: "int list"
  mon_TimeoutSeconds :: "int option"
  mon_JqAssertion :: "string option"
  mon_HTTP :: "MonitorHTTPConfig option"
  mon_TCP :: MonitorTCPConfig
  mon_ICMP :: MonitorICMPConfig
  mon_Redis :: MonitorRedisConfig
  mon_Postgres :: MonitorPostgresConfig
  mon_MySQL :: MonitorMySQLConfig
  mon_MSSQL :: MonitorMSSQLConfig
  mon_ClickHouse :: MonitorClickHouseConfig
  mon_GRPC :: MonitorGRPCConfig

record Group =
  group_ID :: string
  group_Name :: string
  group_Description :: "string option"
  group_MonitorIDs :: "string list"

record MonitorConfig =
  mc_Monitors :: "Monitor list"
  mc_Groups :: "Group list"

text \<open>The zero values of the structs, as Go's composite literals leave unset fields.\<close>

definition zero_http :: MonitorHTTPConfig where
  "zero_http = \<lparr>http_Method = [], http_SkipTLSVerify = None, http_CACertPath = [],
     http_ClientCertPath = [], http_ClientKeyPath = [], http_ClientKeyPassword = [],
     http_URL = [], http_Headers = None, http_ExpectedStatusCodes = [],
     http_TimeoutSeconds = None, http_JqAssertion = None\<rparr>"

definition zero_monitor :: Monitor where
  "zero_monitor = \<lparr>mon_ID = [], mon_Name = [], mon_Description = None, mon_Interval = [],
     mon_Type = [], mon_CheckerNames = [], mon_AlertNames = [], mon_Method = [],
     mon_SkipTLSVerify = False, mon_Url = [], mon_Headers = None,
     mon_ExpectedStatusCodes = [], mon_TimeoutSeconds = None, mon_JqAssertion = None,
     mon_HTTP = None,
     mon_TCP = \<lparr>tcp_Address = [], tcp_UseTLS = False, tcp_SkipTLSVerify = False,
       tcp_Send = None, tcp_ExpectContains = None, tcp_TimeoutSeconds = None\<rparr>,
     mon_ICMP = \<lparr>icmp_Host = [], icmp_Count = 0, icmp_TimeoutSeconds = None\<rparr>,
     mon_Redis = \<lparr>redis_Address = [], redis_Password = None, redis_Database = 0,
       redis_UseTLS = False, redis_SkipTLSVerify = False, redis_TimeoutSeconds = None\<rparr>,
     mon_Postgres = \<lparr>postgres_DSN = [], postgres_TimeoutSeconds = None\<rparr>,
     mon_MySQL = \<lparr>mysql_DSN = [], mysql_TimeoutSeconds = None\<rparr>,
     mon_MSSQL = \<lparr>mssql_DSN = [], mssql_TimeoutSeconds = None\<rparr>,
     mon_ClickHouse = \<lparr>clickhouse_DSN = [], clickhouse_TimeoutSeconds = None\<rparr>,
     mon_GRPC = \<lparr>grpc_Address = [], grpc_Service = [], grpc_UseTLS = False,
       grpc_SkipTLSVerify = False, grpc_TimeoutSeconds = None\<rparr>\<rparr>"

section \<open>Effective settings\<close>

definition EffectiveType :: "Monitor \<Rightarrow> string" where
  "EffectiveType m =
     (if mon_Type m \<noteq> [] then mon_Type m
      else if postgres_DSN (mon_Postgres m) \<noteq> [] then MonitorTypePostgres
      else if mysql_DSN (mon_MySQL m) \<noteq> [] then MonitorTypeMySQL
      else if mssql_DSN (mon_MSSQL m) \<noteq> [] then MonitorTypeMSSQL
      else if clickhouse_DSN (mon_ClickHouse m) \<noteq> [] then MonitorTypeClickHouse
      else if grpc_Address (mon_GRPC m) \<noteq> [] then MonitorTypeGRPC
      else if redis_Address (mon_Redis m) \<noteq> [] then MonitorTypeRedis
      else if icmp_Host (mon_ICMP m) \<noteq> [] then MonitorTypeICMP
      else if tcp_Address (mon_TCP m) \<noteq> [] then MonitorTypeTCP
      else MonitorTypeHTTP)"

text \<open>
  Each field of the \<open>http\<close> block that is unset falls back to the legacy top-level field;
  the method and the expected status codes have a last default of their own.
\<close>

definition or_list :: "'a list \<Rightarrow> 'a list \<Rightarrow> 'a list" where
  "or_list xs ys = (if xs = [] then ys else xs)"

definition or_option :: "'a option \<Rightarrow> 'a option \<Rightarrow> 'a option" where
  "or_option x y = (if x = None then y else x)"

definition EffectiveHTTP :: "Monitor \<Rightarrow> MonitorHTTPConfig" where
  "EffectiveHTTP m =
     (let cfg = (case mon_HTTP m of None \<Rightarrow> zero_http | Some h \<Rightarrow> h)
      in cfg\<lparr>http_Method := or_list (or_list (http_Method cfg) (mon_Method m)) ''GET'',
             http_URL := or_list (http_URL cfg) (mon_Url m),
             http_Headers := or_option (http_Headers cfg) (mon_Headers m),
             http_ExpectedStatusCodes :=
               or_list (or_list (http_ExpectedStatusCodes cfg) (mon_ExpectedStatusCodes m)) [200],
             http_TimeoutSeconds := or_option (http_TimeoutSeconds cfg) (mon_TimeoutSeconds m),
             http_JqAssertion := or_option (http_JqAssertion cfg) (mon_JqAssertion m),
             http_SkipTLSVerify :=
               or_option (http_SkipTLSVerify cfg) (Some (mon_SkipTLSVerify m))\<rparr>)"

definition SkipTLSVerifyValue :: "MonitorHTTPConfig \<Rightarrow> bool" where
  "SkipTLSVerifyValue c = (http_SkipTLSVerify c = Some True)"

definition seconds :: "int \<Rightarrow> duration" where
  "seconds n = wrap64 (n * second)"

definition timeout_or :: "int option \<Rightarrow> duration \<Rightarrow> duration" where
  "timeout_or t dflt = (case t of Some n \<Rightarrow> seconds n | None \<Rightarrow> dflt)"

definition EffectiveTimeout :: "Monitor \<Rightarrow> duration \<Rightarrow> duration" where
  "EffectiveTimeout m defaultSeconds =
     (let t = EffectiveType m in
      if t = MonitorTypeHTTP then timeout_or (http_TimeoutSeconds (EffectiveHTTP m)) defaultSeconds
      else if t = MonitorTypeTCP then timeout_or (tcp_TimeoutSeconds (mon_TCP m)) defaultSeconds
      else if t = MonitorTypeICMP then timeout_or (icmp_TimeoutSeconds (mon_ICMP m)) defaultSeconds
      else if t = MonitorTypeRedis then timeout_or (redis_TimeoutSeconds (mon_Redis m)) defaultSeconds
      else if t = MonitorTypePostgres
        then timeout_or (postgres_TimeoutSeconds (mon_Postgres m)) defaultSeconds
      else if t = MonitorTypeMySQL then timeout_or (mysql_TimeoutSeconds (mon_MySQL m)) defaultSeconds
      else if t = MonitorTypeMSSQL then timeout_or (mssql_TimeoutSeconds (mon_MSSQL m)) defaultSeconds
      else if t = MonitorTypeClickHouse
        then timeout_or (clickhouse_TimeoutSeconds (mon_ClickHouse m)) defaultSeconds
      else if t = MonitorTypeGRPC then timeout_or (grpc_TimeoutSeconds (mon_GRPC m)) defaultSeconds
      else defaultSeconds)"

definition IsSuccessfulStatus :: "Monitor \<Rightarrow> int \<Rightarrow> bool \<Rightarrow> bool" where
  "IsSuccessfulStatus m statusCode explicitSuccess =
     (if EffectiveType m = MonitorTypeHTTP
      then statusCode \<in> set (http_ExpectedStatusCodes (EffectiveHTTP m))
      else explicitSuccess)"

definition RunsOnChecker :: "Monitor \<Rightarrow> string \<Rightarrow> bool" where
  "RunsOnChecker m checkerName = (mon_CheckerNames m = [] \<or> checkerName \<in> set (mon_CheckerNames m))"

text \<open>A nil and an empty slice of alert names behave the same: both select every target.\<close>

fun effective_alert_loop :: "string list \<Rightarrow> string list \<Rightarrow> string list" where
  "effective_alert_loop seenNames [] = []"
| "effective_alert_loop seenNames (alertName # rest) =
     (let trimmedName = trim_space alertName in
      if trimmedName = [] then effective_alert_loop seenNames rest
      else if trimmedName \<in> set seenNames then effective_alert_loop seenNames rest
      else trimmedName # effective_alert_loop (trimmedName # seenNames) rest)"

definition EffectiveAlertNames :: "Monitor \<Rightarrow> string list" where
  "EffectiveAlertNames m = effective_alert_loop [] (mon_AlertNames m)"

section \<open>Validation\<close>

datatype config_error =
    HttpUrlRequired string
  | HttpClientPairRequired string
  | HttpKeyPasswordWithoutKey string
  | TcpAddressRequired string
  | IcmpHostRequired string
  | RedisAddressRequired string
  | PostgresDsnRequired string
  | MysqlDsnRequired string
  | MssqlDsnRequired string
  | ClickhouseDsnRequired string
  | GrpcAddressRequired string
  | UnsupportedType string string
  | DuplicateCheckerName string string
  | UnknownCheckerName string string

definition require_set :: "string \<Rightarrow> config_error \<Rightarrow> config_error option" where
  "require_set s e = (if s = [] then Some e else None)"

definition validate_http :: "string \<Rightarrow> MonitorHTTPConfig \<Rightarrow> config_error option" where
  "validate_http mid c =
     (if http_URL c = [] then Some (HttpUrlRequired mid)
      else if (http_ClientCertPath c = []) \<noteq> (http_ClientKeyPath c = [])
        then Some (HttpClientPairRequired mid)
      else if http_ClientKeyPassword c \<noteq> [] \<and> http_ClientKeyPath c = []
        then Some (HttpKeyPasswordWithoutKey mid)
      else None)"

definition monitor_Validate :: "Monitor \<Rightarrow> config_error option" where
  "monitor_Validate m =
     (let t = EffectiveType m; mid = mon_ID m in
      if t = MonitorTypeHTTP then validate_http mid (EffectiveHTTP m)
      else if t = MonitorTypeTCP then require_set (tcp_Address (mon_TCP m)) (TcpAddressRequired mid)
      else if t = MonitorTypeICMP then require_set (icmp_Host (mon_ICMP m)) (IcmpHostRequired mid)
      else if t = MonitorTypeRedis
        then require_set (redis_Address (mon_Redis m)) (RedisAddressRequired mid)
      else if t = MonitorTypePostgres
        then require_set (postgres_DSN (mon_Postgres m)) (PostgresDsnRequired mid)
      else if t = MonitorTypeMySQL then require_set (mysql_DSN (mon_MySQL m)) (MysqlDsnRequired mid)
      else if t = MonitorTypeMSSQL then require_set (mssql_DSN (mon_MSSQL m)) (MssqlDsnRequired mid)
      else if t = MonitorTypeClickHouse
        then require_set (clickhouse_DSN (mon_ClickHouse m)) (ClickhouseDsnRequired mid)
      else if t = MonitorTypeGRPC
        then require_set (grpc_Address (mon_GRPC m)) (GrpcAddressRequired mid)
      else Some (UnsupportedType mid t))"

fun validate_checker_names ::
    "string \<Rightarrow> string list \<Rightarrow> string list \<Rightarrow> string list \<Rightarrow> config_error option" where
  "validate_checker_names mid known seen [] = None"
| "validate_checker_names mid known seen (checkerName # rest) =
     (if checkerName \<in> set seen then Some (DuplicateCheckerName mid checkerName)
      else if checkerName \<notin> set known then Some (UnknownCheckerName mid checkerName)
      else validate_checker_names mid known (checkerName # seen) rest)"

text \<open>\<open>known\<close>: the effective names of the registered checkers.\<close>

fun validate_monitors :: "string list \<Rightarrow> Monitor list \<Rightarrow> config_error option" where
  "validate_monitors known [] = None"
| "validate_monitors known (m # rest) =
     (case monitor_Validate m of
        Some e \<Rightarrow> Some e
      | None \<Rightarrow>
          (case validate_checker_names (mon_ID m) known [] (mon_CheckerNames m) of
             Some e \<Rightarrow> Some e
           | None \<Rightarrow> validate_monitors known rest))"

section \<open>The configuration of one checker\<close>

definition filter_group :: "string list \<Rightarrow> Group \<Rightarrow> Group" where
  "filter_group allowed g =
     g\<lparr>group_MonitorIDs := filter (\<lambda>i. i \<in> set allowed) (group_MonitorIDs g)\<rparr>"

fun filter_groups :: "string list \<Rightarrow> Group list \<Rightarrow> Group list" where
  "filter_groups allowed [] = []"
| "filter_groups allowed (g # rest) =
     (let g' = filter_group allowed g in
      if group_MonitorIDs g' = [] then filter_groups allowed rest
      else g' # filter_groups allowed rest)"

definition ForChecker :: "MonitorConfig \<Rightarrow> string \<Rightarrow> MonitorConfig" where
  "ForChecker c checkerName =
     (let monitors = filter (\<lambda>m. RunsOnChecker m checkerName) (mc_Monitors c);
          allowedMonitorIDs = map mon_ID monitors
      in \<lparr>mc_Monitors = monitors, mc_Groups = filter_groups allowedMonitorIDs (mc_Groups c)\<rparr>)"

text \<open>The linear search for a monitor by its id, which several components repeat.\<close>

definition findMonitor :: "MonitorConfig \<Rightarrow> string \<Rightarrow> Monitor option" where
  "findMonitor c monitorID = List.find (\<lambda>m. mon_ID m = monitorID) (mc_Monitors c)"

lemma findMonitor_Some: "findMonitor c i = Some m \<Longrightarrow> m \<in> set (mc_Monitors c) \<and> mon_ID m = i"
  unfolding findMonitor_def by (drule find_Some_in) simp

section \<open>Facts\<close>

lemma EffectiveHTTP_codes_nonempty [simp]: "http_ExpectedStatusCodes (EffectiveHTTP m) \<noteq> []"
  by (simp add: EffectiveHTTP_def Let_def or_list_def)

lemma effective_alert_loop_dedup:
  "effective_alert_loop seen names = dedup_from seen (filter (\<lambda>n. n \<noteq> []) (map trim_space names))"
  by (induction seen names rule: effective_alert_loop.induct) (simp_all add: Let_def)

lemma filter_groups_eq:
  "filter_groups allowed gs =
     filter (\<lambda>g. group_MonitorIDs g \<noteq> []) (map (filter_group allowed) gs)"
  by (induction gs) (simp_all add: Let_def)

lemma filter_group_idem: "filter_group allowed (filter_group allowed g) = filter_group allowed g"
  by (simp add: filter_group_def)

lemma filter_groups_idem: "filter_groups allowed (filter_groups allowed gs) = filter_groups allowed gs"
  unfolding filter_groups_eq
  by (induction gs) (simp_all add: filter_group_idem)

lemma validate_checker_names_None:
  "validate_checker_names mid known seen names = None \<longleftrightarrow>
     distinct names \<and> set names \<inter> set seen = {} \<and> set names \<subseteq> set known"
  by (induction mid known seen names rule: validate_checker_names.induct) auto

lemma validate_checker_names_Some:
  "validate_checker_names mid known [] names = Some e \<Longrightarrow>
     \<not> (distinct names \<and> set names \<subseteq> set known)"
  using validate_checker_names_None [of mid known "[]" names] by auto

lemma validate_monitors_None:
  "validate_monitors known ms = None \<longleftrightarrow>
     (\<forall>m \<in> set ms. monitor_Validate m = None \<and> distinct (mon_CheckerNames m) \<and>
        set (mon_CheckerNames m) \<subseteq> set known)"
  by (induction known ms rule: validate_monitors.induct)
    (auto simp: validate_checker_names_None dest!: validate_checker_names_Some split: option.splits)

section \<open>Properties\<close>

text \<open>
  The configuration handed to a checker is exactly its share: the monitors that run on it, in
  their order; of every group the members among those, in their order; no group is empty, none
  refers to a monitor that is missing; and cutting the result down again changes nothing.
\<close>

theorem for_checker_is_its_share:
  "mc_Monitors (ForChecker c n) = filter (\<lambda>m. RunsOnChecker m n) (mc_Monitors c) \<and>
   mc_Groups (ForChecker c n) =
     filter (\<lambda>g. group_MonitorIDs g \<noteq> [])
       (map (\<lambda>g. g\<lparr>group_MonitorIDs := filter (\<lambda>i. i \<in> mon_ID ` set (mc_Monitors (ForChecker c n)))
               (group_MonitorIDs g)\<rparr>) (mc_Groups c)) \<and>
   list_all (\<lambda>g. group_MonitorIDs g \<noteq> [] \<and>
       set (group_MonitorIDs g) \<subseteq> mon_ID ` set (mc_Monitors (ForChecker c n))) (mc_Groups (ForChecker c n)) \<and>
   ForChecker (ForChecker c n) n = ForChecker c n"
proof -
  let ?ms = "filter (\<lambda>m. RunsOnChecker m n) (mc_Monitors c)"
  have groups: "mc_Groups (ForChecker c n) =
     filter (\<lambda>g. group_MonitorIDs g \<noteq> []) (map (filter_group (map mon_ID ?ms)) (mc_Groups c))"
    by (simp add: ForChecker_def Let_def filter_groups_eq)
  have "ForChecker (ForChecker c n) n = ForChecker c n"
    by (simp add: ForChecker_def Let_def filter_groups_idem)
  moreover have "list_all (\<lambda>g. group_MonitorIDs g \<noteq> [] \<and> set (group_MonitorIDs g) \<subseteq> mon_ID ` set ?ms)
      (mc_Groups (ForChecker c n))"
    unfolding groups by (auto simp: list_all_iff filter_group_def)
  moreover have "mc_Monitors (ForChecker c n) = ?ms"
    by (simp add: ForChecker_def Let_def)
  moreover have "filter_group (map mon_ID ?ms) =
      (\<lambda>g. g\<lparr>group_MonitorIDs := filter (\<lambda>i. i \<in> mon_ID ` set ?ms) (group_MonitorIDs g)\<rparr>)"
    by (simp add: fun_eq_iff filter_group_def)
  ultimately show ?thesis
    unfolding groups by simp
qed

text \<open>
  The effective alert names are the configured names, trimmed, without the empty ones and
  without repetitions, in the order of their first occurrence.
\<close>

theorem effective_alert_names:
  "distinct (EffectiveAlertNames m) \<and>
   set (EffectiveAlertNames m) = trim_space ` set (mon_AlertNames m) - {[]} \<and>
   EffectiveAlertNames m = rev (remdups (rev (filter (\<lambda>n. n \<noteq> []) (map trim_space (mon_AlertNames m)))))"
proof -
  have "dedup_from seen xs = rev (remdups (rev (filter (\<lambda>x. x \<notin> set seen) xs)))" for seen and xs :: "string list"
  proof (induction seen xs rule: dedup_from.induct)
    case (1 seen)
    then show ?case by simp
  next
    case (2 seen x xs)
    have rd: "remdups (ys @ [x]) = filter (\<lambda>y. y \<noteq> x) (remdups ys) @ [x]" for ys :: "string list"
      by (induction ys) auto
    have "filter (\<lambda>y. y \<noteq> x) (remdups (rev (filter (\<lambda>y. y \<notin> set seen) xs))) =
        remdups (rev (filter (\<lambda>y. y \<notin> set (x # seen)) xs))"
      by (simp add: remdups_filter [symmetric] rev_filter conj_commute)
    with 2 show ?case
      by (simp add: rd)
  qed
  from this [of "[]"] show ?thesis
    by (auto simp: EffectiveAlertNames_def effective_alert_loop_dedup)
qed

text \<open>
  The validation of the monitors accepts exactly the configurations in which every monitor is
  valid by itself and lists registered checkers only, each at most once.
\<close>

theorem monitor_config_validation:
  "(validate_monitors known ms = None) =
     list_all (\<lambda>m. monitor_Validate m = None \<and> distinct (mon_CheckerNames m) \<and>
        set (mon_CheckerNames m) \<subseteq> set known) ms"
  by (simp add: validate_monitors_None list_all_iff)

end
