(* ===== verification/Incident.thy ===== *)
theory Incident
  imports Json Config_Monitor
begin

text \<open>
  \<open>incident.go\<close>: the evaluation of a monitor's health, its comparison, its derived impact
  and title, and the two columns it is stored in (\<open>affected_regions\<close> and
  \<open>failure_reasons_json\<close>).

  The lists of regions inside a breakdown are never nil when they come from the processor;
  a nil one and an empty one are the same list here. The nil slice that \<open>RegionsJSON\<close> makes
  out of an empty list of regions is kept: it is written \<open>null\<close>.
\<close>

section \<open>Constants and data\<close>

definition MonitorStatusHealthy :: string where "MonitorStatusHealthy = ''healthy''"
definition MonitorStatusDegraded :: string where "MonitorStatusDegraded = ''degraded''"
definition MonitorStatusDown :: string where "MonitorStatusDown = ''down''"
definition MonitorScopeHealthy :: string where "MonitorScopeHealthy = ''healthy''"
definition MonitorScopeLocal :: string where "MonitorScopeLocal = ''local''"
definition MonitorScopeGlobal :: string where "MonitorScopeGlobal = ''global''"
definition IncidentSourceProgrammatic :: string where
  "IncidentSourceProgrammatic = ''programmatic''"
definition IncidentSourceManual :: string where "IncidentSourceManual = ''manual''"
definition IncidentLifecycleInvestigating :: string where
  "IncidentLifecycleInvestigating = ''investigating''"
definition IncidentLifecycleIdentified :: string where
  "IncidentLifecycleIdentified = ''identified''"
definition IncidentLifecycleMonitoring :: string where
  "IncidentLifecycleMonitoring = ''monitoring''"
definition IncidentLifecycleResolved :: string where
  "IncidentLifecycleResolved = ''resolved''"
definition IncidentImpactUnknown :: string where "IncidentImpactUnknown = ''unknown''"
definition IncidentImpactOperational :: string where
  "IncidentImpactOperational = ''operational''"
definition IncidentImpactMaintenance :: string where
  "IncidentImpactMaintenance = ''maintenance''"
definition IncidentImpactDegradedPerformance :: string where
  "IncidentImpactDegradedPerformance = ''degraded_performance''"
definition IncidentImpactPartialOutage :: string where
  "IncidentImpactPartialOutage = ''partial_outage''"
definition IncidentImpactMajorOutage :: string where
  "IncidentImpactMajorOutage = ''major_outage''"
definition IncidentEventTypeCreated :: string where "IncidentEventTypeCreated = ''created''"
definition IncidentEventTypeUpdated :: string where "IncidentEventTypeUpdated = ''updated''"
definition IncidentEventTypeResolved :: string where "IncidentEventTypeResolved = ''resolved''"

lemmas statuses = MonitorStatusHealthy_def MonitorStatusDegraded_def MonitorStatusDown_def
lemmas scopes = MonitorScopeHealthy_def MonitorScopeLocal_def MonitorScopeGlobal_def
lemmas lifecycles = IncidentLifecycleInvestigating_def IncidentLifecycleIdentified_def
  IncidentLifecycleMonitoring_def IncidentLifecycleResolved_def
lemmas impacts = IncidentImpactUnknown_def IncidentImpactOperational_def
  IncidentImpactMaintenance_def IncidentImpactDegradedPerformance_def
  IncidentImpactPartialOutage_def IncidentImpactMajorOutage_def
lemmas event_types = IncidentEventTypeCreated_def IncidentEventTypeUpdated_def
  IncidentEventTypeResolved_def
lemmas incident_sources = IncidentSourceProgrammatic_def IncidentSourceManual_def

record IncidentEvaluation =
  Status :: string
  Scope :: string
  Reason :: string
  AffectedRegions :: "string list"
  FailureReasonsBreakdown :: "(string, string list) gomap"

definition HealthyIncidentEvaluation :: IncidentEvaluation where
  "HealthyIncidentEvaluation =
     \<lparr>Status = MonitorStatusHealthy, Scope = MonitorScopeHealthy, Reason = [],
      AffectedRegions = [], FailureReasonsBreakdown = []\<rparr>"

section \<open>Comparison\<close>

fun breakdown_loop ::
    "(string, string list) gomap \<Rightarrow> (string, string list) gomap \<Rightarrow> bool" where
  "breakdown_loop [] other = True"
| "breakdown_loop ((category, regions) # rest) other =
     (case map_of other category of
        None \<Rightarrow> False
      | Some otherRegions \<Rightarrow>
          if length regions \<noteq> length otherRegions then False
          else if sort regions \<noteq> sort otherRegions then False
          else breakdown_loop rest other)"

definition evaluation_Equal :: "IncidentEvaluation \<Rightarrow> IncidentEvaluation \<Rightarrow> bool" where
  "evaluation_Equal e other =
     (if Status e \<noteq> Status other \<or> Scope e \<noteq> Scope other \<or> Reason e \<noteq> Reason other then False
      else if sort (AffectedRegions e) \<noteq> sort (AffectedRegions other) then False
      else if length (FailureReasonsBreakdown e) \<noteq> length (FailureReasonsBreakdown other) then False
      else breakdown_loop (FailureReasonsBreakdown e) (FailureReasonsBreakdown other))"

section \<open>The stored columns\<close>

text \<open>\<open>append([]string(nil), xs...)\<close> is nil when \<open>xs\<close> is empty, and nil is written \<open>null\<close>.\<close>

definition RegionsJSON :: "IncidentEvaluation \<Rightarrow> string" where
  "RegionsJSON e =
     (let regions = sort (AffectedRegions e)
      in if regions = [] then ''null'' else enc_strings regions)"

definition ParseRegionsJSON :: "string \<Rightarrow> string list" where
  "ParseRegionsJSON raw =
     (let trimmed = trim_space raw in
      if trimmed = [] \<or> trimmed = ''null'' then []
      else case Option.bind (parse_json trimmed) as_strings of
             Some (Some regions) \<Rightarrow> sort regions
           | _ \<Rightarrow> [])"

definition FailureReasonsJSON :: "IncidentEvaluation \<Rightarrow> string" where
  "FailureReasonsJSON e =
     (if length (FailureReasonsBreakdown e) = 0 then ''{}''
      else enc_map (FailureReasonsBreakdown e))"

definition ParseFailureReasonsJSON :: "string \<Rightarrow> (string, string list) gomap" where
  "ParseFailureReasonsJSON raw =
     (let trimmed = trim_space raw in
      if trimmed = [] \<or> trimmed = ''{}'' \<or> trimmed = ''null'' then []
      else case Option.bind (parse_json trimmed) as_strings_map of
             Some (Some breakdown) \<Rightarrow> breakdown
           | _ \<Rightarrow> [])"

section \<open>Derived values\<close>

definition HasActiveIncident :: "IncidentEvaluation \<Rightarrow> bool" where
  "HasActiveIncident e = (Status e \<noteq> MonitorStatusHealthy)"

definition Impact :: "IncidentEvaluation \<Rightarrow> string" where
  "Impact e =
     (if Status e = MonitorStatusHealthy then IncidentImpactOperational
      else if Status e = MonitorStatusDown \<and> Scope e = MonitorScopeGlobal
      then IncidentImpactMajorOutage
      else if Status e = MonitorStatusDown then IncidentImpactPartialOutage
      else if Status e = MonitorStatusDegraded then IncidentImpactDegradedPerformance
      else IncidentImpactUnknown)"

definition ProgrammaticTitle :: "IncidentEvaluation \<Rightarrow> Monitor \<Rightarrow> string" where
  "ProgrammaticTitle e monitor =
     (if Status e = MonitorStatusDown \<and> Scope e = MonitorScopeGlobal
      then mon_Name monitor @ '' is experiencing a global outage''
      else if Status e = MonitorStatusDown then mon_Name monitor @ '' is partially unavailable''
      else if Status e = MonitorStatusDegraded
      then mon_Name monitor @ '' is experiencing regional degradation''
      else mon_Name monitor @ '' is healthy'')"

section \<open>What the comparison decides\<close>

text \<open>The meaning of a breakdown: the multiset of regions of each category.\<close>

definition breakdown_of :: "(string, string list) gomap \<Rightarrow> string \<Rightarrow> string multiset option" where
  "breakdown_of m k = map_option mset (map_of m k)"

lemma sort_eq_mset: "sort xs = sort ys \<longleftrightarrow> mset xs = mset (ys :: 'a :: linorder list)"
  by (metis mset_sort sort_perm)

lemma breakdown_loop_iff:
  "breakdown_loop m other \<longleftrightarrow>
     (\<forall>(k, rs) \<in> set m. \<exists>os. map_of other k = Some os \<and> mset rs = mset os)"
  by (induction m other rule: breakdown_loop.induct)
    (auto simp: sort_eq_mset dest: mset_eq_length split: option.splits)

lemma breakdown_of_dom: "dom (breakdown_of m) = set (map fst m)"
  by (auto simp: breakdown_of_def dom_def map_of_eq_None_iff simp flip: not_None_eq)

lemma breakdown_equal:
  assumes "gm_wf m" and "gm_wf m'"
  shows "length m = length m' \<and> breakdown_loop m m' \<longleftrightarrow> breakdown_of m = breakdown_of m'"
proof
  assume l: "length m = length m' \<and> breakdown_loop m m'"
  have card: "card (set (map fst m)) = card (set (map fst m'))"
    using assms l by (metis gm_wf_def distinct_card length_map)
  have sub: "\<And>k x. map_of m k = Some x \<Longrightarrow> \<exists>y. map_of m' k = Some y \<and> mset x = mset y"
    using l by (fastforce simp: breakdown_loop_iff dest: map_of_SomeD)
  have "dom (map_of m) \<subseteq> dom (map_of m')"
    using sub by (auto simp: dom_def)
  then have dom: "dom (map_of m) = dom (map_of m')"
    using card by (simp only: map_of_dom_keys) (metis List.finite_set card_subset_eq)
  show "breakdown_of m = breakdown_of m'"
  proof
    fix k
    show "breakdown_of m k = breakdown_of m' k"
    proof (cases "map_of m k")
      case None
      then have "k \<notin> dom (map_of m')"
        unfolding dom [symmetric] by (simp add: domIff)
      then show ?thesis
        using None by (simp add: breakdown_of_def domIff)
    next
      case (Some x)
      then show ?thesis
        using sub [of k x] by (auto simp: breakdown_of_def)
    qed
  qed
next
  assume b: "breakdown_of m = breakdown_of m'"
  then have "set (map fst m) = set (map fst m')"
    by (metis breakdown_of_dom)
  then have "length m = length m'"
    using assms by (metis gm_wf_def distinct_card length_map)
  moreover have "\<exists>os. map_of m' k = Some os \<and> mset rs = mset os" if "(k, rs) \<in> set m" for k rs
  proof -
    have "map_of m k = Some rs"
      using that assms(1) by (simp add: gm_wf_map_of)
    then have "breakdown_of m' k = Some (mset rs)"
      using b by (metis breakdown_of_def option.map(2))
    then show ?thesis
      by (auto simp: breakdown_of_def)
  qed
  ultimately show "length m = length m' \<and> breakdown_loop m m'"
    by (auto simp: breakdown_loop_iff)
qed

text \<open>What two evaluations are compared by.\<close>

definition evaluation_wf :: "IncidentEvaluation \<Rightarrow> bool" where
  "evaluation_wf e = gm_wf (FailureReasonsBreakdown e)"

definition evaluation_key ::
    "IncidentEvaluation \<Rightarrow>
       string \<times> string \<times> string \<times> string multiset \<times> (string \<Rightarrow> string multiset option)" where
  "evaluation_key e =
     (Status e, Scope e, Reason e, mset (AffectedRegions e),
      breakdown_of (FailureReasonsBreakdown e))"

lemma evaluation_Equal_key:
  assumes "evaluation_wf e" and "evaluation_wf f"
  shows "evaluation_Equal e f \<longleftrightarrow> evaluation_key e = evaluation_key f"
  using breakdown_equal [of "FailureReasonsBreakdown e" "FailureReasonsBreakdown f"] assms
  by (auto simp: evaluation_Equal_def evaluation_key_def evaluation_wf_def sort_eq_mset)

section \<open>Text columns\<close>

text \<open>
  A value kept in a text column: what is read back is the value written, up to the
  equivalence the program compares by, and is again a value that can be written.
\<close>

locale text_column =
  fixes wr :: "'a \<Rightarrow> string" and rd :: "string \<Rightarrow> 'a"
    and storable :: "'a \<Rightarrow> bool" and key :: "'a \<Rightarrow> 'k"
  assumes read_write: "storable x \<Longrightarrow> key (rd (wr x)) = key x"
    and storable_read: "storable x \<Longrightarrow> storable (rd (wr x))"
begin

definition rewrite :: "'a \<Rightarrow> 'a" where
  "rewrite x = rd (wr x)"

lemma rewrite_many: "storable x \<Longrightarrow> storable ((rewrite ^^ n) x) \<and> key ((rewrite ^^ n) x) = key x"
  by (induction n) (auto simp: rewrite_def read_write storable_read)

lemma read_eq_iff:
  "storable x \<Longrightarrow> storable y \<Longrightarrow> key (rd (wr x)) = key (rd (wr y)) \<longleftrightarrow> key x = key y"
  by (simp add: read_write)

lemma write_separates: "storable x \<Longrightarrow> storable y \<Longrightarrow> wr x = wr y \<Longrightarrow> key x = key y"
  by (metis read_write)

end

definition regions_text :: "string list \<Rightarrow> string" where
  "regions_text rs = RegionsJSON (HealthyIncidentEvaluation \<lparr>AffectedRegions := rs\<rparr>)"

definition breakdown_text :: "(string, string list) gomap \<Rightarrow> string" where
  "breakdown_text m = FailureReasonsJSON (HealthyIncidentEvaluation \<lparr>FailureReasonsBreakdown := m\<rparr>)"

lemma RegionsJSON_text: "RegionsJSON e = regions_text (AffectedRegions e)"
  by (simp add: RegionsJSON_def regions_text_def)

lemma FailureReasonsJSON_text: "FailureReasonsJSON e = breakdown_text (FailureReasonsBreakdown e)"
  by (simp add: FailureReasonsJSON_def breakdown_text_def)

definition breakdown_storable :: "(string, string list) gomap \<Rightarrow> bool" where
  "breakdown_storable m =
     (gm_wf m \<and> list_all (\<lambda>kv. valid_utf8 (fst kv) \<and> list_all valid_utf8 (snd kv)) m)"

lemma trim_enc_strings [simp]: "trim_space (enc_strings xs) = enc_strings xs"
  unfolding enc_strings_def using trim_space_brackets [of "CHR ''[''" "CHR '']''"]
  by (simp add: space_head_byte_def space_last_byte_def space_encodings_def)

lemma trim_enc_map [simp]: "trim_space (enc_map m) = enc_map m"
  unfolding enc_map_def using trim_space_brackets [of "CHR ''{''" "CHR ''}''"]
  by (simp add: space_head_byte_def space_last_byte_def space_encodings_def)

lemma trim_null [simp]: "trim_space ''null'' = ''null''"
  using trim_space_brackets [of "CHR ''n''" "CHR ''l''" "''ul''"]
  by (simp add: space_head_byte_def space_last_byte_def space_encodings_def)

lemma ParseRegionsJSON_text:
  assumes "list_all valid_utf8 rs"
  shows "ParseRegionsJSON (regions_text rs) = sort rs"
proof (cases "rs = []")
  case True
  then show ?thesis
    by (simp add: regions_text_def RegionsJSON_def ParseRegionsJSON_def HealthyIncidentEvaluation_def Let_def)
next
  case False
  have "list_all valid_utf8 (sort rs)"
    using assms by (simp add: list_all_iff)
  then obtain j where "parse_json (enc_strings (sort rs)) = Some j" "as_strings j = Some (Some (sort rs))"
    using decode_enc_strings by fastforce
  moreover have "sort rs \<noteq> []" "enc_strings (sort rs) \<noteq> ''null''" "enc_strings (sort rs) \<noteq> []"
    using False by (simp_all add: enc_strings_def) (metis length_0_conv length_sort)
  ultimately show ?thesis
    by (simp add: regions_text_def RegionsJSON_def ParseRegionsJSON_def HealthyIncidentEvaluation_def Let_def)
qed

lemma ParseFailureReasonsJSON_text:
  assumes "breakdown_storable m"
  shows "ParseFailureReasonsJSON (breakdown_text m) = sort_key fst m"
proof (cases "m = []")
  case True
  have "trim_space ''{}'' = ''{}''"
    using trim_enc_map [of "[]"] by (simp add: enc_map_def)
  with True show ?thesis
    by (simp add: breakdown_text_def FailureReasonsJSON_def ParseFailureReasonsJSON_def
        HealthyIncidentEvaluation_def Let_def)
next
  case False
  obtain j where j: "parse_json (enc_map m) = Some j" "as_strings_map j = Some (Some (sort_key fst m))"
    using decode_enc_map [of m] assms by (auto simp: breakdown_storable_def list_all_iff)
  have "length (join (map enc_member (sort_key fst m)) '','') \<noteq> 0"
    using length_enc_members [of "sort_key fst m"] False
    by (cases "sort_key fst m") (auto simp: members_need_def, metis length_0_conv length_sort list.size(3))
  then have "enc_map m \<noteq> ''{}''" "enc_map m \<noteq> ''null''" "enc_map m \<noteq> []"
    by (auto simp: enc_map_def)
  then show ?thesis
    using False j
    by (simp add: breakdown_text_def FailureReasonsJSON_def ParseFailureReasonsJSON_def
        HealthyIncidentEvaluation_def Let_def)
qed

interpretation regions_column: text_column regions_text ParseRegionsJSON "list_all valid_utf8" mset
  by unfold_locales (simp_all add: ParseRegionsJSON_text list_all_iff)

lemma breakdown_of_sort: "gm_wf m \<Longrightarrow> breakdown_of (sort_key fst m) = breakdown_of m"
  unfolding breakdown_of_def by (rule ext) (simp add: map_of_perm [of "sort_key fst m" m] gm_wf_perm [of "sort_key fst m" m])

interpretation breakdown_column:
  text_column breakdown_text ParseFailureReasonsJSON breakdown_storable breakdown_of
proof
  fix m assume m: "breakdown_storable m"
  then have wf: "gm_wf m" by (simp add: breakdown_storable_def)
  show "breakdown_of (ParseFailureReasonsJSON (breakdown_text m)) = breakdown_of m"
    using m wf by (simp add: ParseFailureReasonsJSON_text breakdown_of_sort)
  show "breakdown_storable (ParseFailureReasonsJSON (breakdown_text m))"
    using m wf gm_wf_perm [of "sort_key fst m" m]
    by (simp add: ParseFailureReasonsJSON_text breakdown_storable_def list_all_iff)
qed

text \<open>An evaluation as it is stored in \<open>monitor_incident_state\<close> and read back.\<close>

definition evaluation_storable :: "IncidentEvaluation \<Rightarrow> bool" where
  "evaluation_storable e =
     (list_all valid_utf8 (AffectedRegions e) \<and> breakdown_storable (FailureReasonsBreakdown e))"

lemma evaluation_storable_wf: "evaluation_storable e \<Longrightarrow> evaluation_wf e"
  by (simp add: evaluation_storable_def evaluation_wf_def breakdown_storable_def)

definition evaluation_reload :: "IncidentEvaluation \<Rightarrow> IncidentEvaluation" where
  "evaluation_reload e =
     e \<lparr>AffectedRegions := ParseRegionsJSON (RegionsJSON e),
        FailureReasonsBreakdown := ParseFailureReasonsJSON (FailureReasonsJSON e)\<rparr>"

lemma evaluation_reload_storable: "evaluation_storable e \<Longrightarrow> evaluation_storable (evaluation_reload e)"
  by (simp add: evaluation_storable_def evaluation_reload_def RegionsJSON_text FailureReasonsJSON_text
      regions_column.storable_read breakdown_column.storable_read)

lemma evaluation_reload_key: "evaluation_storable e \<Longrightarrow> evaluation_key (evaluation_reload e) = evaluation_key e"
  by (simp add: evaluation_storable_def evaluation_reload_def evaluation_key_def RegionsJSON_text
      FailureReasonsJSON_text regions_column.read_write breakdown_column.read_write)

section \<open>Properties\<close>

text \<open>
  Two evaluations are equal exactly when status, scope and reason agree, the affected regions
  agree as multisets and the two breakdowns have the same categories, each with the same
  multiset of regions. In particular the comparison is symmetric and transitive, and does not
  depend on the order in which Go visits the maps.
\<close>

theorem evaluation_equality:
  assumes "gm_wf (FailureReasonsBreakdown e)" and "gm_wf (FailureReasonsBreakdown f)"
  shows "evaluation_Equal e f \<longleftrightarrow>
     Status e = Status f \<and> Scope e = Scope f \<and> Reason e = Reason f \<and>
     mset (AffectedRegions e) = mset (AffectedRegions f) \<and>
     (\<lambda>c. map_option mset (map_of (FailureReasonsBreakdown e) c)) =
     (\<lambda>c. map_option mset (map_of (FailureReasonsBreakdown f) c))"
proof -
  have "breakdown_of m = (\<lambda>c. map_option mset (map_of m c))" for m
    by (simp add: fun_eq_iff breakdown_of_def)
  then show ?thesis
    using evaluation_Equal_key [of e f] assms by (simp add: evaluation_wf_def evaluation_key_def)
qed

theorem evaluation_equality_witness:
  "evaluation_Equal
     (HealthyIncidentEvaluation\<lparr>AffectedRegions := [''us'', ''eu''], FailureReasonsBreakdown := [(''a'', [''x'']), (''b'', [])]\<rparr>)
     (HealthyIncidentEvaluation\<lparr>AffectedRegions := [''eu'', ''us''], FailureReasonsBreakdown := [(''b'', []), (''a'', [''x''])]\<rparr>)"
proof -
  let ?e = "HealthyIncidentEvaluation\<lparr>AffectedRegions := [''us'', ''eu''],
      FailureReasonsBreakdown := [(''a'', [''x'']), (''b'', [])]\<rparr>"
  let ?f = "HealthyIncidentEvaluation\<lparr>AffectedRegions := [''eu'', ''us''],
      FailureReasonsBreakdown := [(''b'', []), (''a'', [''x''])]\<rparr>"
  have "gm_wf (FailureReasonsBreakdown ?e)" "gm_wf (FailureReasonsBreakdown ?f)"
    by (simp_all add: gm_wf_def)
  from evaluation_equality [OF this] show ?thesis
    by (simp add: fun_eq_iff)
qed

text \<open>
  The column \<open>affected_regions\<close> reads back as the sorted list of the regions that were
  written, whatever bytes of valid UTF-8 their names are made of (quotes, control characters,
  line separators), the empty list included, which is written as \<open>null\<close>.
\<close>

theorem regions_round_trip:
  assumes "list_all valid_utf8 (AffectedRegions e)"
  shows "ParseRegionsJSON (RegionsJSON e) = sort (AffectedRegions e)"
  using ParseRegionsJSON_text [OF assms] by (simp add: RegionsJSON_text)

theorem regions_round_trip_witness:
  "ParseRegionsJSON (RegionsJSON (HealthyIncidentEvaluation\<lparr>AffectedRegions := [''us'', ''a\<newline>b'', []]\<rparr>)) =
     [[], ''a\<newline>b'', ''us'']"
proof -
  have "sort [''us'', ''a\<newline>b'', []] = [[], ''a\<newline>b'', ''us'']"
    by code_simp
  moreover have "list_all valid_utf8 (AffectedRegions (HealthyIncidentEvaluation\<lparr>AffectedRegions := [''us'', ''a\<newline>b'', []]\<rparr>))"
    by (simp add: valid_utf8_ascii is_ascii_def)
  ultimately show ?thesis
    using regions_round_trip [of "HealthyIncidentEvaluation\<lparr>AffectedRegions := [''us'', ''a\<newline>b'', []]\<rparr>"] by simp
qed

text \<open>
  The column \<open>failure_reasons_json\<close> reads back as the map that was written, with its
  categories in sorted order and the list of regions of each unchanged.
\<close>

theorem failure_reasons_round_trip:
  assumes "gm_wf (FailureReasonsBreakdown e)"
    and "list_all (\<lambda>kv. valid_utf8 (fst kv) \<and> list_all valid_utf8 (snd kv)) (FailureReasonsBreakdown e)"
  shows "ParseFailureReasonsJSON (FailureReasonsJSON e) = sort_key fst (FailureReasonsBreakdown e) \<and>
     map_of (ParseFailureReasonsJSON (FailureReasonsJSON e)) = map_of (FailureReasonsBreakdown e)"
proof -
  let ?m = "FailureReasonsBreakdown e"
  have "map_of (sort_key fst ?m) = map_of ?m"
    using gm_wf_perm [of "sort_key fst ?m" ?m] assms(1) by (intro map_of_perm) simp_all
  then show ?thesis
    using ParseFailureReasonsJSON_text [of ?m] assms by (simp add: FailureReasonsJSON_text breakdown_storable_def)
qed

theorem failure_reasons_round_trip_witness:
  "map_of (ParseFailureReasonsJSON (FailureReasonsJSON
      (HealthyIncidentEvaluation\<lparr>FailureReasonsBreakdown := [(''timeout'', [''us'', ''eu'']), (''dns_error'', [])]\<rparr>)))
    ''timeout'' = Some [''us'', ''eu'']"
proof -
  let ?e = "HealthyIncidentEvaluation\<lparr>FailureReasonsBreakdown := [(''timeout'', [''us'', ''eu'']), (''dns_error'', [])]\<rparr>"
  have "gm_wf (FailureReasonsBreakdown ?e)"
    "list_all (\<lambda>kv. valid_utf8 (fst kv) \<and> list_all valid_utf8 (snd kv)) (FailureReasonsBreakdown ?e)"
    by (simp_all add: gm_wf_def valid_utf8_ascii is_ascii_def)
  from failure_reasons_round_trip [OF this] show ?thesis
    by simp
qed

end
