(* ===== verification/Tables.thy ===== *)
theory Tables
  imports Incident
begin

text \<open>
  \<open>monitor_historical.go\<close> and the tables of the DuckDB database (\<open>migrations/\<close>): one record
  type per table row, the database as a record of tables, and the statements shared by
  several components. A nullable column is an option.

  A time stamp is stored with microseconds. The driver hands every time stamp back in UTC, so
  that Go's \<open>==\<close> on the stored times, which the program uses them as map keys with, is
  equality of instants.
\<close>

section \<open>Rows\<close>

record MonitorHistorical =
  hist_MonitorID :: string
  hist_Region :: string
  hist_ProbeType :: string
  hist_Success :: bool
  hist_FailureReason :: "string option"
  hist_StatusCode :: int
  hist_LatencyMs :: int
  hist_ResponseBody :: "string option"
  hist_TlsVersion :: "string option"
  hist_TlsCipher :: "string option"
  hist_TlsExpiry :: "gotime option"
  hist_TlsCertNotBefore :: "gotime option"
  hist_TlsCertIssuer :: "string option"
  hist_TlsCertSubject :: "string option"
  hist_TlsCertDN :: "string option"
  hist_TlsCertFingerprint :: "string option"
  hist_TlsCertIsExpired :: bool
  hist_TimingConnAcquiredMs :: "int option"
  hist_TimingFirstResponseByteMs :: "int option"
  hist_TimingDNSLookupStartMs :: "int option"
  hist_TimingDNSLookupDoneMs :: "int option"
  hist_TimingTLSHandshakeStartMs :: "int option"
  hist_TimingTLSHandshakeDoneMs :: "int option"
  hist_CreatedAt :: gotime

record MonitorHistoricalDailyAggregate =
  daily_MonitorID :: string
  daily_Date :: int
  daily_AvgLatencyMs :: int
  daily_MinLatencyMs :: int
  daily_MaxLatencyMs :: int
  daily_SuccessRate :: int

record MonitorHistoricalRegionDailyAggregate =
  region_MonitorID :: string
  region_Region :: string
  region_Date :: int
  region_AvgLatencyMs :: int
  region_MinLatencyMs :: int
  region_MaxLatencyMs :: int
  region_SuccessRate :: int

record MonitorIncidentState =
  state_MonitorID :: string
  state_Status :: string
  state_Scope :: string
  state_AffectedRegions :: string
  state_Reason :: string
  state_FailureReasonsJson :: "string option"
  state_LastTransitionAt :: gotime
  state_UpdatedAt :: gotime

record MonitorIncident =
  inc_ID :: string
  inc_MonitorID :: string
  inc_Source :: string
  inc_LifecycleState :: string
  inc_AutoImpact :: string
  inc_Impact :: string
  inc_AutoTitle :: string
  inc_AutoBody :: string
  inc_Title :: string
  inc_Body :: string
  inc_Status :: string
  inc_Scope :: string
  inc_AffectedRegions :: string
  inc_StartedAt :: gotime
  inc_ResolvedAt :: "gotime option"
  inc_CreatedAt :: gotime
  inc_UpdatedAt :: gotime

record MonitorIncidentEvent =
  ev_ID :: string
  ev_IncidentID :: string
  ev_MonitorID :: string
  ev_EventType :: string
  ev_Source :: string
  ev_LifecycleState :: string
  ev_Impact :: string
  ev_Title :: string
  ev_Body :: string
  ev_Status :: string
  ev_Scope :: string
  ev_AffectedRegions :: string
  ev_CreatedAt :: gotime

text \<open>
  A row of \<open>monitor_incidents\<close> has one column more than the struct: \<open>failure_reasons_json\<close>.
\<close>

type_synonym incident_row = "MonitorIncident \<times> string option"

record database =
  tbl_historical :: "MonitorHistorical list"
  tbl_daily :: "MonitorHistoricalDailyAggregate list"
  tbl_region_daily :: "MonitorHistoricalRegionDailyAggregate list"
  tbl_state :: "MonitorIncidentState list"
  tbl_incidents :: "incident_row list"
  tbl_events :: "MonitorIncidentEvent list"

definition empty_db :: database where
  "empty_db = \<lparr>tbl_historical = [], tbl_daily = [], tbl_region_daily = [], tbl_state = [],
     tbl_incidents = [], tbl_events = []\<rparr>"

text \<open>What the ingester and the cleanup worker leave alone: the tables of the processor.\<close>

definition same_incidents :: "database \<Rightarrow> database \<Rightarrow> bool" where
  "same_incidents db db' =
     (tbl_state db' = tbl_state db \<and> tbl_incidents db' = tbl_incidents db \<and> tbl_events db' = tbl_events db)"

section \<open>Statements\<close>

text \<open>A \<open>TIMESTAMPTZ\<close> keeps whole microseconds.\<close>

definition timestamptz :: "gotime \<Rightarrow> gotime" where
  "timestamptz t = t div 1000 * 1000"

lemma timestamptz_idem [simp]: "timestamptz (timestamptz t) = timestamptz t"
  by (simp add: timestamptz_def)

lemma timestamptz_mono: "t \<le> u \<Longrightarrow> timestamptz t \<le> timestamptz u"
  by (simp add: timestamptz_def zdiv_mono1)

lemma timestamptz_le: "timestamptz t \<le> t"
  using pos_mod_sign [of 1000 t] by (simp add: timestamptz_def minus_mod_eq_div_mult [symmetric])

text \<open>
  \<open>INSERT\<close> into a table with a primary key: a second row with the key of an existing one is
  rejected, \<open>INSERT ... ON CONFLICT DO UPDATE\<close> of every other column replaces it.
\<close>

definition insert_row :: "('r \<Rightarrow> 'k) \<Rightarrow> 'r \<Rightarrow> 'r list \<Rightarrow> 'r list result" where
  "insert_row pk r rows =
     (if pk r \<in> set (map pk rows) then Inl ''Constraint Error: Duplicate key'' else Inr (rows @ [r]))"

definition upsert_row :: "('r \<Rightarrow> 'k) \<Rightarrow> 'r \<Rightarrow> 'r list \<Rightarrow> 'r list" where
  "upsert_row pk r rows =
     (if pk r \<in> set (map pk rows) then map (\<lambda>x. if pk x = pk r then r else x) rows else rows @ [r])"

lemma insert_row_distinct:
  "distinct (map pk rows) \<Longrightarrow> insert_row pk r rows = Inr rows' \<Longrightarrow> distinct (map pk rows')"
  by (auto simp: insert_row_def split: if_splits)

lemma upsert_row_keys: "set (map pk (upsert_row pk r rows)) = insert (pk r) (set (map pk rows))"
  by (auto simp: upsert_row_def image_iff)

lemma upsert_row_distinct:
  assumes "distinct (map pk rows)"
  shows "distinct (map pk (upsert_row pk r rows))"
proof -
  have "map pk (map (\<lambda>x. if pk x = pk r then r else x) rows) = map pk rows"
    by (induction rows) auto
  then show ?thesis
    using assms by (auto simp: upsert_row_def simp del: map_map map_eq_conv)
qed

lemma map_replace_id: "k \<notin> pk ` set rows \<Longrightarrow> map (\<lambda>x. if pk x = k then r else x) rows = rows"
  by (induction rows) auto

lemma upsert_row_find:
  "List.find (\<lambda>x. pk x = k) (upsert_row pk r rows) =
     (if k = pk r then Some r else List.find (\<lambda>x. pk x = k) rows)"
proof (induction rows)
  case Nil
  then show ?case by (simp add: upsert_row_def)
next
  case (Cons x rows)
  then show ?case
    by (cases "pk r \<in> set (map pk rows)") (auto simp: upsert_row_def find_None map_replace_id)
qed

lemma upsert_row_other: "x \<in> set (upsert_row pk r rows) \<Longrightarrow> x \<noteq> r \<Longrightarrow> x \<in> set rows"
  by (auto simp: upsert_row_def split: if_splits)

lemma upsert_row_in: "r \<in> set (upsert_row pk r rows)"
  by (auto simp: upsert_row_def image_iff)

text \<open>Upserting the same row twice is upserting it once.\<close>

lemma upsert_row_twice [simp]: "upsert_row pk r (upsert_row pk r rows) = upsert_row pk r rows"
  using upsert_row_in [of r pk rows]
  by (auto simp: upsert_row_def map_replace_id)

end
