(* ===== verification/Failure_Reason.thy ===== *)
theory Failure_Reason
  imports Go_Strings
begin

text \<open>
  \<open>failure_reason.go\<close>: the category of a raw failure message, by the first list of patterns
  that has a match, and the display name of a category.
\<close>

section \<open>Categories\<close>

definition FailureReasonNetworkUnreachable :: string where
  "FailureReasonNetworkUnreachable = ''network_unreachable''"
definition FailureReasonConnectionRefused :: string where
  "FailureReasonConnectionRefused = ''connection_refused''"
definition FailureReasonTimeout :: string where
  "FailureReasonTimeout = ''timeout''"
definition FailureReasonTLSError :: string where
  "FailureReasonTLSError = ''tls_error''"
definition FailureReasonAuthError :: string where
  "FailureReasonAuthError = ''auth_error''"
definition FailureReasonDNSError :: string where
  "FailureReasonDNSError = ''dns_error''"
definition FailureReasonHTTPError :: string where
  "FailureReasonHTTPError = ''http_error''"
definition FailureReasonGeneric :: string where
  "FailureReasonGeneric = ''generic_error''"

lemmas failure_reasons =
  FailureReasonNetworkUnreachable_def FailureReasonConnectionRefused_def
  FailureReasonTimeout_def FailureReasonTLSError_def FailureReasonAuthError_def
  FailureReasonDNSError_def FailureReasonHTTPError_def FailureReasonGeneric_def

definition network_patterns :: "string list" where
  "network_patterns =
     [''unreachable'', ''no route to host'', ''network is unreachable'', ''host unreachable'']"

definition refused_patterns :: "string list" where
  "refused_patterns =
     [''connection refused'', ''econnrefused'', ''connection reset'', ''port not open'']"

definition timeout_patterns :: "string list" where
  "timeout_patterns =
     [''timeout'', ''context deadline exceeded'', ''dial timeout'', ''read timeout'',
      ''write timeout'', ''i/o timeout'']"

definition tls_patterns :: "string list" where
  "tls_patterns =
     [''tls'', ''certificate'', ''cert'', ''ssl'', ''expired'', ''x509'', ''handshake'']"

definition auth_patterns :: "string list" where
  "auth_patterns =
     [''invalid credentials'', ''auth'', ''permission denied'', ''unauthorized'',
      ''access denied'', ''forbidden'', ''401'', ''403'']"

definition dns_patterns :: "string list" where
  "dns_patterns = [''dns'', ''lookup'', ''name resolution'', ''getaddrinfo'']"

definition http_patterns :: "string list" where
  "http_patterns = [''http'', ''status code'', ''4xx'', ''5xx'']"

definition CategorizeFailureReason :: "string \<Rightarrow> string" where
  "CategorizeFailureReason reason =
     (if reason = [] then FailureReasonGeneric
      else let lowerReason = to_lower reason in
        if contains_any lowerReason network_patterns then FailureReasonNetworkUnreachable
        else if contains_any lowerReason refused_patterns then FailureReasonConnectionRefused
        else if contains_any lowerReason timeout_patterns then FailureReasonTimeout
        else if contains_any lowerReason tls_patterns then FailureReasonTLSError
        else if contains_any lowerReason auth_patterns then FailureReasonAuthError
        else if contains_any lowerReason dns_patterns then FailureReasonDNSError
        else if contains_any lowerReason http_patterns then FailureReasonHTTPError
        else FailureReasonGeneric)"

definition FriendlyFailureReasonName :: "string \<Rightarrow> string" where
  "FriendlyFailureReasonName category =
     (if category = FailureReasonNetworkUnreachable then ''Network Unreachable''
      else if category = FailureReasonConnectionRefused then ''Connection Refused''
      else if category = FailureReasonTimeout then ''Timeout''
      else if category = FailureReasonTLSError then ''TLS/Certificate Error''
      else if category = FailureReasonAuthError then ''Authentication Error''
      else if category = FailureReasonDNSError then ''DNS Error''
      else if category = FailureReasonHTTPError then ''HTTP Error''
      else if category = FailureReasonGeneric then ''Generic Error''
      else ''Unknown Error'')"

section \<open>The categories as an ordered table\<close>

text \<open>
  The chain of tests is a table of pattern lists searched in order: the category is the
  first row's with a pattern in the lowered message.
\<close>

definition category_table :: "(string \<times> string list) list" where
  "category_table =
     [(FailureReasonNetworkUnreachable, network_patterns),
      (FailureReasonConnectionRefused, refused_patterns),
      (FailureReasonTimeout, timeout_patterns),
      (FailureReasonTLSError, tls_patterns),
      (FailureReasonAuthError, auth_patterns),
      (FailureReasonDNSError, dns_patterns),
      (FailureReasonHTTPError, http_patterns)]"

lemma CategorizeFailureReason_table:
  "CategorizeFailureReason reason =
     (if reason = [] then FailureReasonGeneric
      else case List.find (\<lambda>(_, pats). contains_any (to_lower reason) pats) category_table of
             Some (c, _) \<Rightarrow> c | None \<Rightarrow> FailureReasonGeneric)"
  by (simp add: CategorizeFailureReason_def category_table_def Let_def)

lemma category_known:
  "CategorizeFailureReason reason \<in> set (FailureReasonGeneric # map fst category_table)"
  by (simp add: CategorizeFailureReason_def category_table_def Let_def)

text \<open>
  Rows of one table whose patterns contain other patterns of the same row add nothing: the
  shorter pattern already matches.
\<close>

lemma contains_any_drop_redundant:
  "p \<in> set pats \<Longrightarrow> contains q p \<Longrightarrow> contains_any s (q # pats) = contains_any s pats"
  unfolding contains_any_iff contains_def
  using sublist_order.order_trans by (metis list.set_intros(2) set_ConsD)

section \<open>Properties\<close>

text \<open>
  The category of a failure message is that of the first row of the table, in the order of
  the code, one of whose patterns occurs in the lowered message; without such a row, or for an
  empty message, it is the generic one. Every category has a display name of its own.
\<close>

theorem category_is_first_match:
  "CategorizeFailureReason reason =
     (if reason = [] then FailureReasonGeneric
      else case List.find (\<lambda>(c, pats). \<exists>p \<in> set pats. \<exists>u v. to_lower reason = u @ p @ v) category_table of
             Some (c, pats) \<Rightarrow> c | None \<Rightarrow> FailureReasonGeneric) \<and>
   FriendlyFailureReasonName (CategorizeFailureReason reason) \<noteq> ''Unknown Error'' \<and>
   distinct (map FriendlyFailureReasonName (FailureReasonGeneric # map fst category_table))"
proof -
  have "FriendlyFailureReasonName c \<noteq> ''Unknown Error''"
    if "c \<in> set (FailureReasonGeneric # map fst category_table)" for c
    using that by (auto simp: category_table_def FriendlyFailureReasonName_def failure_reasons)
  moreover have "(\<lambda>(c :: string, pats). \<exists>p \<in> set pats. \<exists>u v. to_lower reason = u @ p @ v) =
      (\<lambda>(_, pats). contains_any (to_lower reason) pats)"
    by (simp add: contains_any_iff contains_def sublist_def fun_eq_iff)
  moreover have "distinct (map FriendlyFailureReasonName (FailureReasonGeneric # map fst category_table))"
    by (simp add: category_table_def FriendlyFailureReasonName_def failure_reasons)
  ultimately show ?thesis
    using category_known CategorizeFailureReason_table by (simp only: simp_thms split: option.split prod.split)
qed

end
