(* ===== verification/Go_Float.thy ===== *)
theory Go_Float
  imports Complex_Main
begin

text \<open>
  \<open>float64\<close> arithmetic on finite values: a value is the rational it stands for, and every
  operation rounds its exact result to the nearest value with 53 significant bits, ties to
  the even one, as IEEE 754 prescribes. No quotient or product of the program leaves the
  range of finite values, so infinities and NaN are not represented.
\<close>

section \<open>Powers of two\<close>

definition pow2 :: "int \<Rightarrow> rat" where
  "pow2 e = (if 0 \<le> e then 2 ^ nat e else 1 / 2 ^ nat (- e))"

lemma pow2_pos [simp]: "0 < pow2 e"
  by (simp add: pow2_def)

lemma pow2_nz [simp]: "pow2 e \<noteq> 0"
  using pow2_pos [of e] by linarith

lemma pow2_powi: "pow2 e = 2 powi e"
  by (cases "0 \<le> e") (simp_all add: pow2_def power_int_def field_simps)

lemma pow2_add: "pow2 (a + b) = pow2 a * pow2 b"
  by (simp add: pow2_powi power_int_add)

lemma pow2_mono: "a \<le> b \<Longrightarrow> pow2 a \<le> pow2 b"
  by (simp add: pow2_powi power_int_increasing)

lemma pow2_quot_int: "b \<le> a \<Longrightarrow> pow2 a / pow2 b = of_int (2 ^ nat (a - b))"
proof -
  assume "b \<le> a"
  then have "pow2 a = pow2 (a - b) * pow2 b"
    by (simp add: pow2_add [symmetric])
  then show ?thesis
    using \<open>b \<le> a\<close> by (simp add: pow2_def)
qed

section \<open>The binary exponent\<close>

fun ilog2 :: "nat \<Rightarrow> nat" where
  "ilog2 n = (if n < 2 then 0 else Suc (ilog2 (n div 2)))"

declare ilog2.simps [simp del]

lemma ilog2_bounds: "0 < n \<Longrightarrow> 2 ^ ilog2 n \<le> n \<and> n < 2 ^ Suc (ilog2 n)"
proof (induction n rule: ilog2.induct)
  case (1 n)
  show ?case
  proof (cases "n < 2")
    case True
    with 1 show ?thesis by (simp add: ilog2.simps [of n])
  next
    case False
    with 1 have "2 ^ ilog2 (n div 2) \<le> n div 2 \<and> n div 2 < 2 ^ Suc (ilog2 (n div 2))"
      by simp
    with False show ?thesis
      by (auto simp: ilog2.simps [of n])
  qed
qed

definition exponent2 :: "rat \<Rightarrow> int" where
  "exponent2 x =
     (case quotient_of x of (p, q) \<Rightarrow>
        let k = int (ilog2 (nat p)) - int (ilog2 (nat q))
        in if pow2 k \<le> x then k else k - 1)"

lemma exponent2_bounds:
  assumes "0 < x"
  shows "pow2 (exponent2 x) \<le> x \<and> x < pow2 (exponent2 x + 1)"
proof -
  obtain p q where pq: "quotient_of x = (p, q)" by (cases "quotient_of x")
  have x: "x = of_int p / of_int q" and q: "0 < q"
    using pq quotient_of_div quotient_of_denom_pos by blast+
  with assms have p: "0 < p"
    by (simp add: zero_less_divide_iff)
  define a where "a = ilog2 (nat p)"
  define b where "b = ilog2 (nat q)"
  have "(2::int) ^ a \<le> p \<and> p < 2 ^ Suc a"
    using ilog2_bounds [of "nat p"] p unfolding a_def
    by (metis (no_types, lifting) int_nat_eq less_imp_le nat_power_eq_Suc_0_iff of_nat_le_iff
        of_nat_less_iff of_nat_numeral of_nat_power zero_less_nat_eq)
  moreover have "(2::int) ^ b \<le> q \<and> q < 2 ^ Suc b"
    using ilog2_bounds [of "nat q"] q unfolding b_def
    by (metis (no_types, lifting) int_nat_eq less_imp_le nat_power_eq_Suc_0_iff of_nat_le_iff
        of_nat_less_iff of_nat_numeral of_nat_power zero_less_nat_eq)
  ultimately have P: "(2::rat) ^ a \<le> of_int p" "of_int p < (2::rat) ^ Suc a"
    and Q: "(2::rat) ^ b \<le> of_int q" "of_int q < (2::rat) ^ Suc b"
    by (metis of_int_le_iff of_int_less_iff of_int_numeral of_int_power)+
  let ?k = "int a - int b"
  have pa: "pow2 (int n) = 2 ^ n" for n
    by (simp add: pow2_def)
  have lower: "pow2 (?k - 1) \<le> x"
  proof -
    have "pow2 (?k - 1) * 2 ^ Suc b = 2 ^ a"
      using pow2_add [of "?k - 1" "int (Suc b)"] pa [of a] pa [of "Suc b"] by simp
    then have "pow2 (?k - 1) = 2 ^ a / 2 ^ Suc b"
      by (simp add: field_simps)
    also have "\<dots> \<le> of_int p / of_int q"
      using P Q q p by (intro frac_le) simp_all
    finally show ?thesis by (simp add: x)
  qed
  have upper: "x < pow2 (?k + 1)"
  proof -
    have "pow2 (?k + 1) * 2 ^ b = 2 ^ Suc a"
      using pow2_add [of "?k + 1" "int b"] pa [of b] pa [of "Suc a"] by (simp add: algebra_simps)
    then have "pow2 (?k + 1) = 2 ^ Suc a / 2 ^ b"
      by (simp add: field_simps)
    moreover have "of_int p / of_int q < (2::rat) ^ Suc a / 2 ^ b"
      using P Q q p by (intro frac_less) simp_all
    ultimately show ?thesis by (simp add: x)
  qed
  show ?thesis
    using lower upper pq by (simp add: exponent2_def Let_def a_def [symmetric] b_def [symmetric])
qed

lemma pow2_less_cancel: "pow2 a < pow2 b \<Longrightarrow> a < b"
  using pow2_mono [of b a] by (meson leD not_le_imp_less)

lemma exponent2_mono: "0 < x \<Longrightarrow> x \<le> y \<Longrightarrow> exponent2 x \<le> exponent2 y"
proof -
  assume "0 < x" and "x \<le> y"
  then have "pow2 (exponent2 x) < pow2 (exponent2 y + 1)"
    using exponent2_bounds [of x] exponent2_bounds [of y] by linarith
  then show ?thesis
    using pow2_less_cancel by fastforce
qed

section \<open>Rounding\<close>

definition round_half_even :: "rat \<Rightarrow> int" where
  "round_half_even y =
     (let f = \<lfloor>y\<rfloor>; r = y - of_int f
      in if r < 1 / 2 \<or> (r = 1 / 2 \<and> even f) then f else f + 1)"

lemma round_half_even_int [simp]: "round_half_even (of_int n) = n"
  by (simp add: round_half_even_def)

lemma round_half_even_cases: "round_half_even y = \<lfloor>y\<rfloor> \<or> round_half_even y = \<lfloor>y\<rfloor> + 1"
  by (simp add: round_half_even_def Let_def)

lemma round_half_even_mono: "x \<le> y \<Longrightarrow> round_half_even x \<le> round_half_even y"
proof -
  assume xy: "x \<le> y"
  then have "\<lfloor>x\<rfloor> \<le> \<lfloor>y\<rfloor>"
    by (rule floor_mono)
  then consider "\<lfloor>x\<rfloor> = \<lfloor>y\<rfloor>" | "\<lfloor>x\<rfloor> + 1 \<le> \<lfloor>y\<rfloor>"
    by linarith
  then show ?thesis
  proof cases
    case 1
    with xy show ?thesis
      by (auto simp: round_half_even_def Let_def)
  next
    case 2
    with round_half_even_cases [of x] round_half_even_cases [of y] show ?thesis
      by linarith
  qed
qed

lemma round_half_even_le_int: "x \<le> of_int n \<Longrightarrow> round_half_even x \<le> n"
  using round_half_even_mono [of x "of_int n"] by simp

lemma round_half_even_ge_int: "of_int n \<le> x \<Longrightarrow> n \<le> round_half_even x"
  using round_half_even_mono [of "of_int n" x] by simp

definition ulp_exponent :: "rat \<Rightarrow> int" where
  "ulp_exponent x = max (exponent2 x - 52) (- 1074)"

definition f64_pos :: "rat \<Rightarrow> rat" where
  "f64_pos x = of_int (round_half_even (x / pow2 (ulp_exponent x))) * pow2 (ulp_exponent x)"

definition f64 :: "rat \<Rightarrow> rat" where
  "f64 x = (if x = 0 then 0 else if 0 < x then f64_pos x else - f64_pos (- x))"

lemma f64_pos_nonneg: "0 < x \<Longrightarrow> 0 \<le> f64_pos x"
  unfolding f64_pos_def
  by (intro mult_nonneg_nonneg) (simp_all add: round_half_even_ge_int order.strict_implies_order)

lemma f64_pos_mono:
  assumes "0 < x" and "x \<le> y"
  shows "f64_pos x \<le> f64_pos y"
proof -
  let ?ex = "ulp_exponent x" and ?ey = "ulp_exponent y"
  have le: "?ex \<le> ?ey"
    using exponent2_mono [OF assms] by (simp add: ulp_exponent_def)
  show ?thesis
  proof (cases "?ex = ?ey")
    case True
    have "x / pow2 ?ex \<le> y / pow2 ?ex"
      using assms by (simp add: divide_right_mono order.strict_implies_order)
    then show ?thesis
      using True round_half_even_mono
      by (simp add: f64_pos_def mult_right_mono order.strict_implies_order)
  next
    case False
    let ?b = "exponent2 y"
    have ey: "?ey = ?b - 52" and exb: "?ex \<le> ?b" and "exponent2 x < ?b"
      using False le exponent2_mono [OF assms] by (auto simp: ulp_exponent_def max_def split: if_splits)
    then have eyb: "?ey \<le> ?b" by simp
    have "x \<le> pow2 ?b"
      using exponent2_bounds [OF assms(1)] pow2_mono [of "exponent2 x + 1" ?b] \<open>exponent2 x < ?b\<close>
      by linarith
    then have "x / pow2 ?ex \<le> of_int (2 ^ nat (?b - ?ex))"
      using pow2_quot_int [OF exb] by (metis divide_right_mono order.strict_implies_order pow2_pos)
    then have "f64_pos x \<le> of_int (2 ^ nat (?b - ?ex)) * pow2 ?ex"
      unfolding f64_pos_def
      by (intro mult_right_mono) (simp_all only: of_int_le_iff round_half_even_le_int
          pow2_pos order.strict_implies_order)
    also have "\<dots> = pow2 ?b"
      using pow2_quot_int [OF exb] by (simp only: nonzero_divide_eq_eq [OF pow2_nz])
    also have "\<dots> = of_int (2 ^ nat (?b - ?ey)) * pow2 ?ey"
      using pow2_quot_int [OF eyb] by (simp only: nonzero_divide_eq_eq [OF pow2_nz])
    also have "\<dots> \<le> f64_pos y"
    proof -
      have "of_int (2 ^ nat (?b - ?ey)) \<le> y / pow2 ?ey"
        unfolding pow2_quot_int [OF eyb, symmetric]
        using exponent2_bounds [of y] assms
        by (intro divide_right_mono) (simp_all add: order.strict_implies_order)
      then show ?thesis
        unfolding f64_pos_def
        by (intro mult_right_mono) (simp_all only: of_int_le_iff round_half_even_ge_int
            pow2_pos order.strict_implies_order)
    qed
    finally show ?thesis .
  qed
qed

lemma f64_mono: "x \<le> y \<Longrightarrow> f64 x \<le> f64 y"
proof -
  assume xy: "x \<le> y"
  consider "0 < x" | "x \<le> 0" "0 \<le> y" | "y < 0"
    by linarith
  then show ?thesis
  proof cases
    case 1
    with xy show ?thesis by (simp add: f64_def f64_pos_mono)
  next
    case 2
    then show ?thesis
      using f64_pos_nonneg [of y] f64_pos_nonneg [of "- x"] by (auto simp: f64_def)
  next
    case 3
    with xy f64_pos_mono [of "- y" "- x"] show ?thesis by (simp add: f64_def)
  qed
qed

lemma f64_0 [simp]: "f64 0 = 0"
  by (simp add: f64_def)

lemma f64_1 [simp]: "f64 1 = 1"
proof -
  have "exponent2 1 = 0"
    by (simp add: exponent2_def Let_def ilog2.simps pow2_def)
  then show ?thesis
    by (simp add: f64_def f64_pos_def ulp_exponent_def pow2_def round_half_even_def)
qed

text \<open>\<open>float64(n)\<close> of a count, and the quotient of two values.\<close>

definition f64_of_int :: "int \<Rightarrow> rat" where
  "f64_of_int n = f64 (of_int n)"

definition f64_div :: "rat \<Rightarrow> rat \<Rightarrow> rat" where
  "f64_div x y = f64 (x / y)"

definition f64_mul :: "rat \<Rightarrow> rat \<Rightarrow> rat" where
  "f64_mul x y = f64 (x * y)"

lemma f64_of_int_0 [simp]: "f64_of_int 0 = 0"
  by (simp add: f64_of_int_def)

lemma f64_of_int_mono: "a \<le> b \<Longrightarrow> f64_of_int a \<le> f64_of_int b"
  unfolding f64_of_int_def by (rule f64_mono) simp

lemma f64_of_int_ge_1: "1 \<le> n \<Longrightarrow> 1 \<le> f64_of_int n"
  using f64_of_int_mono [of 1 n] by (simp add: f64_of_int_def)

text \<open>A count below \<open>2 ^ 53\<close> is represented exactly.\<close>

lemma f64_of_int_exact:
  assumes "0 \<le> n" and "n < 2 ^ 53"
  shows "f64_of_int n = of_int n"
proof (cases "n = 0")
  case False
  let ?x = "of_int n :: rat" and ?u = "ulp_exponent (of_int n)"
  have x: "0 < ?x"
    using assms(1) False by simp
  have "pow2 (exponent2 ?x) \<le> ?x"
    using exponent2_bounds [OF x] by simp
  also have "?x < pow2 53"
  proof -
    have "?x < of_int (2 ^ 53)"
      using assms(2) by (simp only: of_int_less_iff)
    then show ?thesis by (simp add: pow2_def)
  qed
  finally have "?u \<le> 0"
    using pow2_less_cancel by (fastforce simp: ulp_exponent_def)
  then have u: "pow2 ?u = 1 / 2 ^ nat (- ?u)"
    by (auto simp: pow2_def)
  have "?x / pow2 ?u = of_int (n * 2 ^ nat (- ?u))"
    by (simp add: u)
  then have "f64_pos ?x = of_int (n * 2 ^ nat (- ?u)) * pow2 ?u"
    by (simp only: f64_pos_def round_half_even_int)
  then show ?thesis
    using x by (simp add: f64_of_int_def f64_def u)
qed simp

text \<open>The conversion \<open>int(x)\<close> drops the fraction.\<close>

definition truncate_f64 :: "rat \<Rightarrow> int" where
  "truncate_f64 x = (if x < 0 then \<lceil>x\<rceil> else \<lfloor>x\<rfloor>)"

text \<open>The quotient of two counts, as every rate of the program is computed.\<close>

definition rate :: "nat \<Rightarrow> nat \<Rightarrow> rat" where
  "rate a b = f64_div (f64_of_int (int a)) (f64_of_int (int b))"

lemma rate_0 [simp]: "rate 0 b = 0"
  by (simp add: rate_def f64_div_def)

lemma rate_self: "0 < b \<Longrightarrow> rate b b = 1"
  using f64_of_int_ge_1 [of "int b"] by (simp add: rate_def f64_div_def)

lemma rate_mono: "a \<le> a' \<Longrightarrow> 0 < b \<Longrightarrow> rate a b \<le> rate a' b"
  unfolding rate_def f64_div_def
  using f64_of_int_ge_1 [of "int b"] by (intro f64_mono divide_right_mono f64_of_int_mono) simp_all

lemma rate_nonneg: "0 < b \<Longrightarrow> 0 \<le> rate a b"
  using rate_mono [of 0 a b] by simp

lemma rate_le_1: "a \<le> b \<Longrightarrow> 0 < b \<Longrightarrow> rate a b \<le> 1"
  using rate_mono [of a b b] rate_self [of b] by simp

text \<open>A threshold in percent as a fraction.\<close>

definition percent :: "rat \<Rightarrow> rat" where
  "percent t = f64_div t 100"

lemma percent_le_1: "t \<le> 100 \<Longrightarrow> percent t \<le> 1"
  unfolding percent_def f64_div_def using f64_mono [of "t / 100" 1] by simp

lemma percent_nonneg: "0 \<le> t \<Longrightarrow> 0 \<le> percent t"
  unfolding percent_def f64_div_def using f64_mono [of 0 "t / 100"] by simp

end
