(* ===== verification/Config_Server.thy ===== *)
theory Config_Server
  imports Config_Monitor
begin

text \<open>
  \<open>config_server.go\<close> and \<open>config_checker.go\<close>: the configuration of the server, its
  validation, the lookup of the checker that owns a request's credentials, and the
  configuration of a checker. The error messages are values of a datatype with the same
  arguments as the format strings.
\<close>

section \<open>Data\<close>

record DatasetConfig =
  RetentionDays :: int
  CleanupIntervalMinutes :: int
  CleanupBatchSize :: int
  ProcessingLookbackMinutes :: int
  PerRegionFailureThresholdPercent :: rat
  FailureThresholdPercent :: rat
  DegradedThresholdMinutes :: int
  DegradedThresholdConsecutiveBuckets :: int
  FailureThresholdMinutes :: int

record WebhookAlertingConfig =
  webhook_Name :: string
  webhook_Enabled :: bool
  webhook_URL :: string
  webhook_HmacSecret :: string
  webhook_CustomHeaders :: "(string, string) gomap"

record SlackAlertingConfig =
  slack_Name :: string
  slack_Enabled :: bool
  slack_WebhookURL :: string

record DiscordAlertingConfig =
  discord_Name :: string
  discord_Enabled :: bool
  discord_WebhookURL :: string

record TeamsAlertingConfig =
  teams_Name :: string
  teams_Enabled :: bool
  teams_WebhookURL :: string

record NtfyAlertingConfig =
  ntfy_Name :: string
  ntfy_Enabled :: bool
  ntfy_TopicURL :: string
  ntfy_AccessToken :: string
  ntfy_Username :: string
  ntfy_Password :: string
  ntfy_SuppressWindowMinutes :: int
  ntfy_DigestIntervalMinutes :: int

record RegisteredChecker =
  checker_Name :: string
  checker_Region :: string
  checker_ApiKey :: string

definition EffectiveName :: "RegisteredChecker \<Rightarrow> string" where
  "EffectiveName c = (if checker_Name c \<noteq> [] then checker_Name c else checker_Region c)"

record DatabaseConfig =
  db_Path :: string
  db_ReadConcurrencyLimit :: int

record CacheRedisConfig =
  redis_cache_Address :: string
  redis_cache_Username :: string
  redis_cache_Password :: string
  redis_cache_DB :: int
  redis_cache_Prefix :: string
  redis_cache_TLS :: bool
  redis_cache_SkipTLSVerify :: bool

record CacheConfig =
  cache_Backend :: string
  cache_Redis :: CacheRedisConfig

record MetadataConfig =
  meta_Title :: string
  meta_ShowLastUpdated :: bool
  meta_FrontendDesign :: string

record AlertingConfig =
  alerting_Webhook :: "WebhookAlertingConfig list"
  alerting_Slack :: "SlackAlertingConfig list"
  alerting_Discord :: "DiscordAlertingConfig list"
  alerting_Teams :: "TeamsAlertingConfig list"
  alerting_Ntfy :: "NtfyAlertingConfig list"

record ServerConfig =
  sc_Metadata :: MetadataConfig
  sc_RegisteredCheckers :: "RegisteredChecker list"
  sc_Database :: DatabaseConfig
  sc_Cache :: CacheConfig
  sc_Dataset :: DatasetConfig
  sc_Alerting :: AlertingConfig

record CheckerConfig =
  cc_UpstreamURL :: string
  cc_Name :: string
  cc_Region :: string
  cc_ApiKey :: string

definition checker_config_EffectiveName :: "CheckerConfig \<Rightarrow> string" where
  "checker_config_EffectiveName c = (if cc_Name c \<noteq> [] then cc_Name c else cc_Region c)"

section \<open>Validation\<close>

datatype server_config_error =
    RegionRequired string
  | ApiKeyRequired string
  | DuplicateChecker string
  | DuplicateApiKey string
  | NegativeReadLimit
  | RedisAddressRequired
  | UnknownCacheBackend
  | AlertNameRequired string
  | DuplicateAlertName string string string
  | CleanupIntervalNotPositive
  | CleanupBatchSizeNotPositive
  | UnknownFrontendDesign

fun validate_checkers ::
    "string list \<Rightarrow> string list \<Rightarrow> RegisteredChecker list \<Rightarrow> server_config_error option" where
  "validate_checkers names keys [] = None"
| "validate_checkers names keys (c # cs) =
     (if checker_Region c = [] then Some (RegionRequired (EffectiveName c))
      else if checker_ApiKey c = [] then Some (ApiKeyRequired (EffectiveName c))
      else if EffectiveName c \<in> set names then Some (DuplicateChecker (EffectiveName c))
      else if checker_ApiKey c \<in> set keys then Some (DuplicateApiKey (EffectiveName c))
      else validate_checkers (EffectiveName c # names) (checker_ApiKey c # keys) cs)"

definition alert_location :: "string \<Rightarrow> nat \<Rightarrow> string" where
  "alert_location path idx = path @ ''['' @ nat_str idx @ '']''"

definition validateAlertName ::
    "(string, string) gomap \<Rightarrow> string \<Rightarrow> nat \<Rightarrow> string \<Rightarrow>
       server_config_error + (string, string) gomap" where
  "validateAlertName seen path idx nm =
     (let trimmedName = trim_space nm in
      if trimmedName = [] then Inl (AlertNameRequired (alert_location path idx))
      else let location = alert_location path idx in
        (case map_of seen trimmedName of
           Some previous \<Rightarrow> Inl (DuplicateAlertName location trimmedName previous)
         | None \<Rightarrow> Inr (AList.update trimmedName location seen)))"

fun validate_alert_names ::
    "(string, string) gomap \<Rightarrow> string \<Rightarrow> nat \<Rightarrow> string list \<Rightarrow>
       server_config_error + (string, string) gomap" where
  "validate_alert_names seen path idx [] = Inr seen"
| "validate_alert_names seen path idx (nm # nms) =
     (case validateAlertName seen path idx nm of
        Inl e \<Rightarrow> Inl e
      | Inr seen' \<Rightarrow> validate_alert_names seen' path (Suc idx) nms)"

text \<open>The five loops over the kinds of alerters share the map \<open>seenAlertNames\<close>.\<close>

definition alert_sections :: "AlertingConfig \<Rightarrow> (string \<times> string list) list" where
  "alert_sections a =
     [(''alerting.webhook'', map webhook_Name (alerting_Webhook a)),
      (''alerting.slack'', map slack_Name (alerting_Slack a)),
      (''alerting.discord'', map discord_Name (alerting_Discord a)),
      (''alerting.teams'', map teams_Name (alerting_Teams a)),
      (''alerting.ntfy'', map ntfy_Name (alerting_Ntfy a))]"

fun validate_sections ::
    "(string, string) gomap \<Rightarrow> (string \<times> string list) list \<Rightarrow> server_config_error option" where
  "validate_sections seen [] = None"
| "validate_sections seen ((path, nms) # secs) =
     (case validate_alert_names seen path 0 nms of
        Inl e \<Rightarrow> Some e
      | Inr seen' \<Rightarrow> validate_sections seen' secs)"

definition normalized :: "string \<Rightarrow> string" where
  "normalized s = to_lower (trim_space s)"

definition validate_cache :: "CacheConfig \<Rightarrow> server_config_error option" where
  "validate_cache c =
     (let backend = normalized (cache_Backend c) in
      if backend = [] \<or> backend = ''memory'' then None
      else if backend = ''redis'' then
        (if redis_cache_Address (cache_Redis c) = [] then Some RedisAddressRequired else None)
      else Some UnknownCacheBackend)"

definition server_Validate :: "ServerConfig \<Rightarrow> server_config_error option" where
  "server_Validate c =
     (case validate_checkers [] [] (sc_RegisteredCheckers c) of Some e \<Rightarrow> Some e | None \<Rightarrow>
      if db_ReadConcurrencyLimit (sc_Database c) < 0 then Some NegativeReadLimit
      else case validate_cache (sc_Cache c) of Some e \<Rightarrow> Some e | None \<Rightarrow>
        (case validate_sections [] (alert_sections (sc_Alerting c)) of Some e \<Rightarrow> Some e | None \<Rightarrow>
          if CleanupIntervalMinutes (sc_Dataset c) \<le> 0 then Some CleanupIntervalNotPositive
          else if CleanupBatchSize (sc_Dataset c) \<le> 0 then Some CleanupBatchSizeNotPositive
          else if normalized (meta_FrontendDesign (sc_Metadata c)) \<in> {[], ''hearth'', ''neobrutalism''}
          then None else Some UnknownFrontendDesign))"

section \<open>Credentials\<close>

text \<open>
  \<open>subtle.ConstantTimeCompare\<close> returns 1 exactly on equal byte slices. No match is the
  zero checker and \<open>false\<close>, here \<open>None\<close>.
\<close>

definition FindRegisteredChecker ::
    "ServerConfig \<Rightarrow> string \<Rightarrow> string \<Rightarrow> string \<Rightarrow> RegisteredChecker option" where
  "FindRegisteredChecker c nm region apiKey =
     List.find (\<lambda>checker. \<not> (checker_ApiKey checker \<noteq> apiKey \<or> checker_Region checker \<noteq> region) \<and>
         \<not> (nm \<noteq> [] \<and> nm \<noteq> EffectiveName checker)) (sc_RegisteredCheckers c)"

section \<open>What a valid configuration satisfies\<close>

lemma validate_checkers_None:
  "validate_checkers names keys cs = None \<longleftrightarrow>
     (\<forall>c \<in> set cs. checker_Region c \<noteq> [] \<and> checker_ApiKey c \<noteq> []) \<and>
     distinct (map EffectiveName cs) \<and> set (map EffectiveName cs) \<inter> set names = {} \<and>
     distinct (map checker_ApiKey cs) \<and> set (map checker_ApiKey cs) \<inter> set keys = {}"
  by (induction names keys cs rule: validate_checkers.induct) auto

lemma validate_alert_names_Inr:
  "validate_alert_names seen path idx nms = Inr seen' \<Longrightarrow>
     (\<forall>n \<in> set nms. trim_space n \<noteq> []) \<and> distinct (map trim_space nms) \<and>
     set (map trim_space nms) \<inter> set (map fst seen) = {} \<and>
     set (map fst seen') = set (map fst seen) \<union> set (map trim_space nms)"
proof (induction seen path idx nms rule: validate_alert_names.induct)
  case (1 seen path idx)
  then show ?case by simp
next
  case (2 seen path idx nm nms)
  then obtain seen1 where s: "validateAlertName seen path idx nm = Inr seen1"
      "validate_alert_names seen1 path (Suc idx) nms = Inr seen'"
    by (auto split: sum.splits)
  then have n: "trim_space nm \<noteq> []" "trim_space nm \<notin> set (map fst seen)"
      and "seen1 = AList.update (trim_space nm) (alert_location path idx) seen"
    by (simp_all add: validateAlertName_def Let_def map_of_eq_None_iff split: if_splits option.splits)
  then have n3: "set (map fst seen1) = insert (trim_space nm) (set (map fst seen))"
    by (simp only: keys_update)
  from 2(1) [OF s] n n3 show ?case
    by (simp only: list.map list.set distinct.simps ball_simps) blast
qed

lemma validate_alert_names_Inl:
  "(\<forall>n \<in> set nms. trim_space n \<noteq> []) \<Longrightarrow> distinct (map trim_space nms) \<Longrightarrow>
     set (map trim_space nms) \<inter> set (map fst seen) = {} \<Longrightarrow>
     \<exists>seen'. validate_alert_names seen path idx nms = Inr seen'"
proof (induction seen path idx nms rule: validate_alert_names.induct)
  case (1 seen path idx)
  then show ?case by simp
next
  case (2 seen path idx nm nms)
  then have "map_of seen (trim_space nm) = None"
    by (auto simp: map_of_eq_None_iff)
  then have v: "validateAlertName seen path idx nm =
      Inr (AList.update (trim_space nm) (alert_location path idx) seen)"
    using 2 by (simp add: validateAlertName_def Let_def)
  have "set (map trim_space nms) \<inter>
      set (map fst (AList.update (trim_space nm) (alert_location path idx) seen)) = {}"
    using 2 by (auto simp only: keys_update list.map list.set distinct.simps)
  then show ?case
    using 2(1) [OF v] 2(2,3) v by simp
qed

lemma validate_sections_None:
  "validate_sections seen secs = None \<longleftrightarrow>
     (\<forall>n \<in> set (concat (map snd secs)). trim_space n \<noteq> []) \<and>
     distinct (map trim_space (concat (map snd secs))) \<and>
     set (map trim_space (concat (map snd secs))) \<inter> set (map fst seen) = {}"
proof (induction seen secs rule: validate_sections.induct)
  case (1 seen)
  then show ?case by simp
next
  case (2 seen path nms secs)
  show ?case
  proof (cases "validate_alert_names seen path 0 nms")
    case (Inl e)
    then show ?thesis
      using validate_alert_names_Inl [of nms seen path 0] by (auto simp: Int_Un_distrib2)
  next
    case (Inr seen')
    have step: "validate_sections seen ((path, nms) # secs) = validate_sections seen' secs"
      using Inr by simp
    show ?thesis
      unfolding step 2 [OF Inr] using validate_alert_names_Inr [OF Inr]
      by (simp only: list.map concat.simps snd_conv set_append map_append distinct_append ball_Un) blast
  qed
qed

definition all_alert_names :: "AlertingConfig \<Rightarrow> string list" where
  "all_alert_names a =
     map webhook_Name (alerting_Webhook a) @ map slack_Name (alerting_Slack a) @
     map discord_Name (alerting_Discord a) @ map teams_Name (alerting_Teams a) @
     map ntfy_Name (alerting_Ntfy a)"

lemma concat_alert_sections: "concat (map snd (alert_sections a)) = all_alert_names a"
  by (simp add: alert_sections_def all_alert_names_def)

lemma validate_cache_None:
  "validate_cache c = None \<longleftrightarrow>
     normalized (cache_Backend c) \<in> {[], ''memory'', ''redis''} \<and>
     (normalized (cache_Backend c) = ''redis'' \<longrightarrow> redis_cache_Address (cache_Redis c) \<noteq> [])"
  by (auto simp: validate_cache_def Let_def)

text \<open>The tables of the server that a lookup by key relies on.\<close>

lemma server_Validate_checkers:
  assumes "server_Validate c = None"
  shows "distinct (map EffectiveName (sc_RegisteredCheckers c))"
    and "distinct (map checker_ApiKey (sc_RegisteredCheckers c))"
    and "x \<in> set (sc_RegisteredCheckers c) \<Longrightarrow> checker_ApiKey x \<noteq> []"
    and "x \<in> set (sc_RegisteredCheckers c) \<Longrightarrow> EffectiveName x \<noteq> []"
  using assms by (auto simp: server_Validate_def validate_checkers_None EffectiveName_def
      split: option.splits)

lemma server_Validate_alert_names:
  assumes "server_Validate c = None"
  shows "distinct (map trim_space (all_alert_names (sc_Alerting c)))"
    and "\<forall>n \<in> set (all_alert_names (sc_Alerting c)). trim_space n \<noteq> []"
  using assms by (auto simp: server_Validate_def validate_sections_None concat_alert_sections
      split: option.splits if_splits)

lemma distinct_map_eq: "distinct (map f xs) \<Longrightarrow> x \<in> set xs \<Longrightarrow> y \<in> set xs \<Longrightarrow> f x = f y \<Longrightarrow> x = y"
  by (simp add: distinct_map inj_on_def)

text \<open>A reported duplicate is one, and the reported location is where the name stands first.\<close>

lemma validate_alert_names_dup:
  "validate_alert_names seen path idx nms = Inl (DuplicateAlertName loc nm prev) \<Longrightarrow>
     (\<exists>i < length nms. loc = alert_location path (idx + i) \<and> trim_space (nms ! i) = nm \<and>
        (map_of seen nm = Some prev \<or>
         (\<exists>j < i. prev = alert_location path (idx + j) \<and> trim_space (nms ! j) = nm)))"
proof (induction seen path idx nms rule: validate_alert_names.induct)
  case (1 seen path idx)
  then show ?case by simp
next
  case (2 seen path idx n nms)
  show ?case
  proof (cases "validateAlertName seen path idx n")
    case (Inl e)
    with 2(2) have "loc = alert_location path idx \<and> trim_space n = nm \<and> map_of seen nm = Some prev"
      by (auto simp: validateAlertName_def Let_def split: if_splits option.splits)
    then show ?thesis
      by (intro exI [of _ 0]) simp
  next
    case (Inr seen')
    then have upd: "seen' = AList.update (trim_space n) (alert_location path idx) seen"
      by (auto simp: validateAlertName_def Let_def split: if_splits option.splits)
    from 2 Inr obtain i where i: "i < length nms" "loc = alert_location path (Suc idx + i)"
        "trim_space (nms ! i) = nm"
      and p: "map_of seen' nm = Some prev \<or>
         (\<exists>j < i. prev = alert_location path (Suc idx + j) \<and> trim_space (nms ! j) = nm)"
      by auto
    from p have "map_of seen nm = Some prev \<or>
        (\<exists>j < Suc i. prev = alert_location path (idx + j) \<and> trim_space ((n # nms) ! j) = nm)"
    proof
      assume "map_of seen' nm = Some prev"
      then show ?thesis
        by (cases "trim_space n = nm") (auto simp: upd update_conv' intro!: exI [of _ 0])
    next
      assume "\<exists>j < i. prev = alert_location path (Suc idx + j) \<and> trim_space (nms ! j) = nm"
      then show ?thesis by (metis Suc_less_eq add_Suc_shift nth_Cons_Suc)
    qed
    with i show ?thesis
      by (intro exI [of _ "Suc i"]) simp
  qed
qed

section \<open>Properties\<close>

text \<open>
  The validation of the server's configuration accepts exactly the configurations that
  satisfy all of its rules: every checker has a region and a key of its own and a name of its
  own, every alert target has a non-blank name that no other target of any kind has (after
  trimming), the cache backend is known and has an address when it needs one, the limits
  are in range and the design is known.
\<close>

theorem server_config_validation:
  "(server_Validate c = None) =
     (list_all (\<lambda>k. checker_Region k \<noteq> [] \<and> checker_ApiKey k \<noteq> []) (sc_RegisteredCheckers c) \<and>
      distinct (map EffectiveName (sc_RegisteredCheckers c)) \<and>
      distinct (map checker_ApiKey (sc_RegisteredCheckers c)) \<and>
      0 \<le> db_ReadConcurrencyLimit (sc_Database c) \<and>
      normalized (cache_Backend (sc_Cache c)) \<in> {[], ''memory'', ''redis''} \<and>
      \<not> (normalized (cache_Backend (sc_Cache c)) = ''redis'' \<and>
         redis_cache_Address (cache_Redis (sc_Cache c)) = []) \<and>
      list_all (\<lambda>n. trim_space n \<noteq> []) (all_alert_names (sc_Alerting c)) \<and>
      distinct (map trim_space (all_alert_names (sc_Alerting c))) \<and>
      0 < CleanupIntervalMinutes (sc_Dataset c) \<and> 0 < CleanupBatchSize (sc_Dataset c) \<and>
      normalized (meta_FrontendDesign (sc_Metadata c)) \<in> {[], ''hearth'', ''neobrutalism''})"
proof -
  note parts = validate_checkers_None [of "[]" "[]"] validate_cache_None validate_sections_None [of "[]"]
    concat_alert_sections list_all_iff
  have "(server_Validate c = None) =
     (validate_checkers [] [] (sc_RegisteredCheckers c) = None \<and>
      \<not> db_ReadConcurrencyLimit (sc_Database c) < 0 \<and> validate_cache (sc_Cache c) = None \<and>
      validate_sections [] (alert_sections (sc_Alerting c)) = None \<and>
      \<not> CleanupIntervalMinutes (sc_Dataset c) \<le> 0 \<and> \<not> CleanupBatchSize (sc_Dataset c) \<le> 0 \<and>
      normalized (meta_FrontendDesign (sc_Metadata c)) \<in> {[], ''hearth'', ''neobrutalism''})"
    unfolding server_Validate_def by (simp only: split: option.split if_split) auto
  then show ?thesis
    unfolding parts by (simp only: list.map list.set Int_empty_right not_less not_le) auto
qed

lemma FindRegisteredChecker_Some:
  assumes "server_Validate c = None"
    and k: "k \<in> set (sc_RegisteredCheckers c)" "nm = [] \<or> nm = EffectiveName k"
  shows "FindRegisteredChecker c nm (checker_Region k) (checker_ApiKey k) = Some k"
  unfolding FindRegisteredChecker_def
proof (rule find_unique)
  fix y
  assume "y \<in> set (sc_RegisteredCheckers c)"
    "\<not> (checker_ApiKey y \<noteq> checker_ApiKey k \<or> checker_Region y \<noteq> checker_Region k) \<and>
      \<not> (nm \<noteq> [] \<and> nm \<noteq> EffectiveName y)"
  then show "y = k"
    using k server_Validate_checkers(2) [OF assms(1)] by (auto intro: distinct_map_eq)
qed (use k in auto)

text \<open>
  In a valid configuration the credentials of a request identify at most one checker: the
  lookup returns the checker that has this key, provided the region and the name, when one is
  given, are its own, and nothing otherwise.
\<close>

theorem credentials_identify_the_checker:
  assumes "server_Validate c = None"
  shows "FindRegisteredChecker c nm region key = Some k \<longleftrightarrow>
     k \<in> set (sc_RegisteredCheckers c) \<and> checker_ApiKey k = key \<and> checker_Region k = region \<and>
     (nm = [] \<or> nm = EffectiveName k)"
proof
  assume "FindRegisteredChecker c nm region key = Some k"
  then show "k \<in> set (sc_RegisteredCheckers c) \<and> checker_ApiKey k = key \<and> checker_Region k = region \<and>
     (nm = [] \<or> nm = EffectiveName k)"
    unfolding FindRegisteredChecker_def by (auto dest!: find_Some_in)
next
  assume k: "k \<in> set (sc_RegisteredCheckers c) \<and> checker_ApiKey k = key \<and> checker_Region k = region \<and>
     (nm = [] \<or> nm = EffectiveName k)"
  then show "FindRegisteredChecker c nm region key = Some k"
    using FindRegisteredChecker_Some [OF assms] by blast
qed

definition ex_server_config :: ServerConfig where
  "ex_server_config =
     \<lparr>sc_Metadata = \<lparr>meta_Title = ''Status'', meta_ShowLastUpdated = True, meta_FrontendDesign = ''hearth''\<rparr>,
      sc_RegisteredCheckers =
        [\<lparr>checker_Name = [], checker_Region = ''eu'', checker_ApiKey = ''k1''\<rparr>,
         \<lparr>checker_Name = ''b'', checker_Region = ''eu'', checker_ApiKey = ''k2''\<rparr>],
      sc_Database = \<lparr>db_Path = ''eyrie.db'', db_ReadConcurrencyLimit = 0\<rparr>,
      sc_Cache = \<lparr>cache_Backend = ''memory'',
        cache_Redis = \<lparr>redis_cache_Address = [], redis_cache_Username = [], redis_cache_Password = [],
          redis_cache_DB = 0, redis_cache_Prefix = [], redis_cache_TLS = False, redis_cache_SkipTLSVerify = False\<rparr>\<rparr>,
      sc_Dataset = \<lparr>RetentionDays = 90, CleanupIntervalMinutes = 60, CleanupBatchSize = 100000,
        ProcessingLookbackMinutes = 10, PerRegionFailureThresholdPercent = 40, FailureThresholdPercent = 50,
        DegradedThresholdMinutes = 10, DegradedThresholdConsecutiveBuckets = 5, FailureThresholdMinutes = 15\<rparr>,
      sc_Alerting = \<lparr>alerting_Webhook = [], alerting_Slack = [\<lparr>slack_Name = ''ops'', slack_Enabled = True,
        slack_WebhookURL = ''https://x''\<rparr>], alerting_Discord = [], alerting_Teams = [], alerting_Ntfy = []\<rparr>\<rparr>"

lemma ex_server_config_valid: "server_Validate ex_server_config = None"
  by code_simp

theorem credentials_identify_the_checker_witness:
  "server_Validate ex_server_config = None \<and>
   FindRegisteredChecker ex_server_config [] ''eu'' ''k2'' =
     Some \<lparr>checker_Name = ''b'', checker_Region = ''eu'', checker_ApiKey = ''k2''\<rparr>"
  using credentials_identify_the_checker [OF ex_server_config_valid, of "[]" "''eu''" "''k2''"
      "\<lparr>checker_Name = ''b'', checker_Region = ''eu'', checker_ApiKey = ''k2''\<rparr>"] ex_server_config_valid
  by (simp add: ex_server_config_def)

text \<open>
  A reported duplicate is real: when the names of one section of alert targets are rejected as
  duplicates, the reported entry has the reported name, and the entry that the message points
  to as the earlier definition has it too and stands before it (or was seen in an earlier
  section).
\<close>

theorem duplicate_alert_report:
  assumes "validate_alert_names seen path 0 nms = Inl (DuplicateAlertName loc nm prev)"
  shows "\<exists>i < length nms. loc = alert_location path i \<and> trim_space (nms ! i) = nm \<and>
     (map_of seen nm = Some prev \<or>
      (\<exists>j < i. prev = alert_location path j \<and> trim_space (nms ! j) = nm))"
  using validate_alert_names_dup [OF assms] by simp

theorem duplicate_alert_report_witness:
  "\<exists>i < length [''a'', '' a'']. alert_location ''alerting.slack'' 1 = alert_location ''alerting.slack'' i \<and>
     trim_space ([''a'', '' a''] ! i) = ''a''"
proof -
  have "validate_alert_names [] ''alerting.slack'' 0 [''a'', '' a''] =
      Inl (DuplicateAlertName (alert_location ''alerting.slack'' 1) ''a'' (alert_location ''alerting.slack'' 0))"
    by code_simp
  from duplicate_alert_report [OF this] show ?thesis
    by blast
qed

end
