(* ===== verification/Processor_Eval.thy ===== *)
theory Processor_Eval
  imports Tables Failure_Reason Go_Float Config_Server
begin

text \<open>
  The pure part of \<open>worker_processor.go\<close>: the submissions of the lookback window are grouped
  into one bucket per minute, each bucket tells which regions failed, and the latest bucket
  (with the streak of buckets before it) gives the evaluation of the monitor.
\<close>

section \<open>Buckets\<close>

record SubmissionBucket =
  bk_TimestampMinute :: gotime
  bk_Regions :: "(string, bool) gomap"
  bk_FailureCount :: int
  bk_TotalCount :: int

text \<open>
  The loop \<open>for t := latest; !t.Before(earliest); t = t.Add(-interval)\<close> visits these times.
  With an interval that is not positive it would not end; its callers return before it.
\<close>

function walk_back :: "gotime \<Rightarrow> gotime \<Rightarrow> duration \<Rightarrow> gotime list" where
  "walk_back t earliest d =
     (if d \<le> 0 \<or> t < earliest then [] else t # walk_back (t - d) earliest d)"
  by pat_completeness auto
termination
  by (relation "measure (\<lambda>(t, earliest, d). nat (t - earliest + 1))") auto

declare walk_back.simps [simp del]

record regionSubmission =
  rs_totalCount :: nat
  rs_failures :: nat

definition count_submission ::
    "Monitor \<Rightarrow> (string, regionSubmission) gomap \<Rightarrow> MonitorHistorical \<Rightarrow>
       (string, regionSubmission) gomap" where
  "count_submission monitor counts submission =
     (let isSuccessful = IsSuccessfulStatus monitor (hist_StatusCode submission) (hist_Success submission);
          existing = (case map_of counts (hist_Region submission) of
                        Some e \<Rightarrow> e | None \<Rightarrow> \<lparr>rs_totalCount = 0, rs_failures = 0\<rparr>);
          existing = (if \<not> isSuccessful then existing\<lparr>rs_failures := rs_failures existing + 1\<rparr>
                      else existing);
          existing = existing\<lparr>rs_totalCount := rs_totalCount existing + 1\<rparr>
      in AList.update (hist_Region submission) existing counts)"

definition region_counts ::
    "Monitor \<Rightarrow> MonitorHistorical list \<Rightarrow> (string, regionSubmission) gomap" where
  "region_counts monitor bucketSubmissions = foldl (count_submission monitor) [] bucketSubmissions"

definition add_region ::
    "DatasetConfig \<Rightarrow> SubmissionBucket \<Rightarrow> string \<times> regionSubmission \<Rightarrow> SubmissionBucket" where
  "add_region cfg bucket rs =
     (let perRegionFailureRate = rate (rs_failures (snd rs)) (rs_totalCount (snd rs));
          success = perRegionFailureRate < percent (PerRegionFailureThresholdPercent cfg);
          bucket = bucket\<lparr>bk_Regions := AList.update (fst rs) success (bk_Regions bucket),
                          bk_TotalCount := bk_TotalCount bucket + 1\<rparr>
      in if \<not> success then bucket\<lparr>bk_FailureCount := bk_FailureCount bucket + 1\<rparr> else bucket)"

definition make_bucket ::
    "DatasetConfig \<Rightarrow> Monitor \<Rightarrow> gotime \<Rightarrow> MonitorHistorical list \<Rightarrow> SubmissionBucket" where
  "make_bucket cfg monitor bucketTime bucketSubmissions =
     foldl (add_region cfg)
       \<lparr>bk_TimestampMinute = bucketTime, bk_Regions = [], bk_FailureCount = 0, bk_TotalCount = 0\<rparr>
       (region_counts monitor bucketSubmissions)"

text \<open>\<open>100 * 365 * 24 * time.Hour\<close>\<close>

definition century :: duration where
  "century = 36500 * day"

definition bucket_time :: "duration \<Rightarrow> MonitorHistorical \<Rightarrow> gotime" where
  "bucket_time interval submission = truncate_time (hist_CreatedAt submission) interval"

text \<open>The two arguments \<open>now\<close> are the two readings of the clock.\<close>

definition groupSubmissionByMinute ::
    "DatasetConfig \<Rightarrow> gotime \<Rightarrow> gotime \<Rightarrow> MonitorHistorical list \<Rightarrow> duration \<Rightarrow> Monitor \<Rightarrow>
       (gotime, SubmissionBucket) gomap \<times> gotime \<times> gotime" where
  "groupSubmissionByMinute cfg now1 now2 submissions interval monitor =
     (let rawBuckets = group_by (bucket_time interval) submissions;
          earliestTime = foldl (\<lambda>e s. if bucket_time interval s < e then bucket_time interval s else e)
                           (now1 + century) submissions;
          latestTime = foldl (\<lambda>l s. if l < bucket_time interval s then bucket_time interval s else l)
                         (now2 - century) submissions;
          buckets = map (\<lambda>(bucketTime, bucketSubmissions).
                       (bucketTime, make_bucket cfg monitor bucketTime bucketSubmissions)) rawBuckets
      in (buckets, earliestTime, latestTime))"

section \<open>The evaluation of a bucket\<close>

definition latestNonEmptyBucket ::
    "(gotime, SubmissionBucket) gomap \<Rightarrow> gotime \<Rightarrow> gotime \<Rightarrow> duration \<Rightarrow>
       (gotime \<times> SubmissionBucket) option" where
  "latestNonEmptyBucket buckets latestTime earliestTime interval =
     (case List.find (\<lambda>t. case map_of buckets t of None \<Rightarrow> False | Some b \<Rightarrow> bk_TotalCount b \<noteq> 0)
         (walk_back latestTime earliestTime interval) of
        None \<Rightarrow> None
      | Some t \<Rightarrow> map_option (Pair t) (map_of buckets t))"

definition failedRegionsFromBucket :: "SubmissionBucket \<Rightarrow> string list" where
  "failedRegionsFromBucket bucket =
     sort (map fst (filter (\<lambda>(region, success). \<not> success) (bk_Regions bucket)))"

definition evaluateBucketIncident ::
    "DatasetConfig \<Rightarrow> SubmissionBucket \<Rightarrow> string list \<Rightarrow> (string, string list) gomap \<Rightarrow>
       IncidentEvaluation" where
  "evaluateBucketIncident cfg bucket failedRegions reasonsBreakdown =
     (if length failedRegions = 0 \<or> bk_TotalCount bucket = 0 then HealthyIncidentEvaluation
      else let failureRate = f64_div (f64_of_int (int (length failedRegions)))
                               (f64_of_int (bk_TotalCount bucket)) in
        if bk_TotalCount bucket = int (length failedRegions) then
          \<lparr>Status = MonitorStatusDown,
           Scope = (if bk_TotalCount bucket > 1 then MonitorScopeGlobal else MonitorScopeLocal),
           Reason = ''Probe failures detected in all reporting regions ('' @
             join failedRegions '', '' @ '')'',
           AffectedRegions = failedRegions, FailureReasonsBreakdown = reasonsBreakdown\<rparr>
        else if bk_TotalCount bucket > 1 \<and> failureRate \<ge> percent (FailureThresholdPercent cfg) then
          \<lparr>Status = MonitorStatusDown, Scope = MonitorScopeGlobal,
           Reason = ''Multi-region outage detected across '' @ int_str (int (length failedRegions)) @
             ''/'' @ int_str (bk_TotalCount bucket) @ '' regions ('' @ join failedRegions '', '' @ '')'',
           AffectedRegions = failedRegions, FailureReasonsBreakdown = reasonsBreakdown\<rparr>
        else
          \<lparr>Status = MonitorStatusDegraded, Scope = MonitorScopeLocal,
           Reason = ''Regional degradation detected in '' @ join failedRegions '', '',
           AffectedRegions = failedRegions, FailureReasonsBreakdown = reasonsBreakdown\<rparr>)"

section \<open>The breakdown by category\<close>

text \<open>A set kept as a map to \<open>true\<close> is the list of its keys.\<close>

definition add_category ::
    "(string, string list) gomap \<Rightarrow> MonitorHistorical \<Rightarrow> (string, string list) gomap" where
  "add_category categoryRegions failure =
     (let category = CategorizeFailureReason
            (case hist_FailureReason failure of None \<Rightarrow> [] | Some r \<Rightarrow> r);
          regions = (case map_of categoryRegions category of None \<Rightarrow> [] | Some rs \<Rightarrow> rs)
      in AList.update category (List.insert (hist_Region failure) regions) categoryRegions)"

definition bucket_failures ::
    "SubmissionBucket \<Rightarrow> MonitorHistorical list \<Rightarrow> gotime \<Rightarrow> duration \<Rightarrow> MonitorHistorical list" where
  "bucket_failures bucket submissions t interval =
     (let failedRegions = map fst (filter (\<lambda>(region, success). \<not> success) (bk_Regions bucket));
          bucketStart = t;
          bucketEnd = t + interval
      in filter (\<lambda>s. \<not> hist_Success s \<and> \<not> hist_CreatedAt s < bucketStart \<and>
             hist_CreatedAt s < bucketEnd \<and> hist_Region s \<in> set failedRegions) submissions)"

definition buildFailureReasonsBreakdown ::
    "(gotime, SubmissionBucket) gomap \<Rightarrow> MonitorHistorical list \<Rightarrow> gotime \<Rightarrow> gotime \<Rightarrow> duration \<Rightarrow>
       (string, string list) gomap" where
  "buildFailureReasonsBreakdown buckets submissions latestTime earliestTime interval =
     (case List.find (\<lambda>t. case map_of buckets t of None \<Rightarrow> False | Some b \<Rightarrow> bk_FailureCount b \<noteq> 0)
         (walk_back latestTime earliestTime interval) of
        None \<Rightarrow> []
      | Some t \<Rightarrow>
          (case map_of buckets t of None \<Rightarrow> []
           | Some bucket \<Rightarrow>
               map (\<lambda>(category, regions). (category, sort regions))
                 (foldl add_category [] (bucket_failures bucket submissions t interval))))"

section \<open>Promotion of a local degradation\<close>

text \<open>The body of the loop, over the times still to visit.\<close>

fun streak_loop ::
    "DatasetConfig \<Rightarrow> (gotime, SubmissionBucket) gomap \<Rightarrow> gotime \<Rightarrow> duration \<Rightarrow> int \<Rightarrow> duration \<Rightarrow>
       int \<Rightarrow> gotime list \<Rightarrow> bool" where
  "streak_loop cfg buckets latestTime interval consecutive dur streakCount [] = False"
| "streak_loop cfg buckets latestTime interval consecutive dur streakCount (t # ts) =
     (case map_of buckets t of None \<Rightarrow> False
      | Some bucket \<Rightarrow>
        if bk_TotalCount bucket = 0 then False
        else let evaluation = evaluateBucketIncident cfg bucket (failedRegionsFromBucket bucket) [] in
          if Status evaluation \<noteq> MonitorStatusDegraded \<or> Scope evaluation \<noteq> MonitorScopeLocal then False
          else let streakCount = streakCount + 1; streakStart = t in
            if consecutive > 0 \<and> streakCount \<ge> consecutive then True
            else if dur > 0 \<and> wrap64 (time_sub latestTime streakStart + interval) \<ge> dur then True
            else streak_loop cfg buckets latestTime interval consecutive dur streakCount ts)"

definition shouldPromoteLocalDegraded ::
    "DatasetConfig \<Rightarrow> (gotime, SubmissionBucket) gomap \<Rightarrow> gotime \<Rightarrow> gotime \<Rightarrow> duration \<Rightarrow> bool" where
  "shouldPromoteLocalDegraded cfg buckets latestTime earliestTime interval =
     (if latestTime < earliestTime \<or> interval \<le> 0 then False
      else let consecutiveThreshold = DegradedThresholdConsecutiveBuckets cfg;
               durationThreshold = minutes (DegradedThresholdMinutes cfg)
        in if consecutiveThreshold \<le> 0 \<and> durationThreshold \<le> 0 then True
           else streak_loop cfg buckets latestTime interval consecutiveThreshold durationThreshold 0
                  (walk_back latestTime earliestTime interval))"

section \<open>The evaluation of a monitor\<close>

definition evaluateLatestIncident ::
    "DatasetConfig \<Rightarrow> (gotime, SubmissionBucket) gomap \<Rightarrow> MonitorHistorical list \<Rightarrow> gotime \<Rightarrow>
       gotime \<Rightarrow> duration \<Rightarrow> IncidentEvaluation" where
  "evaluateLatestIncident cfg buckets submissions latestTime earliestTime interval =
     (if length buckets = 0 \<or> latestTime < earliestTime \<or> interval \<le> 0
      then HealthyIncidentEvaluation
      else case latestNonEmptyBucket buckets latestTime earliestTime interval of
        None \<Rightarrow> HealthyIncidentEvaluation
      | Some (latestBucketTime, latestBucket) \<Rightarrow>
        (let failedRegions = failedRegionsFromBucket latestBucket in
         if length failedRegions = 0 then HealthyIncidentEvaluation
         else let reasonsBreakdown =
                    buildFailureReasonsBreakdown buckets submissions latestBucketTime earliestTime interval;
                  evaluation = evaluateBucketIncident cfg latestBucket failedRegions reasonsBreakdown
           in if Status evaluation = MonitorStatusDegraded \<and> Scope evaluation = MonitorScopeLocal \<and>
                 \<not> shouldPromoteLocalDegraded cfg buckets latestBucketTime earliestTime interval
              then HealthyIncidentEvaluation
              else evaluation))"

section \<open>The analysis by consecutive buckets\<close>

text \<open>
  \<open>analyzeSubmissions\<close>, the predecessor of the evaluation: it reports a change of state
  between the two latest buckets. \<open>%.2f\<close> prints the nearest decimal, ties to even.
\<close>

datatype HealthState = StateHealthy | StateUnhealthyMultiRegion | StateUnhealthySingleRegion

record BucketAnalysis =
  an_state :: HealthState
  an_failureRate :: rat
  an_regionCount :: nat
  an_regionNames :: "string list"

definition percent2 :: "rat \<Rightarrow> string" where
  "percent2 x =
     (let n = round_half_even (x * 100)
      in int_str (n div 100) @ ''.'' @ [digit_char (nat (n mod 100 div 10)), digit_char (nat (n mod 10))])"

definition analyze_bucket :: "DatasetConfig \<Rightarrow> SubmissionBucket \<Rightarrow> BucketAnalysis" where
  "analyze_bucket cfg bucket =
     (let failureRate = f64_div (f64_of_int (bk_FailureCount bucket)) (f64_of_int (bk_TotalCount bucket));
          regionCount = length (bk_Regions bucket);
          failedRegions = failedRegionsFromBucket bucket;
          currentState =
            (if regionCount > 1 \<and> failureRate \<ge> percent (FailureThresholdPercent cfg)
             then StateUnhealthyMultiRegion
             else if regionCount = 1 \<and> failureRate \<ge> percent (FailureThresholdPercent cfg)
             then StateUnhealthySingleRegion else StateHealthy)
      in \<lparr>an_state = currentState, an_failureRate = failureRate, an_regionCount = regionCount,
          an_regionNames = failedRegions\<rparr>)"

definition bucket_analyses ::
    "DatasetConfig \<Rightarrow> (gotime, SubmissionBucket) gomap \<Rightarrow> gotime list \<Rightarrow> BucketAnalysis list" where
  "bucket_analyses cfg buckets ts =
     List.map_filter (\<lambda>t. case map_of buckets t of
         None \<Rightarrow> None
       | Some b \<Rightarrow> if bk_TotalCount b = 0 then None else Some (analyze_bucket cfg b)) ts"

definition analyzeSubmissions ::
    "DatasetConfig \<Rightarrow> (gotime, SubmissionBucket) gomap \<Rightarrow> gotime \<Rightarrow> gotime \<Rightarrow> duration \<Rightarrow>
       bool \<times> string" where
  "analyzeSubmissions cfg buckets latestTime earliestTime interval =
     (if latestTime < earliestTime \<or> interval \<le> 0 then (False, [])
      else case bucket_analyses cfg buckets (walk_back latestTime earliestTime interval) of
        [] \<Rightarrow> (False, [])
      | latest # rest \<Rightarrow>
        (let previousState = (case rest of [] \<Rightarrow> StateHealthy | a # _ \<Rightarrow> an_state a) in
         case an_state latest of
           StateUnhealthyMultiRegion \<Rightarrow>
             if previousState = StateHealthy
             then (True, ''High failure rate detected: '' @ percent2 (f64_mul (an_failureRate latest) 100) @
                     ''% failures from '' @ nat_str (an_regionCount latest) @ '' regions ('' @
                     join (an_regionNames latest) '', '' @ '')'')
             else (False, [])
         | StateUnhealthySingleRegion \<Rightarrow>
             if previousState = StateUnhealthySingleRegion
             then (True, ''High failure rate detected: '' @ percent2 (f64_mul (an_failureRate latest) 100) @
                     ''% failures from single region'')
             else (False, [])
         | StateHealthy \<Rightarrow>
             if previousState \<noteq> StateHealthy then (True, ''Monitor has recovered and is now healthy'')
             else (False, [])))"

section \<open>What a bucket holds\<close>

definition counts_of :: "Monitor \<Rightarrow> MonitorHistorical list \<Rightarrow> string \<Rightarrow> regionSubmission" where
  "counts_of monitor xs r =
     \<lparr>rs_totalCount = length (filter (\<lambda>s. hist_Region s = r) xs),
      rs_failures = length (filter (\<lambda>s. hist_Region s = r \<and>
         \<not> IsSuccessfulStatus monitor (hist_StatusCode s) (hist_Success s)) xs)\<rparr>"

lemma region_counts_snoc:
  "region_counts monitor (xs @ [x]) = count_submission monitor (region_counts monitor xs) x"
  by (simp add: region_counts_def)

lemma region_counts_wf [simp]: "gm_wf (region_counts monitor xs)"
  by (induction xs rule: rev_induct)
    (simp_all add: region_counts_snoc count_submission_def Let_def, simp add: region_counts_def)

lemma region_counts_lookup:
  "map_of (region_counts monitor xs) r =
     (if r \<in> hist_Region ` set xs then Some (counts_of monitor xs r) else None)"
proof (induction xs arbitrary: r rule: rev_induct)
  case Nil
  then show ?case by (simp add: region_counts_def)
next
  case (snoc x xs)
  show ?case
    by (auto simp: region_counts_snoc count_submission_def Let_def update_conv' snoc counts_of_def
        filter_empty_conv image_iff)
qed

lemma region_counts_keys: "set (map fst (region_counts monitor xs)) = hist_Region ` set xs"
  unfolding map_of_dom_keys [symmetric] by (auto simp: dom_def region_counts_lookup)

definition region_ok :: "DatasetConfig \<Rightarrow> regionSubmission \<Rightarrow> bool" where
  "region_ok cfg rs =
     (rate (rs_failures rs) (rs_totalCount rs) < percent (PerRegionFailureThresholdPercent cfg))"

lemma update_new_key: "k \<notin> set (map fst m) \<Longrightarrow> AList.update k v m = m @ [(k, v)]"
  by (induction m) auto

lemma add_region_fold:
  assumes "gm_wf (bk_Regions b @ map (\<lambda>(r, st). (r, region_ok cfg st)) rs)"
  shows "foldl (add_region cfg) b rs =
     b\<lparr>bk_Regions := bk_Regions b @ map (\<lambda>(r, st). (r, region_ok cfg st)) rs,
       bk_TotalCount := bk_TotalCount b + int (length rs),
       bk_FailureCount := bk_FailureCount b + int (length (filter (\<lambda>(r, st). \<not> region_ok cfg st) rs))\<rparr>"
  using assms
proof (induction rs arbitrary: b)
  case Nil
  then show ?case by simp
next
  case (Cons x rs)
  obtain r st where x: "x = (r, st)" by (cases x)
  have "r \<notin> set (map fst (bk_Regions b))"
    using Cons.prems by (auto simp: gm_wf_def x)
  then have "add_region cfg b x =
      b\<lparr>bk_Regions := bk_Regions b @ [(r, region_ok cfg st)], bk_TotalCount := bk_TotalCount b + 1,
        bk_FailureCount := bk_FailureCount b + (if region_ok cfg st then 0 else 1)\<rparr>"
    by (simp add: add_region_def Let_def x region_ok_def update_new_key)
  then show ?case
    using Cons.prems Cons.IH [of "add_region cfg b x"] by (simp add: x)
qed

lemma make_bucket_eq:
  "make_bucket cfg monitor t xs =
     \<lparr>bk_TimestampMinute = t,
      bk_Regions = map (\<lambda>(r, st). (r, region_ok cfg st)) (region_counts monitor xs),
      bk_FailureCount = int (length (filter (\<lambda>(r, st). \<not> region_ok cfg st) (region_counts monitor xs))),
      bk_TotalCount = int (length (region_counts monitor xs))\<rparr>"
  unfolding make_bucket_def by (subst add_region_fold) simp_all

text \<open>The regions that fail in a list of submissions of one minute.\<close>

definition region_fails :: "DatasetConfig \<Rightarrow> Monitor \<Rightarrow> MonitorHistorical list \<Rightarrow> string \<Rightarrow> bool" where
  "region_fails cfg monitor xs r = (\<not> region_ok cfg (counts_of monitor xs r))"

definition failing :: "DatasetConfig \<Rightarrow> Monitor \<Rightarrow> MonitorHistorical list \<Rightarrow> string set" where
  "failing cfg monitor xs = {r \<in> hist_Region ` set xs. region_fails cfg monitor xs r}"

text \<open>A bucket is consistent: its counts are those of its map of regions.\<close>

definition bucket_wf :: "SubmissionBucket \<Rightarrow> bool" where
  "bucket_wf b =
     (gm_wf (bk_Regions b) \<and> bk_TotalCount b = int (length (bk_Regions b)) \<and>
      bk_FailureCount b = int (length (filter (\<lambda>(region, success). \<not> success) (bk_Regions b))))"

lemma filter_map_snd: "filter (\<lambda>(k, v). P v) (map (\<lambda>(k, v). (k, f v)) m) = map (\<lambda>(k, v). (k, f v)) (filter (\<lambda>(k, v). P (f v)) m)"
  by (induction m) auto

lemma make_bucket_wf: "bucket_wf (make_bucket cfg monitor t xs)"
  by (simp add: bucket_wf_def make_bucket_eq filter_map_snd [where P = Not])

lemma bucket_wf_distinct: "bucket_wf b \<Longrightarrow> distinct (failedRegionsFromBucket b)"
  by (simp add: bucket_wf_def failedRegionsFromBucket_def gm_wf_def distinct_map_filter)

lemma bucket_wf_failures: "bucket_wf b \<Longrightarrow> bk_FailureCount b = int (length (failedRegionsFromBucket b))"
  by (simp add: bucket_wf_def failedRegionsFromBucket_def)

lemma set_failedRegions: "set (failedRegionsFromBucket b) = {r. (r, False) \<in> set (bk_Regions b)}"
  by (force simp: failedRegionsFromBucket_def)

lemma failed_le_total: "bucket_wf b \<Longrightarrow> int (length (failedRegionsFromBucket b)) \<le> bk_TotalCount b"
  by (simp add: bucket_wf_def failedRegionsFromBucket_def)

lemma make_bucket_lookup:
  "map_of (bk_Regions (make_bucket cfg monitor t xs)) r =
     (if r \<in> hist_Region ` set xs then Some (\<not> region_fails cfg monitor xs r) else None)"
  using map_of_map_snd [of "\<lambda>_. region_ok cfg" "region_counts monitor xs" r]
  by (simp add: make_bucket_eq region_counts_lookup region_fails_def)

lemma make_bucket_total: "bk_TotalCount (make_bucket cfg monitor t xs) = int (card (hist_Region ` set xs))"
proof -
  have "length (region_counts monitor xs) = card (set (map fst (region_counts monitor xs)))"
    using region_counts_wf [of monitor xs] unfolding gm_wf_def by (metis distinct_card length_map)
  then show ?thesis
    by (simp only: make_bucket_eq region_counts_keys SubmissionBucket.simps)
qed

lemma make_bucket_failed:
  "failedRegionsFromBucket (make_bucket cfg monitor t xs) = sorted_list_of_set (failing cfg monitor xs)"
proof -
  let ?b = "make_bucket cfg monitor t xs"
  have "gm_wf (bk_Regions ?b)"
    using make_bucket_wf [of cfg monitor t xs] by (simp add: bucket_wf_def)
  then have "set (failedRegionsFromBucket ?b) = failing cfg monitor xs"
    by (auto simp: set_failedRegions gm_wf_map_of make_bucket_lookup failing_def split: if_splits)
  moreover have "sorted (failedRegionsFromBucket ?b)"
    by (simp add: failedRegionsFromBucket_def)
  ultimately show ?thesis
    using bucket_wf_distinct [OF make_bucket_wf] sorted_list_of_set.idem_if_sorted_distinct by metis
qed

section \<open>What the grouping returns\<close>

definition in_minute :: "duration \<Rightarrow> gotime \<Rightarrow> MonitorHistorical list \<Rightarrow> MonitorHistorical list" where
  "in_minute interval t xs = filter (\<lambda>s. bucket_time interval s = t) xs"

lemma buckets_lookup:
  "map_of (fst (groupSubmissionByMinute cfg n1 n2 xs interval monitor)) t =
     (if t \<in> bucket_time interval ` set xs
      then Some (make_bucket cfg monitor t (in_minute interval t xs)) else None)"
  using map_of_map_snd [of "make_bucket cfg monitor" "group_by (bucket_time interval) xs" t]
  by (auto simp: groupSubmissionByMinute_def Let_def group_by_lookup in_minute_def)

lemma buckets_wf: "gm_wf (fst (groupSubmissionByMinute cfg n1 n2 xs interval monitor))"
  by (simp add: groupSubmissionByMinute_def Let_def)

lemma buckets_empty: "fst (groupSubmissionByMinute cfg n1 n2 xs interval monitor) = [] \<longleftrightarrow> xs = []"
proof -
  have "group_by (bucket_time interval) xs = [] \<longleftrightarrow> xs = []"
    by (metis group_by_keys group_by_Nil image_is_empty list.map_disc_iff set_empty)
  then show ?thesis
    by (simp add: groupSubmissionByMinute_def Let_def)
qed

lemma Min_insert_min: "finite S \<Longrightarrow> Min (insert (min a b) S) = Min (insert a (insert b S))"
  by (cases "S = {}") (simp_all add: min.assoc)

lemma Max_insert_max: "finite S \<Longrightarrow> Max (insert (max a b) S) = Max (insert a (insert b S))"
  by (cases "S = {}") (simp_all add: max.assoc)

lemma foldl_min_eq:
  "foldl (\<lambda>e s. if f s < e then f s else e) (a :: 'b :: linorder) xs = Min (insert a (f ` set xs))"
proof (induction xs arbitrary: a)
  case Nil
  then show ?case by simp
next
  case (Cons x xs)
  have "(if f x < a then f x else a) = min a (f x)"
    by (auto simp: min_def)
  then show ?case
    using Cons Min_insert_min [of "f ` set xs" a "f x"] by simp
qed

lemma foldl_max_eq:
  "foldl (\<lambda>l s. if l < f s then f s else l) (a :: 'b :: linorder) xs = Max (insert a (f ` set xs))"
proof (induction xs arbitrary: a)
  case Nil
  then show ?case by simp
next
  case (Cons x xs)
  have "(if a < f x then f x else a) = max a (f x)"
    by (auto simp: max_def)
  then show ?case
    using Cons Max_insert_max [of "f ` set xs" a "f x"] by simp
qed

lemma group_earliest:
  "fst (snd (groupSubmissionByMinute cfg n1 n2 xs interval monitor)) =
     Min (insert (n1 + century) (bucket_time interval ` set xs))"
  by (simp add: groupSubmissionByMinute_def Let_def foldl_min_eq)

lemma group_latest:
  "snd (snd (groupSubmissionByMinute cfg n1 n2 xs interval monitor)) =
     Max (insert (n2 - century) (bucket_time interval ` set xs))"
  by (simp add: groupSubmissionByMinute_def Let_def foldl_max_eq)

section \<open>The order of the submissions does not matter\<close>

definition bucket_equiv :: "SubmissionBucket \<Rightarrow> SubmissionBucket \<Rightarrow> bool" where
  "bucket_equiv b b' =
     (bk_TimestampMinute b = bk_TimestampMinute b' \<and> mset (bk_Regions b) = mset (bk_Regions b') \<and>
      bk_FailureCount b = bk_FailureCount b' \<and> bk_TotalCount b = bk_TotalCount b')"

lemma mset_filter_length: "mset xs = mset ys \<Longrightarrow> length (filter P xs) = length (filter P ys)"
  by (metis mset_filter size_mset)

lemma counts_of_perm: "mset xs = mset ys \<Longrightarrow> counts_of monitor xs = counts_of monitor ys"
  unfolding counts_of_def by (rule ext) (simp only: mset_filter_length [of xs ys])

lemma gm_mset_eq: "gm_wf m \<Longrightarrow> gm_wf m' \<Longrightarrow> map_of m = map_of m' \<Longrightarrow> mset m = mset m'"
  unfolding gm_wf_def
  using map_of_inject_set [of m m'] set_eq_iff_mset_eq_distinct [of m m']
  by (simp add: distinct_map)

lemma make_bucket_perm:
  assumes "mset xs = mset ys"
  shows "bucket_equiv (make_bucket cfg monitor t xs) (make_bucket cfg monitor t ys)"
proof -
  let ?b = "make_bucket cfg monitor t xs" and ?c = "make_bucket cfg monitor t ys"
  have "set xs = set ys"
    using assms by (rule mset_eq_setD)
  then have "map_of (bk_Regions ?b) = map_of (bk_Regions ?c)"
    using counts_of_perm [OF assms]
    by (intro ext) (simp add: make_bucket_lookup region_fails_def)
  moreover have "gm_wf (bk_Regions ?b)" "gm_wf (bk_Regions ?c)"
    using make_bucket_wf [of cfg monitor t xs] make_bucket_wf [of cfg monitor t ys]
    by (simp_all add: bucket_wf_def)
  ultimately have m: "mset (bk_Regions ?b) = mset (bk_Regions ?c)"
    by (intro gm_mset_eq)
  then have "length (bk_Regions ?b) = length (bk_Regions ?c)"
    by (rule mset_eq_length)
  moreover have "bk_TimestampMinute ?b = bk_TimestampMinute ?c"
    by (simp add: make_bucket_eq)
  ultimately show ?thesis
    using m make_bucket_wf [of cfg monitor t xs] make_bucket_wf [of cfg monitor t ys]
    by (simp add: bucket_equiv_def bucket_wf_def mset_filter_length [OF m])
qed

lemma bucket_equiv_failed: "bucket_equiv b b' \<Longrightarrow> failedRegionsFromBucket b = failedRegionsFromBucket b'"
  unfolding failedRegionsFromBucket_def bucket_equiv_def
  by (intro sort_perm) (simp add: mset_map mset_filter)

lemma bucket_equiv_failures:
  assumes "bucket_equiv b b'" and "mset xs = mset ys"
  shows "mset (bucket_failures b xs t d) = mset (bucket_failures b' ys t d)"
proof -
  have "set (bk_Regions b) = set (bk_Regions b')"
    using assms(1) by (auto simp: bucket_equiv_def dest: mset_eq_setD)
  then show ?thesis
    unfolding bucket_failures_def Let_def mset_filter assms(2) by simp
qed

lemma evaluateBucket_equiv:
  "bk_TotalCount b = bk_TotalCount b' \<Longrightarrow>
     evaluateBucketIncident cfg b fr m = evaluateBucketIncident cfg b' fr m"
  by (simp add: evaluateBucketIncident_def)

text \<open>Two maps of buckets that agree up to the order of the regions.\<close>

definition buckets_equiv ::
    "(gotime, SubmissionBucket) gomap \<Rightarrow> (gotime, SubmissionBucket) gomap \<Rightarrow> bool" where
  "buckets_equiv m m' = (\<forall>t. rel_option bucket_equiv (map_of m t) (map_of m' t))"

lemma buckets_equiv_cases:
  assumes "buckets_equiv m m'"
  obtains "map_of m t = None" "map_of m' t = None"
  | b b' where "map_of m t = Some b" "map_of m' t = Some b'" "bucket_equiv b b'"
  using assms by (auto simp: buckets_equiv_def option_rel_Some1 elim!: option.rel_cases dest!: spec [of _ t])

lemma find_bucket_equiv:
  assumes "buckets_equiv m m'" and "\<And>b b'. bucket_equiv b b' \<Longrightarrow> P b = P b'"
  shows "List.find (\<lambda>t. case map_of m t of None \<Rightarrow> False | Some b \<Rightarrow> P b) ts =
         List.find (\<lambda>t. case map_of m' t of None \<Rightarrow> False | Some b \<Rightarrow> P b) ts"
proof (rule arg_cong [where f = "\<lambda>Q. List.find Q ts"], rule ext)
  fix t
  show "(case map_of m t of None \<Rightarrow> False | Some b \<Rightarrow> P b) =
        (case map_of m' t of None \<Rightarrow> False | Some b \<Rightarrow> P b)"
    by (rule buckets_equiv_cases [OF assms(1), of t]) (simp_all add: assms(2))
qed

lemma streak_loop_equiv:
  "buckets_equiv m m' \<Longrightarrow> streak_loop cfg m L d c dur n ts = streak_loop cfg m' L d c dur n ts"
proof (induction ts arbitrary: n)
  case Nil
  then show ?case by simp
next
  case (Cons t ts)
  show ?case
  proof (rule buckets_equiv_cases [OF Cons.prems, of t])
    fix b b'
    assume m: "map_of m t = Some b" "map_of m' t = Some b'" and e: "bucket_equiv b b'"
    have "failedRegionsFromBucket b = failedRegionsFromBucket b'" "bk_TotalCount b = bk_TotalCount b'"
      using bucket_equiv_failed [OF e] e by (simp_all add: bucket_equiv_def)
    moreover from this have "evaluateBucketIncident cfg b (failedRegionsFromBucket b) [] =
        evaluateBucketIncident cfg b' (failedRegionsFromBucket b') []"
      by (simp only: evaluateBucket_equiv [of b b'])
    ultimately show ?thesis
      using m Cons.IH [OF Cons.prems] by (simp add: Let_def)
  qed simp
qed

lemma shouldPromote_equiv:
  "buckets_equiv m m' \<Longrightarrow>
     shouldPromoteLocalDegraded cfg m L E d = shouldPromoteLocalDegraded cfg m' L E d"
  unfolding shouldPromoteLocalDegraded_def using streak_loop_equiv by presburger

section \<open>The breakdown\<close>

definition failure_category :: "MonitorHistorical \<Rightarrow> string" where
  "failure_category s =
     CategorizeFailureReason (case hist_FailureReason s of None \<Rightarrow> [] | Some r \<Rightarrow> r)"

definition category_regions :: "MonitorHistorical list \<Rightarrow> string \<Rightarrow> string set" where
  "category_regions fs c = hist_Region ` {s \<in> set fs. failure_category s = c}"

lemma add_category_wf: "gm_wf (foldl add_category [] fs)"
  by (induction fs rule: rev_induct) (simp_all add: add_category_def Let_def)

lemma add_category_lookup:
  "case map_of (foldl add_category [] fs) c of
     None \<Rightarrow> category_regions fs c = {}
   | Some rs \<Rightarrow> rs \<noteq> [] \<and> distinct rs \<and> set rs = category_regions fs c"
proof (induction fs rule: rev_induct)
  case Nil
  then show ?case by (simp add: category_regions_def)
next
  case (snoc x fs)
  have "category_regions (fs @ [x]) c =
      (if failure_category x = c then insert (hist_Region x) (category_regions fs c)
       else category_regions fs c)"
    by (auto simp: category_regions_def)
  then show ?case
    using snoc
    by (auto simp: add_category_def Let_def update_conv' failure_category_def [symmetric]
        List.insert_def split: option.splits)
qed

definition breakdown_map :: "MonitorHistorical list \<Rightarrow> (string, string list) gomap" where
  "breakdown_map fs = map (\<lambda>(category, regions). (category, sort regions)) (foldl add_category [] fs)"

lemma breakdown_map_wf [simp]: "gm_wf (breakdown_map fs)"
  by (simp add: breakdown_map_def add_category_wf)

lemma breakdown_map_lookup:
  "map_of (breakdown_map fs) c =
     (if category_regions fs c = {} then None else Some (sorted_list_of_set (category_regions fs c)))"
proof (cases "map_of (foldl add_category [] fs) c")
  case None
  then show ?thesis
    using add_category_lookup [of fs c] map_of_map_snd [of "\<lambda>_. sort" "foldl add_category [] fs" c]
    by (simp add: breakdown_map_def)
next
  case (Some rs)
  then have rs: "rs \<noteq> []" "distinct rs" "set rs = category_regions fs c"
    using add_category_lookup [of fs c] by simp_all
  then have "sort rs = sorted_list_of_set (category_regions fs c)"
    using sorted_list_of_set_sort_remdups [of rs] by (simp add: distinct_remdups_id)
  moreover have "category_regions fs c \<noteq> {}"
    using rs by auto
  ultimately show ?thesis
    using Some map_of_map_snd [of "\<lambda>_. sort" "foldl add_category [] fs" c]
    by (simp add: breakdown_map_def)
qed

lemma breakdown_map_cong:
  assumes "set fs = set fs'"
  shows "map_of (breakdown_map fs) = map_of (breakdown_map fs')"
  using assms by (intro ext) (simp add: breakdown_map_lookup category_regions_def)

lemma build_eq:
  "buildFailureReasonsBreakdown buckets xs L E d =
     (case List.find (\<lambda>t. case map_of buckets t of None \<Rightarrow> False | Some b \<Rightarrow> bk_FailureCount b \<noteq> 0)
         (walk_back L E d) of
        None \<Rightarrow> []
      | Some t \<Rightarrow> (case map_of buckets t of None \<Rightarrow> []
                    | Some b \<Rightarrow> breakdown_map (bucket_failures b xs t d)))"
  by (simp add: buildFailureReasonsBreakdown_def breakdown_map_def cong: option.case_cong)

lemma build_wf [simp]: "gm_wf (buildFailureReasonsBreakdown buckets xs L E d)"
  by (simp add: build_eq split: option.split)

lemma build_equiv:
  assumes "buckets_equiv m m'" and "mset xs = mset ys"
  shows "map_of (buildFailureReasonsBreakdown m xs L E d) =
         map_of (buildFailureReasonsBreakdown m' ys L E d)"
proof -
  let ?find = "\<lambda>m. List.find (\<lambda>t. case map_of m t of None \<Rightarrow> False | Some b \<Rightarrow> bk_FailureCount b \<noteq> 0)
     (walk_back L E d)"
  have f: "?find m = ?find m'"
    by (rule find_bucket_equiv [OF assms(1)]) (simp add: bucket_equiv_def)
  show ?thesis
  proof (cases "?find m'")
    case None
    then show ?thesis
      by (simp add: build_eq f)
  next
    case (Some t)
    show ?thesis
    proof (rule buckets_equiv_cases [OF assms(1), of t])
      assume "map_of m t = None" "map_of m' t = None"
      then show ?thesis
        by (simp add: build_eq f Some)
    next
      fix b b'
      assume m: "map_of m t = Some b" "map_of m' t = Some b'" and "bucket_equiv b b'"
      then have "set (bucket_failures b xs t d) = set (bucket_failures b' ys t d)"
        using bucket_equiv_failures assms(2) by (intro mset_eq_setD)
      from breakdown_map_cong [OF this] show ?thesis
        using m by (simp add: build_eq f Some)
    qed
  qed
qed

text \<open>What a reader of two evaluations can tell apart, exactly.\<close>

definition same_evaluation :: "IncidentEvaluation \<Rightarrow> IncidentEvaluation \<Rightarrow> bool" where
  "same_evaluation e f =
     (Status e = Status f \<and> Scope e = Scope f \<and> Reason e = Reason f \<and>
      AffectedRegions e = AffectedRegions f \<and>
      map_of (FailureReasonsBreakdown e) = map_of (FailureReasonsBreakdown f))"

lemma same_evaluation_refl [simp]: "same_evaluation e e"
  by (simp add: same_evaluation_def)

lemma same_evaluation_key: "same_evaluation e f \<Longrightarrow> evaluation_key e = evaluation_key f"
  by (simp add: same_evaluation_def evaluation_key_def breakdown_of_def fun_eq_iff)

lemma evaluateBucket_breakdown:
  "map_of bd = map_of bd' \<Longrightarrow>
     same_evaluation (evaluateBucketIncident cfg b fr bd) (evaluateBucketIncident cfg b fr bd')"
  by (simp add: evaluateBucketIncident_def same_evaluation_def)

lemma evaluateBucket_Status_breakdown:
  "Status (evaluateBucketIncident cfg b fr bd) = Status (evaluateBucketIncident cfg b fr [])"
  "Scope (evaluateBucketIncident cfg b fr bd) = Scope (evaluateBucketIncident cfg b fr [])"
  by (simp_all add: evaluateBucketIncident_def Let_def)

lemma evaluateBucket_wf: "gm_wf bd \<Longrightarrow> evaluation_wf (evaluateBucketIncident cfg b fr bd)"
  by (simp add: evaluateBucketIncident_def evaluation_wf_def HealthyIncidentEvaluation_def Let_def)

lemma healthy_wf [simp]: "evaluation_wf HealthyIncidentEvaluation"
  by (simp add: evaluation_wf_def HealthyIncidentEvaluation_def)

lemma evaluateLatest_wf: "evaluation_wf (evaluateLatestIncident cfg buckets xs L E d)"
  by (auto simp: evaluateLatestIncident_def Let_def evaluateBucket_wf split: option.split)

lemma latestNonEmpty_equiv:
  assumes "buckets_equiv m m'"
  shows "rel_option (rel_prod (=) bucket_equiv) (latestNonEmptyBucket m L E d) (latestNonEmptyBucket m' L E d)"
proof -
  let ?find = "\<lambda>m. List.find (\<lambda>t. case map_of m t of None \<Rightarrow> False | Some b \<Rightarrow> bk_TotalCount b \<noteq> 0)
     (walk_back L E d)"
  have f: "?find m = ?find m'"
    by (rule find_bucket_equiv [OF assms]) (simp add: bucket_equiv_def)
  show ?thesis
  proof (cases "?find m'")
    case None
    then show ?thesis
      by (simp add: latestNonEmptyBucket_def f)
  next
    case (Some t)
    then show ?thesis
      using assms by (auto simp: latestNonEmptyBucket_def f buckets_equiv_def option.rel_map
          intro: option.rel_mono_strong)
  qed
qed

lemma evaluateLatest_equiv:
  assumes "buckets_equiv m m'" and "mset xs = mset ys" and "m = [] \<longleftrightarrow> m' = []"
  shows "same_evaluation (evaluateLatestIncident cfg m xs L E d) (evaluateLatestIncident cfg m' ys L E d)"
proof (cases "m = [] \<or> L < E \<or> d \<le> 0")
  case True
  then show ?thesis
    using assms(3) by (auto simp: evaluateLatestIncident_def)
next
  case False
  from latestNonEmpty_equiv [OF assms(1), of L E d]
  consider "latestNonEmptyBucket m L E d = None" "latestNonEmptyBucket m' L E d = None"
    | t b b' where "latestNonEmptyBucket m L E d = Some (t, b)" "latestNonEmptyBucket m' L E d = Some (t, b')"
        "bucket_equiv b b'"
    by (auto elim!: option.rel_cases)
  then show ?thesis
  proof cases
    case 1
    then show ?thesis
      using False assms(3) by (simp add: evaluateLatestIncident_def)
  next
    case 2
    let ?fr = "failedRegionsFromBucket b'"
    let ?bd = "buildFailureReasonsBreakdown m xs t E d" and ?bd' = "buildFailureReasonsBreakdown m' ys t E d"
    have fr: "failedRegionsFromBucket b = ?fr"
      using bucket_equiv_failed [OF 2(3)] .
    have ev: "evaluateBucketIncident cfg b ?fr bd = evaluateBucketIncident cfg b' ?fr bd" for bd
      using 2(3) by (intro evaluateBucket_equiv) (simp add: bucket_equiv_def)
    have same: "same_evaluation (evaluateBucketIncident cfg b' ?fr ?bd) (evaluateBucketIncident cfg b' ?fr ?bd')"
      using build_equiv [OF assms(1,2)] by (rule evaluateBucket_breakdown)
    have pr: "shouldPromoteLocalDegraded cfg m t E d = shouldPromoteLocalDegraded cfg m' t E d"
      using assms(1) by (rule shouldPromote_equiv)
    show ?thesis
      using False assms(3) same 2(1,2) pr
      by (simp add: evaluateLatestIncident_def Let_def fr ev
          evaluateBucket_Status_breakdown [of cfg b' ?fr ?bd] evaluateBucket_Status_breakdown [of cfg b' ?fr ?bd'])
  qed
qed

lemma groups_equiv:
  assumes "mset xs = mset ys"
  shows "buckets_equiv (fst (groupSubmissionByMinute cfg n1 n2 xs d monitor))
           (fst (groupSubmissionByMinute cfg n1 n2 ys d monitor))"
proof -
  have "set xs = set ys"
    using assms by (rule mset_eq_setD)
  moreover have "mset (in_minute d t xs) = mset (in_minute d t ys)" for t
    using assms by (simp add: in_minute_def)
  ultimately show ?thesis
    by (simp add: buckets_equiv_def buckets_lookup make_bucket_perm)
qed

text \<open>The evaluation of a list of submissions, as a run of the worker computes it.\<close>

definition evaluate_submissions ::
    "DatasetConfig \<Rightarrow> gotime \<Rightarrow> gotime \<Rightarrow> Monitor \<Rightarrow> MonitorHistorical list \<Rightarrow> IncidentEvaluation" where
  "evaluate_submissions cfg now1 now2 monitor submissions =
     (case groupSubmissionByMinute cfg now1 now2 submissions minute monitor of
        (buckets, earliestTime, latestTime) \<Rightarrow>
          evaluateLatestIncident cfg buckets submissions latestTime earliestTime minute)"

lemma evaluate_submissions_wf: "evaluation_wf (evaluate_submissions cfg n1 n2 monitor xs)"
  by (simp add: evaluate_submissions_def evaluateLatest_wf split: prod.split)

lemma evaluate_submissions_order:
  assumes "mset xs = mset ys"
  shows "same_evaluation (evaluate_submissions cfg n1 n2 monitor xs) (evaluate_submissions cfg n1 n2 monitor ys)"
proof -
  let ?g = "\<lambda>xs. groupSubmissionByMinute cfg n1 n2 xs minute monitor"
  have "set xs = set ys"
    using assms by (rule mset_eq_setD)
  then have times: "snd (?g xs) = snd (?g ys)"
    by (intro prod_eqI) (simp_all add: group_earliest group_latest)
  have "fst (?g xs) = [] \<longleftrightarrow> fst (?g ys) = []"
    using assms by (simp add: buckets_empty) (metis mset_zero_iff)
  from evaluateLatest_equiv [OF groups_equiv [OF assms] assms this] times show ?thesis
    by (simp add: evaluate_submissions_def split_def)
qed

section \<open>The streak\<close>

definition degraded_at :: "DatasetConfig \<Rightarrow> (gotime, SubmissionBucket) gomap \<Rightarrow> gotime \<Rightarrow> bool" where
  "degraded_at cfg buckets t =
     (case map_of buckets t of None \<Rightarrow> False
      | Some b \<Rightarrow> bk_TotalCount b \<noteq> 0 \<and>
          (let e = evaluateBucketIncident cfg b (failedRegionsFromBucket b) []
           in Status e = MonitorStatusDegraded \<and> Scope e = MonitorScopeLocal))"

definition long_enough :: "int \<Rightarrow> duration \<Rightarrow> duration \<Rightarrow> nat \<Rightarrow> bool" where
  "long_enough consecutive dur interval n =
     (0 < consecutive \<and> consecutive \<le> int n \<or> 0 < dur \<and> dur \<le> int n * interval)"

lemma streak_step:
  assumes "wrap64 (time_sub L t + d) = (int k + 1) * d"
  shows "streak_loop cfg m L d c dur (int k) (t # ts) =
     (degraded_at cfg m t \<and> (long_enough c dur d (Suc k) \<or> streak_loop cfg m L d c dur (int (Suc k)) ts))"
  using assms by (auto simp: degraded_at_def long_enough_def Let_def algebra_simps split: option.split)

lemma streak_loop_iff:
  assumes "0 < d" and "L - E + d < 2 ^ 63"
  shows "streak_loop cfg m L d c dur (int k) (walk_back (L - int k * d) E d) \<longleftrightarrow>
     (\<exists>n > k. (\<forall>i. k \<le> i \<and> i < n \<longrightarrow> E \<le> L - int i * d \<and> degraded_at cfg m (L - int i * d)) \<and>
        long_enough c dur d n)"
    (is "?run k \<longleftrightarrow> ?spec k")
proof (induction "nat (L - int k * d - E + d)" arbitrary: k rule: less_induct)
  case less
  let ?t = "L - int k * d"
  show ?case
  proof (cases "?t < E")
    case True
    then show ?thesis
      using assms(1) by (subst walk_back.simps) auto
  next
    case False
    have w: "wrap64 (time_sub L ?t + d) = (int k + 1) * d"
    proof -
      define x where "x = int k * d"
      have "0 \<le> x" "x \<le> L - E"
        using False assms(1) by (simp_all add: x_def)
      then have "time_sub L (L - x) = x" "- (2 ^ 63) \<le> x + d" "x + d < 2 ^ 63"
        using assms time_sub_exact [of L "L - x"] by (simp_all add: abs_if)
      then have "wrap64 (time_sub L (L - x) + d) = x + d"
        by (simp add: wrap64_id)
      then show ?thesis
        by (simp add: x_def algebra_simps)
    qed
    have wb: "walk_back ?t E d = ?t # walk_back (L - int (Suc k) * d) E d"
      using False assms(1) by (subst walk_back.simps) (simp add: algebra_simps)
    have "nat (L - int (Suc k) * d - E + d) < nat (?t - E + d)"
      using False assms(1) by (simp add: algebra_simps)
    then have IH: "?run (Suc k) \<longleftrightarrow> ?spec (Suc k)"
      by (rule less)
    have "?run k \<longleftrightarrow> degraded_at cfg m ?t \<and> (long_enough c dur d (Suc k) \<or> ?spec (Suc k))"
      unfolding wb streak_step [OF w] IH [symmetric] ..
    also have "\<dots> \<longleftrightarrow> ?spec k"
    proof
      assume l: "degraded_at cfg m ?t \<and> (long_enough c dur d (Suc k) \<or> ?spec (Suc k))"
      then consider "long_enough c dur d (Suc k)" | "?spec (Suc k)" by blast
      then show "?spec k"
      proof cases
        case 1
        then show ?thesis
          using l False by (intro exI [of _ "Suc k"]) (auto simp: less_Suc_eq not_less)
      next
        case 2
        then obtain n where "Suc k < n" "long_enough c dur d n"
            "\<And>i. Suc k \<le> i \<Longrightarrow> i < n \<Longrightarrow> E \<le> L - int i * d \<and> degraded_at cfg m (L - int i * d)"
          by blast
        moreover have "E \<le> L - int i * d \<and> degraded_at cfg m (L - int i * d)" if "k \<le> i" "i < n" for i
          using l False calculation(3) [of i] that by (cases "i = k") auto
        ultimately show ?thesis
          by (intro exI [of _ n]) auto
      qed
    next
      assume "?spec k"
      then obtain n where n: "k < n" "long_enough c dur d n"
          "\<And>i. k \<le> i \<Longrightarrow> i < n \<Longrightarrow> E \<le> L - int i * d \<and> degraded_at cfg m (L - int i * d)"
        by blast
      have "?spec (Suc k)" if "n \<noteq> Suc k"
        using n that by (intro exI [of _ n]) auto
      then show "degraded_at cfg m ?t \<and> (long_enough c dur d (Suc k) \<or> ?spec (Suc k))"
        using n(2) n(3) [of k] n(1) by blast
    qed
    finally show ?thesis .
  qed
qed

lemma shouldPromote_iff:
  assumes "0 < d" and "E \<le> L" and "L - E + d < 2 ^ 63"
  shows "shouldPromoteLocalDegraded cfg m L E d \<longleftrightarrow>
     DegradedThresholdConsecutiveBuckets cfg \<le> 0 \<and> minutes (DegradedThresholdMinutes cfg) \<le> 0 \<or>
     (\<exists>n > 0. (\<forall>i < n. E \<le> L - int i * d \<and> degraded_at cfg m (L - int i * d)) \<and>
        long_enough (DegradedThresholdConsecutiveBuckets cfg) (minutes (DegradedThresholdMinutes cfg)) d n)"
  using assms streak_loop_iff [OF assms(1,3), of cfg m _ _ 0]
  by (auto simp: shouldPromoteLocalDegraded_def Let_def)

section \<open>The verdict\<close>

lemma latestNonEmpty_head:
  assumes "map_of m L = Some b" and "bk_TotalCount b \<noteq> 0" and "E \<le> L" and "0 < d"
  shows "latestNonEmptyBucket m L E d = Some (L, b)"
  using assms by (subst latestNonEmptyBucket_def, subst walk_back.simps) simp

text \<open>How bad an evaluation is.\<close>

definition severity :: "IncidentEvaluation \<Rightarrow> nat" where
  "severity e = (if Status e = MonitorStatusDown then 2 else if Status e = MonitorStatusDegraded then 1 else 0)"

definition bucket_verdict :: "DatasetConfig \<Rightarrow> nat \<Rightarrow> nat \<Rightarrow> string \<times> string" where
  "bucket_verdict cfg failed reporting =
     (if failed = 0 \<or> reporting = 0 then (MonitorStatusHealthy, MonitorScopeHealthy)
      else if failed = reporting
      then (MonitorStatusDown, if reporting > 1 then MonitorScopeGlobal else MonitorScopeLocal)
      else if reporting > 1 \<and> percent (FailureThresholdPercent cfg) \<le> rate failed reporting
      then (MonitorStatusDown, MonitorScopeGlobal)
      else (MonitorStatusDegraded, MonitorScopeLocal))"

lemma evaluateBucket_verdict:
  assumes "bk_TotalCount b = int reporting"
  shows "(Status (evaluateBucketIncident cfg b fr bd), Scope (evaluateBucketIncident cfg b fr bd)) =
     bucket_verdict cfg (length fr) reporting"
  using assms by (simp add: evaluateBucketIncident_def bucket_verdict_def HealthyIncidentEvaluation_def
      Let_def rate_def)

lemma evaluateBucket_regions:
  "bk_TotalCount b \<noteq> 0 \<Longrightarrow> AffectedRegions (evaluateBucketIncident cfg b fr bd) = fr"
  by (simp add: evaluateBucketIncident_def HealthyIncidentEvaluation_def Let_def)

definition verdict_severity :: "string \<times> string \<Rightarrow> nat" where
  "verdict_severity v = (if fst v = MonitorStatusDown then 2 else if fst v = MonitorStatusDegraded then 1 else 0)"

lemma bucket_verdict_mono:
  assumes "failed \<le> failed'" and "failed' \<le> reporting"
  shows "verdict_severity (bucket_verdict cfg failed reporting) \<le> verdict_severity (bucket_verdict cfg failed' reporting)"
proof (cases "failed = 0 \<or> reporting = 0 \<or> failed' = reporting")
  case True
  then show ?thesis
    using assms by (auto simp: bucket_verdict_def verdict_severity_def statuses)
next
  case False
  then have "rate failed reporting \<le> rate failed' reporting"
    using assms by (intro rate_mono) simp_all
  then show ?thesis
    using False assms by (auto simp: bucket_verdict_def verdict_severity_def statuses)
qed

lemma severity_verdict:
  "bk_TotalCount b = int reporting \<Longrightarrow>
     severity (evaluateBucketIncident cfg b fr bd) = verdict_severity (bucket_verdict cfg (length fr) reporting)"
  using evaluateBucket_verdict [of b reporting cfg fr bd]
  by (simp add: severity_def verdict_severity_def) (metis fst_conv)

text \<open>
  The evaluation of a list of submissions: the latest minute decides, and a verdict of local
  degradation needs the streak.
\<close>

definition latest_minute :: "MonitorHistorical list \<Rightarrow> gotime" where
  "latest_minute xs = Max (bucket_time minute ` set xs)"

definition latest_verdict :: "DatasetConfig \<Rightarrow> Monitor \<Rightarrow> MonitorHistorical list \<Rightarrow> string \<times> string" where
  "latest_verdict cfg monitor xs =
     (let ys = in_minute minute (latest_minute xs) xs
      in bucket_verdict cfg (card (failing cfg monitor ys)) (card (hist_Region ` set ys)))"

lemma evaluate_submissions_verdict:
  fixes cfg monitor xs n1 n2
  defines "buckets \<equiv> fst (groupSubmissionByMinute cfg n1 n2 xs minute monitor)"
    and "earliest \<equiv> Min (insert (n1 + century) (bucket_time minute ` set xs))"
    and "v \<equiv> latest_verdict cfg monitor xs"
    and "e \<equiv> evaluate_submissions cfg n1 n2 monitor xs"
  assumes "xs \<noteq> []" and "\<forall>s \<in> set xs. n2 - century \<le> bucket_time minute s"
  shows "(Status e, Scope e) =
      (if v = (MonitorStatusDegraded, MonitorScopeLocal) \<and>
          \<not> shouldPromoteLocalDegraded cfg buckets (latest_minute xs) earliest minute
       then (MonitorStatusHealthy, MonitorScopeHealthy) else v)"
    and "AffectedRegions e =
      (if Status e = MonitorStatusHealthy then []
       else sorted_list_of_set (failing cfg monitor (in_minute minute (latest_minute xs) xs)))"
proof -
  let ?L = "latest_minute xs" and ?ys = "in_minute minute (latest_minute xs) xs"
  let ?b = "make_bucket cfg monitor ?L ?ys"
  let ?fr = "failedRegionsFromBucket ?b"
  let ?bd = "buildFailureReasonsBreakdown buckets xs ?L earliest minute"
  have Lin: "?L \<in> bucket_time minute ` set xs"
    using assms(5) by (simp add: latest_minute_def)
  then have ys: "?ys \<noteq> []"
    by (auto simp: in_minute_def filter_empty_conv)
  have L: "Max (insert (n2 - century) (bucket_time minute ` set xs)) = ?L"
  proof -
    have "n2 - century \<le> ?L"
      using assms(6) Lin by (auto simp: image_iff)
    then show ?thesis
      using assms(5) by (simp add: latest_minute_def)
  qed
  have E: "earliest \<le> ?L"
    unfolding earliest_def using Lin by (intro Min_le) simp_all
  have lookup: "map_of buckets ?L = Some ?b"
    using Lin by (simp add: buckets_def buckets_lookup)
  have reporting: "bk_TotalCount ?b = int (card (hist_Region ` set ?ys))" "bk_TotalCount ?b \<noteq> 0"
    using ys by (simp_all add: make_bucket_total card_eq_0_iff)
  have fr: "length ?fr = card (failing cfg monitor ?ys)"
    by (simp add: make_bucket_failed)
  have head: "latestNonEmptyBucket buckets ?L earliest minute = Some (?L, ?b)"
    using lookup reporting(2) E by (intro latestNonEmpty_head) (simp_all add: minute_def)
  have ne: "buckets \<noteq> []"
    using lookup by auto
  let ?ev = "evaluateBucketIncident cfg ?b ?fr ?bd"
  have v: "(Status ?ev, Scope ?ev) = v"
    using evaluateBucket_verdict [OF reporting(1)] by (simp add: v_def latest_verdict_def Let_def fr)
  have e: "e = (if length ?fr = 0 \<or> (Status ?ev = MonitorStatusDegraded \<and> Scope ?ev = MonitorScopeLocal \<and>
        \<not> shouldPromoteLocalDegraded cfg buckets ?L earliest minute)
      then HealthyIncidentEvaluation else ?ev)"
    unfolding e_def evaluate_submissions_def
    using E head ne L [folded group_latest [of cfg n1 n2 xs minute monitor]]
      group_earliest [of cfg n1 n2 xs minute monitor, folded earliest_def]
    by (simp add: split_def buckets_def evaluateLatestIncident_def Let_def minute_def)
  have z: "length ?fr = 0 \<Longrightarrow> v = (MonitorStatusHealthy, MonitorScopeHealthy)"
    by (simp add: v_def latest_verdict_def Let_def bucket_verdict_def fr)
  show 1: "(Status e, Scope e) = (if v = (MonitorStatusDegraded, MonitorScopeLocal) \<and>
          \<not> shouldPromoteLocalDegraded cfg buckets ?L earliest minute
       then (MonitorStatusHealthy, MonitorScopeHealthy) else v)"
    using v z by (auto simp: e HealthyIncidentEvaluation_def statuses)
  have "Status ?ev = MonitorStatusHealthy \<Longrightarrow> length ?fr = 0"
    using v reporting by (auto simp: v_def latest_verdict_def Let_def bucket_verdict_def fr statuses split: if_splits)
  then show "AffectedRegions e = (if Status e = MonitorStatusHealthy then []
       else sorted_list_of_set (failing cfg monitor ?ys))"
    using evaluateBucket_regions [OF reporting(2)]
    by (auto simp: e HealthyIncidentEvaluation_def make_bucket_failed)
qed

section \<open>Properties\<close>

text \<open>A concrete deployment, for the witnesses: one HTTP monitor, checked from two regions.\<close>

definition ex_monitor :: Monitor where
  "ex_monitor = zero_monitor\<lparr>mon_ID := ''api'', mon_Name := ''API'', mon_Url := ''https://x''\<rparr>"

definition ex_monitors :: MonitorConfig where
  "ex_monitors = \<lparr>mc_Monitors = [ex_monitor], mc_Groups = []\<rparr>"

definition ex_dataset :: DatasetConfig where
  "ex_dataset = \<lparr>RetentionDays = 90, CleanupIntervalMinutes = 60, CleanupBatchSize = 100000,
     ProcessingLookbackMinutes = 10, PerRegionFailureThresholdPercent = 40, FailureThresholdPercent = 50,
     DegradedThresholdMinutes = 10, DegradedThresholdConsecutiveBuckets = 5, FailureThresholdMinutes = 15\<rparr>"

definition ex_row :: "string \<Rightarrow> int \<Rightarrow> gotime \<Rightarrow> MonitorHistorical" where
  "ex_row region code time =
     \<lparr>hist_MonitorID = ''api'', hist_Region = region, hist_ProbeType = ''http'', hist_Success = (code = 200),
      hist_FailureReason = None,
      hist_StatusCode = code, hist_LatencyMs = 12, hist_ResponseBody = None, hist_TlsVersion = None,
      hist_TlsCipher = None, hist_TlsExpiry = None, hist_TlsCertNotBefore = None, hist_TlsCertIssuer = None,
      hist_TlsCertSubject = None, hist_TlsCertDN = None, hist_TlsCertFingerprint = None,
      hist_TlsCertIsExpired = False, hist_TimingConnAcquiredMs = Some 0,
      hist_TimingFirstResponseByteMs = Some 0, hist_TimingDNSLookupStartMs = Some 0,
      hist_TimingDNSLookupDoneMs = Some 0, hist_TimingTLSHandshakeStartMs = Some 0,
      hist_TimingTLSHandshakeDoneMs = Some 0, hist_CreatedAt = time\<rparr>"

definition ex_now :: gotime where
  "ex_now = 1700000040000000000"

definition ex_rows :: "MonitorHistorical list" where
  "ex_rows = [ex_row ''eu'' 500 ex_now, ex_row ''us'' 200 ex_now]"

text \<open>
  C26: The evaluation of a monitor does not depend on the order in which the database delivers
  the submissions, nor on the order in which Go visits the maps built from them: status, scope,
  reason, affected regions and the breakdown by category are the same for every permutation.
\<close>

theorem evaluation_order_independent:
  assumes "mset xs = mset ys"
  shows "let e = evaluate_submissions cfg n1 n2 monitor xs; f = evaluate_submissions cfg n1 n2 monitor ys
     in Status e = Status f \<and> Scope e = Scope f \<and> Reason e = Reason f \<and>
        AffectedRegions e = AffectedRegions f \<and>
        map_of (FailureReasonsBreakdown e) = map_of (FailureReasonsBreakdown f) \<and> evaluation_Equal e f"
proof -
  let ?e = "evaluate_submissions cfg n1 n2 monitor xs" and ?f = "evaluate_submissions cfg n1 n2 monitor ys"
  have same: "same_evaluation ?e ?f"
    using assms by (rule evaluate_submissions_order)
  then have "evaluation_Equal ?e ?f"
    using same_evaluation_key by (simp add: evaluation_Equal_key evaluate_submissions_wf)
  with same show ?thesis
    by (simp add: same_evaluation_def Let_def)
qed

theorem evaluation_order_independent_witness:
  "let e = evaluate_submissions ex_dataset 0 0 ex_monitor ex_rows;
       f = evaluate_submissions ex_dataset 0 0 ex_monitor (rev ex_rows)
   in Status e = Status f \<and> evaluation_Equal e f"
  using evaluation_order_independent [of ex_rows "rev ex_rows" ex_dataset 0 0 ex_monitor]
  by (simp add: Let_def)

text \<open>
  C16: What the evaluation is. Let \<open>ys\<close> be the submissions of the latest minute, \<open>R\<close> their regions
  and \<open>F\<close> the regions whose share of failed submissions reaches the threshold. No failed region
  is healthy; all failed, or a share of failed regions that reaches the threshold, is down
  (global when more than one region reports); anything else is a local degradation, which
  counts only when the streak of minutes before it is long enough. The affected regions are
  \<open>F\<close> in order. (The submissions are not older than a century.)
\<close>

theorem evaluation_verdict:
  assumes "xs \<noteq> []" and "\<forall>s \<in> set xs. n2 - century \<le> bucket_time minute s"
  shows "let ys = in_minute minute (latest_minute xs) xs;
         R = hist_Region ` set ys;
         F = {r \<in> R. percent (PerRegionFailureThresholdPercent cfg) \<le>
               rate (length (filter (\<lambda>s. hist_Region s = r \<and>
                        \<not> IsSuccessfulStatus monitor (hist_StatusCode s) (hist_Success s)) ys))
                    (length (filter (\<lambda>s. hist_Region s = r) ys))};
         e = evaluate_submissions cfg n1 n2 monitor xs;
         promoted = shouldPromoteLocalDegraded cfg
           (fst (groupSubmissionByMinute cfg n1 n2 xs minute monitor)) (latest_minute xs)
           (Min (insert (n1 + century) (bucket_time minute ` set xs))) minute
     in (Status e, Scope e) =
          (if F = {} then (MonitorStatusHealthy, MonitorScopeHealthy)
           else if F = R then (MonitorStatusDown, if card R > 1 then MonitorScopeGlobal else MonitorScopeLocal)
           else if percent (FailureThresholdPercent cfg) \<le> rate (card F) (card R)
           then (MonitorStatusDown, MonitorScopeGlobal)
           else if promoted then (MonitorStatusDegraded, MonitorScopeLocal)
           else (MonitorStatusHealthy, MonitorScopeHealthy)) \<and>
        AffectedRegions e = (if Status e = MonitorStatusHealthy then [] else sorted_list_of_set F)"
proof -
  let ?ys = "in_minute minute (latest_minute xs) xs"
  let ?R = "hist_Region ` set ?ys" and ?F = "failing cfg monitor ?ys"
  have F: "{r \<in> ?R. percent (PerRegionFailureThresholdPercent cfg) \<le>
               rate (length (filter (\<lambda>s. hist_Region s = r \<and>
                        \<not> IsSuccessfulStatus monitor (hist_StatusCode s) (hist_Success s)) ?ys))
                    (length (filter (\<lambda>s. hist_Region s = r) ?ys))} = ?F"
    by (auto simp: failing_def region_fails_def region_ok_def counts_of_def)
  have sub: "?F \<subseteq> ?R" and fin: "finite ?R"
    by (auto simp: failing_def)
  have le: "card ?F \<le> card ?R"
    using sub fin by (rule card_mono [rotated])
  have all: "card ?F = card ?R \<longleftrightarrow> ?F = ?R"
    using card_subset_eq [OF fin sub] by auto
  have none: "card ?F = 0 \<longleftrightarrow> ?F = {}"
    using finite_subset [OF sub fin] by simp
  have R: "?R \<noteq> {}"
  proof -
    have "latest_minute xs \<in> bucket_time minute ` set xs"
      unfolding latest_minute_def using assms(1) by (intro Max_in) simp_all
    then show ?thesis
      by (auto simp: in_minute_def filter_empty_conv)
  qed
  have v: "latest_verdict cfg monitor xs =
      (if ?F = {} then (MonitorStatusHealthy, MonitorScopeHealthy)
       else if ?F = ?R then (MonitorStatusDown, if card ?R > 1 then MonitorScopeGlobal else MonitorScopeLocal)
       else if percent (FailureThresholdPercent cfg) \<le> rate (card ?F) (card ?R)
       then (MonitorStatusDown, MonitorScopeGlobal)
       else (MonitorStatusDegraded, MonitorScopeLocal))"
  proof -
    have "card ?R > 1" if "?F \<noteq> {}" "?F \<noteq> ?R"
      using that none all le by linarith
    then show ?thesis
      using R finite_subset [OF sub fin]
      by (simp add: latest_verdict_def Let_def bucket_verdict_def all card_eq_0_iff)
  qed
  show ?thesis
    using evaluate_submissions_verdict [OF assms, of cfg n1 monitor]
    unfolding Let_def F by (auto simp: v statuses scopes split: if_splits)
qed

theorem evaluation_verdict_witness:
  "ex_rows \<noteq> [] \<and> list_all (\<lambda>s. ex_now - century \<le> bucket_time minute s) ex_rows \<and>
   AffectedRegions (evaluate_submissions ex_dataset ex_now ex_now ex_monitor ex_rows) = [''eu'']"
proof -
  have h: "ex_rows \<noteq> []" "\<forall>s \<in> set ex_rows. ex_now - century \<le> bucket_time minute s"
    by (simp_all add: ex_rows_def ex_row_def ex_now_def century_def day_def bucket_time_def truncate_time_def
        minute_def zero_time_def)
  have "Status (evaluate_submissions ex_dataset ex_now ex_now ex_monitor ex_rows) = MonitorStatusDown"
    by code_simp
  moreover have "sorted_list_of_set {r \<in> hist_Region ` set (in_minute minute (latest_minute ex_rows) ex_rows).
      percent (PerRegionFailureThresholdPercent ex_dataset) \<le>
        rate (length (filter (\<lambda>s. hist_Region s = r \<and>
             \<not> IsSuccessfulStatus ex_monitor (hist_StatusCode s) (hist_Success s)) (in_minute minute (latest_minute ex_rows) ex_rows)))
          (length (filter (\<lambda>s. hist_Region s = r) (in_minute minute (latest_minute ex_rows) ex_rows)))} = [''eu'']"
    by code_simp
  ultimately show ?thesis
    using evaluation_verdict [OF h, of ex_dataset ex_monitor ex_now] h
    by (simp add: Let_def statuses list_all_iff)
qed

text \<open>
  C25: A local degradation is promoted exactly when the thresholds are both off, or when some
  number \<open>n\<close> of minutes up to the latest one were all locally degraded, none missing, and \<open>n\<close>
  reaches the threshold of consecutive buckets or \<open>n\<close> intervals reach the threshold of duration.
\<close>

theorem promotion_needs_a_streak:
  assumes "0 < d" and "E \<le> L" and "L - E + d < 2 ^ 63"
  shows "shouldPromoteLocalDegraded cfg m L E d =
     (DegradedThresholdConsecutiveBuckets cfg \<le> 0 \<and> minutes (DegradedThresholdMinutes cfg) \<le> 0 \<or>
      (\<exists>n > 0. (\<forall>i < n. E \<le> L - int i * d \<and> degraded_at cfg m (L - int i * d)) \<and>
         (0 < DegradedThresholdConsecutiveBuckets cfg \<and> DegradedThresholdConsecutiveBuckets cfg \<le> int n \<or>
          0 < minutes (DegradedThresholdMinutes cfg) \<and> minutes (DegradedThresholdMinutes cfg) \<le> int n * d)))"
  using shouldPromote_iff [OF assms, of cfg m] by (simp add: long_enough_def)

theorem promotion_needs_a_streak_witness:
  "(0 :: int) < 1 \<and> (\<not> shouldPromoteLocalDegraded ex_dataset [] 5 0 1) =
     (\<not> (\<exists>n > 0. (\<forall>i < n. 0 \<le> 5 - int i * 1 \<and> degraded_at ex_dataset [] (5 - int i * 1)) \<and>
        (0 < DegradedThresholdConsecutiveBuckets ex_dataset \<and> DegradedThresholdConsecutiveBuckets ex_dataset \<le> int n \<or>
         0 < minutes (DegradedThresholdMinutes ex_dataset) \<and> minutes (DegradedThresholdMinutes ex_dataset) \<le> int n * 1)))"
proof -
  have "\<not> (DegradedThresholdConsecutiveBuckets ex_dataset \<le> 0 \<and> minutes (DegradedThresholdMinutes ex_dataset) \<le> 0)"
    by (simp add: ex_dataset_def)
  then show ?thesis
    using promotion_needs_a_streak [of 1 0 5 ex_dataset "[]"] by auto
qed

text \<open>
  More failed regions never make a verdict milder: for two buckets with the same number of
  reporting regions, the one with at least as many failed regions is evaluated at least as
  severely (healthy, degraded, down), whatever the thresholds.
\<close>

theorem severity_monotone:
  assumes "bucket_wf b" and "bucket_wf b'" and "bk_TotalCount b = bk_TotalCount b'"
    and "length (failedRegionsFromBucket b) \<le> length (failedRegionsFromBucket b')"
  shows "severity (evaluateBucketIncident cfg b (failedRegionsFromBucket b) bd)
       \<le> severity (evaluateBucketIncident cfg b' (failedRegionsFromBucket b') bd')"
proof -
  obtain n where n: "bk_TotalCount b' = int n"
    using assms(2) by (auto simp: bucket_wf_def)
  then have "bk_TotalCount b = int n"
    using assms(3) by simp
  moreover have "length (failedRegionsFromBucket b') \<le> n"
    using failed_le_total [OF assms(2)] n by simp
  ultimately show ?thesis
    using n bucket_verdict_mono [OF assms(4)] by (simp add: severity_verdict)
qed

theorem severity_monotone_witness:
  "let b = make_bucket ex_dataset ex_monitor 0 [ex_row ''eu'' 500 0, ex_row ''us'' 200 0];
       b' = make_bucket ex_dataset ex_monitor 0 [ex_row ''eu'' 500 0, ex_row ''us'' 500 0]
   in bucket_wf b \<and> bucket_wf b' \<and>
      severity (evaluateBucketIncident ex_dataset b (failedRegionsFromBucket b) [])
      \<le> severity (evaluateBucketIncident ex_dataset b' (failedRegionsFromBucket b') [])"
proof -
  let ?b = "make_bucket ex_dataset ex_monitor 0 [ex_row ''eu'' 500 0, ex_row ''us'' 200 0]"
  let ?b' = "make_bucket ex_dataset ex_monitor 0 [ex_row ''eu'' 500 0, ex_row ''us'' 500 0]"
  have "bk_TotalCount ?b = bk_TotalCount ?b'"
    "length (failedRegionsFromBucket ?b) \<le> length (failedRegionsFromBucket ?b')"
    by code_simp+
  from severity_monotone [OF make_bucket_wf make_bucket_wf this] show ?thesis
    by (simp add: Let_def make_bucket_wf)
qed

text \<open>
  The breakdown is exact: a category is listed when some failed submission of the reported
  minute, from a region that counts as failed, belongs to it, and then with the sorted set of
  those regions.
\<close>

theorem breakdown_is_exact:
  assumes "map_of buckets L = Some b" and "bk_FailureCount b \<noteq> 0" and "E \<le> L" and "0 < d"
  shows "map_of (buildFailureReasonsBreakdown buckets xs L E d) c =
     (let rs = {hist_Region s | s. s \<in> set xs \<and> \<not> hist_Success s \<and> L \<le> hist_CreatedAt s \<and>
                  hist_CreatedAt s < L + d \<and> (hist_Region s, False) \<in> set (bk_Regions b) \<and>
                  failure_category s = c}
      in if rs = {} then None else Some (sorted_list_of_set rs))"
proof -
  have "List.find (\<lambda>t. case map_of buckets t of None \<Rightarrow> False | Some b \<Rightarrow> bk_FailureCount b \<noteq> 0)
      (walk_back L E d) = Some L"
    using assms by (subst walk_back.simps) simp
  then have "buildFailureReasonsBreakdown buckets xs L E d = breakdown_map (bucket_failures b xs L d)"
    using assms(1) by (simp add: build_eq)
  moreover have "category_regions (bucket_failures b xs L d) c =
      {hist_Region s | s. s \<in> set xs \<and> \<not> hist_Success s \<and> L \<le> hist_CreatedAt s \<and>
         hist_CreatedAt s < L + d \<and> (hist_Region s, False) \<in> set (bk_Regions b) \<and> failure_category s = c}"
    by (force simp: category_regions_def bucket_failures_def Let_def)
  ultimately show ?thesis
    by (simp add: breakdown_map_lookup Let_def)
qed

theorem breakdown_is_exact_witness:
  "map_of (buildFailureReasonsBreakdown [(0, make_bucket ex_dataset ex_monitor 0 [ex_row ''eu'' 500 0])]
      [ex_row ''eu'' 500 0] 0 0 minute) FailureReasonGeneric = Some [''eu'']"
proof -
  let ?b = "make_bucket ex_dataset ex_monitor 0 [ex_row ''eu'' 500 0]"
  have b: "bk_FailureCount ?b \<noteq> 0" "set (bk_Regions ?b) = {(''eu'', False)}"
    by code_simp+
  have c: "failure_category (ex_row ''eu'' 500 0) = FailureReasonGeneric"
    by (simp add: failure_category_def ex_row_def CategorizeFailureReason_def)
  have "{hist_Region s | s. s \<in> set [ex_row ''eu'' 500 0] \<and> \<not> hist_Success s \<and> 0 \<le> hist_CreatedAt s \<and>
      hist_CreatedAt s < 0 + minute \<and> (hist_Region s, False) \<in> set (bk_Regions ?b) \<and>
      failure_category s = FailureReasonGeneric} = {''eu''}"
    unfolding b(2) by (auto simp: c) (simp_all add: ex_row_def minute_def)
  then show ?thesis
    using breakdown_is_exact [of "[(0, ?b)]" 0 ?b 0 minute "[ex_row ''eu'' 500 0]" FailureReasonGeneric] b(1)
    by (simp add: minute_def)
qed

text \<open>
  For a monitor of type HTTP the verdict reads the status codes only: the success flag the
  checker sent does not change the buckets.
\<close>

theorem http_ignores_success_flag:
  assumes "EffectiveType monitor = MonitorTypeHTTP"
  shows "groupSubmissionByMinute cfg n1 n2 (map (\<lambda>s. s\<lparr>hist_Success := flag s\<rparr>) xs) d monitor =
     groupSubmissionByMinute cfg n1 n2 xs d monitor"
proof -
  let ?f = "\<lambda>s. s\<lparr>hist_Success := flag s\<rparr>"
  have t: "bucket_time d (?f s) = bucket_time d s" for s
    by (simp add: bucket_time_def)
  have count: "count_submission monitor c (?f s) = count_submission monitor c s" for c s
    using assms by (simp add: count_submission_def IsSuccessfulStatus_def)
  have regions: "region_counts monitor (map ?f ys) = region_counts monitor ys" for ys
    by (simp add: region_counts_def foldl_map count)
  have bucket: "make_bucket cfg monitor u (map ?f ys) = make_bucket cfg monitor u ys" for u ys
    by (simp add: make_bucket_def regions)
  have add: "group_add (bucket_time d) (map (\<lambda>(k, v). (k, map ?f v)) m) (?f s) =
      map (\<lambda>(k, v). (k, map ?f v)) (group_add (bucket_time d) m s)" for m s
  proof -
    have upd: "AList.update k (map ?f v) (map (\<lambda>(k, v). (k, map ?f v)) m) =
        map (\<lambda>(k, v). (k, map ?f v)) (AList.update k v m)" for k v
      by (induction m) auto
    have look: "map_of (map (\<lambda>(k, v). (k, map ?f v)) m) k = map_option (map ?f) (map_of m k)" for k
      using map_of_map_snd [of "\<lambda>_. map ?f" m k] by simp
    show ?thesis
      using upd [of "bucket_time d s" "(case map_of m (bucket_time d s) of None \<Rightarrow> [] | Some ys \<Rightarrow> ys) @ [s]"]
      by (cases "map_of m (bucket_time d s)") (simp_all add: group_add_def t look)
  qed
  have groups: "group_by (bucket_time d) (map ?f ys) = map (\<lambda>(k, v). (k, map ?f v)) (group_by (bucket_time d) ys)" for ys
    by (induction ys rule: rev_induct) (simp_all add: group_by_snoc add)
  show ?thesis
    by (simp add: groupSubmissionByMinute_def Let_def groups foldl_map t case_prod_unfold comp_def bucket cong: if_cong)
qed

theorem http_ignores_success_flag_witness:
  "EffectiveType ex_monitor = MonitorTypeHTTP \<and>
   groupSubmissionByMinute ex_dataset 0 0 (map (\<lambda>s. s\<lparr>hist_Success := True\<rparr>) ex_rows) minute ex_monitor =
   groupSubmissionByMinute ex_dataset 0 0 ex_rows minute ex_monitor"
proof -
  have "EffectiveType ex_monitor = MonitorTypeHTTP"
    by (simp add: EffectiveType_def ex_monitor_def zero_monitor_def)
  from http_ignores_success_flag [OF this, of ex_dataset 0 0 "\<lambda>_. True"] show ?thesis
    using \<open>EffectiveType ex_monitor = MonitorTypeHTTP\<close> by simp
qed

end
