(* ===== verification/Messages.thy ===== *)
theory Messages
  imports Tables
begin

text \<open>
  What travels between the components: the registrations and submissions of the checkers
  (\<open>CheckerRegistrationRequest\<close>, \<open>CheckerSubmissionRequest\<close> of \<open>server.go\<close>), the alerts (\<open>AlertMessage\<close> of
  \<open>worker_alerter.go\<close>) and the messages of the task queues. A queue hands a worker a message
  whose body decodes or not; the worker answers with \<open>Ack\<close> or \<open>Nack\<close>, and a queue delivers a
  message again after \<open>Nack\<close> (not every driver supports it: \<open>Nackable\<close>).
\<close>

record TLSCertificateInfo =
  tlsinfo_Version :: "string option"
  tlsinfo_Cipher :: "string option"
  tlsinfo_NotBefore :: "gotime option"
  tlsinfo_NotAfter :: "gotime option"
  tlsinfo_Issuer :: "string option"
  tlsinfo_Subject :: "string option"
  tlsinfo_DN :: "string option"
  tlsinfo_Fingerprint :: "string option"
  tlsinfo_IsExpired :: bool

record CheckerTraceTimings =
  ct_ConnAcquiredMs :: int
  ct_FirstResponseByteMs :: int
  ct_DNSLookupStartMs :: int
  ct_DNSLookupDoneMs :: int
  ct_TLSHandshakeStartMs :: int
  ct_TLSHandshakeDoneMs :: int

record CheckerRegistrationRequest =
  reg_Name :: string
  reg_Region :: string

record CheckerSubmissionRequest =
  sub_MonitorID :: string
  sub_ProbeType :: string
  sub_Success :: bool
  sub_FailureReason :: "string option"
  sub_LatencyMs :: int
  sub_StatusCode :: int
  sub_ResponseHeaders :: "(string, string) gomap"
  sub_ResponseBody :: "string option"
  sub_TlsVersion :: "string option"
  sub_TlsCipher :: "string option"
  sub_TlsExpiry :: "gotime option"
  sub_TlsCertInfo :: TLSCertificateInfo
  sub_Timestamp :: gotime
  sub_Timings :: CheckerTraceTimings

record AlertMessage =
  alert_MonitorID :: string
  alert_IncidentID :: string
  alert_Name :: string
  alert_Status :: string
  alert_Scope :: string
  alert_Reason :: string
  alert_OccurredAt :: gotime
  alert_AffectedRegions :: "string list"
  alert_AlertNames :: "string list"

text \<open>\<open>msg_body = None\<close>: the bytes of the body do not decode.\<close>

record 'a queue_message =
  msg_body :: "'a option"
  msg_metadata :: "(string, string) gomap"
  msg_nackable :: bool

datatype ack = Ack | Nack

text \<open>
  \<^verbatim>\<open>
  if message.Nackable() { message.Nack() } else { message.Ack() }
  \<close>
\<close>

definition nack_or_ack :: "'a queue_message \<Rightarrow> ack" where
  "nack_or_ack m = (if msg_nackable m then Nack else Ack)"

definition zero_tls_info :: TLSCertificateInfo where
  "zero_tls_info = \<lparr>tlsinfo_Version = None, tlsinfo_Cipher = None, tlsinfo_NotBefore = None,
     tlsinfo_NotAfter = None, tlsinfo_Issuer = None, tlsinfo_Subject = None, tlsinfo_DN = None,
     tlsinfo_Fingerprint = None, tlsinfo_IsExpired = False\<rparr>"

definition zero_timings :: CheckerTraceTimings where
  "zero_timings = \<lparr>ct_ConnAcquiredMs = 0, ct_FirstResponseByteMs = 0, ct_DNSLookupStartMs = 0,
     ct_DNSLookupDoneMs = 0, ct_TLSHandshakeStartMs = 0, ct_TLSHandshakeDoneMs = 0\<rparr>"

definition zero_submission :: CheckerSubmissionRequest where
  "zero_submission = \<lparr>sub_MonitorID = [], sub_ProbeType = [], sub_Success = False,
     sub_FailureReason = None, sub_LatencyMs = 0, sub_StatusCode = 0, sub_ResponseHeaders = [],
     sub_ResponseBody = None, sub_TlsVersion = None, sub_TlsCipher = None, sub_TlsExpiry = None,
     sub_TlsCertInfo = zero_tls_info, sub_Timestamp = zero_time, sub_Timings = zero_timings\<rparr>"

section \<open>Calls that may fail\<close>

text \<open>
  A call that may fail on its own (\<open>fault\<close>, given by the environment) and otherwise does
  \<open>stmt\<close>; \<open>fmt.Errorf("msg: %w", err)\<close> wraps the error.
\<close>

definition attempt :: "string option \<Rightarrow> string \<Rightarrow> 'a result \<Rightarrow> 'a result" where
  "attempt fault msg stmt =
     (case fault of
        Some e \<Rightarrow> Inl (msg @ '': '' @ e)
      | None \<Rightarrow> (case stmt of Inl e \<Rightarrow> Inl (msg @ '': '' @ e) | Inr x \<Rightarrow> Inr x))"

definition bind_result :: "'a result \<Rightarrow> ('a \<Rightarrow> 'b result) \<Rightarrow> 'b result" where
  "bind_result r f = (case r of Inl e \<Rightarrow> Inl e | Inr x \<Rightarrow> f x)"

lemma attempt_Inr_iff: "attempt fault msg stmt = Inr x \<longleftrightarrow> fault = None \<and> stmt = Inr x"
  by (auto simp: attempt_def split: option.split sum.split)

lemma bind_result_Inr_iff: "bind_result r f = Inr y \<longleftrightarrow> (\<exists>x. r = Inr x \<and> f x = Inr y)"
  by (auto simp: bind_result_def split: sum.split)

lemma bind_result_simps [simp]: "bind_result (Inl e) f = Inl e" "bind_result (Inr x) f = f x"
  by (simp_all add: bind_result_def)

lemmas result_simps = attempt_Inr_iff bind_result_Inr_iff

end
