(* ===== verification/Processor_Worker.thy ===== *)
theory Processor_Worker
  imports Processor_Eval Messages
begin

text \<open>
  The processor of \<open>worker_processor.go\<close>: one message of its queue at a time is evaluated, the
  evaluation is compared with the stored one and stored, the incident of the monitor is
  created, updated or resolved, and an alert is published.

  The environment says which calls fail and what the clock and the generator of UUIDs
  return. A call that fails has no effect; a transaction that does not commit has none
  either (\<open>defer tx.Rollback()\<close>).
\<close>

section \<open>Environment\<close>

datatype processor_site =
    LookbackConn | LookbackQuery | LookbackScan | LoadStateConn | LoadStateQuery
  | StoreStateConn | StoreStateExec | LoadActiveConn | LoadActiveQuery
  | IncidentBegin | IncidentWrite | IncidentEventWrite | IncidentCommit | AlertSend

datatype processor_clock =
    ClockSince | ClockLookback | ClockEarliest | ClockLatest | ClockStore | ClockIncident | ClockAlert

text \<open>
  \<open>pe_rows\<close> is the number of rows the iteration over the lookback query delivers at most: the
  loop does not look at \<open>rows.Err()\<close>, so an iteration cut short by an error looks complete.
\<close>

record processor_env =
  pe_fault :: "processor_site \<Rightarrow> string option"
  pe_clock :: "processor_clock \<Rightarrow> gotime"
  pe_rows :: nat
  pe_incident_uuid :: string
  pe_event_uuid :: string

section \<open>Queries\<close>

text \<open>Only the selected columns are scanned; the others keep their zero values.\<close>

definition scan_historical :: "MonitorHistorical \<Rightarrow> MonitorHistorical" where
  "scan_historical r =
     r\<lparr>hist_TlsCertNotBefore := None, hist_TlsCertIssuer := None, hist_TlsCertSubject := None,
       hist_TlsCertDN := None, hist_TlsCertFingerprint := None, hist_TlsCertIsExpired := False,
       hist_TimingConnAcquiredMs := None, hist_TimingFirstResponseByteMs := None,
       hist_TimingDNSLookupStartMs := None, hist_TimingDNSLookupDoneMs := None,
       hist_TimingTLSHandshakeStartMs := None, hist_TimingTLSHandshakeDoneMs := None\<rparr>"

definition lookback_query :: "database \<Rightarrow> string \<Rightarrow> gotime \<Rightarrow> gotime \<Rightarrow> MonitorHistorical list" where
  "lookback_query db monitorID since till =
     filter (\<lambda>r. hist_MonitorID r = monitorID \<and> timestamptz since \<le> hist_CreatedAt r \<and>
         hist_CreatedAt r \<le> timestamptz till) (tbl_historical db)"

definition lookback ::
    "processor_env \<Rightarrow> database \<Rightarrow> string \<Rightarrow> gotime \<Rightarrow> MonitorHistorical list result" where
  "lookback env db monitorID since =
     bind_result (attempt (pe_fault env LookbackConn) ''getting db connection'' (Inr ())) (\<lambda>_.
     bind_result (attempt (pe_fault env LookbackQuery) ''querying monitor historical''
         (Inr (take (pe_rows env) (lookback_query db monitorID since (pe_clock env ClockLookback)))))
       (\<lambda>rows. if rows = [] then Inr []
          else attempt (pe_fault env LookbackScan) ''scanning monitor historical''
                 (Inr (map scan_historical rows))))"

text \<open>\<open>COALESCE(failure_reasons_json, '{}')\<close>; no row is the healthy evaluation.\<close>

definition stored_evaluation :: "string \<Rightarrow> database \<Rightarrow> IncidentEvaluation" where
  "stored_evaluation monitorID db =
     (case List.find (\<lambda>r. state_MonitorID r = monitorID) (tbl_state db) of
        None \<Rightarrow> HealthyIncidentEvaluation
      | Some r \<Rightarrow>
          \<lparr>Status = state_Status r, Scope = state_Scope r, Reason = state_Reason r,
           AffectedRegions = ParseRegionsJSON (state_AffectedRegions r),
           FailureReasonsBreakdown = ParseFailureReasonsJSON
             (case state_FailureReasonsJson r of None \<Rightarrow> ''{}'' | Some j \<Rightarrow> j)\<rparr>)"

definition loadIncidentState :: "processor_env \<Rightarrow> database \<Rightarrow> string \<Rightarrow> IncidentEvaluation result" where
  "loadIncidentState env db monitorID =
     bind_result (attempt (pe_fault env LoadStateConn) ''getting db connection'' (Inr ())) (\<lambda>_.
     attempt (pe_fault env LoadStateQuery) ''querying incident state'' (Inr (stored_evaluation monitorID db)))"

definition store_evaluation :: "gotime \<Rightarrow> string \<Rightarrow> IncidentEvaluation \<Rightarrow> database \<Rightarrow> database" where
  "store_evaluation now monitorID evaluation db =
     db\<lparr>tbl_state := upsert_row state_MonitorID
       \<lparr>state_MonitorID = monitorID, state_Status = Status evaluation, state_Scope = Scope evaluation,
        state_AffectedRegions = RegionsJSON evaluation, state_Reason = Reason evaluation,
        state_FailureReasonsJson = Some (FailureReasonsJSON evaluation),
        state_LastTransitionAt = timestamptz now, state_UpdatedAt = timestamptz now\<rparr>
       (tbl_state db)\<rparr>"

definition storeIncidentState ::
    "processor_env \<Rightarrow> database \<Rightarrow> string \<Rightarrow> IncidentEvaluation \<Rightarrow> database result" where
  "storeIncidentState env db monitorID evaluation =
     bind_result (attempt (pe_fault env StoreStateConn) ''getting db connection'' (Inr ())) (\<lambda>_.
     attempt (pe_fault env StoreStateExec) ''upserting incident state''
       (Inr (store_evaluation (pe_clock env ClockStore) monitorID evaluation db)))"

section \<open>Incidents\<close>

definition is_active :: "string \<Rightarrow> MonitorIncident \<Rightarrow> bool" where
  "is_active monitorID i =
     (inc_MonitorID i = monitorID \<and> inc_Source i = IncidentSourceProgrammatic \<and> inc_ResolvedAt i = None)"

text \<open>\<open>ORDER BY started_at DESC LIMIT 1\<close>\<close>

definition loadActiveProgrammaticIncident ::
    "processor_env \<Rightarrow> database \<Rightarrow> string \<Rightarrow> MonitorIncident option result" where
  "loadActiveProgrammaticIncident env db monitorID =
     bind_result (attempt (pe_fault env LoadActiveConn) ''getting db connection'' (Inr ())) (\<lambda>_.
     attempt (pe_fault env LoadActiveQuery) ''querying active incident''
       (case sort_key (\<lambda>i. - inc_StartedAt i) (filter (is_active monitorID) (map fst (tbl_incidents db))) of
          [] \<Rightarrow> Inr None
        | i # _ \<Rightarrow> Inr (Some i)))"

definition incident_event ::
    "processor_env \<Rightarrow> MonitorIncident \<Rightarrow> string \<Rightarrow> string \<Rightarrow> string \<Rightarrow> gotime \<Rightarrow> MonitorIncidentEvent" where
  "incident_event env incident eventType title body createdAt =
     \<lparr>ev_ID = pe_event_uuid env, ev_IncidentID = inc_ID incident, ev_MonitorID = inc_MonitorID incident,
      ev_EventType = eventType, ev_Source = inc_Source incident,
      ev_LifecycleState = inc_LifecycleState incident, ev_Impact = inc_Impact incident,
      ev_Title = title, ev_Body = body, ev_Status = inc_Status incident, ev_Scope = inc_Scope incident,
      ev_AffectedRegions = inc_AffectedRegions incident, ev_CreatedAt = timestamptz createdAt\<rparr>"

definition insertIncidentEventTx ::
    "processor_env \<Rightarrow> database \<Rightarrow> MonitorIncident \<Rightarrow> string \<Rightarrow> string \<Rightarrow> string \<Rightarrow> gotime \<Rightarrow> database result" where
  "insertIncidentEventTx env db incident eventType title body createdAt =
     attempt (pe_fault env IncidentEventWrite) ''inserting incident event''
       (bind_result (insert_row ev_ID (incident_event env incident eventType title body createdAt)
          (tbl_events db))
        (\<lambda>evs. Inr (db\<lparr>tbl_events := evs\<rparr>)))"

text \<open>
  A transaction: the statement on \<open>monitor_incidents\<close>, the insertion of the event, the commit.
  The result is the new database, or an error and no change.
\<close>

definition incident_tx ::
    "processor_env \<Rightarrow> database \<Rightarrow> string \<Rightarrow> incident_row list result \<Rightarrow> (database \<Rightarrow> database result) \<Rightarrow>
       database result" where
  "incident_tx env db msg stmt insertEvent =
     bind_result (attempt (pe_fault env IncidentBegin) ''beginning incident transaction'' (Inr db)) (\<lambda>tx.
     bind_result (attempt (pe_fault env IncidentWrite) msg
         (bind_result stmt (\<lambda>rows. Inr (tx\<lparr>tbl_incidents := rows\<rparr>)))) (\<lambda>tx.
     bind_result (insertEvent tx) (\<lambda>tx.
     attempt (pe_fault env IncidentCommit) ''committing incident transaction'' (Inr tx))))"

definition new_incident ::
    "processor_env \<Rightarrow> Monitor \<Rightarrow> IncidentEvaluation \<Rightarrow> gotime \<Rightarrow> MonitorIncident" where
  "new_incident env monitor evaluation now =
     \<lparr>inc_ID = pe_incident_uuid env, inc_MonitorID = mon_ID monitor,
      inc_Source = IncidentSourceProgrammatic, inc_LifecycleState = IncidentLifecycleInvestigating,
      inc_AutoImpact = Impact evaluation, inc_Impact = Impact evaluation,
      inc_AutoTitle = ProgrammaticTitle evaluation monitor, inc_AutoBody = Reason evaluation,
      inc_Title = ProgrammaticTitle evaluation monitor, inc_Body = Reason evaluation,
      inc_Status = Status evaluation, inc_Scope = Scope evaluation,
      inc_AffectedRegions = RegionsJSON evaluation, inc_StartedAt = now, inc_ResolvedAt = None,
      inc_CreatedAt = now, inc_UpdatedAt = now\<rparr>"

definition stored_incident :: "MonitorIncident \<Rightarrow> MonitorIncident" where
  "stored_incident i =
     i\<lparr>inc_StartedAt := timestamptz (inc_StartedAt i), inc_CreatedAt := timestamptz (inc_CreatedAt i),
       inc_UpdatedAt := timestamptz (inc_UpdatedAt i)\<rparr>"

definition createProgrammaticIncident ::
    "processor_env \<Rightarrow> database \<Rightarrow> Monitor \<Rightarrow> IncidentEvaluation \<Rightarrow> string result \<times> database" where
  "createProgrammaticIncident env db monitor evaluation =
     (let now = pe_clock env ClockIncident;
          incident = new_incident env monitor evaluation now
      in case incident_tx env db ''inserting programmatic incident''
             (insert_row (\<lambda>r. inc_ID (fst r))
                (stored_incident incident, Some (FailureReasonsJSON evaluation)) (tbl_incidents db))
             (\<lambda>tx. insertIncidentEventTx env tx incident IncidentEventTypeCreated
                (inc_Title incident) (inc_Body incident) now) of
           Inl e \<Rightarrow> (Inl e, db)
         | Inr db' \<Rightarrow> (Inr (inc_ID incident), db'))"

definition preserveManualString :: "string \<Rightarrow> string \<Rightarrow> string \<Rightarrow> string" where
  "preserveManualString current previousAuto nextAuto =
     (if current = [] \<or> current = previousAuto then nextAuto else current)"

text \<open>\<open>UPDATE ... WHERE id = ?\<close> touches the rows with that id, and no other column.\<close>

definition update_incident ::
    "string \<Rightarrow> (incident_row \<Rightarrow> incident_row) \<Rightarrow> incident_row list \<Rightarrow> incident_row list" where
  "update_incident incidentID f rows = map (\<lambda>r. if inc_ID (fst r) = incidentID then f r else r) rows"

definition updated_incident ::
    "Monitor \<Rightarrow> IncidentEvaluation \<Rightarrow> gotime \<Rightarrow> MonitorIncident \<Rightarrow> MonitorIncident \<Rightarrow> MonitorIncident" where
  "updated_incident monitor evaluation now incident target =
     (let autoImpact = Impact evaluation;
          autoTitle = ProgrammaticTitle evaluation monitor;
          autoBody = Reason evaluation
      in target\<lparr>inc_AutoImpact := autoImpact,
           inc_Impact := preserveManualString (inc_Impact incident) (inc_AutoImpact incident) autoImpact,
           inc_AutoTitle := autoTitle, inc_AutoBody := autoBody,
           inc_Title := preserveManualString (inc_Title incident) (inc_AutoTitle incident) autoTitle,
           inc_Body := preserveManualString (inc_Body incident) (inc_AutoBody incident) autoBody,
           inc_LifecycleState := (if inc_LifecycleState incident = [] then IncidentLifecycleInvestigating
                                  else inc_LifecycleState incident),
           inc_Status := Status evaluation, inc_Scope := Scope evaluation,
           inc_AffectedRegions := RegionsJSON evaluation, inc_UpdatedAt := now\<rparr>)"

definition updateProgrammaticIncident ::
    "processor_env \<Rightarrow> database \<Rightarrow> MonitorIncident \<Rightarrow> Monitor \<Rightarrow> IncidentEvaluation \<Rightarrow> database result" where
  "updateProgrammaticIncident env db incident monitor evaluation =
     (let now = pe_clock env ClockIncident;
          incident' = updated_incident monitor evaluation now incident incident
      in incident_tx env db ''updating programmatic incident''
           (Inr (update_incident (inc_ID incident)
              (\<lambda>r. (updated_incident monitor evaluation (timestamptz now) incident (fst r),
                    Some (FailureReasonsJSON evaluation))) (tbl_incidents db)))
           (\<lambda>tx. insertIncidentEventTx env tx incident' IncidentEventTypeUpdated
              (inc_Title incident') (inc_Body incident') now))"

definition resolved_incident :: "gotime \<Rightarrow> MonitorIncident \<Rightarrow> MonitorIncident" where
  "resolved_incident now i =
     i\<lparr>inc_LifecycleState := IncidentLifecycleResolved, inc_Status := MonitorStatusHealthy,
       inc_Scope := MonitorScopeHealthy, inc_ResolvedAt := Some now, inc_UpdatedAt := now\<rparr>"

definition resolveProgrammaticIncident ::
    "processor_env \<Rightarrow> database \<Rightarrow> MonitorIncident \<Rightarrow> database result" where
  "resolveProgrammaticIncident env db incident =
     (let now = pe_clock env ClockIncident;
          resolutionBody = ''Monitor recovered from '' @ inc_Scope incident @ '' '' @ inc_Status incident;
          incident' = resolved_incident now incident
      in incident_tx env db ''resolving programmatic incident''
           (Inr (update_incident (inc_ID incident)
              (\<lambda>r. (resolved_incident (timestamptz now) (fst r), snd r)) (tbl_incidents db)))
           (\<lambda>tx. insertIncidentEventTx env tx incident' IncidentEventTypeResolved
              (inc_Title incident') resolutionBody now))"

definition syncProgrammaticIncident ::
    "processor_env \<Rightarrow> database \<Rightarrow> Monitor \<Rightarrow> IncidentEvaluation \<Rightarrow> string result \<times> database" where
  "syncProgrammaticIncident env db monitor evaluation =
     (case loadActiveProgrammaticIncident env db (mon_ID monitor) of
        Inl e \<Rightarrow> (Inl e, db)
      | Inr found \<Rightarrow>
        (if \<not> HasActiveIncident evaluation then
           (case found of
              None \<Rightarrow> (Inr [], db)
            | Some activeIncident \<Rightarrow>
                (case resolveProgrammaticIncident env db activeIncident of
                   Inl e \<Rightarrow> (Inl e, db)
                 | Inr db' \<Rightarrow> (Inr (inc_ID activeIncident), db')))
         else
           (case found of
              None \<Rightarrow> createProgrammaticIncident env db monitor evaluation
            | Some activeIncident \<Rightarrow>
                (case updateProgrammaticIncident env db activeIncident monitor evaluation of
                   Inl e \<Rightarrow> (Inl e, db)
                 | Inr db' \<Rightarrow> (Inr (inc_ID activeIncident), db')))))"

section \<open>Alerts\<close>

definition alert_message ::
    "processor_env \<Rightarrow> Monitor \<Rightarrow> IncidentEvaluation \<Rightarrow> IncidentEvaluation \<Rightarrow> string \<Rightarrow> AlertMessage" where
  "alert_message env monitor current previous incidentID =
     (let alertReason =
        (if Status current = MonitorStatusHealthy \<and> Status previous \<noteq> MonitorStatusHealthy
         then ''Monitor recovered from '' @ Scope previous @ '' '' @ Status previous
         else Reason current)
      in \<lparr>alert_MonitorID = mon_ID monitor, alert_IncidentID = incidentID, alert_Name = mon_Name monitor,
          alert_Status = Status current, alert_Scope = Scope current, alert_Reason = alertReason,
          alert_OccurredAt = pe_clock env ClockAlert, alert_AffectedRegions = AffectedRegions current,
          alert_AlertNames = EffectiveAlertNames monitor\<rparr>)"

definition publishAlert ::
    "processor_env \<Rightarrow> Monitor \<Rightarrow> IncidentEvaluation \<Rightarrow> IncidentEvaluation \<Rightarrow> string \<Rightarrow>
       (AlertMessage \<times> (string, string) gomap) result" where
  "publishAlert env monitor current previous incidentID =
     (let alert = alert_message env monitor current previous incidentID;
          metadata = [(''monitor_id'', mon_ID monitor), (''status'', Status current),
                      (''scope'', Scope current)] @
            (if length (alert_AlertNames alert) > 0
             then [(''alert_names'', join (alert_AlertNames alert) '','')] else [])
      in case pe_fault env AlertSend of Some e \<Rightarrow> Inl e | None \<Rightarrow> Inr (alert, metadata))"

section \<open>One message\<close>

text \<open>
  The body of the loop of \<open>Start\<close> after \<open>Receive\<close>. The result is the answer to the queue,
  the database and the alert that was sent.
\<close>

definition process_evaluation ::
    "processor_env \<Rightarrow> database \<Rightarrow> 'm queue_message \<Rightarrow> string \<Rightarrow> Monitor \<Rightarrow> IncidentEvaluation \<Rightarrow>
       IncidentEvaluation \<Rightarrow> ack \<times> database \<times> (AlertMessage \<times> (string, string) gomap) option" where
  "process_evaluation env db message monitorID monitor previous evaluation =
     (if evaluation_Equal previous evaluation then (Ack, db, None)
      else case storeIncidentState env db monitorID evaluation of
        Inl _ \<Rightarrow> (nack_or_ack message, db, None)
      | Inr db1 \<Rightarrow>
        (case syncProgrammaticIncident env db1 monitor evaluation of
           (Inl _, db2) \<Rightarrow> (Ack, db2, None)
         | (Inr incidentID, db2) \<Rightarrow>
           (case publishAlert env monitor evaluation previous incidentID of
              Inl _ \<Rightarrow> (Ack, db2, None)
            | Inr alert \<Rightarrow> (Ack, db2, Some alert))))"

definition process_message ::
    "MonitorConfig \<Rightarrow> DatasetConfig \<Rightarrow> processor_env \<Rightarrow> database \<Rightarrow>
       CheckerSubmissionRequest queue_message \<Rightarrow>
       ack \<times> database \<times> (AlertMessage \<times> (string, string) gomap) option" where
  "process_message monitors cfg env db message =
     (case msg_body message of None \<Rightarrow> (nack_or_ack message, db, None)
      | Some request \<Rightarrow>
        (case findMonitor monitors (sub_MonitorID request) of None \<Rightarrow> (Ack, db, None)
         | Some monitor \<Rightarrow>
           (let lookbackSince = pe_clock env ClockSince - minutes (ProcessingLookbackMinutes cfg) in
            case lookback env db (sub_MonitorID request) lookbackSince of
              Inl _ \<Rightarrow> (nack_or_ack message, db, None)
            | Inr submissions \<Rightarrow>
              (let (buckets, earliestTime, latestTime) =
                     groupSubmissionByMinute cfg (pe_clock env ClockEarliest) (pe_clock env ClockLatest)
                       submissions minute monitor;
                   evaluation =
                     evaluateLatestIncident cfg buckets submissions latestTime earliestTime minute
               in case loadIncidentState env db (sub_MonitorID request) of
                    Inl _ \<Rightarrow> (nack_or_ack message, db, None)
                  | Inr previous \<Rightarrow>
                      process_evaluation env db message (sub_MonitorID request) monitor previous evaluation))))"

section \<open>What a message can do to the database\<close>

lemma incident_tx_Inr:
  "incident_tx env db msg stmt ins = Inr db' \<longleftrightarrow>
     pe_fault env IncidentBegin = None \<and> pe_fault env IncidentWrite = None \<and>
     pe_fault env IncidentCommit = None \<and>
     (\<exists>rows. stmt = Inr rows \<and> ins (db\<lparr>tbl_incidents := rows\<rparr>) = Inr db')"
  by (auto simp: incident_tx_def result_simps)

lemma insertIncidentEventTx_Inr:
  "insertIncidentEventTx env db i ty title body c = Inr db' \<longleftrightarrow>
     pe_fault env IncidentEventWrite = None \<and> pe_event_uuid env \<notin> set (map ev_ID (tbl_events db)) \<and>
     db' = db\<lparr>tbl_events := tbl_events db @ [incident_event env i ty title body c]\<rparr>"
  by (auto simp: insertIncidentEventTx_def result_simps insert_row_def incident_event_def)

text \<open>The three transactions as rules on the database.\<close>

inductive incident_step :: "string \<Rightarrow> database \<Rightarrow> database \<Rightarrow> bool" where
  created: "\<lbrakk>filter (is_active m) (map fst (tbl_incidents db)) = [];
     inc_ID i \<notin> set (map (\<lambda>r. inc_ID (fst r)) (tbl_incidents db));
     ev_ID e \<notin> set (map ev_ID (tbl_events db)); is_active m i;
     ev_IncidentID e = inc_ID i; ev_MonitorID e = m; ev_EventType e = IncidentEventTypeCreated\<rbrakk> \<Longrightarrow>
   incident_step m db (db\<lparr>tbl_incidents := tbl_incidents db @ [(i, j)], tbl_events := tbl_events db @ [e]\<rparr>)"
| updated: "\<lbrakk>i \<in> set (map fst (tbl_incidents db)); is_active m i;
     ev_ID e \<notin> set (map ev_ID (tbl_events db));
     ev_IncidentID e = inc_ID i; ev_MonitorID e = m; ev_EventType e = IncidentEventTypeUpdated\<rbrakk> \<Longrightarrow>
   incident_step m db (db\<lparr>tbl_incidents := update_incident (inc_ID i)
       (\<lambda>r. (updated_incident mon ev now i (fst r), j)) (tbl_incidents db), tbl_events := tbl_events db @ [e]\<rparr>)"
| resolved: "\<lbrakk>i \<in> set (map fst (tbl_incidents db)); is_active m i;
     ev_ID e \<notin> set (map ev_ID (tbl_events db));
     ev_IncidentID e = inc_ID i; ev_MonitorID e = m; ev_EventType e = IncidentEventTypeResolved\<rbrakk> \<Longrightarrow>
   incident_step m db (db\<lparr>tbl_incidents := update_incident (inc_ID i)
       (\<lambda>r. (resolved_incident now (fst r), snd r)) (tbl_incidents db), tbl_events := tbl_events db @ [e]\<rparr>)"

inductive_cases incident_stepE: "incident_step m db db'"

lemma loadActive_Some:
  assumes "loadActiveProgrammaticIncident env db m = Inr (Some i)"
  shows "i \<in> set (map fst (tbl_incidents db)) \<and> is_active m i"
proof -
  let ?s = "sort_key (\<lambda>i. - inc_StartedAt i) (filter (is_active m) (map fst (tbl_incidents db)))"
  have "?s \<noteq> [] \<and> hd ?s = i"
    using assms by (auto simp: loadActiveProgrammaticIncident_def result_simps split: list.splits)
  then have "i \<in> set ?s"
    by (metis hd_in_set)
  then show ?thesis
    unfolding set_sort by simp
qed

lemma loadActive_None:
  "loadActiveProgrammaticIncident env db m = Inr None \<Longrightarrow> filter (is_active m) (map fst (tbl_incidents db)) = []"
  by (auto simp: loadActiveProgrammaticIncident_def result_simps split: list.splits)
    (metis length_0_conv length_sort)

lemma create_step:
  assumes "createProgrammaticIncident env db monitor ev = (r, db')"
    and "filter (is_active (mon_ID monitor)) (map fst (tbl_incidents db)) = []"
  shows "(\<exists>e. r = Inl e) \<and> db' = db \<or> r = Inr (pe_incident_uuid env) \<and> incident_step (mon_ID monitor) db db'"
proof -
  let ?now = "pe_clock env ClockIncident"
  let ?i = "new_incident env monitor ev ?now"
  have active: "is_active (mon_ID monitor) (stored_incident ?i)"
    by (simp add: is_active_def stored_incident_def new_incident_def)
  show ?thesis
    using assms(1) active assms(2)
    by (auto simp: createProgrammaticIncident_def Let_def incident_tx_Inr insertIncidentEventTx_Inr
        insert_row_def incident_event_def new_incident_def stored_incident_def
        split: sum.splits if_splits intro!: created)
qed

lemma update_step:
  assumes "updateProgrammaticIncident env db i monitor ev = Inr db'"
    and "i \<in> set (map fst (tbl_incidents db))" and "is_active (mon_ID monitor) i"
  shows "incident_step (mon_ID monitor) db db'"
proof -
  let ?now = "pe_clock env ClockIncident"
  let ?j = "updated_incident monitor ev ?now i i"
  let ?e = "incident_event env ?j IncidentEventTypeUpdated (inc_Title ?j) (inc_Body ?j) ?now"
  have "ev_ID ?e \<notin> set (map ev_ID (tbl_events db))"
    and db': "db' = db\<lparr>tbl_incidents := update_incident (inc_ID i)
       (\<lambda>r. (updated_incident monitor ev (timestamptz ?now) i (fst r), Some (FailureReasonsJSON ev)))
       (tbl_incidents db), tbl_events := tbl_events db @ [?e]\<rparr>"
    using assms(1)
    by (simp_all add: updateProgrammaticIncident_def Let_def incident_tx_Inr insertIncidentEventTx_Inr)
      (simp_all add: incident_event_def)
  moreover have "ev_IncidentID ?e = inc_ID i" "ev_MonitorID ?e = mon_ID monitor"
    "ev_EventType ?e = IncidentEventTypeUpdated"
    using assms(3) by (simp_all add: incident_event_def updated_incident_def is_active_def Let_def)
  ultimately show ?thesis
    unfolding db' by (intro updated [OF assms(2,3)])
qed

lemma resolve_step:
  assumes "resolveProgrammaticIncident env db i = Inr db'"
    and "i \<in> set (map fst (tbl_incidents db))" and "is_active m i"
  shows "incident_step m db db'"
proof -
  let ?now = "pe_clock env ClockIncident"
  let ?j = "resolved_incident ?now i"
  let ?e = "incident_event env ?j IncidentEventTypeResolved (inc_Title ?j)
      (''Monitor recovered from '' @ inc_Scope i @ '' '' @ inc_Status i) ?now"
  have "ev_ID ?e \<notin> set (map ev_ID (tbl_events db))"
    and db': "db' = db\<lparr>tbl_incidents := update_incident (inc_ID i)
       (\<lambda>r. (resolved_incident (timestamptz ?now) (fst r), snd r))
       (tbl_incidents db), tbl_events := tbl_events db @ [?e]\<rparr>"
    using assms(1)
    by (simp_all add: resolveProgrammaticIncident_def Let_def incident_tx_Inr insertIncidentEventTx_Inr)
      (simp_all add: incident_event_def)
  moreover have "ev_IncidentID ?e = inc_ID i" "ev_MonitorID ?e = m"
    "ev_EventType ?e = IncidentEventTypeResolved"
    using assms(3) by (simp_all add: incident_event_def resolved_incident_def is_active_def)
  ultimately show ?thesis
    unfolding db' by (intro resolved [OF assms(2,3)])
qed

lemma sync_step:
  assumes "syncProgrammaticIncident env db monitor ev = (r, db')"
  shows "db' = db \<or> (\<exists>x. r = Inr x) \<and> incident_step (mon_ID monitor) db db'"
proof (cases "loadActiveProgrammaticIncident env db (mon_ID monitor)")
  case (Inl e)
  then show ?thesis
    using assms by (simp add: syncProgrammaticIncident_def)
next
  case (Inr found)
  show ?thesis
  proof (cases found)
    case None
    with Inr have n: "filter (is_active (mon_ID monitor)) (map fst (tbl_incidents db)) = []"
      by (intro loadActive_None) simp
    show ?thesis
      using assms Inr None create_step [OF _ n]
      by (fastforce simp: syncProgrammaticIncident_def split: if_splits)
  next
    case (Some i)
    with Inr have i: "i \<in> set (map fst (tbl_incidents db))" "is_active (mon_ID monitor) i"
      using loadActive_Some by blast+
    show ?thesis
      using assms Inr Some update_step [OF _ i] resolve_step [OF _ i]
      by (auto simp: syncProgrammaticIncident_def split: if_splits sum.splits)
  qed
qed

section \<open>The invariant of the incident tables\<close>

definition incident_id :: "incident_row \<Rightarrow> string" where
  "incident_id r = inc_ID (fst r)"

definition incident_keys :: "database \<Rightarrow> bool" where
  "incident_keys db =
     (distinct (map incident_id (tbl_incidents db)) \<and> distinct (map ev_ID (tbl_events db)) \<and>
      distinct (map state_MonitorID (tbl_state db)))"

text \<open>At most one programmatic incident of a monitor is not resolved.\<close>

definition one_active :: "database \<Rightarrow> bool" where
  "one_active db = (\<forall>m. length (filter (is_active m) (map fst (tbl_incidents db))) \<le> 1)"

text \<open>
  Every event belongs to an incident, every incident was announced by its creation, and it
  is resolved exactly when an event says so.
\<close>

definition has_event :: "database \<Rightarrow> string \<Rightarrow> string \<Rightarrow> bool" where
  "has_event db ty incidentID = (\<exists>e \<in> set (tbl_events db). ev_EventType e = ty \<and> ev_IncidentID e = incidentID)"

definition audited :: "database \<Rightarrow> bool" where
  "audited db =
     ((\<forall>e \<in> set (tbl_events db). \<exists>r \<in> set (tbl_incidents db).
         incident_id r = ev_IncidentID e \<and> inc_MonitorID (fst r) = ev_MonitorID e) \<and>
      (\<forall>r \<in> set (tbl_incidents db). has_event db IncidentEventTypeCreated (incident_id r) \<and>
         ((inc_ResolvedAt (fst r) \<noteq> None) = has_event db IncidentEventTypeResolved (incident_id r))))"

definition processor_inv :: "database \<Rightarrow> bool" where
  "processor_inv db = (incident_keys db \<and> one_active db \<and> audited db)"

lemma length_filter_imp: "(\<And>x. x \<in> set xs \<Longrightarrow> P x \<Longrightarrow> Q x) \<Longrightarrow> length (filter P xs) \<le> length (filter Q xs)"
  by (induction xs) (auto intro: le_SucI)

lemma update_incident_ids:
  "(\<And>r. incident_id (f r) = incident_id r) \<Longrightarrow>
     map incident_id (update_incident k f rows) = map incident_id rows"
  by (simp add: update_incident_def)

lemma update_incident_active:
  assumes "\<And>r. is_active m (fst (f r)) \<Longrightarrow> is_active m (fst r)"
  shows "length (filter (is_active m) (map fst (update_incident k f rows)))
       \<le> length (filter (is_active m) (map fst rows))"
  unfolding update_incident_def filter_map length_map
  by (rule length_filter_imp) (auto simp: assms split: if_splits)

lemma update_incident_in:
  "r' \<in> set (update_incident k f rows) \<Longrightarrow>
     \<exists>r \<in> set rows. r' = (if incident_id r = k then f r else r)"
  by (auto simp: update_incident_def incident_id_def)

lemma update_incident_mem:
  "r \<in> set rows \<Longrightarrow> (if incident_id r = k then f r else r) \<in> set (update_incident k f rows)"
  by (auto simp: update_incident_def incident_id_def)

lemma updated_fields [simp]:
  "inc_ID (updated_incident mon ev now i x) = inc_ID x"
  "inc_MonitorID (updated_incident mon ev now i x) = inc_MonitorID x"
  "inc_Source (updated_incident mon ev now i x) = inc_Source x"
  "inc_ResolvedAt (updated_incident mon ev now i x) = inc_ResolvedAt x"
  by (simp_all add: updated_incident_def Let_def)

lemma resolved_fields [simp]:
  "inc_ID (resolved_incident now x) = inc_ID x"
  "inc_MonitorID (resolved_incident now x) = inc_MonitorID x"
  "inc_Source (resolved_incident now x) = inc_Source x"
  "inc_ResolvedAt (resolved_incident now x) = Some now"
  by (simp_all add: resolved_incident_def)

lemma incident_id_update [simp]:
  "incident_id (updated_incident mon ev now i (fst r), j) = incident_id r"
  "incident_id (resolved_incident now (fst r), snd r) = incident_id r"
  by (simp_all add: incident_id_def)

lemma incident_id_comp: "(\<lambda>r. inc_ID (fst r)) = incident_id"
  by (simp add: fun_eq_iff incident_id_def)

lemma incident_step_keys: "incident_step m db db' \<Longrightarrow> incident_keys db \<Longrightarrow> incident_keys db'"
proof (induction rule: incident_step.induct)
  case (created m db i e j)
  then show ?case
    by (simp add: incident_keys_def incident_id_comp) (simp add: incident_id_def)
next
  case (updated i db m e mon ev now j)
  then show ?case
    by (simp add: incident_keys_def update_incident_ids)
next
  case (resolved i db m e now)
  then show ?case
    by (simp add: incident_keys_def update_incident_ids)
qed

lemma incident_step_one_active:
  assumes "incident_step m db db'" and "one_active db"
  shows "one_active db'"
  using assms
proof (induction rule: incident_step.induct)
  case (created m db i e j)
  have "length (filter (is_active m') (map fst (tbl_incidents db @ [(i, j)]))) \<le> 1" for m'
  proof (cases "m' = m")
    case True
    then show ?thesis using created by simp
  next
    case False
    then have "\<not> is_active m' i"
      using created by (simp add: is_active_def)
    then show ?thesis
      using created.prems by (simp add: one_active_def)
  qed
  then show ?case
    by (simp add: one_active_def)
next
  case (updated i db m e mon ev now j)
  have "length (filter (is_active m') (map fst (update_incident (inc_ID i)
      (\<lambda>r. (updated_incident mon ev now i (fst r), j)) (tbl_incidents db)))) \<le> 1" for m'
    using updated.prems
    by (intro order_trans [OF update_incident_active]) (auto simp: one_active_def is_active_def)
  then show ?case
    by (simp add: one_active_def)
next
  case (resolved i db m e now)
  have "length (filter (is_active m') (map fst (update_incident (inc_ID i)
      (\<lambda>r. (resolved_incident now (fst r), snd r)) (tbl_incidents db)))) \<le> 1" for m'
    using resolved.prems
    by (intro order_trans [OF update_incident_active]) (auto simp: one_active_def is_active_def)
  then show ?case
    by (simp add: one_active_def)
qed

lemma has_event_snoc:
  "has_event (db\<lparr>tbl_incidents := x, tbl_events := tbl_events db @ [e]\<rparr>) ty k =
     (has_event db ty k \<or> ev_EventType e = ty \<and> ev_IncidentID e = k)"
  by (auto simp: has_event_def)

lemma event_types_distinct [simp]:
  "IncidentEventTypeCreated \<noteq> IncidentEventTypeUpdated" "IncidentEventTypeUpdated \<noteq> IncidentEventTypeCreated"
  "IncidentEventTypeCreated \<noteq> IncidentEventTypeResolved" "IncidentEventTypeResolved \<noteq> IncidentEventTypeCreated"
  "IncidentEventTypeUpdated \<noteq> IncidentEventTypeResolved" "IncidentEventTypeResolved \<noteq> IncidentEventTypeUpdated"
  by (simp_all add: event_types)

text \<open>Updates that keep the key and the monitor of a row keep the first half of \<open>audited\<close>.\<close>

lemma audited_update:
  assumes a: "audited db" and i: "i \<in> set (map fst (tbl_incidents db))"
    and e: "ev_IncidentID e = inc_ID i" "ev_MonitorID e = inc_MonitorID i"
      "ev_EventType e \<noteq> IncidentEventTypeCreated"
    and f: "\<And>r. incident_id (f r) = incident_id r" "\<And>r. inc_MonitorID (fst (f r)) = inc_MonitorID (fst r)"
    and res: "\<And>r. r \<in> set (tbl_incidents db) \<Longrightarrow> incident_id r = inc_ID i \<Longrightarrow>
      (inc_ResolvedAt (fst (f r)) \<noteq> None) =
        (ev_EventType e = IncidentEventTypeResolved \<or> inc_ResolvedAt (fst r) \<noteq> None)"
  shows "audited (db\<lparr>tbl_incidents := update_incident (inc_ID i) f (tbl_incidents db),
                     tbl_events := tbl_events db @ [e]\<rparr>)"
    (is "audited ?db")
proof -
  let ?g = "\<lambda>r. if incident_id r = inc_ID i then f r else r"
  have "\<exists>r \<in> set (tbl_incidents ?db). incident_id r = ev_IncidentID v \<and> inc_MonitorID (fst r) = ev_MonitorID v"
    if v: "v \<in> set (tbl_events ?db)" for v
  proof -
    have "\<exists>r \<in> set (tbl_incidents db). incident_id r = ev_IncidentID v \<and> inc_MonitorID (fst r) = ev_MonitorID v"
    proof (cases "v = e")
      case True
      with i e show ?thesis by (auto simp: incident_id_def)
    next
      case False
      with v a show ?thesis by (simp add: audited_def)
    qed
    then obtain r where r: "r \<in> set (tbl_incidents db)" "incident_id r = ev_IncidentID v"
        "inc_MonitorID (fst r) = ev_MonitorID v"
      by blast
    have "?g r \<in> set (tbl_incidents ?db)"
      using update_incident_mem [OF r(1), of "inc_ID i" f] by simp
    moreover have "incident_id (?g r) = ev_IncidentID v \<and> inc_MonitorID (fst (?g r)) = ev_MonitorID v"
      using r f by simp
    ultimately show ?thesis by blast
  qed
  moreover have "has_event ?db IncidentEventTypeCreated (incident_id r') \<and>
      ((inc_ResolvedAt (fst r') \<noteq> None) = has_event ?db IncidentEventTypeResolved (incident_id r'))"
    if r': "r' \<in> set (tbl_incidents ?db)" for r'
  proof -
    obtain r where r: "r \<in> set (tbl_incidents db)" and g: "r' = ?g r"
      using r' update_incident_in [of r' "inc_ID i" f "tbl_incidents db"] by auto
    have "incident_id r' = incident_id r"
      using f by (simp add: g)
    moreover have "has_event db IncidentEventTypeCreated (incident_id r)"
      "(inc_ResolvedAt (fst r) \<noteq> None) = has_event db IncidentEventTypeResolved (incident_id r)"
      using a r by (auto simp: audited_def)
    ultimately show ?thesis
      unfolding has_event_snoc using res [OF r] e by (cases "incident_id r = inc_ID i") (auto simp: g)
  qed
  ultimately show ?thesis
    unfolding audited_def by blast
qed

lemma incident_step_audited:
  assumes "incident_step m db db'" and "audited db"
  shows "audited db'"
  using assms
proof (induction rule: incident_step.induct)
  case (created m db i e j)
  have "\<not> has_event db IncidentEventTypeResolved (inc_ID i)"
  proof
    assume "has_event db IncidentEventTypeResolved (inc_ID i)"
    then obtain v where "v \<in> set (tbl_events db)" "ev_IncidentID v = inc_ID i"
      by (auto simp: has_event_def)
    with created.prems obtain r where "r \<in> set (tbl_incidents db)" "incident_id r = inc_ID i"
      unfolding audited_def by metis
    with created.hyps(2) show False
      by (force simp: incident_id_def image_iff)
  qed
  moreover have "inc_ResolvedAt i = None" "inc_MonitorID i = m"
    using created by (simp_all add: is_active_def)
  moreover have "incident_id r \<noteq> inc_ID i" if "r \<in> set (tbl_incidents db)" for r
    using that created.hyps(2) by (force simp: incident_id_def image_iff)
  ultimately show ?case
    using created by (auto simp: audited_def has_event_snoc incident_id_def)
next
  case (updated i db m e mon ev now j)
  then show ?case
    by (intro audited_update) (simp_all add: is_active_def incident_id_def)
next
  case (resolved i db m e now)
  then show ?case
    by (intro audited_update) (simp_all add: is_active_def incident_id_def)
qed

lemma incident_step_inv: "incident_step m db db' \<Longrightarrow> processor_inv db \<Longrightarrow> processor_inv db'"
  unfolding processor_inv_def
  using incident_step_keys incident_step_one_active incident_step_audited by blast

lemma incident_step_frame:
  "incident_step m db db' \<Longrightarrow> tbl_state db' = tbl_state db \<and> tbl_historical db' = tbl_historical db \<and>
     tbl_daily db' = tbl_daily db \<and> tbl_region_daily db' = tbl_region_daily db"
  by (induction rule: incident_step.induct) simp_all

section \<open>Detecting a change once\<close>

text \<open>
  What the processor does with the stored evaluation is an instance of a general pattern: a
  new value is compared with the stored one, and only a different one is stored and
  reported. The same value, delivered again, is not reported again.
\<close>

locale change_detector =
  fixes load :: "'s \<Rightarrow> 'e" and store :: "'e \<Rightarrow> 's \<Rightarrow> 's"
    and same :: "'e \<Rightarrow> 'e \<Rightarrow> bool" and storable :: "'e \<Rightarrow> bool"
  assumes load_store: "storable e \<Longrightarrow> same (load (store e s)) e"
begin

definition detect :: "'e \<Rightarrow> 's \<Rightarrow> 's \<times> bool" where
  "detect e s = (if same (load s) e then (s, False) else (store e s, True))"

lemma detect_twice: "storable e \<Longrightarrow> detect e (fst (detect e s)) = (fst (detect e s), False)"
  by (simp add: detect_def load_store)

lemma detected_is_stored: "storable e \<Longrightarrow> same (load (fst (detect e s))) e"
  by (simp add: detect_def load_store)

lemma not_detected_unchanged: "\<not> snd (detect e s) \<Longrightarrow> fst (detect e s) = s"
  by (simp add: detect_def split: if_splits)

end

lemma stored_store:
  "stored_evaluation m (store_evaluation now m ev db) = evaluation_reload ev"
  by (simp add: stored_evaluation_def store_evaluation_def upsert_row_find evaluation_reload_def)

lemma stored_store_other:
  "k \<noteq> m \<Longrightarrow> stored_evaluation k (store_evaluation now m ev db) = stored_evaluation k db"
  by (simp add: stored_evaluation_def store_evaluation_def upsert_row_find)

lemma reload_Equal: "evaluation_storable ev \<Longrightarrow> evaluation_Equal (evaluation_reload ev) ev"
  using evaluation_reload_storable [of ev] evaluation_storable_wf evaluation_reload_key [of ev]
  by (simp add: evaluation_Equal_key)

interpretation incident_state:
  change_detector "stored_evaluation m" "store_evaluation now m" evaluation_Equal evaluation_storable
  for m now
  by unfold_locales (simp add: stored_store reload_Equal)

section \<open>The effect of one message\<close>

lemma storeIncidentState_Inr:
  "storeIncidentState env db m ev = Inr db1 \<Longrightarrow> db1 = store_evaluation (pe_clock env ClockStore) m ev db"
  by (auto simp: storeIncidentState_def result_simps)

lemma process_evaluation_cases:
  assumes "process_evaluation env db msg m monitor previous ev = (a, db', out)"
  obtains (unchanged) "db' = db" "out = None"
  | (stored) r where "a = Ack" "\<not> evaluation_Equal previous ev"
      "out = None" "syncProgrammaticIncident env (store_evaluation (pe_clock env ClockStore) m ev db) monitor ev = (r, db')"
  | (published) alert incidentID where "a = Ack" "\<not> evaluation_Equal previous ev"
      "syncProgrammaticIncident env (store_evaluation (pe_clock env ClockStore) m ev db) monitor ev = (Inr incidentID, db')"
      "publishAlert env monitor ev previous incidentID = Inr alert" "out = Some alert"
proof (cases "evaluation_Equal previous ev")
  case True
  then show ?thesis
    using assms that(1) by (simp add: process_evaluation_def)
next
  case False
  show ?thesis
  proof (cases "storeIncidentState env db m ev")
    case (Inl e)
    then show ?thesis
      using assms False that(1) by (simp add: process_evaluation_def)
  next
    case (Inr db1)
    then have db1: "db1 = store_evaluation (pe_clock env ClockStore) m ev db"
      by (rule storeIncidentState_Inr)
    obtain r db2 where s: "syncProgrammaticIncident env db1 monitor ev = (r, db2)"
      by force
    show ?thesis
    proof (cases r)
      case (Inl e)
      then show ?thesis
        using assms False Inr s that(2) db1 by (simp add: process_evaluation_def)
    next
      case r: (Inr incidentID)
      show ?thesis
      proof (cases "publishAlert env monitor ev previous incidentID")
        case (Inl e)
        then show ?thesis
          using assms False Inr s that(2) db1 r by (simp add: process_evaluation_def)
      next
        case (Inr alert)
        then show ?thesis
          using assms False \<open>storeIncidentState env db m ev = Inr db1\<close> s that(3) db1 r
          by (simp add: process_evaluation_def)
      qed
    qed
  qed
qed

text \<open>What a message is evaluated to, when the database answers.\<close>

definition message_rows ::
    "DatasetConfig \<Rightarrow> processor_env \<Rightarrow> database \<Rightarrow> string \<Rightarrow> MonitorHistorical list" where
  "message_rows cfg env db m =
     map scan_historical (take (pe_rows env) (lookback_query db m
       (pe_clock env ClockSince - minutes (ProcessingLookbackMinutes cfg)) (pe_clock env ClockLookback)))"

definition message_evaluation ::
    "DatasetConfig \<Rightarrow> processor_env \<Rightarrow> database \<Rightarrow> Monitor \<Rightarrow> IncidentEvaluation" where
  "message_evaluation cfg env db monitor =
     evaluate_submissions cfg (pe_clock env ClockEarliest) (pe_clock env ClockLatest) monitor
       (message_rows cfg env db (mon_ID monitor))"

lemma lookback_Inr:
  "lookback env db m (pe_clock env ClockSince - minutes (ProcessingLookbackMinutes cfg)) = Inr xs \<Longrightarrow>
     xs = message_rows cfg env db m"
  by (auto simp: lookback_def result_simps message_rows_def split: if_splits)

lemma process_message_cases:
  assumes "process_message monitors cfg env db msg = (a, db', out)"
  obtains (unchanged) "db' = db" "out = None"
  | (evaluated) request monitor where "msg_body msg = Some request"
      "findMonitor monitors (sub_MonitorID request) = Some monitor" "mon_ID monitor = sub_MonitorID request"
      "process_evaluation env db msg (mon_ID monitor) monitor (stored_evaluation (mon_ID monitor) db)
         (message_evaluation cfg env db monitor) = (a, db', out)"
proof -
  consider "db' = db" "out = None"
    | request monitor xs previous where "msg_body msg = Some request"
      "findMonitor monitors (sub_MonitorID request) = Some monitor"
      "lookback env db (sub_MonitorID request)
         (pe_clock env ClockSince - minutes (ProcessingLookbackMinutes cfg)) = Inr xs"
      "loadIncidentState env db (sub_MonitorID request) = Inr previous"
      "process_evaluation env db msg (sub_MonitorID request) monitor previous
        (evaluate_submissions cfg (pe_clock env ClockEarliest) (pe_clock env ClockLatest) monitor xs) = (a, db', out)"
    using assms by (auto simp: process_message_def Let_def evaluate_submissions_def split_def
        split: option.splits sum.splits)
  then show ?thesis
  proof cases
    case 1
    then show ?thesis by (rule unchanged)
  next
    case (2 request monitor xs previous)
    have m: "mon_ID monitor = sub_MonitorID request"
      using findMonitor_Some [OF 2(2)] by simp
    have "previous = stored_evaluation (mon_ID monitor) db"
      using 2(4) m by (auto simp: loadIncidentState_def result_simps)
    moreover have "xs = message_rows cfg env db (mon_ID monitor)"
      using lookback_Inr [OF 2(3)] m by simp
    ultimately show ?thesis
      using evaluated [OF 2(1,2) m] 2(5) m by (simp add: message_evaluation_def)
  qed
qed

lemma store_evaluation_inv: "processor_inv db \<Longrightarrow> processor_inv (store_evaluation now m ev db)"
  using upsert_row_distinct [of state_MonitorID "tbl_state db"]
  by (simp add: processor_inv_def incident_keys_def one_active_def audited_def has_event_def store_evaluation_def)

lemma sync_inv:
  "syncProgrammaticIncident env db monitor ev = (r, db') \<Longrightarrow> processor_inv db \<Longrightarrow> processor_inv db'"
  using sync_step incident_step_inv by blast

lemma process_message_inv:
  assumes "process_message monitors cfg env db msg = (a, db', out)" and "processor_inv db"
  shows "processor_inv db'"
  using assms(1)
proof (cases rule: process_message_cases)
  case unchanged
  then show ?thesis using assms(2) by simp
next
  case (evaluated request monitor)
  from evaluated(4) show ?thesis
  proof (cases rule: process_evaluation_cases)
    case unchanged
    then show ?thesis using assms(2) by simp
  next
    case stored
    then show ?thesis
      using sync_inv store_evaluation_inv [OF assms(2)] by blast
  next
    case published
    then show ?thesis
      using sync_inv store_evaluation_inv [OF assms(2)] by blast
  qed
qed

text \<open>
  The databases the processor can produce, with whatever rows the ingester and the cleanup
  worker leave in \<open>monitor_historical\<close> and the aggregates in between.
\<close>

inductive processor_run :: "MonitorConfig \<Rightarrow> DatasetConfig \<Rightarrow> database \<Rightarrow> AlertMessage list \<Rightarrow> bool"
  for monitors :: MonitorConfig and cfg :: DatasetConfig where
  fresh: "processor_run monitors cfg empty_db []"
| history: "processor_run monitors cfg db alerts \<Longrightarrow>
    processor_run monitors cfg (db\<lparr>tbl_historical := h, tbl_daily := d, tbl_region_daily := rd\<rparr>) alerts"
| handled: "processor_run monitors cfg db alerts \<Longrightarrow>
    process_message monitors cfg env db msg = (a, db', out) \<Longrightarrow>
    processor_run monitors cfg db' (alerts @ (case out of None \<Rightarrow> [] | Some (alert, _) \<Rightarrow> [alert]))"

inductive_cases processor_runE: "processor_run monitors cfg db alerts"

lemma processor_run_inv: "processor_run monitors cfg db alerts \<Longrightarrow> processor_inv db"
proof (induction rule: processor_run.induct)
  case fresh
  then show ?case
    by (simp add: processor_inv_def incident_keys_def one_active_def audited_def empty_db_def)
next
  case (history db alerts h d rd)
  then show ?case
    by (simp add: processor_inv_def incident_keys_def one_active_def audited_def has_event_def)
next
  case (handled db alerts env msg a db' out)
  then show ?case
    using process_message_inv by blast
qed

section \<open>The incident after a message\<close>

definition active_incidents :: "string \<Rightarrow> database \<Rightarrow> MonitorIncident list" where
  "active_incidents m db = filter (is_active m) (map fst (tbl_incidents db))"

lemma active_incidents_store [simp]: "active_incidents m (store_evaluation now k ev db) = active_incidents m db"
  by (simp add: active_incidents_def store_evaluation_def)

lemma loadActive_single:
  assumes "loadActiveProgrammaticIncident env db m = Inr (Some i)" and "one_active db"
  shows "active_incidents m db = [i]"
proof -
  have "i \<in> set (active_incidents m db)"
    using loadActive_Some [OF assms(1)] by (auto simp: active_incidents_def)
  moreover have "length (active_incidents m db) \<le> 1"
    using assms(2) by (simp add: one_active_def active_incidents_def)
  ultimately show ?thesis
    by (cases "active_incidents m db") auto
qed

text \<open>An update by key changes the one row it is meant for.\<close>

lemma filter_update_one:
  assumes "filter P (map fst rows) = [i]" and "distinct (map incident_id rows)"
    and "\<And>r. incident_id (f r) = incident_id r" and "\<And>r. P (fst (f r)) = (Q \<and> P (fst r))"
  shows "\<exists>j. (i, j) \<in> set rows \<and>
     filter P (map fst (update_incident (inc_ID i) f rows)) = (if Q then [fst (f (i, j))] else [])"
  using assms(1,2)
proof (induction rows)
  case Nil
  then show ?case by simp
next
  case (Cons r rows)
  obtain x j where r: "r = (x, j)" by force
  show ?case
  proof (cases "P x")
    case True
    then have x: "x = i" and rest: "filter P (map fst rows) = []"
      using Cons.prems by (simp_all add: r)
    have "incident_id r' \<noteq> inc_ID i" if "r' \<in> set rows" for r'
      using Cons.prems(2) that x by (force simp: r incident_id_def image_iff)
    then have "update_incident (inc_ID i) f rows = rows"
      by (simp add: update_incident_def incident_id_def cong: map_cong)
    then show ?thesis
      using True x rest assms(4) [of r] by (auto simp: r update_incident_def incident_id_def)
  next
    case False
    then have "filter P (map fst rows) = [i]"
      using Cons.prems by (simp add: r)
    then obtain j' where j': "(i, j') \<in> set rows"
      "filter P (map fst (update_incident (inc_ID i) f rows)) = (if Q then [fst (f (i, j'))] else [])"
      using Cons by auto
    moreover have "filter P (map fst (update_incident (inc_ID i) f (r # rows))) =
        filter P (map fst (update_incident (inc_ID i) f rows))"
      using False assms(4) [of r] by (simp add: r update_incident_def)
    ultimately show ?thesis
      by auto
  qed
qed

lemma create_post:
  assumes "createProgrammaticIncident env db monitor ev = (Inr x, db')"
    and "active_incidents (mon_ID monitor) db = []"
  shows "active_incidents (mon_ID monitor) db' =
           [stored_incident (new_incident env monitor ev (pe_clock env ClockIncident))] \<and>
         x = pe_incident_uuid env"
  using assms
  by (auto simp: createProgrammaticIncident_def Let_def incident_tx_Inr insertIncidentEventTx_Inr
      insert_row_def active_incidents_def is_active_def stored_incident_def new_incident_def
      split: sum.splits if_splits)

lemma update_post:
  assumes "updateProgrammaticIncident env db i monitor ev = Inr db'"
    and "active_incidents (mon_ID monitor) db = [i]" and "incident_keys db"
  shows "active_incidents (mon_ID monitor) db' =
           [updated_incident monitor ev (timestamptz (pe_clock env ClockIncident)) i i]"
proof -
  let ?f = "\<lambda>r. (updated_incident monitor ev (timestamptz (pe_clock env ClockIncident)) i (fst r),
      Some (FailureReasonsJSON ev))"
  have db': "tbl_incidents db' = update_incident (inc_ID i) ?f (tbl_incidents db)"
    using assms(1) by (auto simp: updateProgrammaticIncident_def Let_def incident_tx_Inr insertIncidentEventTx_Inr)
  have "\<exists>j. (i, j) \<in> set (tbl_incidents db) \<and>
      filter (is_active (mon_ID monitor)) (map fst (update_incident (inc_ID i) ?f (tbl_incidents db))) =
        (if True then [fst (?f (i, j))] else [])"
    using assms(2,3)
    by (intro filter_update_one) (simp_all add: active_incidents_def incident_keys_def is_active_def)
  then show ?thesis
    by (simp add: active_incidents_def db')
qed

lemma resolve_post:
  assumes "resolveProgrammaticIncident env db i = Inr db'"
    and "active_incidents m db = [i]" and "incident_keys db"
  shows "active_incidents m db' = []"
proof -
  let ?f = "\<lambda>r. (resolved_incident (timestamptz (pe_clock env ClockIncident)) (fst r), snd r)"
  have db': "tbl_incidents db' = update_incident (inc_ID i) ?f (tbl_incidents db)"
    using assms(1) by (auto simp: resolveProgrammaticIncident_def Let_def incident_tx_Inr insertIncidentEventTx_Inr)
  have "\<exists>j. (i, j) \<in> set (tbl_incidents db) \<and>
      filter (is_active m) (map fst (update_incident (inc_ID i) ?f (tbl_incidents db))) =
        (if False then [fst (?f (i, j))] else [])"
    using assms(2,3)
    by (intro filter_update_one) (simp_all add: active_incidents_def incident_keys_def is_active_def)
  then show ?thesis
    by (simp add: active_incidents_def db')
qed

text \<open>The incident that stands for an evaluation.\<close>

definition incident_matches :: "IncidentEvaluation \<Rightarrow> Monitor \<Rightarrow> MonitorIncident \<Rightarrow> bool" where
  "incident_matches ev monitor i =
     (inc_Status i = Status ev \<and> inc_Scope i = Scope ev \<and> inc_AffectedRegions i = RegionsJSON ev \<and>
      inc_AutoImpact i = Impact ev \<and> inc_AutoTitle i = ProgrammaticTitle ev monitor \<and>
      inc_AutoBody i = Reason ev)"

lemma sync_post:
  assumes "syncProgrammaticIncident env db monitor ev = (Inr x, db')" and "processor_inv db"
  shows "if HasActiveIncident ev
     then \<exists>i. active_incidents (mon_ID monitor) db' = [i] \<and> inc_ID i = x \<and> incident_matches ev monitor i
     else active_incidents (mon_ID monitor) db' = []"
proof -
  have inv: "one_active db" "incident_keys db"
    using assms(2) by (simp_all add: processor_inv_def)
  obtain found where found: "loadActiveProgrammaticIncident env db (mon_ID monitor) = Inr found"
    using assms(1) by (auto simp: syncProgrammaticIncident_def split: sum.splits)
  show ?thesis
  proof (cases found)
    case None
    then have none: "active_incidents (mon_ID monitor) db = []"
      using found loadActive_None by (simp add: active_incidents_def)
    show ?thesis
      using assms(1) found None create_post [OF _ none, of env ev x db'] none
      by (auto simp: syncProgrammaticIncident_def stored_incident_def new_incident_def incident_matches_def
          split: if_splits)
  next
    case (Some i)
    then have one: "active_incidents (mon_ID monitor) db = [i]"
      using found inv(1) loadActive_single by blast
    show ?thesis
    proof (cases "HasActiveIncident ev")
      case True
      then have "updateProgrammaticIncident env db i monitor ev = Inr db' \<and> x = inc_ID i"
        using assms(1) found Some by (auto simp: syncProgrammaticIncident_def split: sum.splits)
      then show ?thesis
        using True update_post [OF _ one inv(2)]
        by (auto simp: incident_matches_def) (simp_all add: updated_incident_def Let_def)
    next
      case False
      then have "resolveProgrammaticIncident env db i = Inr db'"
        using assms(1) found Some by (auto simp: syncProgrammaticIncident_def split: sum.splits)
      then show ?thesis
        using False resolve_post [OF _ one inv(2)] by simp
    qed
  qed
qed

text \<open>Manual edits: a column edited by hand keeps its value.\<close>

lemma preserve_manual: "current \<noteq> [] \<Longrightarrow> current \<noteq> auto \<Longrightarrow> preserveManualString current auto next_auto = current"
  by (simp add: preserveManualString_def)

lemma preserve_auto: "preserveManualString auto auto next_auto = next_auto"
  by (simp add: preserveManualString_def)

definition manual_edit :: "MonitorIncident \<Rightarrow> (MonitorIncident \<Rightarrow> string) \<Rightarrow> (MonitorIncident \<Rightarrow> string) \<Rightarrow> bool" where
  "manual_edit i column auto = (column i \<noteq> [] \<and> column i \<noteq> auto i)"

definition keeps_edits :: "MonitorIncident \<Rightarrow> MonitorIncident \<Rightarrow> bool" where
  "keeps_edits i i' =
     ((manual_edit i inc_Title inc_AutoTitle \<longrightarrow> inc_Title i' = inc_Title i) \<and>
      (manual_edit i inc_Body inc_AutoBody \<longrightarrow> inc_Body i' = inc_Body i) \<and>
      (manual_edit i inc_Impact inc_AutoImpact \<longrightarrow> inc_Impact i' = inc_Impact i))"

lemma keeps_edits_refl [simp]: "keeps_edits i i"
  by (simp add: keeps_edits_def)

lemma updated_keeps_edits: "keeps_edits i (updated_incident monitor ev now i i)"
  by (simp add: keeps_edits_def manual_edit_def updated_incident_def preserve_manual Let_def)

lemma resolved_keeps_edits: "keeps_edits i (resolved_incident now i)"
  by (simp add: keeps_edits_def resolved_incident_def)

lemma incident_step_keeps_edits:
  assumes "incident_step m db db'" and "incident_keys db" and "r \<in> set (tbl_incidents db)"
  shows "\<exists>r' \<in> set (tbl_incidents db'). incident_id r' = incident_id r \<and> keeps_edits (fst r) (fst r')"
  using assms
proof (induction rule: incident_step.induct)
  case (created m db i e j)
  then show ?case by auto
next
  case (updated i db m e mon ev now j)
  let ?f = "\<lambda>r. (updated_incident mon ev now i (fst r), j)"
  have "keeps_edits (fst r) (fst (if incident_id r = inc_ID i then ?f r else r))"
  proof (cases "incident_id r = inc_ID i")
    case True
    obtain r0 where r0: "r0 \<in> set (tbl_incidents db)" "fst r0 = i"
      using updated by auto
    then have "r0 = r"
      using True updated.prems by (auto simp: incident_keys_def incident_id_def distinct_map inj_on_def)
    then show ?thesis
      using r0 updated_keeps_edits by auto
  qed simp
  then show ?case
    using update_incident_mem [OF updated.prems(2), of "inc_ID i" ?f]
    by (intro bexI [of _ "if incident_id r = inc_ID i then ?f r else r"]) auto
next
  case (resolved i db m e now)
  let ?f = "\<lambda>r. (resolved_incident now (fst r), snd r)"
  have "keeps_edits (fst r) (fst (if incident_id r = inc_ID i then ?f r else r))"
    by (simp add: resolved_keeps_edits)
  then show ?case
    using update_incident_mem [OF resolved.prems(2), of "inc_ID i" ?f]
    by (intro bexI [of _ "if incident_id r = inc_ID i then ?f r else r"]) auto
qed

text \<open>A message touches the rows of its own monitor only.\<close>

lemma incident_step_other:
  "incident_step m db db' \<Longrightarrow> incident_keys db \<Longrightarrow> k \<noteq> m \<Longrightarrow>
     filter (\<lambda>r. inc_MonitorID (fst r) = k) (tbl_incidents db') =
     filter (\<lambda>r. inc_MonitorID (fst r) = k) (tbl_incidents db)"
proof (induction rule: incident_step.induct)
  case (created m db i e j)
  then show ?case by (simp add: is_active_def)
next
  case (updated i db m e mon ev now j)
  let ?rows = "tbl_incidents db"
  have "inc_MonitorID (fst r) = m" if "r \<in> set ?rows" "incident_id r = inc_ID i" for r
    using that updated by (auto simp: incident_keys_def incident_id_def distinct_map inj_on_def is_active_def)
  then have "filter (\<lambda>r. inc_MonitorID (fst r) = k)
      (map (\<lambda>r. if incident_id r = inc_ID i then (updated_incident mon ev now i (fst r), j) else r) xs) =
      filter (\<lambda>r. inc_MonitorID (fst r) = k) xs" if "set xs \<subseteq> set ?rows" for xs
    using that updated.prems by (induction xs) auto
  then show ?case
    by (simp add: update_incident_def incident_id_def)
next
  case (resolved i db m e now)
  let ?rows = "tbl_incidents db"
  have "inc_MonitorID (fst r) = m" if "r \<in> set ?rows" "incident_id r = inc_ID i" for r
    using that resolved by (auto simp: incident_keys_def incident_id_def distinct_map inj_on_def is_active_def)
  then have "filter (\<lambda>r. inc_MonitorID (fst r) = k)
      (map (\<lambda>r. if incident_id r = inc_ID i then (resolved_incident now (fst r), snd r) else r) xs) =
      filter (\<lambda>r. inc_MonitorID (fst r) = k) xs" if "set xs \<subseteq> set ?rows" for xs
    using that resolved.prems by (induction xs) auto
  then show ?case
    by (simp add: update_incident_def incident_id_def)
qed

section \<open>Properties\<close>

text \<open>A step changes the tables of incidents and events together: one event, and the row of its incident.\<close>

definition audited_change :: "database \<Rightarrow> database \<Rightarrow> bool" where
  "audited_change db db' =
     (\<exists>e. tbl_events db' = tbl_events db @ [e] \<and>
       (if ev_EventType e = IncidentEventTypeCreated
        then \<exists>i j. tbl_incidents db' = tbl_incidents db @ [(i, j)] \<and> inc_ID i = ev_IncidentID e \<and> inc_ResolvedAt i = None
        else \<exists>f. tbl_incidents db' = map (\<lambda>r. if inc_ID (fst r) = ev_IncidentID e then f r else r) (tbl_incidents db) \<and>
          (\<exists>r \<in> set (tbl_incidents db). inc_ID (fst r) = ev_IncidentID e \<and> inc_ResolvedAt (fst r) = None \<and>
             (inc_ResolvedAt (fst (f r)) \<noteq> None) = (ev_EventType e = IncidentEventTypeResolved))))"

lemma incident_step_change: "incident_step m db db' \<Longrightarrow> audited_change db db'"
proof (induction rule: incident_step.induct)
  case (created m db i e j)
  then show ?case
    by (auto simp: audited_change_def is_active_def)
next
  case (updated i db m e mon ev now j)
  have types: "IncidentEventTypeUpdated \<noteq> IncidentEventTypeCreated" "IncidentEventTypeUpdated \<noteq> IncidentEventTypeResolved"
    by code_simp+
  obtain r where "r \<in> set (tbl_incidents db)" "fst r = i"
    using updated(1) by auto
  then show ?case
    using updated types unfolding audited_change_def
    by (intro exI [of _ e])
      (auto simp: is_active_def update_incident_def incident_id_def updated_incident_def Let_def intro!: exI bexI [of _ r])
next
  case (resolved i db m e now)
  have types: "IncidentEventTypeResolved \<noteq> IncidentEventTypeCreated"
    by code_simp
  obtain r where "r \<in> set (tbl_incidents db)" "fst r = i"
    using resolved(1) by auto
  then show ?case
    using resolved types unfolding audited_change_def
    by (intro exI [of _ e])
      (auto simp: is_active_def update_incident_def incident_id_def resolved_incident_def intro!: exI bexI [of _ r])
qed

lemma process_message_change:
  assumes "process_message monitors cfg env db msg = (a, db', out)"
  shows "tbl_incidents db' = tbl_incidents db \<and> tbl_events db' = tbl_events db \<or> audited_change db db'"
proof -
  have sync: "tbl_incidents db' = tbl_incidents db \<and> tbl_events db' = tbl_events db \<or> audited_change db db'"
    if "syncProgrammaticIncident env (store_evaluation now m ev db) monitor ev = (r, db')" for now m ev monitor r
  proof -
    let ?db = "store_evaluation now m ev db"
    have tables: "tbl_incidents ?db = tbl_incidents db" "tbl_events ?db = tbl_events db"
      by (simp_all add: store_evaluation_def)
    have "db' = ?db \<or> audited_change ?db db'"
      using sync_step [OF that] incident_step_change by blast
    moreover have "audited_change ?db db' = audited_change db db'"
      by (simp only: audited_change_def tables)
    ultimately show ?thesis
      using tables by metis
  qed
  show ?thesis
    using assms
  proof (cases rule: process_message_cases)
    case (evaluated request monitor)
    from evaluated(4) show ?thesis
      by (cases rule: process_evaluation_cases) (use sync in auto)
  qed simp
qed

text \<open>A run on the concrete deployment of \<open>Processor_Eval\<close>, for the witnesses.\<close>

definition ex_db :: database where
  "ex_db = empty_db\<lparr>tbl_historical := [ex_row ''eu'' 500 ex_now]\<rparr>"

definition ex_env :: processor_env where
  "ex_env = \<lparr>pe_fault = (\<lambda>_. None), pe_clock = (\<lambda>_. ex_now), pe_rows = 10,
     pe_incident_uuid = ''i1'', pe_event_uuid = ''e1''\<rparr>"

definition ex_message :: "CheckerSubmissionRequest queue_message" where
  "ex_message = \<lparr>msg_body = Some (zero_submission\<lparr>sub_MonitorID := ''api''\<rparr>), msg_metadata = [], msg_nackable = True\<rparr>"

text \<open>One message of that deployment: both submissions failed, so an incident is opened.\<close>

lemma ex_run_check:
  "case process_message ex_monitors ex_dataset ex_env ex_db ex_message of
     (a, db, Some (alert, m)) \<Rightarrow> a = Ack \<and> alert_Status alert = MonitorStatusDown
   | _ \<Rightarrow> False"
  by code_simp

lemma ex_run:
  obtains db alert m where
    "process_message ex_monitors ex_dataset ex_env ex_db ex_message = (Ack, db, Some (alert, m))"
    "alert_Status alert = MonitorStatusDown"
  using ex_run_check by (auto split: prod.splits option.splits)

lemma ex_inv: "processor_inv ex_db"
  by (simp add: processor_inv_def incident_keys_def one_active_def audited_def ex_db_def empty_db_def)

lemma ex_processor_run: "processor_run ex_monitors ex_dataset ex_db []"
  using processor_run.history [OF processor_run.fresh, where h = "tbl_historical ex_db" and d = "[]" and rd = "[]"]
  by (simp add: ex_db_def empty_db_def)

lemma ex_run_incident:
  "case process_message ex_monitors ex_dataset ex_env ex_db ex_message of (a, db, out) \<Rightarrow> length (tbl_incidents db) = 1"
  by code_simp

lemma ex_incident_run:
  obtains db alerts where "processor_run ex_monitors ex_dataset db alerts" and "length (tbl_incidents db) = 1"
proof -
  obtain a db out where r: "process_message ex_monitors ex_dataset ex_env ex_db ex_message = (a, db, out)"
    by (metis prod_cases3)
  then have "length (tbl_incidents db) = 1"
    using ex_run_incident by simp
  then show thesis
    using that processor_run.handled [OF ex_processor_run r] by blast
qed

text \<open>
  C1: In every database the processor can produce, whatever calls fail and whatever the clocks
  and UUIDs are, a monitor has at most one programmatic incident that is not resolved, and the
  ids of incidents, events and state rows are unique.
\<close>

theorem one_open_incident:
  assumes "processor_run monitors cfg db alerts"
  shows "length (active_incidents m db) \<le> 1 \<and> distinct (map (\<lambda>r. inc_ID (fst r)) (tbl_incidents db)) \<and>
     distinct (map ev_ID (tbl_events db)) \<and> distinct (map state_MonitorID (tbl_state db))"
  using processor_run_inv [OF assms]
  by (simp add: processor_inv_def one_active_def active_incidents_def incident_keys_def incident_id_comp)

theorem one_open_incident_witness:
  "\<exists>db::database. length (tbl_incidents db) = 1 \<and> length (active_incidents ''api'' db) \<le> 1 \<and> distinct (map ev_ID (tbl_events db))"
proof -
  obtain db alerts where r: "processor_run ex_monitors ex_dataset db alerts" "length (tbl_incidents db) = 1"
    by (rule ex_incident_run)
  then show ?thesis
    using one_open_incident [OF r(1)] by blast
qed
text \<open>
  C17: The audit trail is complete: in every database the processor can produce, each event
  belongs to an incident of the same monitor, each incident has its creation event, and an
  incident is resolved exactly when there is a resolution event for it. Whatever message is handled next and
  whichever of its calls fail, either incidents and events both stay as they are, or exactly one event is added: with a
  creation event its incident is added, open; with another event the row of its incident, which was open, is
  written and no other, and it is resolved then exactly when this is a resolution event.
\<close>

theorem audit_trail:
  assumes "processor_run monitors cfg db alerts"
  shows "(\<forall>e \<in> set (tbl_events db). \<exists>r \<in> set (tbl_incidents db).
        inc_ID (fst r) = ev_IncidentID e \<and> inc_MonitorID (fst r) = ev_MonitorID e) \<and>
     (\<forall>r \<in> set (tbl_incidents db).
        (\<exists>e \<in> set (tbl_events db). ev_EventType e = IncidentEventTypeCreated \<and> ev_IncidentID e = inc_ID (fst r)) \<and>
        ((inc_ResolvedAt (fst r) \<noteq> None) =
          (\<exists>e \<in> set (tbl_events db). ev_EventType e = IncidentEventTypeResolved \<and> ev_IncidentID e = inc_ID (fst r)))) \<and>
     (case process_message monitors cfg env db msg of (a, db', out) \<Rightarrow>
        tbl_incidents db' = tbl_incidents db \<and> tbl_events db' = tbl_events db \<or>
        (\<exists>e. tbl_events db' = tbl_events db @ [e] \<and>
          (if ev_EventType e = IncidentEventTypeCreated
           then \<exists>i j. tbl_incidents db' = tbl_incidents db @ [(i, j)] \<and> inc_ID i = ev_IncidentID e \<and> inc_ResolvedAt i = None
           else \<exists>f. tbl_incidents db' = map (\<lambda>r. if inc_ID (fst r) = ev_IncidentID e then f r else r) (tbl_incidents db) \<and>
             (\<exists>r \<in> set (tbl_incidents db). inc_ID (fst r) = ev_IncidentID e \<and> inc_ResolvedAt (fst r) = None \<and>
                (inc_ResolvedAt (fst (f r)) \<noteq> None) = (ev_EventType e = IncidentEventTypeResolved)))))"
proof (intro conjI)
  show "case process_message monitors cfg env db msg of (a, db', out) \<Rightarrow>
        tbl_incidents db' = tbl_incidents db \<and> tbl_events db' = tbl_events db \<or>
        (\<exists>e. tbl_events db' = tbl_events db @ [e] \<and>
          (if ev_EventType e = IncidentEventTypeCreated
           then \<exists>i j. tbl_incidents db' = tbl_incidents db @ [(i, j)] \<and> inc_ID i = ev_IncidentID e \<and> inc_ResolvedAt i = None
           else \<exists>f. tbl_incidents db' = map (\<lambda>r. if inc_ID (fst r) = ev_IncidentID e then f r else r) (tbl_incidents db) \<and>
             (\<exists>r \<in> set (tbl_incidents db). inc_ID (fst r) = ev_IncidentID e \<and> inc_ResolvedAt (fst r) = None \<and>
                (inc_ResolvedAt (fst (f r)) \<noteq> None) = (ev_EventType e = IncidentEventTypeResolved))))"
    using process_message_change [of monitors cfg env db msg] unfolding audited_change_def
    by (cases "process_message monitors cfg env db msg") (simp only: prod.case)
qed (use processor_run_inv [OF assms] in \<open>simp_all add: processor_inv_def audited_def has_event_def incident_id_def\<close>)

theorem audit_trail_witness:
  "\<exists>db::database. length (tbl_incidents db) = 1 \<and>
     (\<forall>r \<in> set (tbl_incidents db). \<exists>e \<in> set (tbl_events db).
        ev_EventType e = IncidentEventTypeCreated \<and> ev_IncidentID e = inc_ID (fst r)) = True"
proof -
  obtain db alerts where r: "processor_run ex_monitors ex_dataset db alerts" "length (tbl_incidents db) = 1"
    by (rule ex_incident_run)
  then show ?thesis
    using conjunct1 [OF conjunct2 [OF audit_trail [OF r(1)]]] by (intro exI [of _ db] conjI) simp_all
qed

text \<open>
  A message that goes back to the queue has had no effect: after \<open>Nack\<close> the database is the
  one before and no alert was sent, so a redelivery is safe.
\<close>

theorem nack_has_no_effect:
  assumes "process_message monitors cfg env db msg = (Nack, db', out)"
  shows "db' = db \<and> out = None"
  using assms
proof (cases rule: process_message_cases)
  case unchanged
  then show ?thesis by simp
next
  case (evaluated request monitor)
  from evaluated(4) show ?thesis
    by (cases rule: process_evaluation_cases) simp_all
qed

theorem nack_has_no_effect_witness:
  "process_message ex_monitors ex_dataset ex_env ex_db (ex_message\<lparr>msg_body := None\<rparr>) = (Nack, ex_db, None) \<and>
     ex_db = ex_db \<and> (None :: (AlertMessage \<times> (string, string) gomap) option) = None"
proof -
  have "process_message ex_monitors ex_dataset ex_env ex_db (ex_message\<lparr>msg_body := None\<rparr>) = (Nack, ex_db, None)"
    by (simp add: process_message_def nack_or_ack_def ex_message_def)
  with nack_has_no_effect [OF this] show ?thesis
    by blast
qed

lemma process_published:
  assumes "process_message monitors cfg env db msg = (a, db', Some out)"
  obtains monitor incidentID where "msg_body msg \<noteq> None" "findMonitor monitors (mon_ID monitor) = Some monitor"
    "a = Ack"
    "\<not> evaluation_Equal (stored_evaluation (mon_ID monitor) db) (message_evaluation cfg env db monitor)"
    "syncProgrammaticIncident env (store_evaluation (pe_clock env ClockStore) (mon_ID monitor)
        (message_evaluation cfg env db monitor) db) monitor (message_evaluation cfg env db monitor) = (Inr incidentID, db')"
    "publishAlert env monitor (message_evaluation cfg env db monitor)
        (stored_evaluation (mon_ID monitor) db) incidentID = Inr out"
  using assms
proof (cases rule: process_message_cases)
  case unchanged
  then show ?thesis by simp
next
  case (evaluated request monitor)
  from evaluated(4) show ?thesis
  proof (cases rule: process_evaluation_cases)
    case (published alert incidentID)
    then show ?thesis
      using that [of monitor incidentID] evaluated(1-3) by simp
  qed simp_all
qed

lemma sync_frame:
  assumes "syncProgrammaticIncident env db monitor ev = (r, db')"
  shows "tbl_state db' = tbl_state db \<and> tbl_historical db' = tbl_historical db"
  using sync_step [OF assms] incident_step_frame by blast

lemma stored_sync:
  "syncProgrammaticIncident env db monitor ev = (r, db') \<Longrightarrow> stored_evaluation m db' = stored_evaluation m db"
  using sync_frame by (simp add: stored_evaluation_def)

lemma publishAlert_Inr:
  "publishAlert env monitor current previous incidentID = Inr (alert, meta) \<Longrightarrow>
     alert = alert_message env monitor current previous incidentID"
  by (simp add: publishAlert_def Let_def split: option.splits)

lemma published_alert:
  assumes "process_message monitors cfg env db msg = (a, db', Some (alert, meta))" and "processor_inv db"
  shows "a = Ack \<and>
     Status (stored_evaluation (alert_MonitorID alert) db') = alert_Status alert \<and>
     Scope (stored_evaluation (alert_MonitorID alert) db') = alert_Scope alert \<and>
     (if alert_Status alert = MonitorStatusHealthy then active_incidents (alert_MonitorID alert) db' = []
      else \<exists>i. active_incidents (alert_MonitorID alert) db' = [i] \<and> inc_ID i = alert_IncidentID alert \<and>
             inc_Status i = alert_Status alert \<and> inc_Scope i = alert_Scope alert)"
  using assms(1)
proof (cases rule: process_published)
  case (1 monitor incidentID)
  let ?ev = "message_evaluation cfg env db monitor" and ?m = "mon_ID monitor"
  let ?db1 = "store_evaluation (pe_clock env ClockStore) ?m ?ev db"
  have alert: "alert = alert_message env monitor ?ev (stored_evaluation ?m db) incidentID"
    using 1(6) by (rule publishAlert_Inr)
  have "stored_evaluation ?m db' = evaluation_reload ?ev"
    using stored_sync [OF 1(5)] by (simp add: stored_store)
  then have "Status (stored_evaluation ?m db') = Status ?ev" "Scope (stored_evaluation ?m db') = Scope ?ev"
    by (simp_all add: evaluation_reload_def)
  then show ?thesis
    using 1(3) sync_post [OF 1(5) store_evaluation_inv [OF assms(2)]]
    by (auto simp: alert alert_message_def Let_def HasActiveIncident_def incident_matches_def split: if_splits)
qed

text \<open>Only edits from outside create incidents of another source.\<close>

lemma incident_step_programmatic:
  "incident_step m db db' \<Longrightarrow> list_all (\<lambda>r. inc_Source (fst r) = IncidentSourceProgrammatic) (tbl_incidents db) \<Longrightarrow>
     list_all (\<lambda>r. inc_Source (fst r) = IncidentSourceProgrammatic) (tbl_incidents db')"
  by (induction rule: incident_step.induct)
    (auto simp: list_all_iff is_active_def resolved_incident_def dest!: update_incident_in)

lemma sync_programmatic:
  assumes "syncProgrammaticIncident env db monitor ev = (r, db')"
    and "list_all (\<lambda>r. inc_Source (fst r) = IncidentSourceProgrammatic) (tbl_incidents db)"
  shows "list_all (\<lambda>r. inc_Source (fst r) = IncidentSourceProgrammatic) (tbl_incidents db')"
  using sync_step [OF assms(1)] assms(2) incident_step_programmatic by blast

lemma process_message_programmatic:
  assumes "process_message monitors cfg env db msg = (a, db', out)"
    and "list_all (\<lambda>r. inc_Source (fst r) = IncidentSourceProgrammatic) (tbl_incidents db)"
  shows "list_all (\<lambda>r. inc_Source (fst r) = IncidentSourceProgrammatic) (tbl_incidents db')"
  using assms(1)
proof (cases rule: process_message_cases)
  case (evaluated request monitor)
  have s: "tbl_incidents (store_evaluation now m ev db) = tbl_incidents db" for now m ev
    by (simp add: store_evaluation_def)
  from evaluated(4) show ?thesis
    by (cases rule: process_evaluation_cases) (use assms(2) s sync_programmatic in \<open>metis+\<close>)
qed (use assms(2) in simp)

lemma processor_run_programmatic:
  "processor_run monitors cfg db alerts \<Longrightarrow>
     list_all (\<lambda>r. inc_Source (fst r) = IncidentSourceProgrammatic) (tbl_incidents db)"
proof (induction rule: processor_run.induct)
  case (handled db alerts env msg a db' out)
  then show ?case using process_message_programmatic by blast
qed (simp_all add: empty_db_def)

text \<open>
  When an alert is sent, it tells what the database holds at that moment: the stored state of
  the monitor has the status and the scope of the alert and differs from the state before; a
  recovery leaves the monitor without an open incident, and any other alert names the one open
  incident of the monitor, which has the same status and scope.
\<close>

theorem alert_tells_the_database:
  assumes "process_message monitors cfg env db msg = (a, db', Some (alert, meta))" and "processor_inv db"
  shows "a = Ack \<and>
     Status (stored_evaluation (alert_MonitorID alert) db') = alert_Status alert \<and>
     Scope (stored_evaluation (alert_MonitorID alert) db') = alert_Scope alert \<and>
     (if alert_Status alert = MonitorStatusHealthy then active_incidents (alert_MonitorID alert) db' = []
      else \<exists>i. active_incidents (alert_MonitorID alert) db' = [i] \<and> inc_ID i = alert_IncidentID alert \<and>
             inc_Status i = alert_Status alert \<and> inc_Scope i = alert_Scope alert)"
  using published_alert [OF assms] .

theorem alert_tells_the_database_witness:
  "\<exists>db' alert meta. process_message ex_monitors ex_dataset ex_env ex_db ex_message = (Ack, db', Some (alert, meta)) \<and>
     Status (stored_evaluation (alert_MonitorID alert) db') = MonitorStatusDown \<and>
     (\<exists>i. active_incidents (alert_MonitorID alert) db' = [i] \<and> inc_ID i = alert_IncidentID alert \<and>
        inc_Status i = MonitorStatusDown)"
proof (rule ex_run)
  fix db' alert meta
  assume r: "process_message ex_monitors ex_dataset ex_env ex_db ex_message = (Ack, db', Some (alert, meta))"
    and s: "alert_Status alert = MonitorStatusDown"
  have "MonitorStatusDown \<noteq> MonitorStatusHealthy"
    by (simp add: statuses)
  then show ?thesis
    using r s alert_tells_the_database [OF r ex_inv] by fastforce
qed

section \<open>Evaluations can be stored\<close>

lemma find_in_map:
  "latestNonEmptyBucket buckets L E d = Some (t, b) \<Longrightarrow> map_of buckets t = Some b"
  by (auto simp: latestNonEmptyBucket_def split: option.splits)

lemma evaluateBucket_storable:
  "list_all valid_utf8 fr \<Longrightarrow> breakdown_storable bd \<Longrightarrow> evaluation_storable (evaluateBucketIncident cfg b fr bd)"
  by (simp add: evaluateBucketIncident_def evaluation_storable_def HealthyIncidentEvaluation_def
      breakdown_storable_def Let_def)

lemma healthy_storable [simp]: "evaluation_storable HealthyIncidentEvaluation"
  by (simp add: evaluation_storable_def HealthyIncidentEvaluation_def breakdown_storable_def)

lemma category_valid: "valid_utf8 (CategorizeFailureReason r)"
proof -
  have "\<forall>c \<in> set (FailureReasonGeneric # map fst category_table). is_ascii c"
    by (simp add: category_table_def failure_reasons is_ascii_def)
  then show ?thesis
    using category_known valid_utf8_ascii by blast
qed

lemma breakdown_map_storable:
  assumes "\<forall>s \<in> set fs. valid_utf8 (hist_Region s)"
  shows "breakdown_storable (breakdown_map fs)"
proof -
  have "valid_utf8 c \<and> list_all valid_utf8 rs" if "(c, rs) \<in> set (breakdown_map fs)" for c rs
  proof -
    have "map_of (breakdown_map fs) c = Some rs"
      using that by (simp add: gm_wf_map_of flip: gm_wf_map_of)
    then have rs: "rs = sorted_list_of_set (category_regions fs c)" and ne: "category_regions fs c \<noteq> {}"
      by (auto simp: breakdown_map_lookup split: if_splits)
    have fin: "finite (category_regions fs c)"
      by (simp add: category_regions_def)
    have "list_all valid_utf8 rs"
      using assms fin by (auto simp: rs list_all_iff category_regions_def)
    moreover have "valid_utf8 c"
      using ne category_valid by (auto simp: category_regions_def failure_category_def)
    ultimately show ?thesis by simp
  qed
  then show ?thesis
    by (auto simp: breakdown_storable_def list_all_iff)
qed

lemma evaluate_submissions_storable:
  assumes "\<forall>s \<in> set xs. valid_utf8 (hist_Region s)"
  shows "evaluation_storable (evaluate_submissions cfg n1 n2 monitor xs)"
proof -
  let ?g = "groupSubmissionByMinute cfg n1 n2 xs minute monitor"
  let ?m = "fst ?g" and ?E = "fst (snd ?g)" and ?L = "snd (snd ?g)"
  have bd: "breakdown_storable (buildFailureReasonsBreakdown ?m xs t ?E minute)" for t
  proof -
    have "\<forall>s \<in> set (bucket_failures b xs u minute). valid_utf8 (hist_Region s)" for b u
      using assms by (simp add: bucket_failures_def Let_def)
    then show ?thesis
      using breakdown_map_storable
      by (simp add: build_eq breakdown_storable_def [of "[]"] split: option.split)
  qed
  have fr: "list_all valid_utf8 (failedRegionsFromBucket b)"
    if "latestNonEmptyBucket ?m ?L ?E minute = Some (t, b)" for t b
  proof -
    have "b = make_bucket cfg monitor t (in_minute minute t xs)"
      using find_in_map [OF that] by (simp add: buckets_lookup split: if_splits)
    moreover have "finite (failing cfg monitor (in_minute minute t xs))"
      by (simp add: failing_def)
    ultimately show ?thesis
      using assms by (auto simp: make_bucket_failed list_all_iff failing_def in_minute_def)
  qed
  show ?thesis
    using bd fr
    by (auto simp: evaluate_submissions_def split_def evaluateLatestIncident_def Let_def
        intro!: evaluateBucket_storable split: option.split)
qed

lemma message_evaluation_storable:
  assumes "\<forall>r \<in> set (tbl_historical db). valid_utf8 (hist_Region r)"
  shows "evaluation_storable (message_evaluation cfg env db monitor)"
  unfolding message_evaluation_def
proof (rule evaluate_submissions_storable)
  show "\<forall>s \<in> set (message_rows cfg env db (mon_ID monitor)). valid_utf8 (hist_Region s)"
    using assms by (auto simp: message_rows_def lookback_query_def scan_historical_def dest!: in_set_takeD)
qed

lemma message_evaluation_cong:
  "tbl_historical db = tbl_historical db' \<Longrightarrow> pe_clock env = pe_clock env' \<Longrightarrow> pe_rows env = pe_rows env' \<Longrightarrow>
     message_evaluation cfg env db monitor = message_evaluation cfg env' db' monitor"
  by (simp add: message_evaluation_def message_rows_def lookback_query_def)

text \<open>
  C9: A message that has published its alert can be delivered again at no harm: evaluated over
  the same rows at the same time, whatever calls fail in the second run, it leaves the database
  as it is and sends nothing. The names of regions are valid UTF-8.
\<close>

theorem redelivery_is_idempotent:
  assumes "process_message monitors cfg env db msg = (a, db', Some out)"
    and "\<forall>r \<in> set (tbl_historical db). valid_utf8 (hist_Region r)"
    and "pe_clock env2 = pe_clock env" and "pe_rows env2 = pe_rows env"
  shows "\<exists>b. process_message monitors cfg env2 db' msg = (b, db', None)"
proof -
  obtain b db2 out2 where run2: "process_message monitors cfg env2 db' msg = (b, db2, out2)"
    by (metis prod_cases3)
  have "db2 = db' \<and> out2 = None"
    using run2
  proof (cases rule: process_message_cases)
    case unchanged
    then show ?thesis by simp
  next
    case (evaluated request monitor)
    let ?ev = "message_evaluation cfg env db monitor"
    from assms(1) obtain incidentID where sync: "syncProgrammaticIncident env
        (store_evaluation (pe_clock env ClockStore) (mon_ID monitor) ?ev db) monitor ?ev = (Inr incidentID, db')"
    proof (cases rule: process_message_cases)
      case unchanged
      then show ?thesis by simp
    next
      case e1: (evaluated request' monitor')
      then have "monitor' = monitor"
        using evaluated(1,2) by simp
      with e1(4) show ?thesis
        by (cases rule: process_evaluation_cases) (use that in auto)
    qed
    have st: "stored_evaluation (mon_ID monitor) db' = evaluation_reload ?ev"
      using stored_sync [OF sync] by (simp add: stored_store)
    have "tbl_historical db' = tbl_historical db"
      using sync_frame [OF sync] by (simp add: store_evaluation_def)
    then have ev2: "message_evaluation cfg env2 db' monitor = ?ev"
      using assms(3,4) by (intro message_evaluation_cong)
    have "evaluation_Equal (stored_evaluation (mon_ID monitor) db') ?ev"
      unfolding st by (rule reload_Equal [OF message_evaluation_storable [OF assms(2)]])
    with evaluated(4) ev2 show ?thesis
      by (simp add: process_evaluation_def)
  qed
  with run2 show ?thesis by blast
qed

theorem redelivery_is_idempotent_witness:
  "\<exists>db' out b. process_message ex_monitors ex_dataset ex_env ex_db ex_message = (Ack, db', Some out) \<and>
     process_message ex_monitors ex_dataset ex_env db' ex_message = (b, db', None)"
proof (rule ex_run)
  fix db' alert meta
  assume r: "process_message ex_monitors ex_dataset ex_env ex_db ex_message = (Ack, db', Some (alert, meta))"
  have "\<forall>r \<in> set (tbl_historical ex_db). valid_utf8 (hist_Region r)"
    by (simp add: ex_db_def ex_row_def valid_utf8_ascii is_ascii_def)
  from redelivery_is_idempotent [OF r this refl refl] show ?thesis
    using r by blast
qed

text \<open>
  C27: Manual edits survive: a title, a body or an impact of an incident that was edited by hand
  (it is not empty and not the value the processor wrote) has the same value after any message.
\<close>

theorem manual_edits_survive:
  assumes "process_message monitors cfg env db msg = (a, db', out)" and "processor_inv db"
    and "r \<in> set (tbl_incidents db)"
  shows "\<exists>r' \<in> set (tbl_incidents db'). inc_ID (fst r') = inc_ID (fst r) \<and>
     (manual_edit (fst r) inc_Title inc_AutoTitle \<longrightarrow> inc_Title (fst r') = inc_Title (fst r)) \<and>
     (manual_edit (fst r) inc_Body inc_AutoBody \<longrightarrow> inc_Body (fst r') = inc_Body (fst r)) \<and>
     (manual_edit (fst r) inc_Impact inc_AutoImpact \<longrightarrow> inc_Impact (fst r') = inc_Impact (fst r))"
proof -
  have sync: "\<exists>r' \<in> set (tbl_incidents db2). incident_id r' = incident_id r \<and> keeps_edits (fst r) (fst r')"
    if "syncProgrammaticIncident env (store_evaluation now m ev db) monitor ev = (x, db2)" for now m ev monitor x db2
  proof -
    have "incident_keys (store_evaluation now m ev db)"
      using store_evaluation_inv [OF assms(2), of now m ev] by (simp add: processor_inv_def)
    moreover have "r \<in> set (tbl_incidents (store_evaluation now m ev db))"
      using assms(3) by (simp add: store_evaluation_def)
    ultimately show ?thesis
      using sync_step [OF that] incident_step_keeps_edits by fastforce
  qed
  have "\<exists>r' \<in> set (tbl_incidents db'). incident_id r' = incident_id r \<and> keeps_edits (fst r) (fst r')"
    using assms(1)
  proof (cases rule: process_message_cases)
    case unchanged
    then show ?thesis using assms(3) by auto
  next
    case (evaluated request monitor)
    from evaluated(4) show ?thesis
    proof (cases rule: process_evaluation_cases)
      case unchanged
      then show ?thesis using assms(3) by auto
    next
      case stored
      then show ?thesis using sync by blast
    next
      case published
      then show ?thesis using sync by blast
    qed
  qed
  then show ?thesis
    by (simp add: incident_id_def keeps_edits_def)
qed

text \<open>An open incident whose title was edited by hand.\<close>

definition ex_edited :: MonitorIncident where
  "ex_edited =
     \<lparr>inc_ID = ''i0'', inc_MonitorID = ''api'', inc_Source = IncidentSourceProgrammatic,
      inc_LifecycleState = IncidentLifecycleIdentified, inc_AutoImpact = IncidentImpactMajorOutage,
      inc_Impact = IncidentImpactMajorOutage, inc_AutoTitle = ''API is down'', inc_AutoBody = ''x'',
      inc_Title = ''Maintenance'', inc_Body = ''x'', inc_Status = MonitorStatusDegraded,
      inc_Scope = MonitorScopeLocal, inc_AffectedRegions = ''[]'', inc_StartedAt = 0,
      inc_ResolvedAt = None, inc_CreatedAt = 0, inc_UpdatedAt = 0\<rparr>"

definition ex_edited_db :: database where
  "ex_edited_db = ex_db\<lparr>tbl_incidents := [(ex_edited, None)],
     tbl_events := [incident_event ex_env ex_edited IncidentEventTypeCreated [] [] 0]\<rparr>"

lemma ex_edited_inv: "processor_inv ex_edited_db"
  by (simp add: processor_inv_def incident_keys_def one_active_def audited_def has_event_def ex_edited_db_def
      ex_db_def empty_db_def incident_id_def incident_event_def ex_edited_def is_active_def incident_sources)

theorem manual_edits_survive_witness:
  "\<exists>a db' out r'. process_message ex_monitors ex_dataset ex_env ex_edited_db ex_message = (a, db', out) \<and>
     r' \<in> set (tbl_incidents db') \<and> inc_ID (fst r') = ''i0'' \<and> inc_Title (fst r') = ''Maintenance''"
proof -
  obtain a db' out where r: "process_message ex_monitors ex_dataset ex_env ex_edited_db ex_message = (a, db', out)"
    by (metis prod_cases3)
  have "(ex_edited, None) \<in> set (tbl_incidents ex_edited_db)"
    by (simp add: ex_edited_db_def)
  from manual_edits_survive [OF r ex_edited_inv this] show ?thesis
    using r by (auto simp: ex_edited_def manual_edit_def)
qed

text \<open>
  C28: A message changes nothing of the other monitors: neither their stored evaluation nor any
  row of their incidents.
\<close>

theorem other_monitors_untouched:
  assumes "process_message monitors cfg env db msg = (a, db', out)" and "processor_inv db"
    and "msg_body msg = Some request" and "k \<noteq> sub_MonitorID request"
  shows "stored_evaluation k db' = stored_evaluation k db \<and>
     filter (\<lambda>r. inc_MonitorID (fst r) = k) (tbl_incidents db') =
     filter (\<lambda>r. inc_MonitorID (fst r) = k) (tbl_incidents db)"
proof -
  have sync: "stored_evaluation k db2 = stored_evaluation k db \<and>
     filter (\<lambda>r. inc_MonitorID (fst r) = k) (tbl_incidents db2) =
     filter (\<lambda>r. inc_MonitorID (fst r) = k) (tbl_incidents db)"
    if s: "syncProgrammaticIncident env (store_evaluation now m ev db) monitor ev = (x, db2)"
      and m: "m = mon_ID monitor" "m \<noteq> k" for now m ev monitor x db2
  proof -
    have "incident_keys (store_evaluation now m ev db)"
      using store_evaluation_inv [OF assms(2), of now m ev] by (simp add: processor_inv_def)
    then show ?thesis
      using sync_step [OF s] m incident_step_other [of m "store_evaluation now m ev db" db2 k]
        stored_sync [OF s, of k] stored_store_other [of k m now ev db]
      by (auto simp: store_evaluation_def)
  qed
  show ?thesis
    using assms(1)
  proof (cases rule: process_message_cases)
    case unchanged
    then show ?thesis by simp
  next
    case (evaluated request' monitor)
    have m: "mon_ID monitor \<noteq> k"
      using evaluated(1,3) assms(3,4) by simp
    from evaluated(4) show ?thesis
    proof (cases rule: process_evaluation_cases)
      case unchanged
      then show ?thesis by simp
    next
      case stored
      then show ?thesis using sync [OF _ refl m] by blast
    next
      case published
      then show ?thesis using sync [OF _ refl m] by blast
    qed
  qed
qed

theorem other_monitors_untouched_witness:
  "\<exists>a db' out. process_message ex_monitors ex_dataset ex_env ex_edited_db ex_message = (a, db', out) \<and>
     stored_evaluation ''web'' db' = HealthyIncidentEvaluation \<and>
     filter (\<lambda>r. inc_MonitorID (fst r) = ''web'') (tbl_incidents db') = []"
proof -
  obtain a db' out where r: "process_message ex_monitors ex_dataset ex_env ex_edited_db ex_message = (a, db', out)"
    by (metis prod_cases3)
  have "msg_body ex_message = Some (zero_submission\<lparr>sub_MonitorID := ''api''\<rparr>)"
    by (simp add: ex_message_def)
  from other_monitors_untouched [OF r ex_edited_inv this, of "''web''"] show ?thesis
    using r by (auto simp: ex_edited_db_def ex_db_def empty_db_def ex_edited_def stored_evaluation_def)
qed

text \<open>
  Alerts are sent at most once: when the new evaluation has been stored but the open incident
  cannot be loaded, the message is acknowledged without an alert, no incident is opened, and
  the stored evaluation already equals the new one, so that no later delivery with the same
  evaluation makes up for it.
\<close>

theorem failed_sync_drops_the_transition:
  assumes "msg_body msg = Some request"
    and "findMonitor monitors (sub_MonitorID request) = Some monitor"
    and "pe_fault env = (\<lambda>s. if s = LoadActiveQuery then Some e else None)"
    and "\<not> evaluation_Equal (stored_evaluation (mon_ID monitor) db) (message_evaluation cfg env db monitor)"
    and "\<forall>r \<in> set (tbl_historical db). valid_utf8 (hist_Region r)"
  shows "\<exists>db'. process_message monitors cfg env db msg = (Ack, db', None) \<and>
     tbl_incidents db' = tbl_incidents db \<and> tbl_events db' = tbl_events db \<and>
     evaluation_Equal (stored_evaluation (mon_ID monitor) db') (message_evaluation cfg env db monitor)"
proof -
  let ?ev = "message_evaluation cfg env db monitor" and ?m = "mon_ID monitor"
  let ?db1 = "store_evaluation (pe_clock env ClockStore) ?m ?ev db"
  have m: "sub_MonitorID request = ?m"
    using findMonitor_Some [OF assms(2)] by simp
  have lb: "lookback env db ?m (pe_clock env ClockSince - minutes (ProcessingLookbackMinutes cfg)) =
      Inr (message_rows cfg env db ?m)"
    by (simp add: lookback_def attempt_def assms(3) message_rows_def)
  have "process_message monitors cfg env db msg =
      process_evaluation env db msg ?m monitor (stored_evaluation ?m db) ?ev"
    using assms(1,2) m lb
    by (simp add: process_message_def message_evaluation_def evaluate_submissions_def split_def Let_def
        loadIncidentState_def attempt_def assms(3))
  moreover have "storeIncidentState env db ?m ?ev = Inr ?db1"
    by (simp add: storeIncidentState_def attempt_def assms(3) Let_def)
  moreover have "syncProgrammaticIncident env ?db1 monitor ?ev = (Inl (''querying active incident: '' @ e), ?db1)"
    by (simp add: syncProgrammaticIncident_def loadActiveProgrammaticIncident_def attempt_def assms(3))
  ultimately have "process_message monitors cfg env db msg = (Ack, ?db1, None)"
    using assms(4) by (simp add: process_evaluation_def)
  moreover have "evaluation_Equal (stored_evaluation ?m ?db1) ?ev"
    unfolding stored_store by (rule reload_Equal [OF message_evaluation_storable [OF assms(5)]])
  ultimately show ?thesis
    by (intro exI [of _ ?db1]) (simp add: store_evaluation_def)
qed

theorem failed_sync_drops_the_transition_witness:
  "\<exists>db'. process_message ex_monitors ex_dataset
        (ex_env\<lparr>pe_fault := (\<lambda>s. if s = LoadActiveQuery then Some ''io'' else None)\<rparr>) ex_db ex_message = (Ack, db', None) \<and>
     tbl_incidents db' = []"
proof (rule ex_run)
  let ?env = "ex_env\<lparr>pe_fault := (\<lambda>s. if s = LoadActiveQuery then Some ''io'' else None)\<rparr>"
  fix db1 alert meta
  assume "process_message ex_monitors ex_dataset ex_env ex_db ex_message = (Ack, db1, Some (alert, meta))"
  then obtain monitor where mon: "findMonitor ex_monitors (mon_ID monitor) = Some monitor"
    and ne: "\<not> evaluation_Equal (stored_evaluation (mon_ID monitor) ex_db) (message_evaluation ex_dataset ex_env ex_db monitor)"
    by (rule process_published)
  have monitor: "monitor = ex_monitor"
    using findMonitor_Some [OF mon] by (simp add: ex_monitors_def)
  have "message_evaluation ex_dataset ex_env ex_db monitor = message_evaluation ex_dataset ?env ex_db monitor"
    by (rule message_evaluation_cong) simp_all
  with ne have ne: "\<not> evaluation_Equal (stored_evaluation (mon_ID ex_monitor) ex_db) (message_evaluation ex_dataset ?env ex_db ex_monitor)"
    by (simp add: monitor)
  have body: "msg_body ex_message = Some (zero_submission\<lparr>sub_MonitorID := ''api''\<rparr>)"
    by (simp add: ex_message_def)
  have f: "findMonitor ex_monitors (sub_MonitorID (zero_submission\<lparr>sub_MonitorID := ''api''\<rparr>)) = Some ex_monitor"
    by (simp add: findMonitor_def ex_monitors_def ex_monitor_def zero_monitor_def)
  have u: "\<forall>r \<in> set (tbl_historical ex_db). valid_utf8 (hist_Region r)"
    by (simp add: ex_db_def ex_row_def valid_utf8_ascii is_ascii_def)
  show ?thesis
    using failed_sync_drops_the_transition [OF body f _ ne u, of "''io''"]
    by (auto simp: ex_db_def empty_db_def)
qed

end
