(* ===== verification/Go_Calendar.thy ===== *)
theory Go_Calendar
  imports Go_Time Go_Strings "HOL-Library.Monad_Syntax"
begin

text \<open>
  The calendar of Go's \<open>time\<close> package in UTC: the civil date of a day number, and the layouts
  \<open>2006-01-02\<close>, \<open>time.DateTime\<close> and \<open>time.RFC3339\<close>. Years are written with four digits, as
  Go does from year 0 to 9999.
\<close>

definition is_leap :: "int \<Rightarrow> bool" where
  "is_leap y = (y mod 4 = 0 \<and> (y mod 100 \<noteq> 0 \<or> y mod 400 = 0))"

definition year_length :: "int \<Rightarrow> int" where
  "year_length y = (if is_leap y then 366 else 365)"

text \<open>The day number (from 1 January 1970) of the first day of a year.\<close>

definition year_start :: "int \<Rightarrow> int" where
  "year_start y = 365 * (y - 1970) + (y - 1) div 4 - (y - 1) div 100 + (y - 1) div 400 - 477"

lemma year_start_1970: "year_start 1970 = 0"
  by (simp add: year_start_def)

lemma div_step: "y div d = (y - 1) div d + (if y mod d = 0 then 1 else 0)" if "1 < d" for y d :: int
proof -
  define q r where "q = y div d" and "r = y mod d"
  have y: "y = d * q + r" and r: "0 \<le> r" "r < d"
    using that by (simp_all add: q_def r_def)
  show ?thesis
  proof (cases "r = 0")
    case True
    have "(y - 1) div d = q - 1"
      by (rule int_div_pos_eq [where r = "d - 1"]) (use y True that in \<open>simp_all add: algebra_simps\<close>)
    then show ?thesis using True by (simp add: q_def r_def)
  next
    case False
    have "(y - 1) div d = q"
      by (rule int_div_pos_eq [where r = "r - 1"]) (use y False r in \<open>simp_all add: algebra_simps\<close>)
    then show ?thesis using False by (simp add: q_def r_def)
  qed
qed

lemma year_start_Suc: "year_start (y + 1) = year_start y + year_length y"
proof -
  define a b c where "a = y mod 4" and "b = y mod 100" and "c = y mod 400"
  have imp: "c = 0 \<Longrightarrow> b = 0" "b = 0 \<Longrightarrow> a = 0"
    unfolding a_def b_def c_def by (auto simp: mod_eq_0_iff_dvd elim: dvd_trans [rotated])
  define p q r p' q' r' where "p = y div 4" and "q = y div 100" and "r = y div 400"
    and "p' = (y - 1) div 4" and "q' = (y - 1) div 100" and "r' = (y - 1) div 400"
  note defs = this
  have "p = p' + (if a = 0 then 1 else 0)" "q = q' + (if b = 0 then 1 else 0)"
    "r = r' + (if c = 0 then 1 else 0)"
    unfolding a_def b_def c_def defs by (rule div_step; simp)+
  moreover have "year_start (y + 1) = 365 * (y - 1970) + 365 + p - q + r - 477"
    by (simp add: year_start_def defs)
  moreover have "year_start y = 365 * (y - 1970) + p' - q' + r' - 477"
    by (simp add: year_start_def defs)
  ultimately have "year_start (y + 1) =
      year_start y + (365 + (if a = 0 then 1 else 0) - (if b = 0 then 1 else 0) + (if c = 0 then 1 else 0))"
    by linarith
  moreover have "year_length y =
      365 + (if a = 0 then 1 else 0) - (if b = 0 then 1 else 0) + (if c = 0 then 1 else 0)"
    using imp unfolding year_length_def is_leap_def a_def [symmetric] b_def [symmetric] c_def [symmetric]
    by presburger
  ultimately show ?thesis
    by simp
qed

lemma year_length_pos: "0 < year_length y" "year_length y \<le> 366" "365 \<le> year_length y"
  by (simp_all add: year_length_def)

lemma year_start_mono: "y \<le> z \<Longrightarrow> year_start y \<le> year_start z"
proof (induction z rule: int_ge_induct)
  case base
  then show ?case by simp
next
  case (step z)
  then show ?case
    using year_start_Suc [of z] year_length_pos(1) [of z] by simp
qed

text \<open>The year of a day, searched from \<open>y\<close>; \<open>n\<close> is the day counted from the start of \<open>y\<close>.\<close>

function year_from :: "int \<Rightarrow> int \<Rightarrow> int \<times> int" where
  "year_from y n =
     (if n < 0 then year_from (y - 1) (n + year_length (y - 1))
      else if year_length y \<le> n then year_from (y + 1) (n - year_length y)
      else (y, n))"
  by pat_completeness auto
termination
  by (relation "measure (\<lambda>(y, n). if n < 0 then nat (1 - n) + 366 else nat n)")
    (auto simp: year_length_def split: if_splits)

declare year_from.simps [simp del]

lemma year_from_spec:
  "year_from y n = (z, k) \<Longrightarrow> 0 \<le> k \<and> k < year_length z \<and> year_start z + k = year_start y + n"
proof (induction y n rule: year_from.induct)
  case (1 y n)
  consider "n < 0" | "0 \<le> n" "year_length y \<le> n" | "0 \<le> n" "n < year_length y"
    by linarith
  then show ?case
  proof cases
    case 1
    then show ?thesis
      using "1.IH"(1) "1.prems" year_start_Suc [of "y - 1"] by (simp add: year_from.simps [of y n])
  next
    case 2
    then show ?thesis
      using "1.IH"(2) "1.prems" year_start_Suc [of y] by (simp add: year_from.simps [of y n])
  next
    case 3
    then show ?thesis
      using "1.prems" by (simp add: year_from.simps [of y n])
  qed
qed

definition month_lengths :: "int \<Rightarrow> int list" where
  "month_lengths y = [31, if is_leap y then 29 else 28, 31, 30, 31, 30, 31, 31, 30, 31, 30, 31]"

fun month_from :: "int \<Rightarrow> int list \<Rightarrow> int \<Rightarrow> int \<times> int" where
  "month_from m [] k = (m, k + 1)"
| "month_from m (l # ls) k = (if k < l then (m, k + 1) else month_from (m + 1) ls (k - l))"

text \<open>Year, month and day of a day number.\<close>

definition civil :: "int \<Rightarrow> int \<times> int \<times> int" where
  "civil d = (case year_from 1970 d of (y, k) \<Rightarrow>
     (case month_from 1 (month_lengths y) k of (m, n) \<Rightarrow> (y, m, n)))"

definition day_of_civil :: "int \<times> int \<times> int \<Rightarrow> int" where
  "day_of_civil c = (case c of (y, m, n) \<Rightarrow>
     year_start y + sum_list (take (nat (m - 1)) (month_lengths y)) + n - 1)"

lemma month_from_spec:
  "month_from m ls k = (m', n) \<Longrightarrow> 0 \<le> k \<Longrightarrow> k < sum_list ls \<Longrightarrow> list_all (\<lambda>l. 0 < l \<and> l \<le> 31) ls \<Longrightarrow>
     m \<le> m' \<and> m' < m + int (length ls) \<and> 1 \<le> n \<and> n \<le> 31 \<and>
     sum_list (take (nat (m' - m)) ls) + n - 1 = k"
proof (induction m ls k arbitrary: m' n rule: month_from.induct)
  case (1 m k)
  then show ?case by simp
next
  case (2 m l ls k)
  show ?case
  proof (cases "k < l")
    case True
    then show ?thesis using 2 by auto
  next
    case False
    then have IH: "m + 1 \<le> m' \<and> m' < m + 1 + int (length ls) \<and> 1 \<le> n \<and> n \<le> 31 \<and>
        sum_list (take (nat (m' - (m + 1))) ls) + n - 1 = k - l"
      using 2 by auto
    then have "nat (m' - m) = Suc (nat (m' - (m + 1)))"
      by linarith
    then show ?thesis using IH by simp
  qed
qed

lemma civil_ranges:
  assumes "civil d = (y, m, n)"
  shows "1 \<le> m \<and> m \<le> 12 \<and> 1 \<le> n \<and> n \<le> 31"
    and "day_of_civil (y, m, n) = d"
proof -
  obtain k where y: "year_from 1970 d = (y, k)" and m: "month_from 1 (month_lengths y) k = (m, n)"
    using assms by (auto simp: civil_def split: prod.splits)
  have k: "0 \<le> k" "k < year_length y" "year_start y + k = d"
    using year_from_spec [OF y] by (simp_all add: year_start_1970)
  have "sum_list (month_lengths y) = year_length y"
    by (simp add: month_lengths_def year_length_def)
  moreover have "list_all (\<lambda>l. 0 < l \<and> l \<le> 31) (month_lengths y)"
    by (simp add: month_lengths_def)
  ultimately have s: "1 \<le> m \<and> m < 1 + int (length (month_lengths y)) \<and> 1 \<le> n \<and> n \<le> 31 \<and>
      sum_list (take (nat (m - 1)) (month_lengths y)) + n - 1 = k"
    using month_from_spec [OF m] k by simp
  then show "1 \<le> m \<and> m \<le> 12 \<and> 1 \<le> n \<and> n \<le> 31"
    by (simp add: month_lengths_def)
  show "day_of_civil (y, m, n) = d"
    using s k by (simp add: day_of_civil_def)
qed

text \<open>No two days have the same date.\<close>

lemma civil_inj: "civil d = civil e \<Longrightarrow> d = e"
  using civil_ranges(2) by (metis prod_cases3)

section \<open>Layouts\<close>

definition digits2 :: "int \<Rightarrow> string" where
  "digits2 n = [digit_char (nat (n div 10)), digit_char (nat (n mod 10))]"

definition digits4 :: "int \<Rightarrow> string" where
  "digits4 n = [digit_char (nat (n div 1000)), digit_char (nat (n div 100 mod 10)),
     digit_char (nat (n div 10 mod 10)), digit_char (nat (n mod 10))]"

definition format_date :: "gotime \<Rightarrow> string" where
  "format_date t = (case civil (utc_date t) of (y, m, d) \<Rightarrow> digits4 y @ ''-'' @ digits2 m @ ''-'' @ digits2 d)"

definition format_clock :: "gotime \<Rightarrow> string" where
  "format_clock t =
     (let s = t mod day div second
      in digits2 (s div 3600) @ '':'' @ digits2 (s div 60 mod 60) @ '':'' @ digits2 (s mod 60))"

definition format_datetime :: "gotime \<Rightarrow> string" where
  "format_datetime t = format_date t @ '' '' @ format_clock t"

definition format_rfc3339 :: "gotime \<Rightarrow> string" where
  "format_rfc3339 t = format_date t @ ''T'' @ format_clock t @ ''Z''"

lemma digit_char_eq: "a < 10 \<Longrightarrow> b < 10 \<Longrightarrow> digit_char a = digit_char b \<longleftrightarrow> a = b"
proof -
  assume "a < 10" "b < 10"
  then have "of_char (digit_char a) = 48 + a" "of_char (digit_char b) = 48 + b"
    by (simp_all add: digit_char_def)
  then show ?thesis by (metis add_left_cancel)
qed

lemma digits2_inj:
  assumes "0 \<le> a" "a < 100" "0 \<le> b" "b < 100"
  shows "digits2 a = digits2 b \<longleftrightarrow> a = b"
proof
  assume "digits2 a = digits2 b"
  then have "nat (a div 10) = nat (b div 10)" "nat (a mod 10) = nat (b mod 10)"
    using assms by (simp_all add: digits2_def digit_char_eq nat_less_iff)
  then have "a div 10 = b div 10" "a mod 10 = b mod 10"
    using assms by (simp_all add: eq_nat_nat_iff pos_imp_zdiv_nonneg_iff)
  then show "a = b"
    by (metis mult_div_mod_eq)
qed simp

lemma digits4_inj:
  assumes "0 \<le> a" "a < 10000" "0 \<le> b" "b < 10000"
  shows "digits4 a = digits4 b \<longleftrightarrow> a = b"
proof
  assume "digits4 a = digits4 b"
  then have "nat (a div 1000) = nat (b div 1000)" "nat (a div 100 mod 10) = nat (b div 100 mod 10)"
    "nat (a div 10 mod 10) = nat (b div 10 mod 10)" "nat (a mod 10) = nat (b mod 10)"
    using assms by (simp_all add: digits4_def digit_char_eq nat_less_iff)
  moreover have "0 \<le> a div 1000" "0 \<le> b div 1000"
    using assms by (simp_all add: pos_imp_zdiv_nonneg_iff)
  moreover have "0 \<le> x mod 10" for x :: int
    by simp
  ultimately have eq: "a div 1000 = b div 1000" "a div 100 mod 10 = b div 100 mod 10"
    "a div 10 mod 10 = b div 10 mod 10" "a mod 10 = b mod 10"
    by (metis eq_nat_nat_iff)+
  have split: "x = 10 * (10 * (10 * (x div 1000) + x div 100 mod 10) + x div 10 mod 10) + x mod 10" for x :: int
  proof -
    have "x div 100 = x div 10 div 10" "x div 1000 = x div 100 div 10"
      by (simp_all add: zdiv_zmult2_eq [symmetric])
    then show ?thesis
      using mult_div_mod_eq [of 10 x] mult_div_mod_eq [of 10 "x div 10"] mult_div_mod_eq [of 10 "x div 100"]
      by simp
  qed
  show "a = b"
    using split [of a] split [of b] eq by simp
qed simp

definition year_of :: "gotime \<Rightarrow> int" where
  "year_of t = fst (civil (utc_date t))"

text \<open>The layout \<open>2006-01-02\<close> tells the days of the years 0 to 9999 apart.\<close>

lemma format_date_inj:
  assumes "0 \<le> year_of t" "year_of t \<le> 9999" "0 \<le> year_of u" "year_of u \<le> 9999"
  shows "format_date t = format_date u \<longleftrightarrow> utc_date t = utc_date u"
proof
  assume eq: "format_date t = format_date u"
  obtain y m d y' m' d' where c: "civil (utc_date t) = (y, m, d)" "civil (utc_date u) = (y', m', d')"
    by (metis prod_cases3)
  have r: "1 \<le> m \<and> m \<le> 12 \<and> 1 \<le> d \<and> d \<le> 31" "1 \<le> m' \<and> m' \<le> 12 \<and> 1 \<le> d' \<and> d' \<le> 31"
    using civil_ranges(1) c by blast+
  have "digits4 y = digits4 y' \<and> digits2 m = digits2 m' \<and> digits2 d = digits2 d'"
    using eq c by (simp add: format_date_def digits4_def digits2_def)
  then have "(y, m, d) = (y', m', d')"
    using r assms c by (simp add: digits4_inj digits2_inj year_of_def)
  then show "utc_date t = utc_date u"
    using c civil_inj by metis
qed (simp add: format_date_def)

text \<open>The instants that the layouts write with four digits of the year.\<close>

definition in_calendar :: "gotime \<Rightarrow> bool" where
  "in_calendar t = (0 \<le> year_of t \<and> year_of t \<le> 9999)"

lemma length_format_date [simp]: "length (format_date t) = 10"
  by (simp add: format_date_def digits4_def digits2_def split: prod.split)

lemma year_of_utcDayStart [simp]: "year_of (utcDayStart t) = year_of t"
  by (simp add: year_of_def)

section \<open>Parsing\<close>

text \<open>
  \<open>time.Parse\<close> for the layouts \<open>2006-01-02\<close> and RFC 3339. The pieces read from the front of the
  text. An hour may have one digit; a fraction of a second may follow even where the layout
  has none; an offset may be up to 24 hours and 60 minutes.
\<close>

definition is_digit :: "char \<Rightarrow> bool" where
  "is_digit c = (48 \<le> (of_char c :: nat) \<and> of_char c \<le> (57 :: nat))"

fun read_digits :: "nat \<Rightarrow> nat \<Rightarrow> string \<Rightarrow> (nat \<times> string) option" where
  "read_digits 0 acc s = Some (acc, s)"
| "read_digits (Suc n) acc [] = None"
| "read_digits (Suc n) acc (c # s) =
     (if is_digit c then read_digits n (acc * 10 + (of_char c - 48)) s else None)"

fun expect :: "char \<Rightarrow> string \<Rightarrow> string option" where
  "expect c [] = None"
| "expect c (d # s) = (if c = d then Some s else None)"

definition read_below :: "nat \<Rightarrow> string \<Rightarrow> (nat \<times> string) option" where
  "read_below bound s = do { (n, s) \<leftarrow> read_digits 2 0 s; if n < bound then Some (n, s) else None }"

definition valid_civil :: "int \<times> int \<times> int \<Rightarrow> bool" where
  "valid_civil c = (case c of (y, m, d) \<Rightarrow>
     1 \<le> m \<and> m \<le> 12 \<and> 1 \<le> d \<and> d \<le> month_lengths y ! nat (m - 1))"

definition read_date :: "string \<Rightarrow> ((int \<times> int \<times> int) \<times> string) option" where
  "read_date s = do {
     (y, s) \<leftarrow> read_digits 4 0 s;
     s \<leftarrow> expect (CHR ''-'') s;
     (m, s) \<leftarrow> read_digits 2 0 s;
     s \<leftarrow> expect (CHR ''-'') s;
     (d, s) \<leftarrow> read_digits 2 0 s;
     if valid_civil (int y, int m, int d) then Some ((int y, int m, int d), s) else None }"

definition read_hour :: "string \<Rightarrow> string option" where
  "read_hour s =
     (case read_digits 2 0 s of
        Some (h, s) \<Rightarrow> if h < 24 then Some s else None
      | None \<Rightarrow> map_option snd (read_digits 1 0 s))"

definition read_fraction :: "string \<Rightarrow> string" where
  "read_fraction s =
     (case s of
        p # c # r \<Rightarrow> if (p = CHR ''.'' \<or> p = CHR '','') \<and> is_digit c then dropWhile is_digit r else s
      | _ \<Rightarrow> s)"

definition read_zone :: "string \<Rightarrow> string option" where
  "read_zone s =
     (case s of
        [] \<Rightarrow> None
      | c # r \<Rightarrow>
          if c = CHR ''Z'' then Some r
          else if c = CHR ''+'' \<or> c = CHR ''-'' then
            do { (h, r) \<leftarrow> read_below 25 r; r \<leftarrow> expect (CHR '':'') r; (m, r) \<leftarrow> read_below 61 r; Some r }
          else None)"

definition parse_date :: "string \<Rightarrow> (int \<times> int \<times> int) option" where
  "parse_date s = do { (c, s) \<leftarrow> read_date s; if s = [] then Some c else None }"

text \<open>The date of the parsed time, in its own offset.\<close>

definition parse_rfc3339_date :: "string \<Rightarrow> (int \<times> int \<times> int) option" where
  "parse_rfc3339_date s = do {
     (c, s) \<leftarrow> read_date s;
     s \<leftarrow> expect (CHR ''T'') s;
     s \<leftarrow> read_hour s;
     s \<leftarrow> expect (CHR '':'') s;
     (m, s) \<leftarrow> read_below 60 s;
     s \<leftarrow> expect (CHR '':'') s;
     (x, s) \<leftarrow> read_below 60 s;
     s \<leftarrow> read_zone (read_fraction s);
     if s = [] then Some c else None }"

text \<open>What is written is read back.\<close>

lemma byte_digit_char: "n < 10 \<Longrightarrow> of_char (digit_char n) = (48 + n :: nat)"
  by (simp add: digit_char_def)

lemma is_digit_char [simp]: "n < 10 \<Longrightarrow> is_digit (digit_char n)"
  by (simp add: is_digit_def byte_digit_char)

lemma read_digits2:
  assumes "0 \<le> n" "n < 100"
  shows "read_digits 2 0 (digits2 n @ s) = Some (nat n, s)"
proof -
  have "nat (n div 10) < 10" "nat (n mod 10) < 10" "nat (n div 10) * 10 + nat (n mod 10) = nat n"
    using assms by (simp_all add: nat_div_distrib nat_mod_distrib)
  then show ?thesis
    by (simp add: digits2_def numeral_2_eq_2 byte_digit_char)
qed

lemma read_digits4:
  assumes "0 \<le> n" "n < 10000"
  shows "read_digits 4 0 (digits4 n @ s) = Some (nat n, s)"
proof -
  define k where "k = nat n"
  have k: "k < 10000" "n = int k"
    using assms by (simp_all add: k_def)
  have e: "((k div 1000 * 10 + k div 100 mod 10) * 10 + k div 10 mod 10) * 10 + k mod 10 = k"
  proof -
    have "k div 100 = k div 10 div 10" "k div 1000 = k div 100 div 10"
      by (simp_all add: div_mult2_eq [symmetric])
    then show ?thesis
      using div_mult_mod_eq [of k 10] div_mult_mod_eq [of "k div 10" 10] div_mult_mod_eq [of "k div 100" 10] by simp
  qed
  have four: "(4 :: nat) = Suc (Suc (Suc (Suc 0)))"
    by simp
  have "k div 1000 < 10" "k div 100 mod 10 < 10" "k div 10 mod 10 < 10" "k mod 10 < 10"
    using k(1) by (simp_all add: less_mult_imp_div_less)
  moreover have "nat (n div 1000) = k div 1000" "nat (n div 100 mod 10) = k div 100 mod 10"
      "nat (n div 10 mod 10) = k div 10 mod 10" "nat (n mod 10) = k mod 10"
    unfolding k(2) by (simp_all add: zdiv_int [symmetric] zmod_int [symmetric] nat_div_distrib nat_mod_distrib)
  ultimately have "read_digits (Suc (Suc (Suc (Suc 0)))) 0 (digits4 n @ s) =
      Some (((k div 1000 * 10 + k div 100 mod 10) * 10 + k div 10 mod 10) * 10 + k mod 10, s)"
    by (simp only: digits4_def append_Cons append_Nil read_digits.simps is_digit_char byte_digit_char if_True
        add_diff_cancel_left' mult_0 add_0)
  then show ?thesis
    unfolding e four by (simp add: k_def)
qed

lemma read_below_digits2: "0 \<le> n \<Longrightarrow> n < int b \<Longrightarrow> b \<le> 100 \<Longrightarrow> read_below b (digits2 n @ s) = Some (nat n, s)"
  by (simp add: read_below_def read_digits2)

lemma month_from_day:
  "month_from m ls k = (m', n) \<Longrightarrow> 0 \<le> k \<Longrightarrow> k < sum_list ls \<Longrightarrow> m \<le> m' \<and> n \<le> ls ! nat (m' - m)"
proof (induction m ls k arbitrary: m' n rule: month_from.induct)
  case (1 m k)
  then show ?case by simp
next
  case (2 m l ls k)
  show ?case
  proof (cases "k < l")
    case False
    with 2 have "m + 1 \<le> m' \<and> n \<le> ls ! nat (m' - (m + 1))"
      by auto
    moreover from this have "nat (m' - m) = Suc (nat (m' - (m + 1)))"
      by linarith
    ultimately show ?thesis by simp
  qed (use 2 in auto)
qed

lemma civil_valid: "valid_civil (civil d)"
proof -
  obtain y k where y: "year_from 1970 d = (y, k)" by fastforce
  obtain m n where m: "month_from 1 (month_lengths y) k = (m, n)" by fastforce
  have k: "0 \<le> k" "k < sum_list (month_lengths y)"
    using year_from_spec [OF y] by (auto simp: month_lengths_def year_length_def split: if_splits)
  have c: "civil d = (y, m, n)"
    using y m by (simp add: civil_def)
  show ?thesis
    using civil_ranges(1) [OF c] month_from_day [OF m k] by (simp add: valid_civil_def c)
qed

lemma read_date_format:
  assumes "0 \<le> year_of t" "year_of t \<le> 9999"
  shows "read_date (format_date t @ s) = Some (civil (utc_date t), s)"
proof -
  obtain y m d where c: "civil (utc_date t) = (y, m, d)" by (metis prod_cases3)
  have r: "1 \<le> m \<and> m \<le> 12 \<and> 1 \<le> d \<and> d \<le> 31" "0 \<le> y" "y \<le> 9999"
    using civil_ranges(1) [OF c] assms c by (simp_all add: year_of_def)
  have "valid_civil (y, m, d)"
    using civil_valid [of "utc_date t"] c by simp
  then show ?thesis
    using r by (simp add: format_date_def c read_date_def read_digits4 read_digits2)
qed

lemma format_clock_bounds: "0 \<le> t mod day div second" "t mod day div second < 86400"
proof -
  have "0 \<le> t mod day" "t mod day < day"
    by (simp_all add: day_def)
  then show "0 \<le> t mod day div second" "t mod day div second < 86400"
    by (simp_all add: day_def second_def)
qed

lemma parse_format_date:
  "0 \<le> year_of t \<Longrightarrow> year_of t \<le> 9999 \<Longrightarrow> parse_date (format_date t) = Some (civil (utc_date t))"
  using read_date_format [of t "[]"] by (simp add: parse_date_def)

lemma parse_format_rfc3339:
  assumes "0 \<le> year_of t" "year_of t \<le> 9999"
  shows "parse_rfc3339_date (format_rfc3339 t) = Some (civil (utc_date t))"
    and "parse_date (format_rfc3339 t) = None"
proof -
  define s where "s = t mod day div second"
  have s: "0 \<le> s" "s < 86400"
    using format_clock_bounds [of t] by (simp_all add: s_def)
  have b: "0 \<le> s div 3600" "s div 3600 < 24" "0 \<le> s div 60 mod 60" "s div 60 mod 60 < 60" "0 \<le> s mod 60" "s mod 60 < 60"
    using s by (simp_all add: pos_imp_zdiv_nonneg_iff)
  have hour: "read_hour (digits2 (s div 3600) @ r) = Some r" for r
    using b by (simp add: read_hour_def read_digits2 nat_less_iff)
  show "parse_rfc3339_date (format_rfc3339 t) = Some (civil (utc_date t))"
    unfolding format_rfc3339_def format_clock_def s_def [symmetric] Let_def
    using b read_date_format [OF assms]
    by (simp add: parse_rfc3339_date_def hour read_below_digits2 read_fraction_def read_zone_def)
  show "parse_date (format_rfc3339 t) = None"
    unfolding format_rfc3339_def parse_date_def by (simp add: read_date_format [OF assms])
qed

end
