(* ===== verification/Go_Http.thy ===== *)
theory Go_Http
  imports Json
begin

text \<open>
  What the program uses of \<open>net/http\<close> and \<open>net\<close> that needs no network: the headers of a request,
  the host of an address, and hexadecimal output (\<open>%x\<close>, \<open>0x%04X\<close>).
\<close>

section \<open>Headers\<close>

record http_request =
  req_URL :: string
  req_Headers :: "(string, string) gomap"
  req_Body :: string

text \<open>
  \<open>Header.Set\<close> canonicalises the key (upper case at the start and after a hyphen, lower case
  elsewhere) unless it holds a byte that is not valid in a header key.
\<close>

definition header_byte :: "char \<Rightarrow> bool" where
  "header_byte c =
     (let b = byte c in 48 \<le> b \<and> b \<le> 57 \<or> 65 \<le> b \<and> b \<le> 90 \<or> 97 \<le> b \<and> b \<le> 122 \<or>
        c \<in> set ''!#$%&*+-.^_`|~'' \<or> b = 39)"

fun canonical_from :: "bool \<Rightarrow> string \<Rightarrow> string" where
  "canonical_from upper [] = []"
| "canonical_from upper (c # cs) =
     (if upper then upper_char c else lower_char c) # canonical_from (c = CHR ''-'') cs"

definition canonical_header :: "string \<Rightarrow> string" where
  "canonical_header k = (if list_all header_byte k then canonical_from True k else k)"

definition set_header ::
    "string \<Rightarrow> string \<Rightarrow> (string, string) gomap \<Rightarrow> (string, string) gomap" where
  "set_header k v h = AList.update (canonical_header k) v h"

definition set_headers :: "(string \<times> string) list \<Rightarrow> (string, string) gomap \<Rightarrow> (string, string) gomap" where
  "set_headers kvs h = foldl (\<lambda>h (k, v). set_header k v h) h kvs"

section \<open>Hexadecimal output\<close>

definition hex_bytes :: "string \<Rightarrow> string" where
  "hex_bytes s = concat (map (\<lambda>c. [hex_digit (byte c div 16), hex_digit (byte c mod 16)]) s)"

definition hex16 :: "int \<Rightarrow> string" where
  "hex16 v =
     (let n = nat (v mod 2 ^ 16)
      in ''0x'' @ map (\<lambda>d. upper_char (hex_digit d)) [n div 4096, n div 256 mod 16, n div 16 mod 16, n mod 16])"

section \<open>Addresses\<close>

fun index_byte :: "char \<Rightarrow> string \<Rightarrow> nat option" where
  "index_byte c [] = None"
| "index_byte c (d # s) = (if c = d then Some 0 else map_option Suc (index_byte c s))"

definition last_index_byte :: "char \<Rightarrow> string \<Rightarrow> nat option" where
  "last_index_byte c s = map_option (\<lambda>i. length s - 1 - i) (index_byte c (rev s))"

text \<open>
  The host that \<open>net.SplitHostPort\<close> returns, if it returns no error: the port starts after the last
  colon, a host with colons stands in brackets, and there are no other brackets.
\<close>

definition split_host :: "string \<Rightarrow> string option" where
  "split_host hostport =
     (case last_index_byte (CHR '':'') hostport of
        None \<Rightarrow> None
      | Some i \<Rightarrow>
          if hd hostport = CHR ''['' then
            (case index_byte (CHR '']'') hostport of
               None \<Rightarrow> None
             | Some e \<Rightarrow>
                 if e + 1 \<noteq> i \<or> CHR ''['' \<in> set (drop 1 hostport) \<or> CHR '']'' \<in> set (drop (e + 1) hostport)
                 then None else Some (take (e - 1) (drop 1 hostport)))
          else
            (let host = take i hostport in
             if CHR '':'' \<in> set host \<or> CHR ''['' \<in> set hostport \<or> CHR '']'' \<in> set hostport then None else Some host))"

lemma index_byte_skip: "c \<notin> set u \<Longrightarrow> index_byte c (u @ c # v) = Some (length u)"
  by (induction u) auto

lemma index_byte_None: "c \<notin> set s \<Longrightarrow> index_byte c s = None"
  by (induction s) auto

lemma last_index_byte_skip: "c \<notin> set v \<Longrightarrow> last_index_byte c (u @ c # v) = Some (length u)"
  using index_byte_skip [of c "rev v" "rev u"] by (simp add: last_index_byte_def)

lemma last_index_byte_None: "c \<notin> set s \<Longrightarrow> last_index_byte c s = None"
  by (simp add: last_index_byte_def index_byte_None)

end
