(* ===== verification/Alert_Format.thy ===== *)
theory Alert_Format
  imports Messages Go_Calendar Go_Http
begin

text \<open>
  The texts of \<open>alerter_webhook.go\<close> and \<open>alerter_ntfy.go\<close>: the presentation of an alert, the
  message for people, the payload of the generic webhook, its deduplication key and the
  bodies for Slack, Discord and Teams; and the HTTP requests that carry them.

  The digest SHA-256 and its keyed form are parameters (\<open>hash\<close>, \<open>mac\<close>): nothing the
  program does depends on their values. A status outside ASCII would be upper- and lower-cased
  in its ASCII letters only.
\<close>

section \<open>Presentation\<close>

record AlertPresentation =
  pr_Title :: string
  pr_Priority :: string
  pr_StatusIcon :: string
  pr_Tags :: "string list"

definition green_square :: string where "green_square = [CHR 0xF0, CHR 0x9F, CHR 0x9F, CHR 0xA9]"
definition yellow_square :: string where "yellow_square = [CHR 0xF0, CHR 0x9F, CHR 0x9F, CHR 0xA8]"
definition red_square :: string where "red_square = [CHR 0xF0, CHR 0x9F, CHR 0x9F, CHR 0xA5]"

definition buildAlertPresentation :: "AlertMessage \<Rightarrow> AlertPresentation" where
  "buildAlertPresentation alert =
     (let status = (if alert_Status alert \<noteq> [] then to_lower (alert_Status alert) else ''healthy'');
          presentation = \<lparr>pr_Title = ''['' @ to_upper status @ ''] '' @ alert_Name alert,
            pr_Priority = ''default'', pr_StatusIcon = [], pr_Tags = []\<rparr>;
          presentation =
            (if status = MonitorStatusHealthy
             then presentation\<lparr>pr_Priority := ''low'', pr_StatusIcon := green_square,
                    pr_Tags := [''green_square'']\<rparr>
             else if status = MonitorStatusDegraded
             then presentation\<lparr>pr_Priority := ''default'', pr_StatusIcon := yellow_square,
                    pr_Tags := [''yellow_square'']\<rparr>
             else if status = MonitorStatusDown
             then presentation\<lparr>pr_Priority := ''high'', pr_StatusIcon := red_square,
                    pr_Tags := [''red_square'']\<rparr>
             else presentation)
      in presentation\<lparr>pr_Tags := pr_Tags presentation @ alert_AffectedRegions alert\<rparr>)"

definition buildDeduplicationKey :: "(string \<Rightarrow> string) \<Rightarrow> AlertMessage \<Rightarrow> string" where
  "buildDeduplicationKey hash alert =
     (if alert_IncidentID alert \<noteq> [] then hash (alert_IncidentID alert)
      else let regions = sort (alert_AffectedRegions alert)
        in hash (alert_MonitorID alert @ ''|'' @ alert_Status alert @ ''|'' @ alert_Scope alert @ ''|'' @
             join regions '',''))"

section \<open>Messages\<close>

definition regions_label :: "AlertMessage \<Rightarrow> string" where
  "regions_label alert =
     (if length (alert_AffectedRegions alert) > 0 then join (alert_AffectedRegions alert) '', '' else ''none'')"

definition formatAlertMessage :: "AlertMessage \<Rightarrow> string" where
  "formatAlertMessage alert =
     (let scope = (if alert_Scope alert \<noteq> [] then alert_Scope alert else ''healthy'');
          status = (if alert_Status alert \<noteq> [] then alert_Status alert else ''healthy'');
          regions = regions_label alert
      in alert_Name alert @ '' is '' @ status @ '' ('' @ scope @ '') at '' @
         format_datetime (alert_OccurredAt alert) @ ''. Regions: '' @ regions @ ''. '' @ alert_Reason alert)"

definition formatProviderAlertMessage :: "AlertMessage \<Rightarrow> string" where
  "formatProviderAlertMessage alert =
     (let presentation = buildAlertPresentation alert in
      if pr_StatusIcon presentation = []
      then pr_Title presentation @ ''\<newline>'' @ formatAlertMessage alert
      else pr_StatusIcon presentation @ '' '' @ pr_Title presentation @ ''\<newline>'' @ formatAlertMessage alert)"

record WebhookAlertMetadata =
  wm_MonitorID :: string
  wm_Status :: string
  wm_Name :: string
  wm_AffectedRegions :: "string list"
  wm_OccurredAt :: string

record WebhookAlertPayload =
  wp_Message :: string
  wp_Text :: string
  wp_Title :: string
  wp_Description :: string
  wp_Status :: string
  wp_DeduplicationKey :: string
  wp_Metadata :: WebhookAlertMetadata

text \<open>\<open>now\<close> is read when the alert has no time of its own.\<close>

definition buildWebhookPayload :: "(string \<Rightarrow> string) \<Rightarrow> gotime \<Rightarrow> AlertMessage \<Rightarrow> WebhookAlertPayload" where
  "buildWebhookPayload hash now alert =
     (let presentation = buildAlertPresentation alert;
          status = to_lower (alert_Status alert);
          status = (if status = [] then MonitorStatusHealthy else status);
          alertState = (if status = MonitorStatusHealthy then ''resolved'' else ''firing'');
          occurredAt = (if alert_OccurredAt alert = zero_time then now else alert_OccurredAt alert);
          regionsLabel = regions_label alert;
          message = pr_StatusIcon presentation @ '' '' @ alert_Name alert @ '' is '' @ status @ '' at '' @
            format_datetime occurredAt @ '' (affected regions: '' @ regionsLabel @ '')'';
          message = (if alert_Reason alert \<noteq> [] then message @ '' '' @ alert_Reason alert else message);
          description = ''Monitor '' @ alert_Name alert @ '' is currently '' @ status @
            ''. Affected regions: '' @ regionsLabel @ ''.'';
          description = (if alert_Reason alert \<noteq> []
            then description @ '' Additional context: '' @ alert_Reason alert else description)
      in \<lparr>wp_Message = message, wp_Text = message, wp_Title = alert_Name alert @ '' is '' @ status,
          wp_Description = description, wp_Status = alertState,
          wp_DeduplicationKey = buildDeduplicationKey hash alert,
          wp_Metadata = \<lparr>wm_MonitorID = alert_MonitorID alert, wm_Status = status,
            wm_Name = alert_Name alert, wm_AffectedRegions = alert_AffectedRegions alert,
            wm_OccurredAt = format_rfc3339 occurredAt\<rparr>\<rparr>)"

text \<open>An object of already encoded values; a map is written with its keys in order.\<close>

definition enc_object :: "(string \<times> string) list \<Rightarrow> string" where
  "enc_object kvs = ''{'' @ join (map (\<lambda>(k, v). enc_string k @ '':'' @ v) kvs) '','' @ ''}''"

definition payload_json :: "WebhookAlertPayload \<Rightarrow> string" where
  "payload_json p =
     enc_object
       [(''message'', enc_string (wp_Message p)), (''text'', enc_string (wp_Text p)),
        (''title'', enc_string (wp_Title p)), (''description'', enc_string (wp_Description p)),
        (''status'', enc_string (wp_Status p)),
        (''deduplication_key'', enc_string (wp_DeduplicationKey p)),
        (''metadata'', enc_object
           [(''monitor_id'', enc_string (wm_MonitorID (wp_Metadata p))),
            (''status'', enc_string (wm_Status (wp_Metadata p))),
            (''name'', enc_string (wm_Name (wp_Metadata p))),
            (''affected_regions'', enc_strings (wm_AffectedRegions (wp_Metadata p))),
            (''occurred_at'', enc_string (wm_OccurredAt (wp_Metadata p)))])]"

definition buildSlackBody :: "AlertMessage \<Rightarrow> string" where
  "buildSlackBody alert = enc_object [(''text'', enc_string (formatProviderAlertMessage alert))]"

definition buildDiscordBody :: "AlertMessage \<Rightarrow> string" where
  "buildDiscordBody alert = enc_object [(''content'', enc_string (formatProviderAlertMessage alert))]"

definition buildTeamsBody :: "AlertMessage \<Rightarrow> string" where
  "buildTeamsBody alert =
     enc_object [(''summary'', enc_string (pr_Title (buildAlertPresentation alert))),
       (''text'', enc_string (formatProviderAlertMessage alert))]"

definition buildNtfyTitle :: "AlertMessage \<Rightarrow> string" where
  "buildNtfyTitle alert =
     (if alert_Name alert = [] then trim_space (pr_Title (buildAlertPresentation alert))
      else alert_Name alert)"

section \<open>Requests\<close>

record WebhookAlerter =
  wa_webhookURL :: string
  wa_hmacSecret :: string
  wa_customHeaders :: "(string, string) gomap"

definition webhook_request ::
    "(string \<Rightarrow> string) \<Rightarrow> (string \<Rightarrow> string \<Rightarrow> string) \<Rightarrow> gotime \<Rightarrow> WebhookAlerter \<Rightarrow> AlertMessage \<Rightarrow>
       http_request" where
  "webhook_request hash mac now w alert =
     (let payload = buildWebhookPayload hash now alert;
          requestBody = payload_json payload;
          presentation = buildAlertPresentation alert;
          headers = set_headers
            [(''Content-Type'', ''application/json''), (''User-Agent'', ''eyrie-webhook/1.0''),
             (''X-Eyrie-Alert-Title'', pr_Title presentation),
             (''X-Eyrie-Alert-Priority'', pr_Priority presentation),
             (''X-Eyrie-Alert-Tags'', join (pr_Tags presentation) '','')] [];
          headers = set_headers (wa_customHeaders w) headers;
          headers = (if wa_hmacSecret w \<noteq> []
            then set_header ''X-Signature'' (mac (wa_hmacSecret w) requestBody) headers else headers)
      in \<lparr>req_URL = wa_webhookURL w, req_Headers = headers, req_Body = requestBody\<rparr>)"

datatype provider = Slack | Discord | Teams

record JSONWebhookAlerter =
  jw_url :: string
  jw_userAgent :: string
  jw_contentType :: string
  jw_provider :: provider

definition build_body :: "provider \<Rightarrow> AlertMessage \<Rightarrow> string" where
  "build_body p alert =
     (case p of Slack \<Rightarrow> buildSlackBody alert | Discord \<Rightarrow> buildDiscordBody alert
      | Teams \<Rightarrow> buildTeamsBody alert)"

definition json_webhook_request :: "JSONWebhookAlerter \<Rightarrow> AlertMessage \<Rightarrow> http_request" where
  "json_webhook_request a alert =
     \<lparr>req_URL = jw_url a,
      req_Headers = set_headers [(''Content-Type'', jw_contentType a), (''User-Agent'', jw_userAgent a)] [],
      req_Body = build_body (jw_provider a) alert\<rparr>"

record NtfyAlerter =
  na_topicURL :: string
  na_accessToken :: string
  na_username :: string
  na_password :: string

text \<open>Base64 with padding, three bytes at a time.\<close>

definition base64_char :: "nat \<Rightarrow> char" where
  "base64_char n = ''ABCDEFGHIJKLMNOPQRSTUVWXYZabcdefghijklmnopqrstuvwxyz0123456789+/'' ! n"

fun base64 :: "string \<Rightarrow> string" where
  "base64 [] = []"
| "base64 [a] = (let x = byte a * 65536 in
     [base64_char (x div 262144), base64_char (x div 4096 mod 64), CHR ''='', CHR ''=''])"
| "base64 [a, b] = (let x = byte a * 65536 + byte b * 256 in
     [base64_char (x div 262144), base64_char (x div 4096 mod 64), base64_char (x div 64 mod 64), CHR ''=''])"
| "base64 (a # b # c # r) = (let x = byte a * 65536 + byte b * 256 + byte c in
     [base64_char (x div 262144), base64_char (x div 4096 mod 64), base64_char (x div 64 mod 64),
      base64_char (x mod 64)] @ base64 r)"

definition ntfy_request :: "NtfyAlerter \<Rightarrow> AlertMessage \<Rightarrow> http_request" where
  "ntfy_request a alert =
     (let presentation = buildAlertPresentation alert;
          headers = set_headers
            [(''User-Agent'', ''eyrie-ntfy/1.0''), (''Title'', buildNtfyTitle alert),
             (''Priority'', pr_Priority presentation), (''Tags'', join (pr_Tags presentation) '','')] [];
          headers = (if na_accessToken a \<noteq> []
            then set_header ''Authorization'' (''Bearer '' @ na_accessToken a) headers else headers);
          headers = (if na_username a \<noteq> [] \<or> na_password a \<noteq> []
            then set_header ''Authorization'' (''Basic '' @ base64 (na_username a @ '':'' @ na_password a)) headers
            else headers)
      in \<lparr>req_URL = na_topicURL a, req_Headers = headers, req_Body = formatAlertMessage alert\<rparr>)"

section \<open>Sending\<close>

text \<open>
  The world outside: the answers of the receivers in the order they come, the log of the
  requests made, the readings of the clock, and the receivers whose address does not parse.
\<close>

datatype http_outcome = TransportError string | StatusCode int

datatype alert_error = RateLimited | Dropped int | Failed string

definition accepted_outcome :: "http_outcome \<Rightarrow> bool" where
  "accepted_outcome r = (case r of TransportError _ \<Rightarrow> False | StatusCode c \<Rightarrow> 200 \<le> c \<and> c < 300)"

text \<open>The error of \<open>doAlertRequest\<close> for an outcome.\<close>

definition outcome_error :: "http_outcome \<Rightarrow> alert_error option" where
  "outcome_error r =
     (case r of
        TransportError e \<Rightarrow> Some (Failed e)
      | StatusCode c \<Rightarrow>
          if c = 429 then Some RateLimited
          else if c < 200 \<or> 300 \<le> c then Some (Dropped c)
          else None)"

lemma outcome_error_None: "outcome_error r = None \<longleftrightarrow> accepted_outcome r"
  by (auto simp: outcome_error_def accepted_outcome_def split: http_outcome.split)

record monitorAlertState =
  ns_suppressUntil :: gotime
  ns_degradedSince :: gotime
  ns_degradedBuffer :: "AlertMessage list"
  ns_notifiedUnhealthy :: bool

text \<open>\<open>w_ntfy\<close>: the states of the buffered ntfy alerters, by instance.\<close>

record world =
  w_outcomes :: "http_outcome list"
  w_log :: "(http_request \<times> http_outcome) list"
  w_clock :: "nat \<Rightarrow> gotime"
  w_ticks :: nat
  w_bad_url :: "string \<Rightarrow> string option"
  w_ntfy :: "nat \<Rightarrow> (string, monitorAlertState) gomap"

definition read_clock :: "world \<Rightarrow> gotime \<times> world" where
  "read_clock w = (w_clock w (w_ticks w), w\<lparr>w_ticks := Suc (w_ticks w)\<rparr>)"

definition doAlertRequest :: "http_request \<Rightarrow> world \<Rightarrow> alert_error option \<times> world" where
  "doAlertRequest request w =
     (case w_bad_url w (req_URL request) of
        Some e \<Rightarrow> (Some (Failed e), w)
      | None \<Rightarrow>
          (let r = (case w_outcomes w of [] \<Rightarrow> TransportError ''EOF'' | r # _ \<Rightarrow> r)
           in (outcome_error r, w\<lparr>w_outcomes := tl (w_outcomes w), w_log := w_log w @ [(request, r)]\<rparr>)))"

text \<open>What the receivers accepted.\<close>

definition accepted_requests :: "world \<Rightarrow> http_request list" where
  "accepted_requests w = map fst (filter (\<lambda>(_, r). accepted_outcome r) (w_log w))"

lemma doAlertRequest_accepted:
  "doAlertRequest request w = (e, w') \<Longrightarrow>
     accepted_requests w' = accepted_requests w @ (if e = None then [request] else [])"
  by (auto simp: doAlertRequest_def Let_def accepted_requests_def outcome_error_None split: option.splits list.splits)
    (metis not_Some_eq outcome_error_None)+

lemma doAlertRequest_frame:
  "doAlertRequest request w = (e, w') \<Longrightarrow>
     w_ntfy w' = w_ntfy w \<and> w_clock w' = w_clock w \<and> w_ticks w' = w_ticks w \<and> w_bad_url w' = w_bad_url w"
  by (auto simp: doAlertRequest_def Let_def split: option.splits)

end
