(* ===== verification/Ntfy_Buffered.thy ===== *)
theory Ntfy_Buffered
  imports Alert_Format
begin

text \<open>
  \<open>alerter_ntfy_buffered.go\<close>: an alerter in front of an ntfy topic that holds back repeated
  down alerts for a window, collects degraded alerts into a digest, and lets a recovery
  through only when somebody was told of the outage.

  Each instance keeps one state per monitor in a map; entries are never removed, so a pointer to
  an entry is the entry. The operations are modelled as the worker calls them, one at a time;
  a tick of the digest loop is an operation of its own.
\<close>

section \<open>State\<close>

record BufferedNtfyAlerter =
  bn_wrapped :: NtfyAlerter
  bn_suppressWindow :: duration
  bn_digestInterval :: duration
  bn_instance :: nat

definition NewBufferedNtfyAlerter :: "nat \<Rightarrow> NtfyAlerter \<Rightarrow> int \<Rightarrow> int \<Rightarrow> BufferedNtfyAlerter" where
  "NewBufferedNtfyAlerter inst wrapped suppressWindowMinutes digestIntervalMinutes =
     \<lparr>bn_wrapped = wrapped, bn_suppressWindow = minutes suppressWindowMinutes,
      bn_digestInterval = (if digestIntervalMinutes > 0 then minutes digestIntervalMinutes else 0),
      bn_instance = inst\<rparr>"

definition zero_alert_state :: monitorAlertState where
  "zero_alert_state = \<lparr>ns_suppressUntil = zero_time, ns_degradedSince = zero_time,
     ns_degradedBuffer = [], ns_notifiedUnhealthy = False\<rparr>"

definition ntfy_states :: "BufferedNtfyAlerter \<Rightarrow> world \<Rightarrow> (string, monitorAlertState) gomap" where
  "ntfy_states a w = w_ntfy w (bn_instance a)"

definition set_ntfy_state :: "BufferedNtfyAlerter \<Rightarrow> string \<Rightarrow> monitorAlertState \<Rightarrow> world \<Rightarrow> world" where
  "set_ntfy_state a monitorID st w =
     w\<lparr>w_ntfy := (w_ntfy w)(bn_instance a := AList.update monitorID st (ntfy_states a w))\<rparr>"

definition getOrCreateState :: "BufferedNtfyAlerter \<Rightarrow> string \<Rightarrow> world \<Rightarrow> monitorAlertState \<times> world" where
  "getOrCreateState a monitorID w =
     (case map_of (ntfy_states a w) monitorID of
        Some st \<Rightarrow> (st, w)
      | None \<Rightarrow> (zero_alert_state, set_ntfy_state a monitorID zero_alert_state w))"

text \<open>The state of a monitor, as it is read.\<close>

definition alert_state :: "BufferedNtfyAlerter \<Rightarrow> string \<Rightarrow> world \<Rightarrow> monitorAlertState" where
  "alert_state a monitorID w =
     (case map_of (ntfy_states a w) monitorID of Some st \<Rightarrow> st | None \<Rightarrow> zero_alert_state)"

definition set_notified :: "BufferedNtfyAlerter \<Rightarrow> string \<Rightarrow> bool \<Rightarrow> world \<Rightarrow> world" where
  "set_notified a monitorID v w =
     set_ntfy_state a monitorID ((alert_state a monitorID w)\<lparr>ns_notifiedUnhealthy := v\<rparr>) w"

section \<open>The digest\<close>

fun joinStrings :: "string list \<Rightarrow> string" where
  "joinStrings parts = join parts ''; ''"

definition joinUniqueRegions :: "AlertMessage list \<Rightarrow> string" where
  "joinUniqueRegions alerts = joinStrings (dedup_from [] (concat (map alert_AffectedRegions alerts)))"

definition uniqueReasons :: "AlertMessage list \<Rightarrow> string" where
  "uniqueReasons alerts = joinStrings (dedup_from [] (filter (\<lambda>r. r \<noteq> []) (map alert_Reason alerts)))"

definition buildDigestMessage :: "monitorAlertState \<Rightarrow> string" where
  "buildDigestMessage st =
     (let first = hd (ns_degradedBuffer st);
          regions = joinUniqueRegions (ns_degradedBuffer st);
          reasons = uniqueReasons (ns_degradedBuffer st);
          digest = alert_Name first @ '' has been degraded since '' @ format_datetime (ns_degradedSince st);
          digest = (if regions \<noteq> [] then digest @ ''. Regions: '' @ regions else digest);
          digest = (if reasons \<noteq> [] then digest @ ''. Issues: '' @ reasons else digest)
      in digest)"

definition wrapped_Send :: "BufferedNtfyAlerter \<Rightarrow> AlertMessage \<Rightarrow> world \<Rightarrow> alert_error option \<times> world" where
  "wrapped_Send a alert w = doAlertRequest (ntfy_request (bn_wrapped a) alert) w"

definition digest_alert :: "monitorAlertState \<Rightarrow> AlertMessage" where
  "digest_alert st =
     (hd (ns_degradedBuffer st))\<lparr>alert_Reason := buildDigestMessage st, alert_Status := MonitorStatusHealthy\<rparr>"

definition flushDigestForMonitor :: "BufferedNtfyAlerter \<Rightarrow> string \<Rightarrow> world \<Rightarrow> world" where
  "flushDigestForMonitor a monitorID w =
     (case map_of (ntfy_states a w) monitorID of
        None \<Rightarrow> w
      | Some st \<Rightarrow>
          if length (ns_degradedBuffer st) = 0 then w
          else let first = digest_alert st;
                   w = set_ntfy_state a monitorID (st\<lparr>ns_degradedBuffer := []\<rparr>) w
            in case wrapped_Send a first w of
                 (Some e, w) \<Rightarrow> w
               | (None, w) \<Rightarrow> set_notified a monitorID True w)"

definition flushDigest :: "BufferedNtfyAlerter \<Rightarrow> world \<Rightarrow> world" where
  "flushDigest a w =
     foldl (\<lambda>w monitorID. flushDigestForMonitor a monitorID w) w (map fst (ntfy_states a w))"

section \<open>Sending\<close>

text \<open>The clock is read twice: to test the window and to extend it.\<close>

definition handleDownAlert :: "BufferedNtfyAlerter \<Rightarrow> AlertMessage \<Rightarrow> world \<Rightarrow> alert_error option \<times> world" where
  "handleDownAlert a alert w =
     (let monitorID = alert_MonitorID alert;
          (st, w) = getOrCreateState a monitorID w;
          (now1, w) = read_clock w;
          suppressed = now1 < ns_suppressUntil st;
          (now2, w) = read_clock w;
          w = set_ntfy_state a monitorID
                (st\<lparr>ns_suppressUntil := now2 + bn_suppressWindow a, ns_degradedBuffer := []\<rparr>) w
      in if suppressed then (None, w)
         else case wrapped_Send a alert w of
                (Some e, w) \<Rightarrow> (Some e, w)
              | (None, w) \<Rightarrow> (None, set_notified a monitorID True w))"

definition buffer_alert :: "AlertMessage \<Rightarrow> monitorAlertState \<Rightarrow> monitorAlertState" where
  "buffer_alert alert st =
     (let st = (if length (ns_degradedBuffer st) = 0
                then st\<lparr>ns_degradedSince := alert_OccurredAt alert\<rparr> else st)
      in st\<lparr>ns_degradedBuffer := ns_degradedBuffer st @ [alert]\<rparr>)"

definition handleDegradedAlert :: "BufferedNtfyAlerter \<Rightarrow> AlertMessage \<Rightarrow> world \<Rightarrow> alert_error option \<times> world" where
  "handleDegradedAlert a alert w =
     (let monitorID = alert_MonitorID alert;
          (st, w) = getOrCreateState a monitorID w
      in if bn_digestInterval a \<le> 0 then (None, w)
         else let (now, w) = read_clock w in
           if now < ns_suppressUntil st then (None, w)
           else (None, set_ntfy_state a monitorID (buffer_alert alert st) w))"

definition handleHealthyAlert :: "BufferedNtfyAlerter \<Rightarrow> AlertMessage \<Rightarrow> world \<Rightarrow> alert_error option \<times> world" where
  "handleHealthyAlert a alert w =
     (let monitorID = alert_MonitorID alert in
      case map_of (ntfy_states a w) monitorID of
        None \<Rightarrow> wrapped_Send a alert w
      | Some st \<Rightarrow>
          if length (ns_degradedBuffer st) > 0 then (None, flushDigestForMonitor a monitorID w)
          else if \<not> ns_notifiedUnhealthy st then (None, w)
          else case wrapped_Send a alert w of
                 (Some e, w) \<Rightarrow> (Some e, w)
               | (None, w) \<Rightarrow> (None, set_notified a monitorID False w))"

definition buffered_Send :: "BufferedNtfyAlerter \<Rightarrow> AlertMessage \<Rightarrow> world \<Rightarrow> alert_error option \<times> world" where
  "buffered_Send a alert w =
     (if alert_Status alert = MonitorStatusDown then handleDownAlert a alert w
      else if alert_Status alert = MonitorStatusDegraded then handleDegradedAlert a alert w
      else if alert_Status alert = MonitorStatusHealthy then handleHealthyAlert a alert w
      else wrapped_Send a alert w)"

section \<open>Facts\<close>

lemmas ntfy_defs = ntfy_states_def set_ntfy_state_def getOrCreateState_def alert_state_def set_notified_def

lemma alert_state_set [simp]:
  "alert_state a m (set_ntfy_state a n st w) = (if m = n then st else alert_state a m w)"
  by (simp add: ntfy_defs update_conv')

lemma known_set [simp]:
  "map_of (ntfy_states a (set_ntfy_state a n st w)) m = (if m = n then Some st else map_of (ntfy_states a w) m)"
  by (simp add: ntfy_defs update_conv')

lemma set_ntfy_state_frame [simp]:
  "w_clock (set_ntfy_state a m st w) = w_clock w" "w_ticks (set_ntfy_state a m st w) = w_ticks w"
  "w_log (set_ntfy_state a m st w) = w_log w" "accepted_requests (set_ntfy_state a m st w) = accepted_requests w"
  by (simp_all add: ntfy_defs accepted_requests_def)

lemma read_clock_simps [simp]:
  "fst (read_clock w) = w_clock w (w_ticks w)" "w_ticks (snd (read_clock w)) = Suc (w_ticks w)"
  "w_clock (snd (read_clock w)) = w_clock w" "w_log (snd (read_clock w)) = w_log w"
  "accepted_requests (snd (read_clock w)) = accepted_requests w"
  "ntfy_states a (snd (read_clock w)) = ntfy_states a w" "alert_state a m (snd (read_clock w)) = alert_state a m w"
  by (simp_all add: read_clock_def accepted_requests_def ntfy_states_def alert_state_def)

lemma wrapped_Send_frame:
  "ntfy_states a (snd (wrapped_Send b alert w)) = ntfy_states a w"
  "alert_state a m (snd (wrapped_Send b alert w)) = alert_state a m w"
  "w_clock (snd (wrapped_Send b alert w)) = w_clock w" "w_ticks (snd (wrapped_Send b alert w)) = w_ticks w"
  using doAlertRequest_frame [of "ntfy_request (bn_wrapped b) alert" w]
  by (cases "doAlertRequest (ntfy_request (bn_wrapped b) alert) w"; simp add: wrapped_Send_def ntfy_defs)+

lemma wrapped_Send_accepted:
  "accepted_requests (snd (wrapped_Send a alert w)) =
     accepted_requests w @ (if fst (wrapped_Send a alert w) = None then [ntfy_request (bn_wrapped a) alert] else [])"
  using doAlertRequest_accepted [of "ntfy_request (bn_wrapped a) alert" w]
  by (cases "doAlertRequest (ntfy_request (bn_wrapped a) alert) w") (simp add: wrapped_Send_def)

lemma getOrCreateState_simps [simp]:
  "fst (getOrCreateState a m w) = alert_state a m w"
  "alert_state a n (snd (getOrCreateState a m w)) = alert_state a n w"
  "map_of (ntfy_states a (snd (getOrCreateState a m w))) n = None \<longleftrightarrow> n \<noteq> m \<and> map_of (ntfy_states a w) n = None"
  "w_clock (snd (getOrCreateState a m w)) = w_clock w" "w_ticks (snd (getOrCreateState a m w)) = w_ticks w"
  "w_log (snd (getOrCreateState a m w)) = w_log w"
  "accepted_requests (snd (getOrCreateState a m w)) = accepted_requests w"
  by (auto simp: getOrCreateState_def alert_state_def split: option.split)

lemma set_notified_simps [simp]:
  "alert_state a n (set_notified a m v w) =
     (if n = m then (alert_state a m w)\<lparr>ns_notifiedUnhealthy := v\<rparr> else alert_state a n w)"
  "map_of (ntfy_states a (set_notified a m v w)) n =
     (if n = m then Some ((alert_state a m w)\<lparr>ns_notifiedUnhealthy := v\<rparr>) else map_of (ntfy_states a w) n)"
  "w_clock (set_notified a m v w) = w_clock w" "w_ticks (set_notified a m v w) = w_ticks w"
  "w_log (set_notified a m v w) = w_log w" "accepted_requests (set_notified a m v w) = accepted_requests w"
  by (simp_all add: set_notified_def)

text \<open>
  What holds of every operation: the clock only advances, the log and the accepted requests only
  grow, entries stay, and the window of a monitor ends no earlier than before, where a down alert
  moves it.
\<close>

definition held_until :: "BufferedNtfyAlerter \<Rightarrow> string \<Rightarrow> nat \<Rightarrow> world \<Rightarrow> bool" where
  "held_until a m k w =
     (k \<le> w_ticks w \<and> w_clock w k + bn_suppressWindow a \<le> ns_suppressUntil (alert_state a m w))"

definition notice :: "string \<Rightarrow> AlertMessage \<Rightarrow> bool" where
  "notice m al =
     (alert_MonitorID al = m \<and>
      (alert_Status al = MonitorStatusDown \<or> (\<exists>st. ns_degradedBuffer st \<noteq> [] \<and> al = digest_alert st)))"

definition told :: "BufferedNtfyAlerter \<Rightarrow> string \<Rightarrow> world \<Rightarrow> bool" where
  "told a m w = (\<exists>al. notice m al \<and> ntfy_request (bn_wrapped a) al \<in> set (accepted_requests w))"

definition ntfy_ok :: "BufferedNtfyAlerter \<Rightarrow> world \<Rightarrow> bool" where
  "ntfy_ok a w =
     (\<forall>m. (\<forall>al \<in> set (ns_degradedBuffer (alert_state a m w)). alert_MonitorID al = m) \<and>
          (ns_notifiedUnhealthy (alert_state a m w) \<longrightarrow> told a m w))"

definition ntfy_sound :: "BufferedNtfyAlerter \<Rightarrow> world \<Rightarrow> world \<Rightarrow> bool" where
  "ntfy_sound a w w' =
     (w_clock w' = w_clock w \<and> w_ticks w \<le> w_ticks w' \<and>
      (\<forall>m. map_of (ntfy_states a w) m \<noteq> None \<longrightarrow> map_of (ntfy_states a w') m \<noteq> None) \<and>
      (mono (w_clock w) \<longrightarrow> (\<forall>m k. held_until a m k w \<longrightarrow> held_until a m k w')) \<and>
      (ntfy_ok a w \<longrightarrow> ntfy_ok a w'))"

lemma ntfy_sound_refl [simp]: "ntfy_sound a w w"
  by (simp add: ntfy_sound_def)

lemma ntfy_sound_trans: "ntfy_sound a w w' \<Longrightarrow> ntfy_sound a w' w'' \<Longrightarrow> ntfy_sound a w w''"
  by (auto simp: ntfy_sound_def)

lemma told_mono: "set (accepted_requests w) \<subseteq> set (accepted_requests w') \<Longrightarrow> told a m w \<Longrightarrow> told a m w'"
  by (auto simp: told_def)

text \<open>One rule for all operations: what remains is to compare the states.\<close>

lemma ntfy_soundI:
  assumes "w_clock w' = w_clock w" and "w_ticks w \<le> w_ticks w'"
    and "\<And>m. map_of (ntfy_states a w) m \<noteq> None \<Longrightarrow> map_of (ntfy_states a w') m \<noteq> None"
    and "\<And>m. ns_suppressUntil (alert_state a m w') = ns_suppressUntil (alert_state a m w) \<or>
             (\<exists>k \<ge> w_ticks w. ns_suppressUntil (alert_state a m w') = w_clock w k + bn_suppressWindow a)"
    and "set (accepted_requests w) \<subseteq> set (accepted_requests w')"
    and "\<And>m al. ntfy_ok a w \<Longrightarrow> al \<in> set (ns_degradedBuffer (alert_state a m w')) \<Longrightarrow>
             al \<in> set (ns_degradedBuffer (alert_state a m w)) \<or> alert_MonitorID al = m"
    and "\<And>m. ntfy_ok a w \<Longrightarrow> ns_notifiedUnhealthy (alert_state a m w') \<Longrightarrow>
             ns_notifiedUnhealthy (alert_state a m w) \<or> told a m w'"
  shows "ntfy_sound a w w'"
proof -
  have "held_until a m k w'" if "mono (w_clock w)" and "held_until a m k w" for m k
    using assms(4) [of m]
  proof (elim disjE exE conjE)
    fix j assume "w_ticks w \<le> j" and j: "ns_suppressUntil (alert_state a m w') = w_clock w j + bn_suppressWindow a"
    then have "w_clock w k \<le> w_clock w j"
      using that by (intro monoD [OF that(1)]) (simp add: held_until_def)
    then show ?thesis
      using that(2) assms(1,2) j by (simp add: held_until_def)
  qed (use that assms(1,2) in \<open>simp add: held_until_def\<close>)
  moreover have "ntfy_ok a w'" if "ntfy_ok a w"
    using that assms(6,7) [OF that] told_mono [OF assms(5)] unfolding ntfy_ok_def by blast
  ultimately show ?thesis
    using assms(1,2,3) by (simp add: ntfy_sound_def)
qed

lemma wrapped_Send_told:
  "fst (wrapped_Send a al w) = None \<Longrightarrow> notice m al \<Longrightarrow> told a m (snd (wrapped_Send a al w))"
  by (auto simp: told_def wrapped_Send_accepted)

lemma wrapped_Send_sound: "ntfy_sound a w (snd (wrapped_Send a al w))"
  by (rule ntfy_soundI) (auto simp: wrapped_Send_frame wrapped_Send_accepted)

lemma getOrCreateState_sound: "ntfy_sound a w (snd (getOrCreateState a m w))"
  by (rule ntfy_soundI) (auto simp del: not_None_eq)

lemma read_clock_sound: "ntfy_sound a w (snd (read_clock w))"
  by (rule ntfy_soundI) auto

lemma set_notified_sound: "v \<longrightarrow> told a m w \<Longrightarrow> ntfy_sound a w (set_notified a m v w)"
  by (rule ntfy_soundI) (auto simp: told_def split: if_splits)

lemma set_ntfy_state_sound:
  assumes "ns_suppressUntil st = ns_suppressUntil (alert_state a m w) \<or>
       (\<exists>k \<ge> w_ticks w. ns_suppressUntil st = w_clock w k + bn_suppressWindow a)"
    and "\<forall>al \<in> set (ns_degradedBuffer st). al \<in> set (ns_degradedBuffer (alert_state a m w)) \<or> alert_MonitorID al = m"
    and "ns_notifiedUnhealthy st = ns_notifiedUnhealthy (alert_state a m w)"
  shows "ntfy_sound a w (set_ntfy_state a m st w)"
  using assms by (intro ntfy_soundI) (auto split: if_splits)

text \<open>The part of \<open>handleDownAlert\<close> before the lock is released.\<close>

lemma down_prologue_sound:
  "ntfy_sound a w (set_ntfy_state a m
     ((alert_state a m w)\<lparr>ns_suppressUntil := w_clock w (Suc (w_ticks w)) + bn_suppressWindow a, ns_degradedBuffer := []\<rparr>)
     (snd (read_clock (snd (read_clock (snd (getOrCreateState a m w)))))))"
  by (rule ntfy_soundI)
    (auto split: if_splits simp: told_def simp del: not_None_eq intro!: exI [of _ "Suc (w_ticks w)"])

lemma handleDownAlert_unfold:
  "handleDownAlert a alert w =
     (let m = alert_MonitorID alert;
          w1 = set_ntfy_state a m
            ((alert_state a m w)\<lparr>ns_suppressUntil := w_clock w (Suc (w_ticks w)) + bn_suppressWindow a, ns_degradedBuffer := []\<rparr>)
            (snd (read_clock (snd (read_clock (snd (getOrCreateState a m w))))))
      in if w_clock w (w_ticks w) < ns_suppressUntil (alert_state a m w) then (None, w1)
         else let (e, w2) = wrapped_Send a alert w1
           in (e, if e = None then set_notified a m True w2 else w2))"
  by (simp add: handleDownAlert_def Let_def split_beta option.case_eq_if prod_eq_iff)

lemma handleDownAlert_sound:
  assumes "alert_Status alert = MonitorStatusDown"
  shows "ntfy_sound a w (snd (handleDownAlert a alert w))"
proof -
  let ?m = "alert_MonitorID alert"
  let ?w1 = "set_ntfy_state a ?m
    ((alert_state a ?m w)\<lparr>ns_suppressUntil := w_clock w (Suc (w_ticks w)) + bn_suppressWindow a, ns_degradedBuffer := []\<rparr>)
    (snd (read_clock (snd (read_clock (snd (getOrCreateState a ?m w))))))"
  let ?w2 = "snd (wrapped_Send a alert ?w1)"
  have 1: "ntfy_sound a w ?w1"
    by (rule down_prologue_sound)
  have 2: "ntfy_sound a ?w1 ?w2"
    by (rule wrapped_Send_sound)
  have 3: "ntfy_sound a ?w2 (set_notified a ?m True ?w2)" if "fst (wrapped_Send a alert ?w1) = None"
    using wrapped_Send_told [OF that, of ?m] assms by (intro set_notified_sound) (simp add: notice_def)
  show ?thesis
    using 1 ntfy_sound_trans [OF 1 2] ntfy_sound_trans [OF ntfy_sound_trans [OF 1 2] 3]
    by (simp add: handleDownAlert_unfold Let_def split_beta)
qed

lemma buffer_alert_simps [simp]:
  "ns_suppressUntil (buffer_alert alert st) = ns_suppressUntil st"
  "ns_notifiedUnhealthy (buffer_alert alert st) = ns_notifiedUnhealthy st"
  "ns_degradedBuffer (buffer_alert alert st) = ns_degradedBuffer st @ [alert]"
  by (simp_all add: buffer_alert_def Let_def)

lemma handleDegradedAlert_sound: "ntfy_sound a w (snd (handleDegradedAlert a alert w))"
proof -
  let ?m = "alert_MonitorID alert"
  let ?w1 = "snd (getOrCreateState a ?m w)"
  let ?w2 = "snd (read_clock ?w1)"
  note s1 = getOrCreateState_sound [of a w ?m]
  note s2 = ntfy_sound_trans [OF s1 read_clock_sound [of a ?w1]]
  have "ntfy_sound a ?w2 (set_ntfy_state a ?m (buffer_alert alert (alert_state a ?m w)) ?w2)"
    by (rule set_ntfy_state_sound) auto
  note s3 = ntfy_sound_trans [OF s2 this]
  show ?thesis
    using s1 s2 s3 by (simp add: handleDegradedAlert_def Let_def split_beta)
qed

lemma known_alert_state: "map_of (ntfy_states a w) m = Some st \<Longrightarrow> alert_state a m w = st"
  by (simp add: alert_state_def)

lemma digest_notice:
  assumes "ntfy_ok a w" and "map_of (ntfy_states a w) m = Some st" and "ns_degradedBuffer st \<noteq> []"
  shows "notice m (digest_alert st)"
proof -
  have "\<forall>al \<in> set (ns_degradedBuffer st). alert_MonitorID al = m"
    using assms(1) known_alert_state [OF assms(2)] unfolding ntfy_ok_def by blast
  then have "alert_MonitorID (digest_alert st) = m"
    using assms(3) by (simp add: digest_alert_def)
  then show ?thesis
    using assms(3) unfolding notice_def by blast
qed

lemma flushDigestForMonitor_sound: "ntfy_sound a w (flushDigestForMonitor a m w)"
proof (cases "map_of (ntfy_states a w) m")
  case None
  then show ?thesis by (simp add: flushDigestForMonitor_def)
next
  case (Some st)
  note st = known_alert_state [OF Some]
  let ?w1 = "set_ntfy_state a m (st\<lparr>ns_degradedBuffer := []\<rparr>) w"
  let ?w2 = "snd (wrapped_Send a (digest_alert st) ?w1)"
  have s2: "ntfy_sound a w ?w2"
    by (rule ntfy_sound_trans [OF set_ntfy_state_sound wrapped_Send_sound]) (simp_all add: st)
  show ?thesis
  proof (cases "ns_degradedBuffer st = [] \<or> fst (wrapped_Send a (digest_alert st) ?w1) \<noteq> None")
    case True
    then show ?thesis
      using Some s2 by (auto simp: flushDigestForMonitor_def Let_def split_beta split: option.split)
  next
    case False
    have "ntfy_sound a w (set_notified a m True ?w2)"
    proof (rule ntfy_soundI)
      show "ns_notifiedUnhealthy (alert_state a n w) \<or> told a n (set_notified a m True ?w2)"
        if "ntfy_ok a w" "ns_notifiedUnhealthy (alert_state a n (set_notified a m True ?w2))" for n
        using that wrapped_Send_told [of a "digest_alert st" ?w1 m] digest_notice [OF that(1) Some] False
        by (auto simp: told_def wrapped_Send_frame split: if_splits)
    qed (use st in \<open>auto simp: wrapped_Send_frame wrapped_Send_accepted split: if_splits\<close>)
    then show ?thesis
      using Some False by (auto simp: flushDigestForMonitor_def Let_def split_beta split: option.split)
  qed
qed

lemma flushDigest_sound: "ntfy_sound a w (flushDigest a w)"
proof -
  have "ntfy_sound a w (foldl (\<lambda>w m. flushDigestForMonitor a m w) w ms)" for ms w
    by (induction ms arbitrary: w) (auto intro: ntfy_sound_trans flushDigestForMonitor_sound)
  then show ?thesis
    by (simp add: flushDigest_def)
qed

lemma handleHealthyAlert_sound: "ntfy_sound a w (snd (handleHealthyAlert a alert w))"
proof -
  let ?w1 = "snd (wrapped_Send a alert w)"
  note s1 = wrapped_Send_sound [of a w alert]
  have "ntfy_sound a ?w1 (set_notified a m False ?w1)" for m
    by (rule set_notified_sound) simp
  note s2 = ntfy_sound_trans [OF s1 this]
  show ?thesis
    using s1 s2 flushDigestForMonitor_sound
    by (auto simp: handleHealthyAlert_def Let_def split_beta split: option.split)
qed

lemma buffered_Send_sound: "ntfy_sound a w (snd (buffered_Send a alert w))"
  by (simp add: buffered_Send_def handleDownAlert_sound handleDegradedAlert_sound handleHealthyAlert_sound
      wrapped_Send_sound)

section \<open>Runs\<close>

text \<open>An alerter lives through sends and ticks of its digest loop.\<close>

datatype ntfy_op = Deliver AlertMessage | DigestTick

definition ntfy_op_step :: "BufferedNtfyAlerter \<Rightarrow> world \<Rightarrow> ntfy_op \<Rightarrow> world" where
  "ntfy_op_step a w op = (case op of Deliver alert \<Rightarrow> snd (buffered_Send a alert w) | DigestTick \<Rightarrow> flushDigest a w)"

definition ntfy_run :: "BufferedNtfyAlerter \<Rightarrow> ntfy_op list \<Rightarrow> world \<Rightarrow> world" where
  "ntfy_run a ops w = foldl (ntfy_op_step a) w ops"

lemma ntfy_run_simps [simp]:
  "ntfy_run a [] w = w" "ntfy_run a (op # ops) w = ntfy_run a ops (ntfy_op_step a w op)"
  by (simp_all add: ntfy_run_def)

lemma ntfy_op_step_sound: "ntfy_sound a w (ntfy_op_step a w op)"
  by (simp add: ntfy_op_step_def buffered_Send_sound flushDigest_sound split: ntfy_op.split)

lemma ntfy_run_sound: "ntfy_sound a w (ntfy_run a ops w)"
proof (induction ops arbitrary: w)
  case (Cons op ops)
  show ?case
    using ntfy_sound_trans [OF ntfy_op_step_sound Cons] by simp
qed simp

lemma down_is_held:
  assumes "alert_Status d = MonitorStatusDown"
  shows "held_until a (alert_MonitorID d) (Suc (w_ticks w)) (snd (buffered_Send a d w))"
  using assms
  by (simp add: buffered_Send_def handleDownAlert_unfold Let_def split_beta held_until_def wrapped_Send_frame)

lemma unhealthy_is_known:
  assumes "alert_Status al = MonitorStatusDown \<or> alert_Status al = MonitorStatusDegraded"
  shows "map_of (ntfy_states a (snd (buffered_Send a al w))) (alert_MonitorID al) \<noteq> None"
  using assms
  by (auto simp: buffered_Send_def handleDownAlert_unfold handleDegradedAlert_def Let_def split_beta
      wrapped_Send_frame statuses simp del: not_None_eq)

lemma ntfy_run_known:
  assumes "Deliver al \<in> set ops" and "alert_Status al = MonitorStatusDown \<or> alert_Status al = MonitorStatusDegraded"
  shows "map_of (ntfy_states a (ntfy_run a ops w)) (alert_MonitorID al) \<noteq> None"
  using assms(1)
proof (induction ops arbitrary: w)
  case (Cons op ops)
  show ?case
  proof (cases "Deliver al \<in> set ops")
    case True
    then show ?thesis using Cons.IH by simp
  next
    case False
    then have "op = Deliver al" using Cons.prems by simp
    then have "map_of (ntfy_states a (ntfy_op_step a w op)) (alert_MonitorID al) \<noteq> None"
      using unhealthy_is_known [OF assms(2)] by (simp add: ntfy_op_step_def)
    then show ?thesis
      using ntfy_run_sound [of a "ntfy_op_step a w op" ops] unfolding ntfy_sound_def by simp
  qed
qed simp

lemma held_down_alert:
  assumes "alert_Status d = MonitorStatusDown" and "held_until a (alert_MonitorID d) k w"
    and "w_clock w (w_ticks w) < w_clock w k + bn_suppressWindow a"
  shows "fst (buffered_Send a d w) = None" and "w_log (snd (buffered_Send a d w)) = w_log w"
  using assms by (simp_all add: buffered_Send_def handleDownAlert_unfold Let_def held_until_def)

text \<open>After a down alert nothing waits for the digest, and the target counts as notified only if it was or a request was accepted.\<close>

lemma down_state:
  assumes "alert_Status d = MonitorStatusDown"
  shows "ns_degradedBuffer (alert_state a (alert_MonitorID d) (snd (buffered_Send a d w))) = []"
    and "ns_notifiedUnhealthy (alert_state a (alert_MonitorID d) (snd (buffered_Send a d w))) \<longleftrightarrow>
      ns_notifiedUnhealthy (alert_state a (alert_MonitorID d) w) \<or>
      accepted_requests (snd (buffered_Send a d w)) \<noteq> accepted_requests w"
  using assms
  by (simp_all add: buffered_Send_def handleDownAlert_unfold Let_def split_beta wrapped_Send_frame wrapped_Send_accepted)

lemma healthy_suppressed:
  assumes "alert_Status h = MonitorStatusHealthy" and "map_of (ntfy_states a w) (alert_MonitorID h) \<noteq> None"
    and "ns_degradedBuffer (alert_state a (alert_MonitorID h) w) = []"
    and "\<not> ns_notifiedUnhealthy (alert_state a (alert_MonitorID h) w)"
  shows "buffered_Send a h w = (None, w)"
  using assms by (auto simp: buffered_Send_def handleHealthyAlert_def alert_state_def statuses Let_def)

text \<open>A concrete alerter and world for the witnesses: one reading of the clock per second.\<close>

definition ex_ntfy :: BufferedNtfyAlerter where
  "ex_ntfy = NewBufferedNtfyAlerter 0
     \<lparr>na_topicURL = ''https://ntfy.test/t'', na_accessToken = [], na_username = [], na_password = []\<rparr> 15 0"

definition ex_alert :: "string \<Rightarrow> AlertMessage" where
  "ex_alert status = \<lparr>alert_MonitorID = ''m1'', alert_IncidentID = [], alert_Name = ''web'',
     alert_Status = status, alert_Scope = ''global'', alert_Reason = ''timeout'', alert_OccurredAt = 0,
     alert_AffectedRegions = [''eu''], alert_AlertNames = []\<rparr>"

definition ex_world :: "http_outcome list \<Rightarrow> world" where
  "ex_world outcomes = \<lparr>w_outcomes = outcomes, w_log = [], w_clock = (\<lambda>n. int n * second), w_ticks = 0,
     w_bad_url = (\<lambda>_. None), w_ntfy = (\<lambda>_. [])\<rparr>"

lemma ex_world_mono: "mono (w_clock (ex_world rs))"
  by (simp add: mono_def ex_world_def second_def)

text \<open>
  C29: After a down alert of a monitor, whatever was sent through the alerter in between, a further
  down alert of the monitor within the window is taken as delivered and nothing is sent.
\<close>

theorem down_alerts_are_held_back:
  assumes "mono (w_clock w)"
    and "alert_Status d1 = MonitorStatusDown" and "alert_Status d2 = MonitorStatusDown"
    and "alert_MonitorID d1 = alert_MonitorID d2"
    and "w' = ntfy_run a ops (snd (buffered_Send a d1 w))"
    and "w_clock w (w_ticks w') < w_clock w (Suc (w_ticks w)) + bn_suppressWindow a"
  shows "fst (buffered_Send a d2 w') = None \<and> w_log (snd (buffered_Send a d2 w')) = w_log w'"
proof -
  let ?w1 = "snd (buffered_Send a d1 w)"
  have clock: "w_clock ?w1 = w_clock w" "w_clock w' = w_clock w"
    using buffered_Send_sound [of a w d1] ntfy_run_sound [of a ?w1 ops] assms(5) by (simp_all add: ntfy_sound_def)
  have "held_until a (alert_MonitorID d2) (Suc (w_ticks w)) w'"
    using ntfy_run_sound [of a ?w1 ops] down_is_held [OF assms(2)] assms(1,4,5) clock
    by (simp add: ntfy_sound_def)
  from held_down_alert [OF assms(3) this] show ?thesis
    using assms(6) clock by simp
qed

theorem down_alerts_are_held_back_witness:
  "let w = ex_world [StatusCode 200, StatusCode 200]; d = ex_alert MonitorStatusDown;
       w' = ntfy_run ex_ntfy [Deliver (ex_alert MonitorStatusHealthy)] (snd (buffered_Send ex_ntfy d w))
   in fst (buffered_Send ex_ntfy d w') = None \<and> w_log (snd (buffered_Send ex_ntfy d w')) = w_log w'"
proof -
  let ?w = "ex_world [StatusCode 200, StatusCode 200]" and ?d = "ex_alert MonitorStatusDown"
  let ?w' = "ntfy_run ex_ntfy [Deliver (ex_alert MonitorStatusHealthy)] (snd (buffered_Send ex_ntfy ?d ?w))"
  have s: "alert_Status ?d = MonitorStatusDown"
    by (simp add: ex_alert_def)
  have t: "w_clock ?w (w_ticks ?w') < w_clock ?w (Suc (w_ticks ?w)) + bn_suppressWindow ex_ntfy"
    by code_simp
  show ?thesis
    using down_alerts_are_held_back [OF ex_world_mono s s refl refl t] by (simp add: Let_def)
qed

text \<open>
  From an alerter with no entries on: a recovery of a monitor that was seen down or degraded
  and has nothing buffered is sent only when the topic accepted a notice of the trouble before, a
  down alert or a digest of the monitor.
\<close>

theorem recovery_follows_notice:
  assumes "ntfy_states a w0 = []" and "w = ntfy_run a ops w0"
    and "Deliver u \<in> set ops" and "alert_Status u = MonitorStatusDown \<or> alert_Status u = MonitorStatusDegraded"
    and "alert_Status h = MonitorStatusHealthy" and "alert_MonitorID h = alert_MonitorID u"
    and "ns_degradedBuffer (alert_state a (alert_MonitorID h) w) = []"
    and "w_log (snd (buffered_Send a h w)) \<noteq> w_log w"
  shows "\<exists>al. notice (alert_MonitorID h) al \<and> ntfy_request (bn_wrapped a) al \<in> set (accepted_requests w)"
proof -
  have "ntfy_ok a w0"
    using assms(1) by (simp add: ntfy_ok_def alert_state_def zero_alert_state_def)
  then have ok: "ntfy_ok a w"
    using ntfy_run_sound [of a w0 ops] assms(2) by (simp add: ntfy_sound_def)
  obtain st where st: "map_of (ntfy_states a w) (alert_MonitorID h) = Some st"
    using ntfy_run_known [OF assms(3,4), of a w0] assms(2,6) by auto
  have "ns_notifiedUnhealthy st"
  proof (rule ccontr)
    assume "\<not> ns_notifiedUnhealthy st"
    then have "w_log (snd (buffered_Send a h w)) = w_log w"
      using st assms(5,7) known_alert_state [OF st]
      by (simp add: buffered_Send_def statuses handleHealthyAlert_def Let_def)
    then show False using assms(8) by simp
  qed
  then show ?thesis
    using ok known_alert_state [OF st] unfolding ntfy_ok_def told_def by blast
qed

theorem recovery_follows_notice_witness:
  "let w = ntfy_run ex_ntfy [Deliver (ex_alert MonitorStatusDown)] (ex_world [StatusCode 200, StatusCode 200])
   in \<exists>al. notice ''m1'' al \<and> ntfy_request (bn_wrapped ex_ntfy) al \<in> set (accepted_requests w)"
proof -
  let ?d = "ex_alert MonitorStatusDown" and ?h = "ex_alert MonitorStatusHealthy"
  let ?start = "ex_world [StatusCode 200, StatusCode 200]"
  let ?w = "ntfy_run ex_ntfy [Deliver ?d] ?start"
  have 1: "ntfy_states ex_ntfy ?start = []" "Deliver ?d \<in> set [Deliver ?d]"
      "alert_Status ?d = MonitorStatusDown \<or> alert_Status ?d = MonitorStatusDegraded"
      "alert_Status ?h = MonitorStatusHealthy" "alert_MonitorID ?h = alert_MonitorID ?d"
    by (simp_all add: ntfy_states_def ex_world_def ex_alert_def del: ntfy_run_simps)
  have 2: "ns_degradedBuffer (alert_state ex_ntfy (alert_MonitorID ?h) ?w) = []"
    by code_simp
  have "length (w_log (snd (buffered_Send ex_ntfy ?h ?w))) = 2" "length (w_log ?w) = 1"
    by code_simp+
  then have 3: "w_log (snd (buffered_Send ex_ntfy ?h ?w)) \<noteq> w_log ?w"
    by (metis One_nat_def numeral_2_eq_2 n_not_Suc_n)
  have m: "alert_MonitorID ?h = ''m1''"
    by (simp add: ex_alert_def)
  show ?thesis
    using recovery_follows_notice [OF 1(1) refl 1(2,3,4,5) 2 3] unfolding m Let_def .
qed

end
