(* ===== verification/Alerter_Worker.thy ===== *)
theory Alerter_Worker
  imports Ntfy_Buffered Config_Server
begin

text \<open>
  \<open>worker_alerter.go\<close>, the interface of \<open>alerter.go\<close> and \<open>BuildAlerters\<close> of
  \<open>alerter_webhook.go\<close>: the configured targets under their names, the choice of the targets of an
  alert, the loop over them, and the worker's answer to the queue.

  What the worker relies on of a target is the contract of \<open>Alerter\<close>, a locale here: a call
  that returns an error delivered nothing. The interpretation shows it of every target the
  program builds.
\<close>

section \<open>Targets\<close>

text \<open>The implementations of the interface \<open>Alerter\<close>.\<close>

datatype alerter =
    Webhook WebhookAlerter
  | JSONWebhook JSONWebhookAlerter
  | BufferedNtfy BufferedNtfyAlerter

record NamedAlerter =
  named_Name :: string
  named_Alerter :: alerter

definition webhook_Send ::
    "(string \<Rightarrow> string) \<Rightarrow> (string \<Rightarrow> string \<Rightarrow> string) \<Rightarrow> WebhookAlerter \<Rightarrow> AlertMessage \<Rightarrow> world \<Rightarrow>
       alert_error option \<times> world" where
  "webhook_Send hash mac wa alert w =
     (let (now, w) = (if alert_OccurredAt alert = zero_time then read_clock w else (zero_time, w))
      in doAlertRequest (webhook_request hash mac now wa alert) w)"

definition json_webhook_Send ::
    "JSONWebhookAlerter \<Rightarrow> AlertMessage \<Rightarrow> world \<Rightarrow> alert_error option \<times> world" where
  "json_webhook_Send a alert w = doAlertRequest (json_webhook_request a alert) w"

definition alerter_Send ::
    "(string \<Rightarrow> string) \<Rightarrow> (string \<Rightarrow> string \<Rightarrow> string) \<Rightarrow> alerter \<Rightarrow> AlertMessage \<Rightarrow> world \<Rightarrow>
       alert_error option \<times> world" where
  "alerter_Send hash mac a alert w =
     (case a of
        Webhook wa \<Rightarrow> webhook_Send hash mac wa alert w
      | JSONWebhook jw \<Rightarrow> json_webhook_Send jw alert w
      | BufferedNtfy b \<Rightarrow> buffered_Send b alert w)"

definition build_webhooks :: "WebhookAlertingConfig list \<Rightarrow> NamedAlerter list" where
  "build_webhooks configs =
     map (\<lambda>alert. \<lparr>named_Name = trim_space (webhook_Name alert),
            named_Alerter = Webhook \<lparr>wa_webhookURL = webhook_URL alert, wa_hmacSecret = webhook_HmacSecret alert,
              wa_customHeaders = webhook_CustomHeaders alert\<rparr>\<rparr>)
       (filter (\<lambda>alert. \<not> (\<not> webhook_Enabled alert \<or> webhook_URL alert = [])) configs)"

definition json_target :: "string \<Rightarrow> string \<Rightarrow> string \<Rightarrow> provider \<Rightarrow> NamedAlerter" where
  "json_target name url agent p =
     \<lparr>named_Name = trim_space name, named_Alerter = JSONWebhook \<lparr>jw_url = url, jw_userAgent = agent,
        jw_contentType = ''application/json'', jw_provider = p\<rparr>\<rparr>"

definition build_slack :: "SlackAlertingConfig list \<Rightarrow> NamedAlerter list" where
  "build_slack configs =
     map (\<lambda>alert. json_target (slack_Name alert) (slack_WebhookURL alert) ''eyrie-slack/1.0'' Slack)
       (filter (\<lambda>alert. \<not> (\<not> slack_Enabled alert \<or> slack_WebhookURL alert = [])) configs)"

definition build_discord :: "DiscordAlertingConfig list \<Rightarrow> NamedAlerter list" where
  "build_discord configs =
     map (\<lambda>alert. json_target (discord_Name alert) (discord_WebhookURL alert) ''eyrie-discord/1.0'' Discord)
       (filter (\<lambda>alert. \<not> (\<not> discord_Enabled alert \<or> discord_WebhookURL alert = [])) configs)"

definition build_teams :: "TeamsAlertingConfig list \<Rightarrow> NamedAlerter list" where
  "build_teams configs =
     map (\<lambda>alert. json_target (teams_Name alert) (teams_WebhookURL alert) ''eyrie-teams/1.0'' Teams)
       (filter (\<lambda>alert. \<not> (\<not> teams_Enabled alert \<or> teams_WebhookURL alert = [])) configs)"

text \<open>Every ntfy target gets an instance of its own, named by its position.\<close>

definition build_ntfy :: "NtfyAlertingConfig list \<Rightarrow> NamedAlerter list" where
  "build_ntfy configs =
     map (\<lambda>(i, alert).
            let wrapped = \<lparr>na_topicURL = ntfy_TopicURL alert, na_accessToken = ntfy_AccessToken alert,
                  na_username = ntfy_Username alert, na_password = ntfy_Password alert\<rparr>;
                suppressWindow = ntfy_SuppressWindowMinutes alert;
                suppressWindow = (if suppressWindow \<le> 0 then 15 else suppressWindow);
                digestInterval = ntfy_DigestIntervalMinutes alert
            in \<lparr>named_Name = trim_space (ntfy_Name alert),
                named_Alerter = BufferedNtfy (NewBufferedNtfyAlerter i wrapped suppressWindow digestInterval)\<rparr>)
       (enumerate 0 (filter (\<lambda>alert. \<not> (\<not> ntfy_Enabled alert \<or> ntfy_TopicURL alert = [])) configs))"

definition BuildAlerters :: "ServerConfig \<Rightarrow> NamedAlerter list" where
  "BuildAlerters config =
     (let alerting = sc_Alerting config in
      build_webhooks (alerting_Webhook alerting) @ build_slack (alerting_Slack alerting) @
      build_discord (alerting_Discord alerting) @ build_teams (alerting_Teams alerting) @
      build_ntfy (alerting_Ntfy alerting))"

section \<open>Choosing the targets\<close>

definition selectNamedAlerters :: "NamedAlerter list \<Rightarrow> string list \<Rightarrow> NamedAlerter list" where
  "selectNamedAlerters alerters alertNames =
     (if length alertNames = 0 then alerters
      else let requestedAlertNames = filter (\<lambda>n. n \<noteq> []) alertNames
        in if length requestedAlertNames = 0 then []
           else filter (\<lambda>alerter. named_Name alerter \<in> set requestedAlertNames) alerters)"

definition namedAlerterNames :: "NamedAlerter list \<Rightarrow> string list" where
  "namedAlerterNames alerters = map named_Name alerters"

definition describeTargetSelection :: "NamedAlerter list \<Rightarrow> string list \<Rightarrow> NamedAlerter list \<Rightarrow> string" where
  "describeTargetSelection configuredAlerters requestedAlertNames selectedAlerters =
     (if length selectedAlerters > 0
      then if length requestedAlertNames > 0 then ''matched_named_targets'' else ''all_enabled_targets''
      else if length requestedAlertNames > 0 then ''no_matching_named_targets''
      else if length configuredAlerters = 0 then ''no_configured_targets''
      else ''no_selected_targets'')"

section \<open>Sending to all\<close>

text \<open>\<open>errors.Join\<close> of wrapped errors: the list of pairs (name, error).\<close>

fun sendAlertToAlerters ::
    "(alerter \<Rightarrow> AlertMessage \<Rightarrow> 'w \<Rightarrow> 'e option \<times> 'w) \<Rightarrow> NamedAlerter list \<Rightarrow> AlertMessage \<Rightarrow> 'w \<Rightarrow>
       (nat \<times> string list \<times> (string \<times> 'e) list) \<times> 'w" where
  "sendAlertToAlerters send [] alert w = ((0, [], []), w)"
| "sendAlertToAlerters send (a # as) alert w =
     (let (err, w) = send (named_Alerter a) alert w;
          ((delivered, failed, errs), w) = sendAlertToAlerters send as alert w
      in case err of
           Some e \<Rightarrow> ((delivered, named_Name a # failed, (named_Name a, e) # errs), w)
         | None \<Rightarrow> ((Suc delivered, failed, errs), w))"

text \<open>One message of the queue.\<close>

definition process_alert ::
    "(alerter \<Rightarrow> AlertMessage \<Rightarrow> 'w \<Rightarrow> 'e option \<times> 'w) \<Rightarrow> NamedAlerter list \<Rightarrow> AlertMessage queue_message \<Rightarrow>
       'w \<Rightarrow> ack \<times> 'w" where
  "process_alert send alerters message w =
     (case msg_body message of
        None \<Rightarrow> (nack_or_ack message, w)
      | Some alert \<Rightarrow>
          (let targetAlerters = selectNamedAlerters alerters (alert_AlertNames alert)
           in if length targetAlerters = 0 then (Ack, w)
              else let ((deliveredCount, failedAlerters, sendErr), w) =
                     sendAlertToAlerters send targetAlerters alert w
                in if sendErr \<noteq> []
                   then (if deliveredCount = 0 \<and> msg_nackable message then Nack else Ack, w)
                   else (Ack, w)))"

section \<open>The contract of a target\<close>

text \<open>
  \<open>receipts\<close> is what the receivers have accepted. A target is \<open>exact\<close> when its success means
  one receipt; a target that holds alerts back may succeed without.
\<close>

locale alerter_contract =
  fixes send :: "alerter \<Rightarrow> AlertMessage \<Rightarrow> 'w \<Rightarrow> 'e option \<times> 'w"
    and receipts :: "'w \<Rightarrow> 'r list"
    and exact :: "alerter \<Rightarrow> bool"
  assumes failure_delivers_nothing: "send a alert w = (Some e, w') \<Longrightarrow> receipts w' = receipts w"
    and success_delivers_at_most_once:
      "send a alert w = (None, w') \<Longrightarrow> \<exists>rs. receipts w' = receipts w @ rs \<and> length rs \<le> 1"
    and exact_success: "exact a \<Longrightarrow> send a alert w = (None, w') \<Longrightarrow> receipts w' \<noteq> receipts w"
begin

lemma sends_bookkeeping:
  "sendAlertToAlerters send as alert w = ((delivered, failed, errs), w') \<Longrightarrow>
     delivered + length failed = length as \<and> map fst errs = failed \<and>
     (\<exists>rs. receipts w' = receipts w @ rs \<and> length rs \<le> delivered \<and> (list_all (exact \<circ> named_Alerter) as \<longrightarrow> length rs = delivered))"
proof (induction as arbitrary: w delivered failed errs w')
  case Nil
  then show ?case by simp
next
  case (Cons a as)
  obtain err w1 where s: "send (named_Alerter a) alert w = (err, w1)"
    by (cases "send (named_Alerter a) alert w")
  obtain d f es w2 where r: "sendAlertToAlerters send as alert w1 = ((d, f, es), w2)"
    by (metis prod_cases3 surj_pair)
  note IH = Cons.IH [OF r]
  from IH obtain rs where rs: "receipts w2 = receipts w1 @ rs" "length rs \<le> d"
      "list_all (exact \<circ> named_Alerter) as \<longrightarrow> length rs = d"
    by blast
  show ?case
  proof (cases err)
    case None
    with s obtain r1 where r1: "receipts w1 = receipts w @ r1" "length r1 \<le> 1"
      using success_delivers_at_most_once by blast
    moreover have "exact (named_Alerter a) \<Longrightarrow> length r1 = 1"
      using exact_success s None r1 by (cases r1) auto
    ultimately show ?thesis
      using Cons.prems s r None IH rs by (auto intro!: exI [of _ "r1 @ rs"])
  next
    case (Some e)
    then have "receipts w1 = receipts w"
      using s failure_delivers_nothing by blast
    moreover have "delivered = d" "failed = named_Name a # f" "errs = (named_Name a, e) # es" "w' = w2"
      using Cons.prems s r Some by simp_all
    moreover have "\<not> exact (named_Alerter a) \<or> exact (named_Alerter a)" by simp
    ultimately show ?thesis
      using IH rs by auto
  qed
qed

lemma sends_nothing:
  assumes "sendAlertToAlerters send as alert w = ((0, failed, errs), w')"
  shows "receipts w' = receipts w"
  using sends_bookkeeping [OF assms] by auto

lemma nack_means_no_receipt:
  assumes "process_alert send alerters message w = (Nack, w')"
  shows "receipts w' = receipts w"
  using assms sends_nothing
  by (auto simp: process_alert_def Let_def split: option.splits if_splits prod.splits)

lemma process_alert_receipts:
  assumes "process_alert send alerters message w = (a, w')"
  obtains rs where "receipts w' = receipts w @ rs"
    and "\<And>alert. a = Ack \<Longrightarrow> msg_body message = Some alert \<Longrightarrow> msg_nackable message \<Longrightarrow>
      list_all (exact \<circ> named_Alerter) (selectNamedAlerters alerters (alert_AlertNames alert)) \<Longrightarrow>
      selectNamedAlerters alerters (alert_AlertNames alert) \<noteq> [] \<Longrightarrow> rs \<noteq> []"
proof (cases "msg_body message")
  case None
  then show thesis
    using assms that [of "[]"] by (simp add: process_alert_def)
next
  case (Some alert)
  let ?as = "selectNamedAlerters alerters (alert_AlertNames alert)"
  show thesis
  proof (cases "?as = []")
    case True
    then show thesis
      using assms that [of "[]"] Some by (simp add: process_alert_def)
  next
    case False
    obtain d f es w1 where s: "sendAlertToAlerters send ?as alert w = ((d, f, es), w1)"
      by (metis prod_cases3 surj_pair)
    note b = sends_bookkeeping [OF s]
    then obtain rs where rs: "receipts w1 = receipts w @ rs" "list_all (exact \<circ> named_Alerter) ?as \<longrightarrow> length rs = d"
      by blast
    have w: "w' = w1" "a = Ack \<Longrightarrow> msg_nackable message \<Longrightarrow> 0 < d"
      using assms Some False s b by (auto simp: process_alert_def split: if_splits)
    show thesis
      using that [of rs] rs w Some by fastforce
  qed
qed

end

section \<open>The program's targets keep the contract\<close>

definition direct_target :: "alerter \<Rightarrow> bool" where
  "direct_target a = (case a of BufferedNtfy _ \<Rightarrow> False | _ \<Rightarrow> True)"

lemma buffered_Send_accepted:
  "\<exists>rs. accepted_requests (snd (buffered_Send a alert w)) = accepted_requests w @ rs \<and> length rs \<le> 1 \<and>
     (fst (buffered_Send a alert w) \<noteq> None \<longrightarrow> rs = [])"
proof -
  have flush: "\<exists>rs. accepted_requests (flushDigestForMonitor a m w) = accepted_requests w @ rs \<and> length rs \<le> 1" for m
    by (auto simp: flushDigestForMonitor_def Let_def split_beta wrapped_Send_accepted split: option.split)
  show ?thesis
    using flush
    by (auto simp: buffered_Send_def handleDownAlert_unfold handleDegradedAlert_def handleHealthyAlert_def Let_def
        split_beta wrapped_Send_accepted split: option.split)
qed

lemma read_clock_accepted: "read_clock w = (t, w') \<Longrightarrow> accepted_requests w' = accepted_requests w"
  using read_clock_simps(5) [of w] by simp

lemma webhook_Send_accepted:
  assumes "webhook_Send hash mac wa alert w = (e, w')"
  shows "\<exists>r. accepted_requests w' = accepted_requests w @ (if e = None then [r] else [])"
  using assms doAlertRequest_accepted
  by (fastforce simp: webhook_Send_def Let_def split_beta split: if_splits)

lemma alerter_Send_accepted:
  assumes "alerter_Send hash mac a alert w = (e, w')"
  shows "\<exists>rs. accepted_requests w' = accepted_requests w @ rs \<and> length rs \<le> 1 \<and>
     (e \<noteq> None \<longrightarrow> rs = []) \<and> (direct_target a \<and> e = None \<longrightarrow> rs \<noteq> [])"
proof (cases a)
  case (Webhook wa)
  with assms webhook_Send_accepted [of hash mac wa alert w e w'] show ?thesis
    by (auto simp: alerter_Send_def)
next
  case (JSONWebhook jw)
  with assms doAlertRequest_accepted [of "json_webhook_request jw alert" w e w'] show ?thesis
    by (auto simp: alerter_Send_def json_webhook_Send_def)
next
  case (BufferedNtfy b)
  with assms buffered_Send_accepted [of b alert w] show ?thesis
    by (auto simp: alerter_Send_def direct_target_def)
qed

interpretation targets: alerter_contract "alerter_Send hash mac" accepted_requests direct_target
  by unfold_locales (fastforce dest!: alerter_Send_accepted)+

section \<open>Properties\<close>

text \<open>
  C19: An alert is given back to the queue for another delivery only when no target accepted it,
  so a redelivery never repeats an alert somebody has received.
\<close>

theorem nacked_alert_reached_nobody:
  assumes "process_alert (alerter_Send hash mac) alerters message w = (Nack, w')"
  shows "accepted_requests w' = accepted_requests w"
  using assms by (rule targets.nack_means_no_receipt)

text \<open>
  The loop over the targets tries every target once whatever the others answer: the delivered
  ones and the failed ones add up to all targets, the errors name the failed targets in order,
  at most one request is accepted per delivered target, and exactly one where no target holds
  alerts back.
\<close>

theorem every_target_is_tried:
  assumes "sendAlertToAlerters (alerter_Send hash mac) targets alert w = ((delivered, failed, errs), w')"
  shows "delivered + length failed = length targets \<and> map fst errs = failed \<and>
     (\<exists>rs. accepted_requests w' = accepted_requests w @ rs \<and> length rs \<le> delivered \<and>
        (list_all (direct_target \<circ> named_Alerter) targets \<longrightarrow> length rs = delivered))"
  using targets.sends_bookkeeping [OF assms] .

lemma build_names: "subseq (map named_Name (BuildAlerters c)) (map trim_space (all_alert_names (sc_Alerting c)))"
proof -
  have f: "subseq (map f (filter P xs)) (map f xs)" for f :: "'a \<Rightarrow> string" and P xs
    by (rule subseq_map) simp
  have e: "map (\<lambda>(i, x). f x) (enumerate n xs) = map f xs" for f :: "'a \<Rightarrow> string" and n xs
    by (induction xs arbitrary: n) auto
  have n: "map named_Name (build_ntfy xs) =
      map (trim_space \<circ> ntfy_Name) (filter (\<lambda>alert. \<not> (\<not> ntfy_Enabled alert \<or> ntfy_TopicURL alert = [])) xs)" for xs
    unfolding build_ntfy_def map_map e [symmetric, of "trim_space \<circ> ntfy_Name" _ 0]
    by (rule map_cong) (auto simp: Let_def)
  show ?thesis
    unfolding BuildAlerters_def all_alert_names_def Let_def map_append n
    by (intro list_emb_append_mono)
      (auto simp: build_webhooks_def build_slack_def build_discord_def build_teams_def json_target_def comp_def
        intro!: f [unfolded comp_def])
qed

lemma selected_names:
  "selectNamedAlerters alerters names =
     (if names = [] then alerters else filter (\<lambda>a. named_Name a \<noteq> [] \<and> named_Name a \<in> set names) alerters)"
proof (cases "\<forall>x \<in> set names. x = []")
  case True
  then have "filter (\<lambda>a. named_Name a \<noteq> [] \<and> named_Name a \<in> set names) alerters = []"
    by (auto simp: filter_empty_conv)
  with True show ?thesis
    by (simp add: selectNamedAlerters_def filter_empty_conv)
next
  case False
  then show ?thesis
    by (auto simp: selectNamedAlerters_def Let_def filter_empty_conv intro!: filter_cong)
qed

lemma filter_distinct_key:
  assumes "distinct (map f xs)" and "a \<in> set xs"
  shows "filter (\<lambda>x. f x = f a) xs = [a]"
  using assms
proof (induction xs)
  case Nil
  then show ?case by simp
next
  case (Cons x xs)
  show ?case
  proof (cases "a = x")
    case True
    then have "\<forall>y \<in> set xs. f y \<noteq> f a"
      using Cons.prems(1) by (auto simp: image_iff)
    with True show ?thesis by (simp add: filter_empty_conv)
  next
    case False
    then have "a \<in> set xs" "f x \<noteq> f a"
      using Cons.prems by (auto simp: image_iff)
    then show ?thesis using Cons by simp
  qed
qed

text \<open>
  In a valid configuration every target that is built is reached under its own name, and
  nothing else is.
\<close>

theorem names_reach_their_target:
  assumes "server_Validate c = None" and "a \<in> set (BuildAlerters c)"
  shows "selectNamedAlerters (BuildAlerters c) [named_Name a] = [a]"
proof -
  have names: "set (map named_Name (BuildAlerters c)) \<subseteq> set (map trim_space (all_alert_names (sc_Alerting c)))"
    using build_names [of c] unfolding subseq_conv_nths by (metis set_nths_subset)
  have "distinct (map named_Name (BuildAlerters c))"
    using server_Validate_alert_names(1) [OF assms(1)] build_names [of c] unfolding subseq_conv_nths
    by (metis distinct_nthsI)
  moreover have "named_Name a \<noteq> []"
    using names server_Validate_alert_names(2) [OF assms(1)] assms(2) by (auto simp: list_all_iff)
  ultimately show ?thesis
    using filter_distinct_key [OF _ assms(2), of named_Name]
    by (simp add: selected_names) (metis (mono_tags, lifting) filter_cong)
qed


section \<open>Examples\<close>

definition ex_targets :: "NamedAlerter list" where
  "ex_targets =
     [\<lparr>named_Name = ''phone'', named_Alerter = BufferedNtfy ex_ntfy\<rparr>,
      \<lparr>named_Name = ''chat'', named_Alerter = JSONWebhook \<lparr>jw_url = ''https://chat.test'',
         jw_userAgent = ''eyrie-slack/1.0'', jw_contentType = ''application/json'', jw_provider = Slack\<rparr>\<rparr>]"

definition ex_alert_message :: "string list \<Rightarrow> AlertMessage queue_message" where
  "ex_alert_message names = \<lparr>msg_body = Some ((ex_alert MonitorStatusDown)\<lparr>alert_AlertNames := names\<rparr>),
     msg_metadata = [], msg_nackable = True\<rparr>"

definition ex_Send :: "alerter \<Rightarrow> AlertMessage \<Rightarrow> world \<Rightarrow> alert_error option \<times> world" where
  "ex_Send = alerter_Send (\<lambda>s. s) (\<lambda>k s. s)"

theorem nacked_alert_reached_nobody_witness:
  "fst (process_alert ex_Send ex_targets (ex_alert_message []) (ex_world [StatusCode 500, StatusCode 429])) = Nack \<and>
   accepted_requests
     (snd (process_alert ex_Send ex_targets (ex_alert_message []) (ex_world [StatusCode 500, StatusCode 429]))) = []"
proof -
  let ?r = "process_alert ex_Send ex_targets (ex_alert_message []) (ex_world [StatusCode 500, StatusCode 429])"
  have n: "fst ?r = Nack"
    by code_simp
  then have "?r = (Nack, snd ?r)"
    by (simp add: prod_eq_iff)
  from nacked_alert_reached_nobody [OF this [unfolded ex_Send_def]] n show ?thesis
    by (simp add: ex_Send_def ex_world_def accepted_requests_def)
qed

theorem every_target_is_tried_witness:
  "fst (sendAlertToAlerters ex_Send ex_targets (ex_alert MonitorStatusDown) (ex_world [StatusCode 500, StatusCode 200])) =
     (1, [''phone''], [(''phone'', Dropped 500)]) \<and> 1 + length [''phone''] = length ex_targets"
proof -
  let ?r = "sendAlertToAlerters ex_Send ex_targets (ex_alert MonitorStatusDown) (ex_world [StatusCode 500, StatusCode 200])"
  have r: "fst ?r = (1, [''phone''], [(''phone'', Dropped 500)])"
    by code_simp
  then have "?r = ((1, [''phone''], [(''phone'', Dropped 500)]), snd ?r)"
    by (simp add: prod_eq_iff)
  from every_target_is_tried [OF this [unfolded ex_Send_def]] r show ?thesis
    by simp
qed


theorem names_reach_their_target_witness:
  "selectNamedAlerters (BuildAlerters ex_server_config) [named_Name (hd (BuildAlerters ex_server_config))] =
     [hd (BuildAlerters ex_server_config)]"
proof -
  have "BuildAlerters ex_server_config \<noteq> []"
    by code_simp
  then show ?thesis
    using names_reach_their_target [OF ex_server_config_valid hd_in_set] by simp
qed

end
