(* ===== verification/Ingester.thy ===== *)
theory Ingester
  imports Messages Config_Server Go_Float Go_Calendar
begin

text \<open>
  \<open>worker_ingester.go\<close>: submissions become rows of \<open>monitor_historical\<close>, and the days that have
  new rows are summed up in the daily aggregates. A set of dirty (monitor, day) pairs stands
  between the two: an insert marks its pair, the periodic run takes all marked pairs and
  marks again those it failed on.

  Of DuckDB two functions are parameters: \<open>sql_date\<close>, the date of a time stamp in the session's
  time zone, and \<open>sql_int\<close>, the cast of a \<open>DOUBLE\<close> to an integer. Where a property needs it, the
  session runs in UTC, and the cast is monotone and the identity on integers.
\<close>

section \<open>Tasks\<close>

datatype aggregationTask = AggregationTask (task_monitorID: string) (task_date: gotime)

text \<open>The order of the tasks of a run: by date, then by monitor.\<close>

definition task_before :: "aggregationTask \<Rightarrow> aggregationTask \<Rightarrow> bool" where
  "task_before s t =
     (if task_date s = task_date t then task_monitorID s < task_monitorID t else task_date s < task_date t)"

instantiation aggregationTask :: linorder
begin

definition less_eq_aggregationTask :: "aggregationTask \<Rightarrow> aggregationTask \<Rightarrow> bool" where
  "less_eq_aggregationTask s t = (s = t \<or> task_before s t)"

definition less_aggregationTask :: "aggregationTask \<Rightarrow> aggregationTask \<Rightarrow> bool" where
  "less_aggregationTask s t = task_before s t"

instance
  by standard (auto simp: less_eq_aggregationTask_def less_aggregationTask_def task_before_def
      aggregationTask.expand split: if_splits)

end

record IngesterWorker =
  iw_monitorConfig :: MonitorConfig
  iw_datasetConfig :: DatasetConfig
  iw_dirtyAggregationTasks :: "(string, aggregationTask) gomap"

definition NewIngesterWorker :: "MonitorConfig \<Rightarrow> DatasetConfig \<Rightarrow> IngesterWorker" where
  "NewIngesterWorker monitorConfig datasetConfig =
     \<lparr>iw_monitorConfig = monitorConfig, iw_datasetConfig = datasetConfig, iw_dirtyAggregationTasks = []\<rparr>"

definition normalizeAggregationDate :: "gotime \<Rightarrow> gotime" where
  "normalizeAggregationDate date = utcDayStart date"

definition aggregationTaskKey :: "string \<Rightarrow> gotime \<Rightarrow> string" where
  "aggregationTaskKey monitorID date = monitorID @ ''|'' @ format_date (normalizeAggregationDate date)"

definition aggregationSeedLookback :: "IngesterWorker \<Rightarrow> duration" where
  "aggregationSeedLookback w =
     (let days = RetentionDays (iw_datasetConfig w);
          days = (if days \<le> 0 then 30 else days)
      in wrap64 (wrap64 (days * 24) * hour))"

definition enqueueAggregationTask :: "string \<Rightarrow> gotime \<Rightarrow> IngesterWorker \<Rightarrow> IngesterWorker" where
  "enqueueAggregationTask monitorID date w =
     (let task = AggregationTask monitorID (normalizeAggregationDate date)
      in w\<lparr>iw_dirtyAggregationTasks :=
            AList.update (aggregationTaskKey (task_monitorID task) (task_date task)) task
              (iw_dirtyAggregationTasks w)\<rparr>)"

definition drainAggregationTasks :: "IngesterWorker \<Rightarrow> aggregationTask list \<times> IngesterWorker" where
  "drainAggregationTasks w =
     (if length (iw_dirtyAggregationTasks w) = 0 then ([], w)
      else (sort (map snd (iw_dirtyAggregationTasks w)), w\<lparr>iw_dirtyAggregationTasks := []\<rparr>))"

section \<open>Ingesting a submission\<close>

text \<open>\<open>INSERT ... ON CONFLICT DO NOTHING\<close>\<close>

definition insert_or_ignore :: "('r \<Rightarrow> 'k) \<Rightarrow> 'r \<Rightarrow> 'r list \<Rightarrow> 'r list" where
  "insert_or_ignore pk r rows = (if pk r \<in> set (map pk rows) then rows else rows @ [r])"

datatype success_expression = StatusCodeIn "int list" | SuccessColumn

definition buildSuccessCountExpression :: "Monitor \<Rightarrow> success_expression" where
  "buildSuccessCountExpression monitorConfig =
     (if EffectiveType monitorConfig = MonitorTypeHTTP
      then StatusCodeIn (http_ExpectedStatusCodes (EffectiveHTTP monitorConfig))
      else SuccessColumn)"

text \<open>The value of the expression on a row.\<close>

definition success_count :: "success_expression \<Rightarrow> MonitorHistorical \<Rightarrow> int" where
  "success_count e r =
     (case e of
        StatusCodeIn codes \<Rightarrow> if hist_StatusCode r \<in> set codes then 1 else 0
      | SuccessColumn \<Rightarrow> if hist_Success r then 1 else 0)"

definition determineHistoricalSuccess ::
    "IngesterWorker \<Rightarrow> string \<Rightarrow> string \<Rightarrow> CheckerSubmissionRequest \<Rightarrow> bool" where
  "determineHistoricalSuccess w monitorID probeType submission =
     (case findMonitor (iw_monitorConfig w) monitorID of
        Some monitorConfig \<Rightarrow> IsSuccessfulStatus monitorConfig (sub_StatusCode submission) (sub_Success submission)
      | None \<Rightarrow>
          if \<not> sub_Success submission \<and> (probeType = MonitorTypeHTTP \<or> probeType = [])
          then sub_StatusCode submission \<ge> 200 \<and> sub_StatusCode submission < 400
          else sub_Success submission)"

definition historical_key :: "MonitorHistorical \<Rightarrow> string \<times> string \<times> gotime" where
  "historical_key r = (hist_MonitorID r, hist_Region r, hist_CreatedAt r)"

definition historical_row :: "IngesterWorker \<Rightarrow> CheckerSubmissionRequest \<Rightarrow> string \<Rightarrow> MonitorHistorical" where
  "historical_row w submission region =
     (let probeType = (if sub_ProbeType submission = [] then MonitorTypeHTTP else sub_ProbeType submission);
          info = sub_TlsCertInfo submission;
          timings = sub_Timings submission
      in \<lparr>hist_MonitorID = sub_MonitorID submission, hist_Region = region, hist_ProbeType = probeType,
          hist_Success = determineHistoricalSuccess w (sub_MonitorID submission) probeType submission,
          hist_FailureReason = sub_FailureReason submission, hist_StatusCode = sub_StatusCode submission,
          hist_LatencyMs = sub_LatencyMs submission, hist_ResponseBody = sub_ResponseBody submission,
          hist_TlsVersion = sub_TlsVersion submission, hist_TlsCipher = sub_TlsCipher submission,
          hist_TlsExpiry = map_option timestamptz (sub_TlsExpiry submission),
          hist_TlsCertNotBefore = map_option timestamptz (tlsinfo_NotBefore info),
          hist_TlsCertIssuer = tlsinfo_Issuer info, hist_TlsCertSubject = tlsinfo_Subject info,
          hist_TlsCertDN = tlsinfo_DN info, hist_TlsCertFingerprint = tlsinfo_Fingerprint info,
          hist_TlsCertIsExpired = tlsinfo_IsExpired info,
          hist_TimingConnAcquiredMs = Some (ct_ConnAcquiredMs timings),
          hist_TimingFirstResponseByteMs = Some (ct_FirstResponseByteMs timings),
          hist_TimingDNSLookupStartMs = Some (ct_DNSLookupStartMs timings),
          hist_TimingDNSLookupDoneMs = Some (ct_DNSLookupDoneMs timings),
          hist_TimingTLSHandshakeStartMs = Some (ct_TLSHandshakeStartMs timings),
          hist_TimingTLSHandshakeDoneMs = Some (ct_TLSHandshakeDoneMs timings),
          hist_CreatedAt = timestamptz (sub_Timestamp submission)\<rparr>)"

text \<open>The calls of one message that may fail, with the error of each that does.\<close>

record ingest_faults =
  if_conn :: "string option"
  if_insert :: "string option"

text \<open>The part of \<open>ingestMonitorHistorical\<close> up to the statement's return, and the whole.\<close>

definition insert_historical ::
    "ingest_faults \<Rightarrow> IngesterWorker \<Rightarrow> CheckerSubmissionRequest \<Rightarrow> string \<Rightarrow> database \<Rightarrow> database result" where
  "insert_historical faults w submission region db =
     bind_result (attempt (if_conn faults) ''getting db connection'' (Inr ())) (\<lambda>_.
       attempt (if_insert faults) ''inserting monitor historical''
         (Inr (db\<lparr>tbl_historical := insert_or_ignore historical_key (historical_row w submission region)
                    (tbl_historical db)\<rparr>)))"

definition ingestMonitorHistorical ::
    "ingest_faults \<Rightarrow> CheckerSubmissionRequest \<Rightarrow> string \<Rightarrow> IngesterWorker \<Rightarrow> database \<Rightarrow>
       string option \<times> IngesterWorker \<times> database" where
  "ingestMonitorHistorical faults submission region w db =
     (case insert_historical faults w submission region db of
        Inl e \<Rightarrow> (Some e, w, db)
      | Inr db' \<Rightarrow>
          (None, enqueueAggregationTask (sub_MonitorID submission) (sub_Timestamp submission) w, db'))"

definition message_region :: "'a queue_message \<Rightarrow> string" where
  "message_region message =
     (case map_of (msg_metadata message) ''region'' of Some r \<Rightarrow> r | None \<Rightarrow> ''default'')"

definition ingest_message ::
    "ingest_faults \<Rightarrow> CheckerSubmissionRequest queue_message \<Rightarrow> IngesterWorker \<Rightarrow> database \<Rightarrow>
       ack \<times> IngesterWorker \<times> database" where
  "ingest_message faults message w db =
     (case msg_body message of
        None \<Rightarrow> (nack_or_ack message, w, db)
      | Some request \<Rightarrow>
          (case ingestMonitorHistorical faults request (message_region message) w db of
             (Some e, w, db) \<Rightarrow> (nack_or_ack message, w, db)
           | (None, w, db) \<Rightarrow> (Ack, w, db)))"

section \<open>Aggregating\<close>

text \<open>One row per group; a group is never empty.\<close>

definition avg_latency :: "(rat \<Rightarrow> int) \<Rightarrow> MonitorHistorical list \<Rightarrow> int" where
  "avg_latency sql_int rs =
     sql_int (f64_div (f64_of_int (sum_list (map hist_LatencyMs rs))) (f64_of_int (int (length rs))))"

definition success_rate :: "(rat \<Rightarrow> int) \<Rightarrow> success_expression \<Rightarrow> MonitorHistorical list \<Rightarrow> int" where
  "success_rate sql_int e rs =
     sql_int (f64_div (f64_of_int (sum_list (map (success_count e) rs) * 100)) (f64_of_int (int (length rs))))"

definition daily_row ::
    "(rat \<Rightarrow> int) \<Rightarrow> success_expression \<Rightarrow> string \<Rightarrow> int \<Rightarrow> MonitorHistorical list \<Rightarrow>
       MonitorHistoricalDailyAggregate" where
  "daily_row sql_int e monitorID date rs =
     \<lparr>daily_MonitorID = monitorID, daily_Date = date, daily_AvgLatencyMs = avg_latency sql_int rs,
      daily_MinLatencyMs = Min (set (map hist_LatencyMs rs)), daily_MaxLatencyMs = Max (set (map hist_LatencyMs rs)),
      daily_SuccessRate = success_rate sql_int e rs\<rparr>"

definition region_row ::
    "(rat \<Rightarrow> int) \<Rightarrow> success_expression \<Rightarrow> string \<Rightarrow> string \<Rightarrow> int \<Rightarrow> MonitorHistorical list \<Rightarrow>
       MonitorHistoricalRegionDailyAggregate" where
  "region_row sql_int e monitorID region date rs =
     \<lparr>region_MonitorID = monitorID, region_Region = region, region_Date = date,
      region_AvgLatencyMs = avg_latency sql_int rs,
      region_MinLatencyMs = Min (set (map hist_LatencyMs rs)), region_MaxLatencyMs = Max (set (map hist_LatencyMs rs)),
      region_SuccessRate = success_rate sql_int e rs\<rparr>"

definition daily_key :: "MonitorHistoricalDailyAggregate \<Rightarrow> string \<times> int" where
  "daily_key r = (daily_MonitorID r, daily_Date r)"

definition region_key :: "MonitorHistoricalRegionDailyAggregate \<Rightarrow> string \<times> string \<times> int" where
  "region_key r = (region_MonitorID r, region_Region r, region_Date r)"

text \<open>The rows of a monitor on a date.\<close>

definition day_rows :: "(gotime \<Rightarrow> int) \<Rightarrow> string \<Rightarrow> int \<Rightarrow> MonitorHistorical list \<Rightarrow> MonitorHistorical list" where
  "day_rows sql_date monitorID date rs =
     filter (\<lambda>r. hist_MonitorID r = monitorID \<and> sql_date (hist_CreatedAt r) = date) rs"

record aggregate_faults =
  af_conn :: "string option"
  af_daily :: "string option"
  af_region :: "string option"

definition upsert_daily ::
    "(gotime \<Rightarrow> int) \<Rightarrow> (rat \<Rightarrow> int) \<Rightarrow> success_expression \<Rightarrow> string \<Rightarrow> int \<Rightarrow> database \<Rightarrow> database" where
  "upsert_daily sql_date sql_int e monitorID date db =
     (let rs = day_rows sql_date monitorID date (tbl_historical db)
      in if rs = [] then db
         else db\<lparr>tbl_daily := upsert_row daily_key (daily_row sql_int e monitorID date rs) (tbl_daily db)\<rparr>)"

definition upsert_regions ::
    "(gotime \<Rightarrow> int) \<Rightarrow> (rat \<Rightarrow> int) \<Rightarrow> success_expression \<Rightarrow> string \<Rightarrow> int \<Rightarrow> database \<Rightarrow> database" where
  "upsert_regions sql_date sql_int e monitorID date db =
     db\<lparr>tbl_region_daily :=
         foldl (\<lambda>t (region, rs). upsert_row region_key (region_row sql_int e monitorID region date rs) t)
           (tbl_region_daily db)
           (group_by hist_Region (day_rows sql_date monitorID date (tbl_historical db)))\<rparr>"

text \<open>
  The aggregation of a day is two statements, each its own transaction: up to the upsert of the daily aggregate,
  which hands on the expression of the successes or returns, and the upsert of the regions.
\<close>

definition aggregate_daily ::
    "(gotime \<Rightarrow> int) \<Rightarrow> (rat \<Rightarrow> int) \<Rightarrow> aggregate_faults \<Rightarrow> MonitorConfig \<Rightarrow> string \<Rightarrow> gotime \<Rightarrow> database \<Rightarrow>
       (string option + success_expression) \<times> database" where
  "aggregate_daily sql_date sql_int faults monitors monitorID date db =
     (case findMonitor monitors monitorID of
        None \<Rightarrow> (Inl None, db)
      | Some monitorConfig \<Rightarrow>
          (case af_conn faults of
             Some e \<Rightarrow> (Inl (Some (''getting db connection: '' @ e)), db)
           | None \<Rightarrow>
               (let e = buildSuccessCountExpression monitorConfig in
                case af_daily faults of
                  Some err \<Rightarrow> (Inl (Some (''upserting daily aggregate monitor historical: '' @ err)), db)
                | None \<Rightarrow> (Inr e, upsert_daily sql_date sql_int e monitorID (utc_date date) db))))"

definition aggregate_regions ::
    "(gotime \<Rightarrow> int) \<Rightarrow> (rat \<Rightarrow> int) \<Rightarrow> aggregate_faults \<Rightarrow> success_expression \<Rightarrow> string \<Rightarrow> gotime \<Rightarrow> database \<Rightarrow>
       string option \<times> database" where
  "aggregate_regions sql_date sql_int faults e monitorID date db =
     (case af_region faults of
        Some err \<Rightarrow> (Some (''upserting region daily aggregate monitor historical: '' @ err), db)
      | None \<Rightarrow> (None, upsert_regions sql_date sql_int e monitorID (utc_date date) db))"

definition aggregateDailyMonitorHistorical ::
    "(gotime \<Rightarrow> int) \<Rightarrow> (rat \<Rightarrow> int) \<Rightarrow> aggregate_faults \<Rightarrow> MonitorConfig \<Rightarrow> string \<Rightarrow> gotime \<Rightarrow> database \<Rightarrow>
       string option \<times> database" where
  "aggregateDailyMonitorHistorical sql_date sql_int faults monitors monitorID date db =
     (case aggregate_daily sql_date sql_int faults monitors monitorID date db of
        (Inl r, db) \<Rightarrow> (r, db)
      | (Inr e, db) \<Rightarrow> aggregate_regions sql_date sql_int faults e monitorID date db)"

lemmas aggregation_defs = aggregateDailyMonitorHistorical_def aggregate_daily_def aggregate_regions_def

text \<open>One task of the loop of \<open>aggregateDirtyMonitors\<close>, which marks the day again on an error, and the loop.\<close>

definition settle_task :: "aggregationTask \<Rightarrow> string option \<Rightarrow> IngesterWorker \<Rightarrow> IngesterWorker" where
  "settle_task task err w =
     (case err of
        Some e \<Rightarrow> enqueueAggregationTask (task_monitorID task) (task_date task) w
      | None \<Rightarrow> w)"

definition aggregate_task ::
    "(gotime \<Rightarrow> int) \<Rightarrow> (rat \<Rightarrow> int) \<Rightarrow> (aggregationTask \<Rightarrow> aggregate_faults) \<Rightarrow> aggregationTask \<Rightarrow>
       IngesterWorker \<times> database \<Rightarrow> IngesterWorker \<times> database" where
  "aggregate_task sql_date sql_int faults task s =
     (case s of (w, db) \<Rightarrow>
        (case aggregateDailyMonitorHistorical sql_date sql_int (faults task) (iw_monitorConfig w)
                (task_monitorID task) (task_date task) db of
           (err, db) \<Rightarrow> (settle_task task err w, db)))"

definition aggregateDirtyMonitors ::
    "(gotime \<Rightarrow> int) \<Rightarrow> (rat \<Rightarrow> int) \<Rightarrow> (aggregationTask \<Rightarrow> aggregate_faults) \<Rightarrow>
       IngesterWorker \<times> database \<Rightarrow> IngesterWorker \<times> database" where
  "aggregateDirtyMonitors sql_date sql_int faults s =
     (case s of (w, db) \<Rightarrow>
        (case drainAggregationTasks w of (tasks, w) \<Rightarrow>
           foldl (\<lambda>s task. aggregate_task sql_date sql_int faults task s) (w, db) tasks))"

section \<open>Seeding\<close>

definition parseAggregationDate :: "string \<Rightarrow> gotime result" where
  "parseAggregationDate raw =
     (let trimmed = trim_space raw in
      case parse_date trimmed of
        Some c \<Rightarrow> Inr (day_of_civil c * day)
      | None \<Rightarrow>
          (case parse_rfc3339_date trimmed of
             Some c \<Rightarrow> Inr (day_of_civil c * day)
           | None \<Rightarrow> Inl ''unsupported aggregation date format''))"

text \<open>
  The rows of the seed's query: the driver hands a date back as a time, and the scan into a string
  writes it in RFC 3339. \<open>sd_scan\<close> names the rows that fail to scan.
\<close>

record seed_faults =
  sd_conn :: "string option"
  sd_query :: "string option"
  sd_scan :: "string \<times> string \<Rightarrow> bool"

definition seed_query :: "(gotime \<Rightarrow> int) \<Rightarrow> gotime \<Rightarrow> database \<Rightarrow> (string \<times> string) list" where
  "seed_query sql_date since db =
     dedup_from [] (map (\<lambda>r. (hist_MonitorID r, format_rfc3339 (sql_date (hist_CreatedAt r) * day)))
       (filter (\<lambda>r. timestamptz since \<le> hist_CreatedAt r) (tbl_historical db)))"

definition seed_row :: "seed_faults \<Rightarrow> IngesterWorker \<Rightarrow> string \<times> string \<Rightarrow> IngesterWorker" where
  "seed_row faults w row =
     (if sd_scan faults row then w
      else case parseAggregationDate (snd row) of
             Inl e \<Rightarrow> w
           | Inr date \<Rightarrow> enqueueAggregationTask (fst row) date w)"

definition seedRecentAggregationTasks ::
    "(gotime \<Rightarrow> int) \<Rightarrow> seed_faults \<Rightarrow> gotime \<Rightarrow> duration \<Rightarrow> database \<Rightarrow> IngesterWorker \<Rightarrow> IngesterWorker" where
  "seedRecentAggregationTasks sql_date faults now lookback db w =
     (if sd_conn faults \<noteq> None \<or> sd_query faults \<noteq> None then w
      else foldl (seed_row faults) w (seed_query sql_date (now - lookback) db))"

section \<open>The set of dirty days\<close>

text \<open>
  The interface between the two halves of the worker, and what follows from it for a cache of
  derived data: keys are marked when their source changes, all marked keys are taken at once, and
  a refreshed key is marked again when the refresh failed.
\<close>

locale dirty_set =
  fixes mark :: "'k \<Rightarrow> 'q \<Rightarrow> 'q"
    and take_all :: "'q \<Rightarrow> 'k list \<times> 'q"
    and pending :: "'q \<Rightarrow> 'k set"
    and invar :: "'q \<Rightarrow> bool"
    and markable :: "'k \<Rightarrow> bool"
  assumes pending_mark: "invar q \<Longrightarrow> markable k \<Longrightarrow> pending (mark k q) = insert k (pending q)"
    and invar_mark: "invar q \<Longrightarrow> markable k \<Longrightarrow> invar (mark k q)"
    and take_all: "invar q \<Longrightarrow> take_all q = (ks, q') \<Longrightarrow>
      set ks = pending q \<and> distinct ks \<and> pending q' = {} \<and> invar q' \<and> list_all markable ks"

text \<open>Every stale key is pending, or among the others that somebody holds.\<close>

definition tracked ::
    "('q \<Rightarrow> 'k set) \<Rightarrow> ('q \<Rightarrow> bool) \<Rightarrow> ('k \<Rightarrow> 's \<Rightarrow> bool) \<Rightarrow> 'q \<Rightarrow> 'k set \<Rightarrow> 's \<Rightarrow> bool" where
  "tracked pending invar stale q others s = (invar q \<and> (\<forall>k. stale k s \<longrightarrow> k \<in> pending q \<union> others))"

locale dirty_tracking = dirty_set mark take_all pending invar markable
  for mark :: "'k \<Rightarrow> 'q \<Rightarrow> 'q" and take_all pending invar markable +
  fixes stale :: "'k \<Rightarrow> 's \<Rightarrow> bool"
    and refresh :: "'k \<Rightarrow> 's \<Rightarrow> bool \<times> 's \<Rightarrow> bool"
  assumes refresh_done: "refresh k s (True, s') \<Longrightarrow> \<not> stale k s'"
    and refresh_only: "refresh k s (ok, s') \<Longrightarrow> stale l s' \<Longrightarrow> stale l s"
begin

lemma tracked_mark:
  "tracked pending invar stale q (insert k others) s \<Longrightarrow> markable k \<Longrightarrow>
     tracked pending invar stale (mark k q) others s"
  by (auto simp: tracked_def pending_mark invar_mark)

lemma tracked_take_all:
  "tracked pending invar stale q others s \<Longrightarrow> take_all q = (ks, q') \<Longrightarrow>
     tracked pending invar stale q' (set ks \<union> others) s"
  using take_all [of q ks q'] by (auto simp: tracked_def)

lemma tracked_refresh:
  assumes "tracked pending invar stale q (insert k others) s" and "markable k" and "refresh k s (ok, s')"
  shows "tracked pending invar stale (if ok then q else mark k q) others s'"
  using assms refresh_done [of k s s'] refresh_only [OF assms(3)]
  by (cases ok) (auto simp: tracked_def pending_mark invar_mark)

lemma tracked_change:
  "tracked pending invar stale q others s \<Longrightarrow> (\<And>l. stale l s' \<Longrightarrow> l = k \<or> stale l s) \<Longrightarrow>
     tracked pending invar stale q (insert k others) s'"
  by (auto simp: tracked_def)

end

subsection \<open>The worker's map of tasks\<close>

definition task_ok :: "aggregationTask \<Rightarrow> bool" where
  "task_ok t = (normalizeAggregationDate (task_date t) = task_date t \<and> in_calendar (task_date t))"

definition mark_task :: "aggregationTask \<Rightarrow> IngesterWorker \<Rightarrow> IngesterWorker" where
  "mark_task t w = enqueueAggregationTask (task_monitorID t) (task_date t) w"

definition pending_tasks :: "IngesterWorker \<Rightarrow> aggregationTask set" where
  "pending_tasks w = snd ` set (iw_dirtyAggregationTasks w)"

definition task_key :: "aggregationTask \<Rightarrow> string" where
  "task_key t = aggregationTaskKey (task_monitorID t) (task_date t)"

definition tasks_ok :: "IngesterWorker \<Rightarrow> bool" where
  "tasks_ok w =
     (gm_wf (iw_dirtyAggregationTasks w) \<and>
      (\<forall>(k, t) \<in> set (iw_dirtyAggregationTasks w). k = task_key t \<and> task_ok t))"

text \<open>The key of a task tells its monitor and day apart: the date takes the last ten bytes.\<close>

lemma aggregationTaskKey_inj:
  assumes "in_calendar t" and "in_calendar u"
  shows "aggregationTaskKey m t = aggregationTaskKey n u \<longleftrightarrow> m = n \<and> utc_date t = utc_date u"
proof -
  have "aggregationTaskKey m t = aggregationTaskKey n u \<longleftrightarrow>
      m = n \<and> format_date (utcDayStart t) = format_date (utcDayStart u)"
    by (simp add: aggregationTaskKey_def normalizeAggregationDate_def)
  then show ?thesis
    using format_date_inj [of "utcDayStart t" "utcDayStart u"] assms by (simp add: in_calendar_def)
qed

lemma task_ok_eq: "task_ok t \<Longrightarrow> utcDayStart (task_date t) = task_date t"
  by (simp add: task_ok_def normalizeAggregationDate_def)

lemma task_key_inj: "task_ok s \<Longrightarrow> task_ok t \<Longrightarrow> task_key s = task_key t \<longleftrightarrow> s = t"
proof -
  assume ok: "task_ok s" "task_ok t"
  have "utc_date (task_date s) = utc_date (task_date t) \<longleftrightarrow> task_date s = task_date t"
    using task_ok_eq [OF ok(1)] task_ok_eq [OF ok(2)] by (metis utcDayStart_eq)
  then show "task_key s = task_key t \<longleftrightarrow> s = t"
    using ok aggregationTaskKey_inj [of "task_date s" "task_date t" "task_monitorID s" "task_monitorID t"]
    unfolding task_key_def task_ok_def by (metis aggregationTask.expand)
qed

lemma mark_task_eq:
  "task_ok t \<Longrightarrow> mark_task t w =
     w\<lparr>iw_dirtyAggregationTasks := AList.update (task_key t) t (iw_dirtyAggregationTasks w)\<rparr>"
  by (simp add: mark_task_def enqueueAggregationTask_def task_ok_def task_key_def)

lemma pending_tasks_lookup:
  "tasks_ok w \<Longrightarrow> t \<in> pending_tasks w \<longleftrightarrow> task_ok t \<and> map_of (iw_dirtyAggregationTasks w) (task_key t) = Some t"
  unfolding tasks_ok_def pending_tasks_def
  by (force simp: gm_wf_map_of [symmetric])

lemma tasks_ok_mark:
  assumes "tasks_ok w" and "task_ok t"
  shows "tasks_ok (mark_task t w)"
proof -
  have "set (AList.update (task_key t) t (iw_dirtyAggregationTasks w)) \<subseteq>
      insert (task_key t, t) (set (iw_dirtyAggregationTasks w))"
    by (rule set_update_subset)
  then show ?thesis
    using assms by (auto simp: tasks_ok_def mark_task_eq)
qed

lemma pending_mark_task:
  assumes "tasks_ok w" and "task_ok t"
  shows "pending_tasks (mark_task t w) = insert t (pending_tasks w)"
proof -
  have "s \<in> pending_tasks (mark_task t w) \<longleftrightarrow> s = t \<or> s \<in> pending_tasks w" for s
    unfolding pending_tasks_lookup [OF assms(1)] pending_tasks_lookup [OF tasks_ok_mark [OF assms]]
    using assms(2) task_key_inj [of s t] by (auto simp: mark_task_eq update_conv')
  then show ?thesis by blast
qed

lemma drain_tasks:
  assumes "tasks_ok w" and "drainAggregationTasks w = (ks, w')"
  shows "set ks = pending_tasks w \<and> distinct ks \<and> pending_tasks w' = {} \<and> tasks_ok w' \<and> list_all task_ok ks"
    and "sorted ks"
proof -
  have "distinct (map snd (iw_dirtyAggregationTasks w))"
    unfolding distinct_map
  proof
    show "distinct (iw_dirtyAggregationTasks w)"
      using assms(1) by (simp add: tasks_ok_def gm_wf_def distinct_map)
    have "p = (task_key (snd p), snd p)" if "p \<in> set (iw_dirtyAggregationTasks w)" for p
      using assms(1) that by (auto simp: tasks_ok_def)
    then show "inj_on snd (set (iw_dirtyAggregationTasks w))"
      by (metis inj_onI)
  qed
  then show "set ks = pending_tasks w \<and> distinct ks \<and> pending_tasks w' = {} \<and> tasks_ok w' \<and> list_all task_ok ks"
    using assms by (auto simp: drainAggregationTasks_def pending_tasks_def tasks_ok_def list_all_iff split: if_splits) (force)+
  show "sorted ks"
    using assms(2) by (auto simp: drainAggregationTasks_def split: if_splits)
qed

interpretation dirty_days: dirty_set mark_task drainAggregationTasks pending_tasks tasks_ok task_ok
  by unfold_locales (auto simp: pending_mark_task tasks_ok_mark drain_tasks)

section \<open>Fresh aggregates\<close>

lemma success_count_agrees:
  "success_count (buildSuccessCountExpression cfg) r =
     (if IsSuccessfulStatus cfg (hist_StatusCode r) (hist_Success r) then 1 else 0)"
  by (simp add: buildSuccessCountExpression_def success_count_def IsSuccessfulStatus_def)

text \<open>The aggregates of a monitor's day hold what its raw rows sum up to.\<close>

definition daily_fresh :: "(rat \<Rightarrow> int) \<Rightarrow> success_expression \<Rightarrow> string \<Rightarrow> int \<Rightarrow> database \<Rightarrow> bool" where
  "daily_fresh sql_int e m d db =
     (List.find (\<lambda>r. daily_key r = (m, d)) (tbl_daily db) =
        Some (daily_row sql_int e m d (day_rows utc_date m d (tbl_historical db))))"

definition regions_fresh :: "(rat \<Rightarrow> int) \<Rightarrow> success_expression \<Rightarrow> string \<Rightarrow> int \<Rightarrow> database \<Rightarrow> bool" where
  "regions_fresh sql_int e m d db =
     (\<forall>(region, rs) \<in> set (group_by hist_Region (day_rows utc_date m d (tbl_historical db))).
        List.find (\<lambda>r. region_key r = (m, region, d)) (tbl_region_daily db) =
          Some (region_row sql_int e m region d rs))"

definition day_stale :: "(rat \<Rightarrow> int) \<Rightarrow> MonitorConfig \<Rightarrow> aggregationTask \<Rightarrow> database \<Rightarrow> bool" where
  "day_stale sql_int monitors t db =
     (case findMonitor monitors (task_monitorID t) of
        None \<Rightarrow> False
      | Some cfg \<Rightarrow>
          (let e = buildSuccessCountExpression cfg; m = task_monitorID t; d = utc_date (task_date t)
           in task_ok t \<and> day_rows utc_date m d (tbl_historical db) \<noteq> [] \<and>
              \<not> (daily_fresh sql_int e m d db \<and> regions_fresh sql_int e m d db)))"

lemma find_fold_upsert:
  assumes "distinct (map fst kvs)" and "\<And>k v. (k, v) \<in> set kvs \<Longrightarrow> pk (f k v) = g k" and "inj g"
  shows "List.find (\<lambda>r. pk r = g k) (foldl (\<lambda>t (k, v). upsert_row pk (f k v) t) t kvs) =
     (case map_of kvs k of Some v \<Rightarrow> Some (f k v) | None \<Rightarrow> List.find (\<lambda>r. pk r = g k) t)"
  using assms(1,2)
proof (induction kvs arbitrary: t)
  case Nil
  then show ?case by simp
next
  case (Cons kv kvs)
  obtain a v where kv: "kv = (a, v)" by fastforce
  have pk: "pk (f a v) = g a"
    using Cons.prems(2) kv by simp
  have IH: "List.find (\<lambda>r. pk r = g k) (foldl (\<lambda>t (k, v). upsert_row pk (f k v) t) (upsert_row pk (f a v) t) kvs) =
      (case map_of kvs k of Some v \<Rightarrow> Some (f k v) | None \<Rightarrow> List.find (\<lambda>r. pk r = g k) (upsert_row pk (f a v) t))"
    using Cons.prems by (intro Cons.IH) auto
  have "map_of kvs a = None"
    using Cons.prems(1) kv by (simp add: map_of_eq_None_iff)
  then show ?case
    using IH pk injD [OF assms(3), of k a] by (auto simp: kv upsert_row_find split: option.split)
qed

lemma find_fold_upsert_other:
  assumes "\<And>k v. (k, v) \<in> set kvs \<Longrightarrow> pk (f k v) \<noteq> x"
  shows "List.find (\<lambda>r. pk r = x) (foldl (\<lambda>t (k, v). upsert_row pk (f k v) t) t kvs) = List.find (\<lambda>r. pk r = x) t"
  using assms
proof (induction kvs arbitrary: t)
  case (Cons kv kvs)
  obtain a v where kv: "kv = (a, v)" by fastforce
  have "x \<noteq> pk (f a v)"
    using Cons.prems [of a v] kv by auto
  then have "List.find (\<lambda>r. pk r = x) (upsert_row pk (f a v) t) = List.find (\<lambda>r. pk r = x) t"
    by (simp add: upsert_row_find)
  then show ?case
    using Cons.IH [of "upsert_row pk (f a v) t"] Cons.prems by (simp add: kv)
qed simp

lemma row_keys [simp]:
  "daily_key (daily_row si e m d rs) = (m, d)" "region_key (region_row si e m r d rs) = (m, r, d)"
  by (simp_all add: daily_key_def daily_row_def region_key_def region_row_def)

lemma upsert_tables [simp]:
  "tbl_historical (upsert_daily sd si e m d db) = tbl_historical db"
  "tbl_region_daily (upsert_daily sd si e m d db) = tbl_region_daily db"
  "tbl_historical (upsert_regions sd si e m d db) = tbl_historical db"
  "tbl_daily (upsert_regions sd si e m d db) = tbl_daily db"
  by (simp_all add: upsert_daily_def upsert_regions_def Let_def)

lemma upsert_daily_fresh:
  "day_rows utc_date m d (tbl_historical db) \<noteq> [] \<Longrightarrow> daily_fresh si e m d (upsert_daily utc_date si e m d db)"
  by (simp add: daily_fresh_def upsert_daily_def Let_def upsert_row_find)

lemma upsert_daily_other:
  "(m', d') \<noteq> (m, d) \<Longrightarrow> daily_fresh si e' m' d' (upsert_daily utc_date si e m d db) = daily_fresh si e' m' d' db"
  by (auto simp: daily_fresh_def upsert_daily_def Let_def upsert_row_find)

lemma upsert_regions_fresh: "regions_fresh si e m d (upsert_regions utc_date si e m d db)"
proof -
  let ?rs = "day_rows utc_date m d (tbl_historical db)"
  let ?g = "group_by hist_Region ?rs"
  have "List.find (\<lambda>r. region_key r = (m, region, d)) (tbl_region_daily (upsert_regions utc_date si e m d db)) =
      Some (region_row si e m region d rs)" if "(region, rs) \<in> set ?g" for region rs
  proof -
    have "map_of ?g region = Some rs"
      using that by (simp add: gm_wf_map_of [symmetric])
    then show ?thesis
      using find_fold_upsert [of ?g region_key "\<lambda>region rs. region_row si e m region d rs" "\<lambda>region. (m, region, d)" region
          "tbl_region_daily db"] group_by_wf [of hist_Region ?rs]
      by (simp add: upsert_regions_def inj_def gm_wf_def)
  qed
  then show ?thesis
    by (auto simp: regions_fresh_def)
qed

lemma upsert_regions_other:
  assumes "(m', d') \<noteq> (m, d)"
  shows "regions_fresh si e' m' d' (upsert_regions utc_date si e m d db) = regions_fresh si e' m' d' db"
proof -
  have "List.find (\<lambda>r. region_key r = (m', region, d')) (tbl_region_daily (upsert_regions utc_date si e m d db)) =
      List.find (\<lambda>r. region_key r = (m', region, d')) (tbl_region_daily db)" for region
    unfolding upsert_regions_def
    using assms by (auto simp: find_fold_upsert_other)
  then show ?thesis
    by (simp add: regions_fresh_def)
qed

lemma fresh_frame [simp]:
  "daily_fresh si e m d (upsert_regions utc_date si e' m' d' db) = daily_fresh si e m d db"
  "regions_fresh si e m d (upsert_daily utc_date si e' m' d' db) = regions_fresh si e m d db"
  by (simp_all add: daily_fresh_def regions_fresh_def)

lemma day_stale_iff:
  "day_stale si monitors t db \<longleftrightarrow>
     (\<exists>cfg. findMonitor monitors (task_monitorID t) = Some cfg \<and> task_ok t \<and>
        day_rows utc_date (task_monitorID t) (utc_date (task_date t)) (tbl_historical db) \<noteq> [] \<and>
        \<not> (daily_fresh si (buildSuccessCountExpression cfg) (task_monitorID t) (utc_date (task_date t)) db \<and>
           regions_fresh si (buildSuccessCountExpression cfg) (task_monitorID t) (utc_date (task_date t)) db))"
  by (auto simp: day_stale_def Let_def split: option.split)

definition aggregates ::
    "(rat \<Rightarrow> int) \<Rightarrow> MonitorConfig \<Rightarrow> aggregationTask \<Rightarrow> database \<Rightarrow> bool \<times> database \<Rightarrow> bool" where
  "aggregates si monitors t db r =
     (\<exists>faults err. aggregateDailyMonitorHistorical utc_date si faults monitors (task_monitorID t) (task_date t) db =
        (err, snd r) \<and> fst r = (err = None))"

lemma upserts_keep_fresh:
  assumes "findMonitor monitors (task_monitorID t) = Some cfg"
    and "day_stale si monitors l (upsert_daily utc_date si (buildSuccessCountExpression cfg) (task_monitorID t) d db) \<or>
      day_stale si monitors l (upsert_regions utc_date si (buildSuccessCountExpression cfg) (task_monitorID t) d db)"
  shows "day_stale si monitors l db"
proof (cases "(task_monitorID l, utc_date (task_date l)) = (task_monitorID t, d)")
  case True
  then show ?thesis
    using assms upsert_daily_fresh upsert_regions_fresh by (auto simp: day_stale_iff)
next
  case False
  then show ?thesis
    using assms(2) upsert_daily_other [OF False] upsert_regions_other [OF False] by (auto simp: day_stale_iff)
qed

interpretation days: dirty_tracking mark_task drainAggregationTasks pending_tasks tasks_ok task_ok
  "day_stale si monitors" "aggregates si monitors"
proof
  show "\<not> day_stale si monitors k s'" if "aggregates si monitors k s (True, s')" for k s s'
  proof
    assume stale: "day_stale si monitors k s'"
    then obtain cfg where cfg: "findMonitor monitors (task_monitorID k) = Some cfg"
      by (auto simp: day_stale_iff)
    then have "s' = upsert_regions utc_date si (buildSuccessCountExpression cfg) (task_monitorID k) (utc_date (task_date k))
        (upsert_daily utc_date si (buildSuccessCountExpression cfg) (task_monitorID k) (utc_date (task_date k)) s)"
      using that by (auto simp: aggregates_def aggregation_defs Let_def split: option.splits)
    then show False
      using stale cfg upsert_daily_fresh upsert_regions_fresh by (auto simp: day_stale_iff)
  qed
  show "day_stale si monitors l s" if "aggregates si monitors k s (ok, s')" and "day_stale si monitors l s'" for k s ok s' l
  proof (cases "findMonitor monitors (task_monitorID k)")
    case None
    then show ?thesis
      using that by (auto simp: aggregates_def aggregation_defs)
  next
    case (Some cfg)
    let ?e = "buildSuccessCountExpression cfg" and ?d = "utc_date (task_date k)"
    let ?s1 = "upsert_daily utc_date si ?e (task_monitorID k) ?d s"
    have "s' = s \<or> s' = ?s1 \<or> s' = upsert_regions utc_date si ?e (task_monitorID k) ?d ?s1"
      using that(1) Some
      by (auto simp: aggregates_def aggregation_defs Let_def split: option.splits)
    then show ?thesis
      using upserts_keep_fresh [OF Some, of si l ?d] that(2) by blast
  qed
qed

section \<open>The worker as a whole\<close>

text \<open>
  The two goroutines: the receive loop inserts and then marks, the periodic run drains and then
  takes the tasks one by one, each in two statements; in between, the other one may act. \<open>ing_half\<close> is the
  expression of the successes while the first task of the running ones is between its statements.
\<close>

record ingester =
  ing_worker :: IngesterWorker
  ing_db :: database
  ing_running :: "aggregationTask list"
  ing_inserted :: "(string \<times> gotime) option"
  ing_half :: "success_expression option"

definition ingester_start :: "MonitorConfig \<Rightarrow> DatasetConfig \<Rightarrow> ingester" where
  "ingester_start monitors cfg =
     \<lparr>ing_worker = NewIngesterWorker monitors cfg, ing_db = empty_db, ing_running = [], ing_inserted = None,
      ing_half = None\<rparr>"

inductive ingester_step :: "(gotime \<Rightarrow> int) \<Rightarrow> (rat \<Rightarrow> int) \<Rightarrow> ingester \<Rightarrow> ingester \<Rightarrow> bool"
  for sql_date sql_int where
  insert: "ing_inserted s = None \<Longrightarrow> in_calendar (sub_Timestamp sub) \<Longrightarrow>
    insert_historical faults (ing_worker s) sub region (ing_db s) = Inr db \<Longrightarrow>
    ingester_step sql_date sql_int s (s\<lparr>ing_db := db, ing_inserted := Some (sub_MonitorID sub, sub_Timestamp sub)\<rparr>)"
| mark: "ing_inserted s = Some (m, t) \<Longrightarrow>
    ingester_step sql_date sql_int s (s\<lparr>ing_worker := enqueueAggregationTask m t (ing_worker s), ing_inserted := None\<rparr>)"
| drain: "ing_running s = [] \<Longrightarrow> drainAggregationTasks (ing_worker s) = (tasks, w) \<Longrightarrow>
    ingester_step sql_date sql_int s (s\<lparr>ing_worker := w, ing_running := tasks\<rparr>)"
| daily_returns: "ing_half s = None \<Longrightarrow> ing_running s = task # tasks \<Longrightarrow>
    aggregate_daily sql_date sql_int faults (iw_monitorConfig (ing_worker s)) (task_monitorID task) (task_date task)
      (ing_db s) = (Inl err, db) \<Longrightarrow>
    ingester_step sql_date sql_int s (s\<lparr>ing_worker := settle_task task err (ing_worker s), ing_db := db, ing_running := tasks\<rparr>)"
| daily: "ing_half s = None \<Longrightarrow> ing_running s = task # tasks \<Longrightarrow>
    aggregate_daily sql_date sql_int faults (iw_monitorConfig (ing_worker s)) (task_monitorID task) (task_date task)
      (ing_db s) = (Inr e, db) \<Longrightarrow>
    ingester_step sql_date sql_int s (s\<lparr>ing_db := db, ing_half := Some e\<rparr>)"
| regions: "ing_half s = Some e \<Longrightarrow> ing_running s = task # tasks \<Longrightarrow>
    aggregate_regions sql_date sql_int faults e (task_monitorID task) (task_date task) (ing_db s) = (err, db) \<Longrightarrow>
    ingester_step sql_date sql_int s (s\<lparr>ing_worker := settle_task task err (ing_worker s), ing_db := db, ing_running := tasks,
      ing_half := None\<rparr>)"

definition inserted_tasks :: "ingester \<Rightarrow> aggregationTask set" where
  "inserted_tasks s =
     (case ing_inserted s of None \<Rightarrow> {} | Some (m, t) \<Rightarrow> {AggregationTask m (normalizeAggregationDate t)})"

text \<open>Between the statements of a task the daily aggregate is fresh, or the day is to be aggregated again.\<close>

definition half_done :: "(rat \<Rightarrow> int) \<Rightarrow> MonitorConfig \<Rightarrow> ingester \<Rightarrow> bool" where
  "half_done si monitors s =
     (case ing_half s of
        None \<Rightarrow> True
      | Some e \<Rightarrow>
          (case ing_running s of
             [] \<Rightarrow> False
           | task # tasks \<Rightarrow>
               map_option buildSuccessCountExpression (findMonitor monitors (task_monitorID task)) = Some e \<and>
               (day_rows utc_date (task_monitorID task) (utc_date (task_date task)) (tbl_historical (ing_db s)) = [] \<or>
                daily_fresh si e (task_monitorID task) (utc_date (task_date task)) (ing_db s) \<or>
                task \<in> pending_tasks (ing_worker s) \<union> inserted_tasks s)))"

definition ingester_ok :: "(rat \<Rightarrow> int) \<Rightarrow> MonitorConfig \<Rightarrow> ingester \<Rightarrow> bool" where
  "ingester_ok si monitors s =
     (iw_monitorConfig (ing_worker s) = monitors \<and> list_all task_ok (ing_running s) \<and>
      Ball (inserted_tasks s) task_ok \<and> half_done si monitors s \<and>
      tracked pending_tasks tasks_ok (day_stale si monitors) (ing_worker s)
        (inserted_tasks s \<union> set (ing_running s)) (ing_db s))"

lemma utc_date_timestamptz [simp]: "utc_date (timestamptz t) = utc_date t"
proof -
  have d: "day = 1000 * 86400000000"
    by (simp add: day_def)
  have "x div day = x div 1000 div 86400000000" for x
    unfolding d by (rule zdiv_zmult2_eq) simp
  then show ?thesis
    by (simp add: utc_date_def timestamptz_def)
qed

lemma task_ok_normalize: "in_calendar t \<Longrightarrow> task_ok (AggregationTask m (normalizeAggregationDate t))"
  by (simp add: task_ok_def normalizeAggregationDate_def in_calendar_def)

lemma enqueue_mark:
  "enqueueAggregationTask m t w = mark_task (AggregationTask m (normalizeAggregationDate t)) w"
  by (simp add: mark_task_def enqueueAggregationTask_def normalizeAggregationDate_def)

lemma insert_day_rows:
  assumes "insert_historical faults w sub region db = Inr db'" and "task_ok l"
    and "l \<noteq> AggregationTask (sub_MonitorID sub) (normalizeAggregationDate (sub_Timestamp sub))"
  shows "day_rows utc_date (task_monitorID l) (utc_date (task_date l)) (tbl_historical db') =
      day_rows utc_date (task_monitorID l) (utc_date (task_date l)) (tbl_historical db)"
proof -
  have "\<not> (task_monitorID l = sub_MonitorID sub \<and> utc_date (task_date l) = utc_date (sub_Timestamp sub))"
  proof
    assume same: "task_monitorID l = sub_MonitorID sub \<and> utc_date (task_date l) = utc_date (sub_Timestamp sub)"
    then have "task_date l = utcDayStart (sub_Timestamp sub)"
      using assms(2) task_ok_eq [of l] by (metis utcDayStart_eq)
    then show False
      using same assms(3) by (simp add: normalizeAggregationDate_def aggregationTask.expand)
  qed
  moreover have "hist_MonitorID (historical_row w sub region) = sub_MonitorID sub"
      "utc_date (hist_CreatedAt (historical_row w sub region)) = utc_date (sub_Timestamp sub)"
    by (simp_all add: historical_row_def Let_def)
  ultimately show ?thesis
    using assms(1) by (auto simp: insert_historical_def result_simps day_rows_def insert_or_ignore_def)
qed

lemma insert_stale:
  assumes "insert_historical faults w sub region db = Inr db'" and "day_stale si monitors l db'"
  shows "l = AggregationTask (sub_MonitorID sub) (normalizeAggregationDate (sub_Timestamp sub)) \<or> day_stale si monitors l db"
proof (cases "l = AggregationTask (sub_MonitorID sub) (normalizeAggregationDate (sub_Timestamp sub))")
  case False
  have "task_ok l"
    using assms(2) by (auto simp: day_stale_iff)
  then have "day_rows utc_date (task_monitorID l) (utc_date (task_date l)) (tbl_historical db') =
      day_rows utc_date (task_monitorID l) (utc_date (task_date l)) (tbl_historical db)"
    using False by (rule insert_day_rows [OF assms(1)])
  moreover have "tbl_daily db' = tbl_daily db" "tbl_region_daily db' = tbl_region_daily db"
    using assms(1) by (auto simp: insert_historical_def result_simps)
  ultimately show ?thesis
    using assms(2) by (simp add: day_stale_iff daily_fresh_def regions_fresh_def)
qed simp

lemma mark_task_config [simp]: "iw_monitorConfig (mark_task t w) = iw_monitorConfig w"
  by (simp add: mark_task_def enqueueAggregationTask_def Let_def)

lemma drain_config: "drainAggregationTasks w = (ks, w') \<Longrightarrow> iw_monitorConfig w' = iw_monitorConfig w"
  by (auto simp: drainAggregationTasks_def split: if_splits)

lemma aggregate_task_mark:
  assumes "task_ok t" and "aggregate_task utc_date si faults t (w, db) = (w', db')"
  obtains ok where "aggregates si (iw_monitorConfig w) t db (ok, db')" and "w' = (if ok then w else mark_task t w)"
proof -
  obtain err db1 where r: "aggregateDailyMonitorHistorical utc_date si (faults t) (iw_monitorConfig w) (task_monitorID t)
      (task_date t) db = (err, db1)" by fastforce
  then have "aggregates si (iw_monitorConfig w) t db (err = None, db1)"
    unfolding aggregates_def by auto
  then show thesis
    using that r assms(2) by (cases err) (auto simp: aggregate_task_def settle_task_def mark_task_def)
qed

lemma settle_task_mark: "settle_task t err w = (if err = None then w else mark_task t w)"
  by (cases err) (simp_all add: settle_task_def mark_task_def)

lemma insert_half_done:
  assumes "ingester_ok si monitors s" and "ing_inserted s = None"
    and "insert_historical faults (ing_worker s) sub region (ing_db s) = Inr db"
  shows "half_done si monitors (s\<lparr>ing_db := db, ing_inserted := Some (sub_MonitorID sub, sub_Timestamp sub)\<rparr>)"
proof (cases "ing_half s")
  case (Some e)
  then obtain task tasks where r: "ing_running s = task # tasks"
    using assms(1) by (cases "ing_running s") (simp_all add: ingester_ok_def half_done_def)
  let ?t = "AggregationTask (sub_MonitorID sub) (normalizeAggregationDate (sub_Timestamp sub))"
  have "task_ok task"
    using assms(1) r by (simp add: ingester_ok_def)
  then have rows: "task \<noteq> ?t \<Longrightarrow> day_rows utc_date (task_monitorID task) (utc_date (task_date task)) (tbl_historical db) =
      day_rows utc_date (task_monitorID task) (utc_date (task_date task)) (tbl_historical (ing_db s))"
    by (rule insert_day_rows [OF assms(3)])
  have "tbl_daily db = tbl_daily (ing_db s)"
    using assms(3) by (auto simp: insert_historical_def result_simps)
  then show ?thesis
    using assms(1,2) rows Some r
    by (cases "task = ?t") (simp_all add: ingester_ok_def half_done_def inserted_tasks_def daily_fresh_def)
qed (simp add: half_done_def)

lemma daily_half_done:
  assumes "aggregate_daily utc_date si faults monitors (task_monitorID task) (task_date task) db = (Inr e, db')"
  obtains cfg where "findMonitor monitors (task_monitorID task) = Some cfg" and "e = buildSuccessCountExpression cfg"
    and "db' = upsert_daily utc_date si e (task_monitorID task) (utc_date (task_date task)) db"
  using assms by (auto simp: aggregate_daily_def Let_def split: option.splits)

lemma aggregate_daily_returns:
  "aggregate_daily utc_date si faults monitors (task_monitorID task) (task_date task) db = (Inl err, db') \<Longrightarrow>
     aggregates si monitors task db (err = None, db')"
  unfolding aggregates_def aggregateDailyMonitorHistorical_def by (intro exI [of _ faults] exI [of _ err]) simp

text \<open>The second statement makes the day fresh, or there is a mark.\<close>

lemma regions_tracked:
  assumes ok: "ingester_ok si monitors s" and half: "ing_half s = Some e" and r: "ing_running s = task # tasks"
    and g: "aggregate_regions utc_date si faults e (task_monitorID task) (task_date task) (ing_db s) = (err, db)"
  shows "tracked pending_tasks tasks_ok (day_stale si monitors) (settle_task task err (ing_worker s))
    (inserted_tasks s \<union> set tasks) db"
proof -
  have t: "task_ok task" and w: "tasks_ok (ing_worker s)"
    and was: "\<And>l. day_stale si monitors l (ing_db s) \<Longrightarrow> l \<in> pending_tasks (ing_worker s) \<union> (inserted_tasks s \<union> set (task # tasks))"
    using ok r by (auto simp: ingester_ok_def tracked_def)
  show ?thesis
  proof (cases err)
    case None
    obtain cfg where cfg: "findMonitor monitors (task_monitorID task) = Some cfg" "e = buildSuccessCountExpression cfg"
      and fresh: "day_rows utc_date (task_monitorID task) (utc_date (task_date task)) (tbl_historical (ing_db s)) = [] \<or>
        daily_fresh si e (task_monitorID task) (utc_date (task_date task)) (ing_db s) \<or>
        task \<in> pending_tasks (ing_worker s) \<union> inserted_tasks s"
      using ok half r by (auto simp: ingester_ok_def half_done_def)
    have db: "db = upsert_regions utc_date si e (task_monitorID task) (utc_date (task_date task)) (ing_db s)"
      using g None by (auto simp: aggregate_regions_def split: option.splits)
    have "l \<in> pending_tasks (ing_worker s) \<union> (inserted_tasks s \<union> set tasks)" if "day_stale si monitors l db" for l
    proof (cases "l = task")
      case True
      then show ?thesis
        using that cfg fresh upsert_regions_fresh by (auto simp: db day_stale_iff)
    next
      case False
      have "day_stale si monitors l (ing_db s)"
        using upserts_keep_fresh [OF cfg(1)] that unfolding db cfg(2) by blast
      then show ?thesis
        using was False by auto
    qed
    then show ?thesis
      using w by (simp add: None tracked_def settle_task_def Un_iff)
  next
    case (Some x)
    then have "db = ing_db s"
      using g by (auto simp: aggregate_regions_def split: option.splits)
    then show ?thesis
      using was pending_mark_task [OF w t] tasks_ok_mark [OF w t] by (auto simp: Some tracked_def settle_task_mark)
  qed
qed

lemma ingester_step_ok:
  assumes "ingester_step utc_date si s s'" and "ingester_ok si monitors s"
  shows "ingester_ok si monitors s'"
  using assms
proof (induction rule: ingester_step.induct)
  case (insert s sub faults region db)
  let ?t = "AggregationTask (sub_MonitorID sub) (normalizeAggregationDate (sub_Timestamp sub))"
  have "tracked pending_tasks tasks_ok (day_stale si monitors) (ing_worker s) (Set.insert ?t (set (ing_running s))) db"
    using insert insert_stale [OF insert(3)]
    by (intro days.tracked_change [where s = "ing_db s"]) (auto simp: ingester_ok_def inserted_tasks_def)
  then show ?case
    using insert task_ok_normalize [OF insert(2)] insert_half_done [OF insert(4,1,3)]
    by (simp add: ingester_ok_def inserted_tasks_def)
next
  case (mark s m t)
  let ?t = "AggregationTask m (normalizeAggregationDate t)"
  have w: "tasks_ok (ing_worker s)" "task_ok ?t"
    using mark by (simp_all add: ingester_ok_def tracked_def inserted_tasks_def)
  have "tracked pending_tasks tasks_ok (day_stale si monitors) (mark_task ?t (ing_worker s)) (set (ing_running s)) (ing_db s)"
    using mark by (intro days.tracked_mark) (auto simp: ingester_ok_def inserted_tasks_def)
  moreover have "half_done si monitors (s\<lparr>ing_worker := mark_task ?t (ing_worker s), ing_inserted := None\<rparr>)"
    using mark pending_mark_task [OF w]
    by (auto simp: ingester_ok_def half_done_def inserted_tasks_def split: option.splits list.splits)
  ultimately show ?case
    using mark by (simp add: ingester_ok_def inserted_tasks_def enqueue_mark)
next
  case (drain s tasks w)
  have "tracked pending_tasks tasks_ok (day_stale si monitors) w (set tasks \<union> inserted_tasks s) (ing_db s)"
    using drain by (intro days.tracked_take_all [OF _ drain(2)]) (auto simp: ingester_ok_def)
  moreover have "list_all task_ok tasks"
    using drain drain_tasks(1) [OF _ drain(2)] by (simp add: ingester_ok_def tracked_def)
  moreover have "ing_half s = None"
    using drain by (cases "ing_half s") (simp_all add: ingester_ok_def half_done_def)
  ultimately show ?case
    using drain drain_config [OF drain(2)] by (simp add: ingester_ok_def half_done_def inserted_tasks_def Un_commute)
next
  case (daily_returns s task tasks faults err db)
  have t: "task_ok task" and c: "iw_monitorConfig (ing_worker s) = monitors"
    using daily_returns by (simp_all add: ingester_ok_def)
  have a: "aggregates si monitors task (ing_db s) (err = None, db)"
    by (rule aggregate_daily_returns [OF daily_returns(3) [unfolded c]])
  have "tracked pending_tasks tasks_ok (day_stale si monitors) (settle_task task err (ing_worker s)) (inserted_tasks s \<union> set tasks) db"
    unfolding settle_task_mark using daily_returns t
    by (intro days.tracked_refresh [OF _ t a]) (simp add: ingester_ok_def)
  then show ?case
    using daily_returns c by (simp add: ingester_ok_def half_done_def inserted_tasks_def settle_task_mark)
next
  case (daily s task tasks faults e db)
  have c: "iw_monitorConfig (ing_worker s) = monitors"
    using daily by (simp add: ingester_ok_def)
  obtain cfg where cfg: "findMonitor monitors (task_monitorID task) = Some cfg" "e = buildSuccessCountExpression cfg"
    and db: "db = upsert_daily utc_date si e (task_monitorID task) (utc_date (task_date task)) (ing_db s)"
    using daily_half_done [OF daily(3) [unfolded c]] by blast
  have "day_stale si monitors l (ing_db s)" if "day_stale si monitors l db" for l
    using upserts_keep_fresh [OF cfg(1)] that unfolding db cfg(2) by blast
  moreover have "half_done si monitors (s\<lparr>ing_db := db, ing_half := Some e\<rparr>)"
    using daily(2) cfg upsert_daily_fresh by (auto simp: half_done_def db)
  ultimately show ?case
    using daily by (auto simp: ingester_ok_def inserted_tasks_def tracked_def)
next
  case (regions s e task tasks faults err db)
  show ?case
    using regions_tracked [OF regions(4,1,2,3)] regions
    by (simp add: ingester_ok_def half_done_def inserted_tasks_def settle_task_mark)
qed

lemma ingester_start_ok: "ingester_ok si monitors (ingester_start monitors cfg)"
  by (simp add: ingester_ok_def half_done_def ingester_start_def inserted_tasks_def NewIngesterWorker_def tracked_def
      tasks_ok_def day_stale_iff empty_db_def day_rows_def)

lemma ingester_reachable_ok:
  "(ingester_step utc_date si)\<^sup>*\<^sup>* (ingester_start monitors cfg) s \<Longrightarrow> ingester_ok si monitors s"
  by (induction rule: rtranclp_induct) (auto intro: ingester_start_ok ingester_step_ok)

lemma aggregate_loop:
  assumes "list_all task_ok ts" and "iw_monitorConfig w = monitors"
    and "tracked pending_tasks tasks_ok (day_stale si monitors) w (set ts) db"
    and "\<And>t. t \<in> set ts \<Longrightarrow> faults t = \<lparr>af_conn = None, af_daily = None, af_region = None\<rparr>"
    and "foldl (\<lambda>s t. aggregate_task utc_date si faults t s) (w, db) ts = (w', db')"
  shows "w' = w \<and> tracked pending_tasks tasks_ok (day_stale si monitors) w' {} db'"
  using assms
proof (induction ts arbitrary: db)
  case Nil
  then show ?case by simp
next
  case (Cons t ts)
  let ?r = "aggregateDailyMonitorHistorical utc_date si (faults t) monitors (task_monitorID t) (task_date t) db"
  have r: "fst ?r = None"
    using Cons.prems(4) by (simp add: aggregation_defs Let_def split: option.split)
  then have a: "aggregates si monitors t db (True, snd ?r)"
    unfolding aggregates_def by (metis fst_conv snd_conv prod.collapse)
  have step: "aggregate_task utc_date si faults t (w, db) = (w, snd ?r)"
    using r Cons.prems(2) by (simp add: aggregate_task_def settle_task_def split_beta)
  have "tracked pending_tasks tasks_ok (day_stale si monitors) (if True then w else mark_task t w) (set ts) (snd ?r)"
    using Cons.prems by (intro days.tracked_refresh [OF _ _ a]) auto
  then show ?case
    using Cons.IH [of "snd ?r"] Cons.prems step by auto
qed

section \<open>What a handler does to the tables\<close>

lemma insert_or_ignore_keys:
  "pk ` set (insert_or_ignore pk r rows) = insert (pk r) (pk ` set rows)" "set rows \<subseteq> set (insert_or_ignore pk r rows)"
  by (auto simp: insert_or_ignore_def)

lemma ingest_message_effect:
  assumes "ingest_message faults message w db = (a, w', db')"
  shows "same_incidents db db'" and "set (tbl_historical db) \<subseteq> set (tbl_historical db')"
    and "msg_body message = Some request \<Longrightarrow> a = Ack \<Longrightarrow> msg_nackable message \<Longrightarrow>
      (sub_MonitorID request, message_region message, timestamptz (sub_Timestamp request)) \<in>
        historical_key ` set (tbl_historical db')"
proof -
  have key: "historical_key (historical_row w r region) = (sub_MonitorID r, region, timestamptz (sub_Timestamp r))" for r region
    by (simp add: historical_key_def historical_row_def Let_def)
  have stored: "same_incidents db db2 \<and> set (tbl_historical db) \<subseteq> set (tbl_historical db2) \<and>
      (if err = None then (sub_MonitorID r, region, timestamptz (sub_Timestamp r)) \<in> historical_key ` set (tbl_historical db2)
       else True)"
    if "ingestMonitorHistorical faults r region w db = (err, w2, db2)" for r region err w2 db2
    using that insert_or_ignore_keys [where pk = historical_key and r = "historical_row w r region" and rows = "tbl_historical db"]
    by (auto simp: ingestMonitorHistorical_def insert_historical_def result_simps same_incidents_def key split: sum.splits)
  show "same_incidents db db'" "set (tbl_historical db) \<subseteq> set (tbl_historical db')"
    using assms stored by (auto simp: ingest_message_def same_incidents_def split: prod.splits option.splits)
  show "(sub_MonitorID request, message_region message, timestamptz (sub_Timestamp request)) \<in> historical_key ` set (tbl_historical db')"
    if "msg_body message = Some request" "a = Ack" "msg_nackable message"
    using assms that stored [of request "message_region message"]
    by (auto simp: ingest_message_def nack_or_ack_def split: prod.splits option.splits)
qed

lemma aggregation_effect:
  assumes "aggregateDirtyMonitors sql_date sql_int faults (w, db) = (w', db')"
  shows "same_incidents db db' \<and> tbl_historical db' = tbl_historical db"
proof -
  have task: "same_incidents b (snd (aggregate_task sql_date sql_int faults t (v, b))) \<and>
      tbl_historical (snd (aggregate_task sql_date sql_int faults t (v, b))) = tbl_historical b" for t v b
    by (simp add: aggregate_task_def aggregation_defs settle_task_def upsert_daily_def upsert_regions_def
        same_incidents_def Let_def split: option.split)
  have "same_incidents (snd s) (snd (foldl (\<lambda>s t. aggregate_task sql_date sql_int faults t s) s ts)) \<and>
      tbl_historical (snd (foldl (\<lambda>s t. aggregate_task sql_date sql_int faults t s) s ts)) = tbl_historical (snd s)" for s ts
  proof (induction ts arbitrary: s)
    case Nil
    then show ?case by (simp add: same_incidents_def)
  next
    case (Cons t ts)
    then show ?case
      using task [of "snd s" t "fst s"] by (auto simp: same_incidents_def)
  qed
  from this [of "(snd (drainAggregationTasks w), db)" "fst (drainAggregationTasks w)"] show ?thesis
    using assms by (simp add: aggregateDirtyMonitors_def split_beta)
qed

section \<open>Properties\<close>

text \<open>
  C6: No day is forgotten by an ingester that starts on an empty database, with the database's session in
  UTC and checks whose times are in the calendar (the years with four digits). However the receive loop and the periodic aggregation
  interleave, statement by statement, and whichever of their calls fail: a configured monitor's day whose
  aggregates do not match its raw rows is marked, in the running aggregation, or about to be marked.
\<close>

theorem no_day_is_forgotten:
  assumes "(ingester_step sql_date sql_int)\<^sup>*\<^sup>* (ingester_start monitors cfg) s"
    and "\<And>t. sql_date t = utc_date t"
    and "day_stale sql_int monitors task (ing_db s)"
  shows "task \<in> pending_tasks (ing_worker s) \<union> set (ing_running s) \<union> inserted_tasks s"
proof -
  have "sql_date = utc_date"
    using assms(2) by blast
  then have "ingester_ok sql_int monitors s"
    using assms(1) ingester_reachable_ok by blast
  then show ?thesis
    using assms(3) by (auto simp: ingester_ok_def tracked_def)
qed

text \<open>
  C10: A run of the aggregation in which no call fails catches up, with the database's session in UTC: from every
  state that an ingester which started on an empty database, with checks whose times are in the calendar, can
  reach between two runs and two messages, it leaves no day of a configured monitor with outdated
  aggregates and nothing marked.
\<close>

theorem aggregation_catches_up:
  assumes "(ingester_step sql_date sql_int)\<^sup>*\<^sup>* (ingester_start monitors cfg) s"
    and "\<And>t. sql_date t = utc_date t"
    and "ing_running s = []" and "ing_inserted s = None"
    and "\<And>t. faults t = \<lparr>af_conn = None, af_daily = None, af_region = None\<rparr>"
    and "aggregateDirtyMonitors sql_date sql_int faults (ing_worker s, ing_db s) = (w', db')"
  shows "pending_tasks w' = {} \<and> \<not> day_stale sql_int monitors task db'"
proof -
  have sql: "sql_date = utc_date"
    using assms(2) by blast
  then have ok: "ingester_ok sql_int monitors s"
    using assms(1) ingester_reachable_ok by blast
  obtain ts w1 where d: "drainAggregationTasks (ing_worker s) = (ts, w1)" by fastforce
  have t: "tracked pending_tasks tasks_ok (day_stale sql_int monitors) w1 (set ts \<union> {}) (ing_db s)"
    using ok assms(3,4) by (intro days.tracked_take_all [OF _ d]) (simp add: ingester_ok_def inserted_tasks_def)
  have e: "pending_tasks w1 = {}" "list_all task_ok ts"
    using drain_tasks(1) [OF _ d] ok by (simp_all add: ingester_ok_def tracked_def)
  have "w' = w1 \<and> tracked pending_tasks tasks_ok (day_stale sql_int monitors) w' {} db'"
    using assms(5,6) d t e(2) drain_config [OF d] ok sql
    by (intro aggregate_loop [where ts = ts and faults = faults]) (simp_all add: ingester_ok_def aggregateDirtyMonitors_def)
  then show ?thesis
    using e(1) by (auto simp: tracked_def)
qed

text \<open>
  Ingesting a submission a second time, as a redelivery does, changes neither the database nor
  the marked days.
\<close>

theorem ingest_is_idempotent:
  assumes "ingestMonitorHistorical faults submission region w db = (None, w1, db1)"
    and "ingestMonitorHistorical faults2 submission region w1 db1 = (err, w2, db2)"
  shows "db2 = db1 \<and> w2 = w1"
proof -
  have 1: "w1 = enqueueAggregationTask (sub_MonitorID submission) (sub_Timestamp submission) w"
      "db1 = db\<lparr>tbl_historical := insert_or_ignore historical_key (historical_row w submission region) (tbl_historical db)\<rparr>"
    using assms(1) by (auto simp: ingestMonitorHistorical_def insert_historical_def result_simps split: sum.splits)
  have row: "historical_row w1 submission region = historical_row w submission region"
    unfolding 1(1) by (simp add: historical_row_def determineHistoricalSuccess_def enqueueAggregationTask_def Let_def)
  have "insert_or_ignore historical_key r (insert_or_ignore historical_key r rows) = insert_or_ignore historical_key r rows"
    for r rows
    by (auto simp: insert_or_ignore_def)
  then have db: "insert_historical f w1 submission region db1 = Inr db2 \<Longrightarrow> db2 = db1" for f db2
    by (auto simp: insert_historical_def result_simps row 1(2))
  have w: "enqueueAggregationTask (sub_MonitorID submission) (sub_Timestamp submission) w1 = w1"
    unfolding 1(1) by (simp add: enqueueAggregationTask_def Let_def)
  show ?thesis
    using assms(2) db w by (auto simp: ingestMonitorHistorical_def split: sum.splits)
qed

text \<open>
  The success rate of a day lies between 0 and 100; it is 100 when every row of the day counts as
  a success by the same rule that judges a submission, and 0 when none does.
\<close>

theorem success_rate_bounds:
  fixes cfg :: Monitor
  assumes "rs \<noteq> []" and "length rs < 2 ^ 40"
    and "mono sql_int" and "\<And>n. sql_int (of_int n) = n"
  defines "ok \<equiv> \<lambda>r. IsSuccessfulStatus cfg (hist_StatusCode r) (hist_Success r)"
    and "r \<equiv> success_rate sql_int (buildSuccessCountExpression cfg) rs"
  shows "0 \<le> r \<and> r \<le> 100 \<and> (list_all ok rs \<longrightarrow> r = 100) \<and> (list_all (\<lambda>x. \<not> ok x) rs \<longrightarrow> r = 0)"
proof -
  let ?e = "buildSuccessCountExpression cfg" and ?n = "int (length rs)"
  let ?k = "sum_list (map (success_count ?e) rs)"
  have count: "success_count ?e x = (if ok x then 1 else 0)" for x
    by (simp add: success_count_agrees ok_def)
  have k: "?k = int (length (filter ok rs))"
    by (induction rs) (simp_all add: count)
  have n: "0 < ?n" "?n < 2 ^ 40" "?k \<le> ?n" "0 \<le> ?k"
    using assms(1,2) by (auto simp: k intro: length_filter_le)
  have q: "f64_div (f64_of_int (a * 100)) (f64_of_int ?n) = f64 (of_int (a * 100) / of_int ?n)" if "0 \<le> a" "a \<le> ?n" for a
    using that n by (simp add: f64_div_def f64_of_int_exact)
  have r: "r = sql_int (f64 (of_int (?k * 100) / of_int ?n))"
    unfolding r_def success_rate_def using q [of ?k] n by simp
  have h: "f64 100 = 100"
    using f64_of_int_exact [of 100] by (simp add: f64_of_int_def)
  have full: "sql_int (f64 (of_int (?n * 100) / of_int ?n)) = 100"
    using n(1) assms(4) [of 100] h by simp
  have none: "sql_int (f64 (of_int (0 * 100) / of_int ?n)) = 0"
    using assms(4) [of 0] by simp
  have "sql_int (f64 (of_int (a * 100) / of_int ?n)) \<le> sql_int (f64 (of_int (b * 100) / of_int ?n))" if "a \<le> b" for a b
    using that n(1) by (intro monoD [OF assms(3)] f64_mono divide_right_mono) simp_all
  from this [of 0 ?k] this [of ?k ?n] have "0 \<le> r \<and> r \<le> 100"
    using n full none unfolding r by metis
  moreover have "?k = ?n" if "list_all ok rs"
  proof -
    have "filter ok rs = rs"
      using that by (simp add: list_all_iff filter_id_conv)
    then show ?thesis by (simp add: k)
  qed
  moreover have "?k = 0" if "list_all (\<lambda>x. \<not> ok x) rs"
    using that by (simp add: k list_all_iff filter_empty_conv)
  ultimately show ?thesis
    using full none unfolding r by metis
qed

lemma space_bytes:
  "space_head_byte c \<Longrightarrow> (of_char c :: nat) < 33 \<or> 127 < (of_char c :: nat)"
  "space_last_byte c \<Longrightarrow> (of_char c :: nat) < 33 \<or> 127 < (of_char c :: nat)"
  by (auto simp: space_head_byte_def space_last_byte_def space_encodings_def)

lemma digit_not_space: "n < 10 \<Longrightarrow> \<not> space_head_byte (digit_char n) \<and> \<not> space_last_byte (digit_char n)"
  using space_bytes [of "digit_char n"] by (auto simp: byte_digit_char)

lemma trim_format:
  assumes "0 \<le> year_of t" "year_of t \<le> 9999"
  shows "trim_space (format_date t) = format_date t" and "trim_space (format_rfc3339 t) = format_rfc3339 t"
proof -
  obtain y m d where c: "civil (utc_date t) = (y, m, d)" by (metis prod_cases3)
  define h where "h = digit_char (nat (y div 1000))"
  define l where "l = digit_char (nat (d mod 10))"
  obtain s where s: "format_date t = h # s @ [l]"
    by (simp add: format_date_def c digits4_def digits2_def h_def l_def)
  have "nat (y div 1000) < 10" "nat (d mod 10) < 10"
    using assms c by (simp_all add: year_of_def nat_less_iff)
  then have hl: "\<not> space_head_byte h" "\<not> space_last_byte l"
    using digit_not_space by (simp_all add: h_def l_def)
  show "trim_space (format_date t) = format_date t"
    unfolding s by (rule trim_space_brackets [OF hl])
  have "\<not> space_last_byte (CHR ''Z'')"
    using space_bytes(2) [of "CHR ''Z''"] by auto
  from trim_space_brackets [OF hl(1) this, of "s @ [l] @ ''T'' @ format_clock t"]
  show "trim_space (format_rfc3339 t) = format_rfc3339 t"
    by (simp add: format_rfc3339_def s)
qed

text \<open>
  A date that the seed's query hands back is read as the day it is, in either of the forms a date
  may have as text.
\<close>

theorem dates_are_read_back:
  assumes "in_calendar t"
  shows "parseAggregationDate (format_date t) = Inr (utcDayStart t) \<and>
    parseAggregationDate (format_rfc3339 t) = Inr (utcDayStart t)"
proof -
  have y: "0 \<le> year_of t" "year_of t \<le> 9999"
    using assms by (simp_all add: in_calendar_def)
  have day: "day_of_civil (civil (utc_date t)) * day = utcDayStart t"
    by (cases "civil (utc_date t)") (simp add: civil_ranges(2) utcDayStart_eq)
  show ?thesis
    using parse_format_date [OF y] parse_format_rfc3339 [OF y] day trim_format [OF y]
    by (simp add: parseAggregationDate_def Let_def)
qed

lemma seed_rows:
  assumes "tasks_ok w" and "\<And>m d. (m, d) \<in> set rows \<Longrightarrow> \<exists>t. in_calendar t \<and> d = format_rfc3339 t"
  shows "tasks_ok (foldl (seed_row \<lparr>sd_conn = None, sd_query = None, sd_scan = (\<lambda>_. False)\<rparr>) w rows) \<and>
    pending_tasks (foldl (seed_row \<lparr>sd_conn = None, sd_query = None, sd_scan = (\<lambda>_. False)\<rparr>) w rows) =
      pending_tasks w \<union> {AggregationTask m (utcDayStart t) |m t. in_calendar t \<and> (m, format_rfc3339 t) \<in> set rows}"
  using assms
proof (induction rows arbitrary: w)
  case Nil
  then show ?case by simp
next
  case (Cons row rows)
  obtain m d where row: "row = (m, d)" by fastforce
  then obtain t where t: "in_calendar t" "d = format_rfc3339 t"
    using Cons.prems(2) [of m d] by auto
  have day: "utcDayStart u = utcDayStart t" if "in_calendar u" "format_rfc3339 u = format_rfc3339 t" for u
  proof -
    have "parse_rfc3339_date (format_rfc3339 u) = parse_rfc3339_date (format_rfc3339 t)"
      using that(2) by simp
    then have "civil (utc_date u) = civil (utc_date t)"
      using t(1) that(1) by (simp add: parse_format_rfc3339 in_calendar_def)
    then show ?thesis
      by (metis civil_inj utcDayStart_eq)
  qed
  let ?t = "AggregationTask m (normalizeAggregationDate t)"
  have ok: "task_ok ?t"
    using t(1) by (rule task_ok_normalize)
  have "parseAggregationDate d = Inr (utcDayStart t)"
    using parse_format_rfc3339 [of t] trim_format(2) [of t] t civil_ranges(2)
    by (cases "civil (utc_date t)") (simp add: parseAggregationDate_def Let_def in_calendar_def utcDayStart_eq)
  then have step: "seed_row \<lparr>sd_conn = None, sd_query = None, sd_scan = (\<lambda>_. False)\<rparr> w row = mark_task ?t w"
    by (simp add: seed_row_def row enqueue_mark) (simp add: normalizeAggregationDate_def)
  have "tasks_ok (foldl (seed_row \<lparr>sd_conn = None, sd_query = None, sd_scan = (\<lambda>_. False)\<rparr>) (mark_task ?t w) rows) \<and>
      pending_tasks (foldl (seed_row \<lparr>sd_conn = None, sd_query = None, sd_scan = (\<lambda>_. False)\<rparr>) (mark_task ?t w) rows) =
      pending_tasks (mark_task ?t w) \<union>
        {AggregationTask m (utcDayStart t) |m t. in_calendar t \<and> (m, format_rfc3339 t) \<in> set rows}"
    using Cons.prems by (intro Cons.IH tasks_ok_mark ok) auto
  moreover have "pending_tasks (mark_task ?t w) = Set.insert ?t (pending_tasks w)"
    using Cons.prems(1) ok by (rule pending_mark_task)
  moreover have "{AggregationTask m (utcDayStart t) |m t. in_calendar t \<and> (m, format_rfc3339 t) \<in> set (row # rows)} =
      Set.insert ?t {AggregationTask m (utcDayStart t) |m t. in_calendar t \<and> (m, format_rfc3339 t) \<in> set rows}"
    (is "?A = Set.insert ?t ?B")
  proof
    show "?A \<subseteq> Set.insert ?t ?B"
    proof
      fix x assume "x \<in> ?A"
      then obtain n u where x: "x = AggregationTask n (utcDayStart u)" "in_calendar u"
          "(n, format_rfc3339 u) = row \<or> (n, format_rfc3339 u) \<in> set rows"
        by auto
      from x(3) show "x \<in> Set.insert ?t ?B"
      proof
        assume "(n, format_rfc3339 u) = row"
        then have "n = m" "format_rfc3339 u = format_rfc3339 t"
          using t(2) by (simp_all add: row)
        then have "x = ?t"
          using x(1) day [OF x(2)] by (simp add: normalizeAggregationDate_def)
        then show ?thesis by simp
      qed (use x in blast)
    qed
    show "Set.insert ?t ?B \<subseteq> ?A"
      using t unfolding row normalizeAggregationDate_def by auto
  qed
  ultimately show ?case
    unfolding foldl.simps step by (simp only: Un_insert_left Un_insert_right)
qed

lemma seed_covers:
  assumes "tasks_ok w" and "\<forall>x \<in> set (tbl_historical db). in_calendar (hist_CreatedAt x)"
    and "r \<in> set (tbl_historical db)" and "timestamptz (now - lookback) \<le> hist_CreatedAt r"
  shows "AggregationTask (hist_MonitorID r) (utcDayStart (hist_CreatedAt r)) \<in> pending_tasks
    (seedRecentAggregationTasks utc_date \<lparr>sd_conn = None, sd_query = None, sd_scan = (\<lambda>_. False)\<rparr> now lookback db w)"
proof -
  have cal: "in_calendar (utc_date t * day) = in_calendar t" for t
    by (simp add: in_calendar_def year_of_def)
  let ?rows = "seed_query utc_date (now - lookback) db"
  have rows: "\<exists>t. in_calendar t \<and> d = format_rfc3339 t" if "(m, d) \<in> set ?rows" for m d
    using that assms(2) cal by (auto simp: seed_query_def)
  note seeded = seed_rows [OF assms(1) rows]
  have "(hist_MonitorID r, format_rfc3339 (utc_date (hist_CreatedAt r) * day)) \<in> set ?rows"
    using assms by (auto simp: seed_query_def image_iff)
  moreover have "utcDayStart (hist_CreatedAt r) = utcDayStart (utc_date (hist_CreatedAt r) * day)"
    by (simp add: utcDayStart_eq)
  ultimately show ?thesis
    using seeded assms(2,3) cal by (auto simp: seedRecentAggregationTasks_def)
qed

text \<open>Whatever fails, a seed marks days only.\<close>

lemma seed_any_rows:
  assumes "tasks_ok w" and "\<And>m d. (m, d) \<in> set rows \<Longrightarrow> \<exists>t. in_calendar t \<and> d = format_rfc3339 t"
  shows "tasks_ok (foldl (seed_row faults) w rows) \<and> pending_tasks w \<subseteq> pending_tasks (foldl (seed_row faults) w rows) \<and>
    iw_monitorConfig (foldl (seed_row faults) w rows) = iw_monitorConfig w"
  using assms
proof (induction rows arbitrary: w)
  case Nil
  then show ?case by simp
next
  case (Cons row rows)
  obtain m d where row: "row = (m, d)" by fastforce
  then obtain t where t: "in_calendar t" "d = format_rfc3339 t"
    using Cons.prems(2) [of m d] by auto
  let ?t = "AggregationTask m (utcDayStart t)"
  have "task_ok ?t"
    using t(1) by (simp add: task_ok_def normalizeAggregationDate_def in_calendar_def)
  moreover have "seed_row faults w row = (if sd_scan faults row then w else mark_task ?t w)"
    using dates_are_read_back [OF t(1)] by (simp add: seed_row_def row t(2) mark_task_def)
  ultimately have "tasks_ok (seed_row faults w row)" "pending_tasks w \<subseteq> pending_tasks (seed_row faults w row)"
      "iw_monitorConfig (seed_row faults w row) = iw_monitorConfig w"
    using Cons.prems(1) by (simp_all add: tasks_ok_mark pending_mark_task subset_insertI)
  then show ?case
    using Cons.IH [of "seed_row faults w row"] Cons.prems(2) by auto
qed

lemma seed_any:
  assumes "tasks_ok w" and "\<forall>x \<in> set (tbl_historical db). in_calendar (hist_CreatedAt x)"
  shows "tasks_ok (seedRecentAggregationTasks utc_date faults now lookback db w) \<and>
    pending_tasks w \<subseteq> pending_tasks (seedRecentAggregationTasks utc_date faults now lookback db w) \<and>
    iw_monitorConfig (seedRecentAggregationTasks utc_date faults now lookback db w) = iw_monitorConfig w"
proof -
  have cal: "in_calendar (utc_date t * day) = in_calendar t" for t
    by (simp add: in_calendar_def year_of_def)
  have "\<exists>t. in_calendar t \<and> d = format_rfc3339 t" if "(m, d) \<in> set (seed_query utc_date (now - lookback) db)" for m d
    using that assms(2) cal by (auto simp: seed_query_def)
  from seed_any_rows [OF assms(1) this] assms(1) show ?thesis
    by (simp add: seedRecentAggregationTasks_def)
qed

text \<open>
  After a restart the seed marks every monitor's day that has a raw row in the window, so that
  work lost with the marks of the previous process is done again.
\<close>

theorem seed_covers_the_window:
  assumes "\<forall>x \<in> set (tbl_historical db). in_calendar (hist_CreatedAt x)"
    and "\<And>t. sql_date t = utc_date t"
    and "r \<in> set (tbl_historical db)" and "timestamptz (now - lookback) \<le> hist_CreatedAt r"
  shows "AggregationTask (hist_MonitorID r) (utcDayStart (hist_CreatedAt r)) \<in> pending_tasks
    (seedRecentAggregationTasks sql_date \<lparr>sd_conn = None, sd_query = None, sd_scan = (\<lambda>_. False)\<rparr> now lookback db
       (NewIngesterWorker monitors cfg))"
proof -
  have "sql_date = utc_date"
    using assms(2) by blast
  then show ?thesis
    using seed_covers [OF _ assms(1,3,4)] by (simp add: tasks_ok_def NewIngesterWorker_def)
qed

section \<open>Examples\<close>

definition ex_config :: MonitorConfig where
  "ex_config = \<lparr>mc_Monitors = [zero_monitor\<lparr>mon_ID := ''api'', mon_Url := ''https://x''\<rparr>], mc_Groups = []\<rparr>"

definition ex_submission :: CheckerSubmissionRequest where
  "ex_submission = zero_submission\<lparr>sub_MonitorID := ''api'', sub_StatusCode := 200, sub_LatencyMs := 12,
     sub_Timestamp := 1700000040000000000\<rparr>"

definition no_ingest_faults :: ingest_faults where
  "no_ingest_faults = \<lparr>if_conn = None, if_insert = None\<rparr>"

definition no_aggregate_faults :: aggregate_faults where
  "no_aggregate_faults = \<lparr>af_conn = None, af_daily = None, af_region = None\<rparr>"

text \<open>After one submission: inserted, then marked.\<close>

definition ex_ingested :: "IngesterWorker \<times> database" where
  "ex_ingested = snd (ingestMonitorHistorical no_ingest_faults ex_submission ''eu''
     (NewIngesterWorker ex_config (sc_Dataset ex_server_config)) empty_db)"

definition ex_ingester :: ingester where
  "ex_ingester = \<lparr>ing_worker = fst ex_ingested, ing_db = snd ex_ingested, ing_running = [], ing_inserted = None,
      ing_half = None\<rparr>"

lemma ex_calendar: "in_calendar 1700000040000000000"
  by code_simp

lemma ex_ingester_reachable:
  "(ingester_step utc_date round_half_even)\<^sup>*\<^sup>* (ingester_start ex_config (sc_Dataset ex_server_config)) ex_ingester"
proof -
  let ?s = "ingester_start ex_config (sc_Dataset ex_server_config)"
  let ?db = "snd ex_ingested"
  let ?s1 = "?s\<lparr>ing_db := ?db, ing_inserted := Some (''api'', 1700000040000000000)\<rparr>"
  have db: "insert_historical no_ingest_faults (ing_worker ?s) ex_submission ''eu'' (ing_db ?s) = Inr ?db"
    by (simp add: ex_ingested_def ingestMonitorHistorical_def insert_historical_def no_ingest_faults_def attempt_def
        bind_result_def ingester_start_def)
  have "ingester_step utc_date round_half_even ?s
      (?s\<lparr>ing_db := ?db, ing_inserted := Some (sub_MonitorID ex_submission, sub_Timestamp ex_submission)\<rparr>)"
    using ex_calendar by (intro ingester_step.insert [OF _ _ db]) (simp_all add: ingester_start_def ex_submission_def)
  then have 1: "ingester_step utc_date round_half_even ?s ?s1"
    by (simp add: ex_submission_def)
  have "ingester_step utc_date round_half_even ?s1
      (?s1\<lparr>ing_worker := enqueueAggregationTask ''api'' 1700000040000000000 (ing_worker ?s1), ing_inserted := None\<rparr>)"
    by (rule ingester_step.mark) simp
  moreover have "?s1\<lparr>ing_worker := enqueueAggregationTask ''api'' 1700000040000000000 (ing_worker ?s1), ing_inserted := None\<rparr> = ex_ingester"
    by (simp add: ex_ingester_def ex_ingested_def ingestMonitorHistorical_def insert_historical_def no_ingest_faults_def
        attempt_def bind_result_def ingester_start_def ex_submission_def)
  ultimately show ?thesis
    using 1 by (metis rtranclp.rtrancl_refl rtranclp.rtrancl_into_rtrancl)
qed

definition ex_task :: aggregationTask where
  "ex_task = AggregationTask ''api'' (utcDayStart 1700000040000000000)"

lemma ex_stale: "day_stale round_half_even ex_config ex_task (ing_db ex_ingester)"
proof -
  have "findMonitor ex_config (task_monitorID ex_task) = Some (hd (mc_Monitors ex_config))"
    by (simp add: ex_task_def ex_config_def findMonitor_def zero_monitor_def)
  moreover have "task_ok ex_task"
    using ex_calendar by (simp add: ex_task_def task_ok_def normalizeAggregationDate_def in_calendar_def)
  moreover have "length (day_rows utc_date (task_monitorID ex_task) (utc_date (task_date ex_task)) (tbl_historical (ing_db ex_ingester))) = 1"
    by code_simp
  moreover have "tbl_daily (ing_db ex_ingester) = []"
    by code_simp
  ultimately show ?thesis
    by (auto simp: day_stale_iff daily_fresh_def)
qed

theorem no_day_is_forgotten_witness:
  "ex_task \<in> pending_tasks (ing_worker ex_ingester) \<union> set (ing_running ex_ingester) \<union> inserted_tasks ex_ingester"
  using no_day_is_forgotten [OF ex_ingester_reachable refl ex_stale] .

theorem aggregation_catches_up_witness:
  "let r = aggregateDirtyMonitors utc_date round_half_even (\<lambda>_. no_aggregate_faults) (ing_worker ex_ingester, ing_db ex_ingester)
   in pending_tasks (fst r) = {} \<and> \<not> day_stale round_half_even ex_config ex_task (snd r)"
proof -
  let ?r = "aggregateDirtyMonitors utc_date round_half_even (\<lambda>_. no_aggregate_faults) (ing_worker ex_ingester, ing_db ex_ingester)"
  have "pending_tasks (fst ?r) = {} \<and> \<not> day_stale round_half_even ex_config ex_task (snd ?r)"
    by (rule aggregation_catches_up [OF ex_ingester_reachable refl, where faults = "\<lambda>_. no_aggregate_faults"])
      (simp_all add: ex_ingester_def no_aggregate_faults_def)
  then show ?thesis
    by (simp add: Let_def)
qed

theorem ingest_is_idempotent_witness:
  "snd (ingestMonitorHistorical no_ingest_faults ex_submission ''eu'' (fst ex_ingested) (snd ex_ingested)) = ex_ingested"
proof -
  let ?w = "NewIngesterWorker ex_config (sc_Dataset ex_server_config)"
  have 1: "ingestMonitorHistorical no_ingest_faults ex_submission ''eu'' ?w empty_db = (None, fst ex_ingested, snd ex_ingested)"
    by (simp add: ex_ingested_def ingestMonitorHistorical_def insert_historical_def no_ingest_faults_def attempt_def
        bind_result_def)
  obtain err w2 db2 where 2: "ingestMonitorHistorical no_ingest_faults ex_submission ''eu'' (fst ex_ingested) (snd ex_ingested) =
      (err, w2, db2)" by (metis prod_cases3)
  from ingest_is_idempotent [OF 1 2] 2 show ?thesis
    by simp
qed

theorem success_rate_bounds_witness:
  "success_rate round_half_even (buildSuccessCountExpression (hd (mc_Monitors ex_config)))
     (tbl_historical (snd ex_ingested)) \<le> 100"
proof -
  have "length (tbl_historical (snd ex_ingested)) = 1"
    by code_simp
  then have "tbl_historical (snd ex_ingested) \<noteq> []" "length (tbl_historical (snd ex_ingested)) < 2 ^ 40"
    by auto
  moreover have "mono round_half_even"
    by (simp add: mono_def round_half_even_mono)
  ultimately show ?thesis
    using success_rate_bounds [of "tbl_historical (snd ex_ingested)" round_half_even "hd (mc_Monitors ex_config)"] by simp
qed

theorem dates_are_read_back_witness:
  "parseAggregationDate ''2023-11-14T00:00:00Z'' = Inr (utcDayStart 1700000040000000000)"
proof -
  have "in_calendar (utcDayStart 1700000040000000000)"
    using ex_calendar by (simp add: in_calendar_def)
  moreover have "format_rfc3339 (utcDayStart 1700000040000000000) = ''2023-11-14T00:00:00Z''"
    by code_simp
  ultimately show ?thesis
    using dates_are_read_back [of "utcDayStart 1700000040000000000"] by simp
qed

theorem seed_covers_the_window_witness:
  "ex_task \<in> pending_tasks (seedRecentAggregationTasks utc_date \<lparr>sd_conn = None, sd_query = None, sd_scan = (\<lambda>_. False)\<rparr>
     1700000050000000000 day (snd ex_ingested) (NewIngesterWorker ex_config (sc_Dataset ex_server_config)))"
proof -
  let ?r = "historical_row (NewIngesterWorker ex_config (sc_Dataset ex_server_config)) ex_submission ''eu''"
  have rows: "tbl_historical (snd ex_ingested) = [?r]"
    by (simp add: ex_ingested_def ingestMonitorHistorical_def insert_historical_def no_ingest_faults_def attempt_def
        bind_result_def empty_db_def insert_or_ignore_def)
  have r: "hist_CreatedAt ?r = 1700000040000000000" "hist_MonitorID ?r = ''api''"
    by (simp_all add: historical_row_def Let_def ex_submission_def timestamptz_def)
  have "AggregationTask (hist_MonitorID ?r) (utcDayStart (hist_CreatedAt ?r)) \<in> pending_tasks
    (seedRecentAggregationTasks utc_date \<lparr>sd_conn = None, sd_query = None, sd_scan = (\<lambda>_. False)\<rparr> 1700000050000000000 day
       (snd ex_ingested) (NewIngesterWorker ex_config (sc_Dataset ex_server_config)))"
    using ex_calendar
    by (intro seed_covers_the_window) (simp_all add: rows r timestamptz_def day_def)
  then show ?thesis
    by (simp add: r ex_task_def)
qed

end
