(* ===== verification/Cleanup.thy ===== *)
theory Cleanup
  imports Tables Config_Server Go_Calendar
begin

text \<open>
  \<open>worker_cleanup.go\<close>: a pass deletes the raw rows of the days before the cutoff day, in
  statements of at most \<open>CleanupBatchSize\<close> rows, prunes the aggregates of these days and runs a
  checkpoint.

  Every statement may fail on its own, and the context may be cancelled after any number of
  statements (\<open>ce_fault\<close>, \<open>ce_cancelled\<close>, both by the number of statements so far). A \<open>LIMIT\<close>
  takes the first rows of the table in the order of the scan, which is the order of the list. A
  batch size of 0 makes the deletion loop run for ever, so the loop is a partial function: \<open>None\<close>
  is a pass that does not return.
\<close>

record cleanup_env =
  ce_clock :: "nat \<Rightarrow> gotime"
  ce_fault :: "nat \<Rightarrow> string option"
  ce_cancelled :: "nat \<Rightarrow> bool"
  ce_size :: "nat \<Rightarrow> nat \<times> nat \<times> nat"

record cleanup_state =
  cs_db :: database
  cs_statements :: nat
  cs_ticks :: nat

definition ctx_err :: "cleanup_env \<Rightarrow> cleanup_state \<Rightarrow> bool" where
  "ctx_err env s = ce_cancelled env (cs_statements s)"

text \<open>One call to the database: it counts, and has its fault or its effect.\<close>

definition statement ::
    "cleanup_env \<Rightarrow> (database \<Rightarrow> 'a \<times> database) \<Rightarrow> cleanup_state \<Rightarrow> 'a result \<times> cleanup_state" where
  "statement env f s =
     (let s' = s\<lparr>cs_statements := Suc (cs_statements s)\<rparr> in
      case ce_fault env (cs_statements s) of
        Some e \<Rightarrow> (Inl e, s')
      | None \<Rightarrow> (let (x, db) = f (cs_db s) in (Inr x, s'\<lparr>cs_db := db\<rparr>)))"

definition interval :: "DatasetConfig \<Rightarrow> duration" where
  "interval cfg = minutes (CleanupIntervalMinutes cfg)"

definition start_error :: "DatasetConfig \<Rightarrow> string option" where
  "start_error cfg = (if interval cfg \<le> 0 then Some ''cleanup worker interval must be greater than 0'' else None)"

definition cutoffTime :: "cleanup_env \<Rightarrow> DatasetConfig \<Rightarrow> cleanup_state \<Rightarrow> gotime \<times> cleanup_state" where
  "cutoffTime env cfg s =
     (add_days (ce_clock env (cs_ticks s)) (- RetentionDays cfg), s\<lparr>cs_ticks := Suc (cs_ticks s)\<rparr>)"

section \<open>Deleting raw rows\<close>

text \<open>\<open>DELETE ... WHERE rowid IN (SELECT rowid ... LIMIT n)\<close>: the first \<open>n\<close> matching rows go.\<close>

fun remove_first :: "('r \<Rightarrow> bool) \<Rightarrow> nat \<Rightarrow> 'r list \<Rightarrow> 'r list" where
  "remove_first P n [] = []"
| "remove_first P n (r # rs) =
     (if P r then (case n of 0 \<Rightarrow> r # rs | Suc n \<Rightarrow> remove_first P n rs) else r # remove_first P n rs)"

definition in_range :: "gotime \<Rightarrow> gotime \<Rightarrow> MonitorHistorical \<Rightarrow> bool" where
  "in_range start till r = (start \<le> hist_CreatedAt r \<and> hist_CreatedAt r < till)"

definition delete_batch :: "gotime \<Rightarrow> gotime \<Rightarrow> int \<Rightarrow> database \<Rightarrow> int \<times> database" where
  "delete_batch start till batchSize db =
     (let rows = remove_first (in_range start till) (nat batchSize) (tbl_historical db)
      in (int (length (tbl_historical db)) - int (length rows), db\<lparr>tbl_historical := rows\<rparr>))"

partial_function (option) delete_range_loop ::
    "cleanup_env \<Rightarrow> int \<Rightarrow> gotime \<Rightarrow> gotime \<Rightarrow> int \<Rightarrow> cleanup_state \<Rightarrow>
       ((int \<times> string option) \<times> cleanup_state) option" where
  "delete_range_loop env batchSize start till deleted s =
     (case statement env (delete_batch start till batchSize) s of
        (Inl e, s) \<Rightarrow> Some ((deleted, Some e), s)
      | (Inr n, s) \<Rightarrow>
          if n < batchSize then Some ((deleted + n, None), s)
          else if ctx_err env s then Some ((deleted + n, None), s)
          else delete_range_loop env batchSize start till (deleted + n) s)"

definition deleteDayRange ::
    "cleanup_env \<Rightarrow> DatasetConfig \<Rightarrow> gotime \<Rightarrow> gotime \<Rightarrow> cleanup_state \<Rightarrow>
       ((int \<times> string option) \<times> cleanup_state) option" where
  "deleteDayRange env cfg start till s = delete_range_loop env (CleanupBatchSize cfg) start till 0 s"

function delete_days ::
    "cleanup_env \<Rightarrow> DatasetConfig \<Rightarrow> gotime \<Rightarrow> gotime \<Rightarrow> int \<Rightarrow> cleanup_state \<Rightarrow>
       ((int \<times> string option) \<times> cleanup_state) option" where
  "delete_days env cfg d cutoffDay deleted s =
     (if d < cutoffDay then
        if ctx_err env s then Some ((deleted, None), s)
        else (case deleteDayRange env cfg d (add_days d 1) s of
                None \<Rightarrow> None
              | Some ((n, Some e), s) \<Rightarrow> Some ((deleted, Some e), s)
              | Some ((n, None), s) \<Rightarrow> delete_days env cfg (add_days d 1) cutoffDay (deleted + n) s)
      else Some ((deleted, None), s))"
  by pat_completeness auto
termination
  by (relation "measure (\<lambda>(env, cfg, d, cutoffDay, deleted, s). nat (cutoffDay - d))")
    (auto simp: add_days_def day_def)

declare delete_days.simps [simp del]

definition oldest_day :: "(gotime \<Rightarrow> int) \<Rightarrow> gotime \<Rightarrow> database \<Rightarrow> int option" where
  "oldest_day sql_date cutoff db =
     (let days = map (\<lambda>r. sql_date (hist_CreatedAt r))
            (filter (\<lambda>r. hist_CreatedAt r < timestamptz cutoff) (tbl_historical db))
      in if days = [] then None else Some (Min (set days)))"

definition deleteExpiredHistorical ::
    "(gotime \<Rightarrow> int) \<Rightarrow> cleanup_env \<Rightarrow> DatasetConfig \<Rightarrow> cleanup_state \<Rightarrow>
       ((int \<times> string option) \<times> cleanup_state) option" where
  "deleteExpiredHistorical sql_date env cfg s =
     (let (cutoff, s) = cutoffTime env cfg s;
          cutoffDay = utcDayStart cutoff
      in case statement env (\<lambda>db. (oldest_day sql_date cutoff db, db)) s of
           (Inl e, s) \<Rightarrow> Some ((0, Some e), s)
         | (Inr None, s) \<Rightarrow> Some ((0, None), s)
         | (Inr (Some oldest), s) \<Rightarrow> delete_days env cfg (oldest * day) cutoffDay 0 s)"

section \<open>Pruning aggregates\<close>

definition prune_daily :: "gotime \<Rightarrow> database \<Rightarrow> int \<times> database" where
  "prune_daily cutoffDay db =
     (let rows = filter (\<lambda>r. \<not> daily_Date r < utc_date cutoffDay) (tbl_daily db)
      in (int (length (tbl_daily db)) - int (length rows), db\<lparr>tbl_daily := rows\<rparr>))"

definition prune_regions :: "gotime \<Rightarrow> database \<Rightarrow> int \<times> database" where
  "prune_regions cutoffDay db =
     (let rows = filter (\<lambda>r. \<not> region_Date r < utc_date cutoffDay) (tbl_region_daily db)
      in (int (length (tbl_region_daily db)) - int (length rows), db\<lparr>tbl_region_daily := rows\<rparr>))"

definition pruneAggregates ::
    "cleanup_env \<Rightarrow> DatasetConfig \<Rightarrow> cleanup_state \<Rightarrow> (int \<times> string option) \<times> cleanup_state" where
  "pruneAggregates env cfg s =
     (let (cutoff, s) = cutoffTime env cfg s; cutoffDay = utcDayStart cutoff
      in case statement env (prune_daily cutoffDay) s of
           (Inl e, s) \<Rightarrow> ((0, Some e), s)
         | (Inr n, s) \<Rightarrow>
             (case statement env (prune_regions cutoffDay) s of
                (Inl e, s) \<Rightarrow> ((n, Some e), s)
              | (Inr m, s) \<Rightarrow> ((n + m, None), s)))"

section \<open>A pass\<close>

fun checkpoint_loop :: "cleanup_env \<Rightarrow> nat \<Rightarrow> cleanup_state \<Rightarrow> string option \<times> cleanup_state" where
  "checkpoint_loop env left s =
     (case statement env (\<lambda>db. ((), db)) s of
        (Inr _, s) \<Rightarrow> (None, s)
      | (Inl e, s) \<Rightarrow>
          (case left of
             0 \<Rightarrow> (Some e, s)
           | Suc left \<Rightarrow> if ctx_err env s then (Some ''context canceled'', s) else checkpoint_loop env left s))"

declare checkpoint_loop.simps [simp del]

definition checkpoint :: "cleanup_env \<Rightarrow> cleanup_state \<Rightarrow> string option \<times> cleanup_state" where
  "checkpoint env s = checkpoint_loop env 2 s"

definition captureDatabaseSize :: "cleanup_env \<Rightarrow> cleanup_state \<Rightarrow> (nat \<times> nat) result \<times> cleanup_state" where
  "captureDatabaseSize env s =
     (let (blockSize, totalBlocks, freeBlocks) = ce_size env (cs_statements s);
          bytes = (blockSize * totalBlocks mod 2 ^ 64, blockSize * freeBlocks mod 2 ^ 64)
      in statement env (\<lambda>db. (bytes, db)) s)"

record cleanup_report =
  cr_status :: string
  cr_rowsDeleted :: int
  cr_bytes :: "nat \<times> nat"

definition failed :: "cleanup_env \<Rightarrow> cleanup_state \<Rightarrow> cleanup_report \<Rightarrow> cleanup_report" where
  "failed env s r = (if ctx_err env s then r else r\<lparr>cr_status := ''error''\<rparr>)"

definition finish_pass ::
    "cleanup_env \<Rightarrow> cleanup_report \<Rightarrow> cleanup_state \<Rightarrow> cleanup_report \<times> cleanup_state" where
  "finish_pass env r s =
     (case checkpoint env s of
        (err, s) \<Rightarrow>
          if err \<noteq> None \<and> ctx_err env s then (r, s)
          else (let r = (if err \<noteq> None then r\<lparr>cr_status := ''error''\<rparr> else r)
            in if ctx_err env s then (r, s)
               else (case captureDatabaseSize env s of
                       (Inl e, s) \<Rightarrow> (failed env s (r\<lparr>cr_bytes := (0, 0)\<rparr>), s)
                     | (Inr bytes, s) \<Rightarrow> (r\<lparr>cr_bytes := bytes\<rparr>, s))))"

definition prune_pass ::
    "cleanup_env \<Rightarrow> DatasetConfig \<Rightarrow> cleanup_report \<Rightarrow> cleanup_state \<Rightarrow> cleanup_report \<times> cleanup_state" where
  "prune_pass env cfg r s =
     (if ctx_err env s then (r, s)
      else case pruneAggregates env cfg s of
             ((n, Some e), s) \<Rightarrow> (failed env s r, s)
           | ((n, None), s) \<Rightarrow> finish_pass env (r\<lparr>cr_rowsDeleted := cr_rowsDeleted r + n\<rparr>) s)"

definition delete_pass ::
    "(gotime \<Rightarrow> int) \<Rightarrow> cleanup_env \<Rightarrow> DatasetConfig \<Rightarrow> cleanup_report \<Rightarrow> cleanup_state \<Rightarrow>
       (cleanup_report \<times> cleanup_state) option" where
  "delete_pass sql_date env cfg r s =
     (if ctx_err env s then Some (r, s)
      else case deleteExpiredHistorical sql_date env cfg s of
             None \<Rightarrow> None
           | Some ((n, Some e), s) \<Rightarrow> Some (failed env s r, s)
           | Some ((n, None), s) \<Rightarrow> Some (prune_pass env cfg (r\<lparr>cr_rowsDeleted := cr_rowsDeleted r + n\<rparr>) s))"

text \<open>No report: the context was cancelled before the pass began.\<close>

definition runCleanup ::
    "(gotime \<Rightarrow> int) \<Rightarrow> cleanup_env \<Rightarrow> DatasetConfig \<Rightarrow> cleanup_state \<Rightarrow>
       (cleanup_report option \<times> cleanup_state) option" where
  "runCleanup sql_date env cfg s =
     (if ctx_err env s then Some (None, s)
      else let r = \<lparr>cr_status = ''success'', cr_rowsDeleted = 0, cr_bytes = (0, 0)\<rparr>
        in case statement env (\<lambda>db. ((), db)) s of
             (Inl e, s) \<Rightarrow> Some (Some (failed env s r), s)
           | (Inr _, s) \<Rightarrow>
               (case captureDatabaseSize env s of
                  (Inl e, s) \<Rightarrow> Some (Some (failed env s r), s)
                | (Inr bytes, s) \<Rightarrow>
                    map_option (\<lambda>(r, s). (Some r, s)) (delete_pass sql_date env cfg (r\<lparr>cr_bytes := bytes\<rparr>) s)))"

section \<open>Deletion\<close>

lemma remove_first_rest: "filter (\<lambda>r. \<not> P r) (remove_first P n rs) = filter (\<lambda>r. \<not> P r) rs"
  by (induction P n rs rule: remove_first.induct) (auto split: nat.split)

lemma remove_first_subset: "set (remove_first P n rs) \<subseteq> set rs"
  by (induction P n rs rule: remove_first.induct) (auto split: nat.split)

lemma remove_first_count:
  "length (filter P (remove_first P n rs)) = length (filter P rs) - n"
  "length (remove_first P n rs) + min n (length (filter P rs)) = length rs"
  by (induction P n rs rule: remove_first.induct) (auto split: nat.split)

lemma remove_first_all: "length (filter P rs) \<le> n \<Longrightarrow> remove_first P n rs = filter (\<lambda>r. \<not> P r) rs"
proof -
  assume "length (filter P rs) \<le> n"
  then have "filter P (remove_first P n rs) = []"
    using remove_first_count(1) [of P n rs] by simp
  then have "filter (\<lambda>r. \<not> P r) (remove_first P n rs) = remove_first P n rs"
    by (simp add: filter_empty_conv filter_id_conv)
  then show ?thesis
    using remove_first_rest [of P n rs] by simp
qed

text \<open>\<open>only_removes P\<close>: the raw rows that do not satisfy \<open>P\<close> are all still there, none is new, and
  the other tables are as they were.\<close>

definition only_removes :: "(MonitorHistorical \<Rightarrow> bool) \<Rightarrow> database \<Rightarrow> database \<Rightarrow> bool" where
  "only_removes P db db' =
     (filter (\<lambda>r. \<not> P r) (tbl_historical db') = filter (\<lambda>r. \<not> P r) (tbl_historical db) \<and>
      set (tbl_historical db') \<subseteq> set (tbl_historical db) \<and>
      db' = db\<lparr>tbl_historical := tbl_historical db'\<rparr>)"

lemma only_removes_refl [simp]: "only_removes P db db"
  by (simp add: only_removes_def)

lemma only_removes_trans: "only_removes P a b \<Longrightarrow> only_removes P b c \<Longrightarrow> only_removes P a c"
  unfolding only_removes_def by (metis (no_types, lifting) database.surjective database.update_convs(1) order_trans)

lemma only_removes_weaken:
  assumes "only_removes P a b" and "\<And>r. P r \<Longrightarrow> Q r"
  shows "only_removes Q a b"
proof -
  have "filter (\<lambda>r. \<not> Q r) rs = filter (\<lambda>r. \<not> Q r) (filter (\<lambda>r. \<not> P r) rs)" for rs
    using assms(2) by (auto intro: filter_cong)
  then show ?thesis
    using assms(1) unfolding only_removes_def by metis
qed

lemma delete_batch_removes: "only_removes (in_range a b) db (snd (delete_batch a b n db))"
  by (simp add: delete_batch_def Let_def only_removes_def remove_first_rest remove_first_subset)

lemma statement_removes:
  assumes "statement env f s = (r, s')" and "\<And>db. only_removes P db (snd (f db))"
  shows "only_removes P (cs_db s) (cs_db s')" and "cs_ticks s' = cs_ticks s"
  using assms(1) assms(2) [of "cs_db s"]
  by (auto simp: statement_def Let_def split_beta split: option.splits)

lemma statement_noop: "statement env (\<lambda>db. (x, db)) s = (r, s') \<Longrightarrow> cs_db s' = cs_db s \<and> cs_ticks s' = cs_ticks s"
  by (auto simp: statement_def Let_def split: option.splits)

lemma delete_range_loop_returns:
  assumes "0 < n"
  shows "\<exists>total err s'. delete_range_loop env n a b deleted s = Some ((total, err), s') \<and>
     only_removes (in_range a b) (cs_db s) (cs_db s') \<and> cs_ticks s' = cs_ticks s"
proof (induction "length (filter (in_range a b) (tbl_historical (cs_db s)))" arbitrary: s deleted rule: less_induct)
  case less
  obtain r s1 where st: "statement env (delete_batch a b n) s = (r, s1)" by fastforce
  note rm = statement_removes [OF st delete_batch_removes]
  show ?case
  proof (cases r)
    case (Inl e)
    then show ?thesis
      using rm by (subst delete_range_loop.simps) (simp add: st)
  next
    case (Inr m)
    then have m: "cs_db s1 = snd (delete_batch a b n (cs_db s))" "m = fst (delete_batch a b n (cs_db s))"
      using st by (auto simp: statement_def Let_def split_beta split: option.splits)
    show ?thesis
    proof (cases "m < n \<or> ctx_err env s1")
      case True
      then show ?thesis
        using rm Inr by (subst delete_range_loop.simps) (auto simp: st)
    next
      case False
      then have "int (nat n) \<le> int (min (nat n) (length (filter (in_range a b) (tbl_historical (cs_db s)))))"
        using m(2) remove_first_count(2) [of "in_range a b" "nat n" "tbl_historical (cs_db s)"] assms
        by (simp add: delete_batch_def Let_def)
      then have "length (filter (in_range a b) (tbl_historical (cs_db s1))) <
          length (filter (in_range a b) (tbl_historical (cs_db s)))"
        using m(1) assms remove_first_count(1) [of "in_range a b" "nat n" "tbl_historical (cs_db s)"]
        by (simp add: delete_batch_def Let_def)
      from less [OF this, of "deleted + m"] obtain total err s' where
          "delete_range_loop env n a b (deleted + m) s1 = Some ((total, err), s')"
          "only_removes (in_range a b) (cs_db s1) (cs_db s')" "cs_ticks s' = cs_ticks s1"
        by blast
      then show ?thesis
        using rm only_removes_trans Inr False
        by (subst delete_range_loop.simps) (auto simp: st)
    qed
  qed
qed

lemma next_day_le: "utcDayStart d = d \<Longrightarrow> utcDayStart u = u \<Longrightarrow> d < u \<Longrightarrow> add_days d 1 \<le> u"
proof -
  assume d: "utcDayStart d = d" "utcDayStart u = u" "d < u"
  then have "utc_date d + 1 \<le> utc_date u"
    using utcDayStart_less_iff [of d u] by simp
  then have "(utc_date d + 1) * day \<le> utc_date u * day"
    by (intro mult_right_mono) (simp_all add: day_def)
  then show ?thesis
    using d(1,2) utcDayStart_eq [of d] utcDayStart_eq [of u] by (simp add: add_days_def algebra_simps)
qed

lemma delete_days_returns:
  "0 < CleanupBatchSize cfg \<Longrightarrow> utcDayStart d = d \<Longrightarrow> utcDayStart till = till \<Longrightarrow>
     \<exists>total err s'. delete_days env cfg d till deleted s = Some ((total, err), s') \<and>
       only_removes (\<lambda>r. hist_CreatedAt r < till) (cs_db s) (cs_db s') \<and> cs_ticks s' = cs_ticks s"
proof (induction env cfg d till deleted s rule: delete_days.induct)
  case (1 env cfg d till deleted s)
  show ?case
  proof (cases "d < till \<and> \<not> ctx_err env s")
    case False
    then show ?thesis
      by (auto simp: delete_days.simps [of env cfg d])
  next
    case True
    obtain n err s1 where r: "deleteDayRange env cfg d (add_days d 1) s = Some ((n, err), s1)"
        "only_removes (in_range d (add_days d 1)) (cs_db s) (cs_db s1)" "cs_ticks s1 = cs_ticks s"
      using delete_range_loop_returns [OF "1.prems"(1), of env d "add_days d 1" 0 s] unfolding deleteDayRange_def by blast
    have le: "add_days d 1 \<le> till"
      using True "1.prems"(2,3) by (intro next_day_le) simp_all
    have rm: "only_removes (\<lambda>r. hist_CreatedAt r < till) (cs_db s) (cs_db s1)"
      using le by (intro only_removes_weaken [OF r(2)]) (simp add: in_range_def)
    show ?thesis
    proof (cases err)
      case (Some e)
      then show ?thesis
        using True r rm by (simp add: delete_days.simps [of env cfg d])
    next
      case None
      have next_midnight: "utcDayStart (add_days d 1) = add_days d 1"
        using "1.prems"(2) by simp
      obtain total e s2 where "delete_days env cfg (add_days d 1) till (deleted + n) s1 = Some ((total, e), s2)"
          "only_removes (\<lambda>r. hist_CreatedAt r < till) (cs_db s1) (cs_db s2)" "cs_ticks s2 = cs_ticks s1"
        using "1.IH" [of "((n, None), s1)" "(n, None)" s1 n None] True r(1) None "1.prems" next_midnight by auto
      then show ?thesis
        using True r rm None only_removes_trans by (auto simp: delete_days.simps [of env cfg d])
    qed
  qed
qed

lemma delete_expired_returns:
  assumes "0 < CleanupBatchSize cfg"
  obtains total err s' where "deleteExpiredHistorical sql_date env cfg s = Some ((total, err), s')"
    and "only_removes (\<lambda>r. hist_CreatedAt r < utcDayStart (add_days (ce_clock env (cs_ticks s)) (- RetentionDays cfg)))
      (cs_db s) (cs_db s')"
    and "cs_ticks s' = Suc (cs_ticks s)"
proof -
  let ?cutoff = "add_days (ce_clock env (cs_ticks s)) (- RetentionDays cfg)"
  let ?s = "s\<lparr>cs_ticks := Suc (cs_ticks s)\<rparr>"
  obtain r s1 where st: "statement env (\<lambda>db. (oldest_day sql_date ?cutoff db, db)) ?s = (r, s1)" by fastforce
  have s1: "cs_db s1 = cs_db s" "cs_ticks s1 = Suc (cs_ticks s)"
    using statement_removes [OF st, of "\<lambda>_. True"] st by (auto simp: statement_def Let_def split: option.splits)
  have "utcDayStart (d * day) = d * day" for d
    by (simp add: utcDayStart_eq)
  then have "\<exists>total err s'. delete_days env cfg (d * day) (utcDayStart ?cutoff) 0 s1 = Some ((total, err), s') \<and>
       only_removes (\<lambda>r. hist_CreatedAt r < utcDayStart ?cutoff) (cs_db s1) (cs_db s') \<and> cs_ticks s' = cs_ticks s1" for d
    using assms by (intro delete_days_returns) simp_all
  then have "\<exists>total err s'. deleteExpiredHistorical sql_date env cfg s = Some ((total, err), s') \<and>
      only_removes (\<lambda>r. hist_CreatedAt r < utcDayStart ?cutoff) (cs_db s) (cs_db s') \<and> cs_ticks s' = Suc (cs_ticks s)"
    unfolding deleteExpiredHistorical_def cutoffTime_def Let_def prod.case st
    using s1 by (auto split: sum.split option.split)
  then show thesis using that by blast
qed

section \<open>The rest of a pass\<close>

definition only_prunes :: "gotime \<Rightarrow> database \<Rightarrow> database \<Rightarrow> bool" where
  "only_prunes cutoffDay db db' =
     (tbl_historical db' = tbl_historical db \<and>
      tbl_daily db' \<in> {tbl_daily db, filter (\<lambda>r. \<not> daily_Date r < utc_date cutoffDay) (tbl_daily db)} \<and>
      tbl_region_daily db' \<in> {tbl_region_daily db, filter (\<lambda>r. \<not> region_Date r < utc_date cutoffDay) (tbl_region_daily db)} \<and>
      tbl_state db' = tbl_state db \<and> tbl_incidents db' = tbl_incidents db \<and> tbl_events db' = tbl_events db)"

lemma pruneAggregates_prunes:
  "pruneAggregates env cfg s = (r, s') \<Longrightarrow>
     only_prunes (utcDayStart (add_days (ce_clock env (cs_ticks s)) (- RetentionDays cfg))) (cs_db s) (cs_db s')"
  by (auto simp: pruneAggregates_def cutoffTime_def statement_def prune_daily_def prune_regions_def only_prunes_def Let_def
      split: prod.splits option.splits sum.splits)

lemma checkpoint_loop_db: "checkpoint_loop env n s = (r, s') \<Longrightarrow> cs_db s' = cs_db s"
proof (induction env n s rule: checkpoint_loop.induct)
  case (1 env left s)
  obtain x s1 where st: "statement env (\<lambda>db. ((), db)) s = (x, s1)" by fastforce
  note db = statement_noop [OF st]
  have eq: "checkpoint_loop env left s =
      (case x of
         Inr _ \<Rightarrow> (None, s1)
       | Inl e \<Rightarrow>
           (case left of
              0 \<Rightarrow> (Some e, s1)
            | Suc left \<Rightarrow> if ctx_err env s1 then (Some ''context canceled'', s1) else checkpoint_loop env left s1))"
    using st by (subst checkpoint_loop.simps) (auto split: sum.split)
  note res = "1.prems" [unfolded eq]
  show ?case
  proof (cases x)
    case (Inr u)
    then show ?thesis using res db by simp
  next
    case (Inl e)
    show ?thesis
    proof (cases left)
      case 0
      then show ?thesis using res db Inl by simp
    next
      case (Suc n)
      show ?thesis
      proof (cases "ctx_err env s1")
        case True
        then show ?thesis using res db Inl Suc by simp
      next
        case False
        then have "cs_db s' = cs_db s1"
          using res Inl Suc st by (intro "1.IH") simp_all
        then show ?thesis using db by simp
      qed
    qed
  qed
qed

lemma captureDatabaseSize_db: "captureDatabaseSize env s = (r, s') \<Longrightarrow> cs_db s' = cs_db s \<and> cs_ticks s' = cs_ticks s"
  unfolding captureDatabaseSize_def Let_def split_beta by (rule statement_noop)

lemma finish_pass_db: "finish_pass env r s = (r', s') \<Longrightarrow> cs_db s' = cs_db s"
  unfolding finish_pass_def checkpoint_def Let_def
  by (auto dest!: checkpoint_loop_db captureDatabaseSize_db split: prod.splits if_splits sum.splits)

lemma prune_pass_prunes:
  "prune_pass env cfg r s = (r', s') \<Longrightarrow>
     only_prunes (utcDayStart (add_days (ce_clock env (cs_ticks s)) (- RetentionDays cfg))) (cs_db s) (cs_db s')"
  unfolding prune_pass_def
  by (auto dest!: pruneAggregates_prunes finish_pass_db split: prod.splits if_splits option.splits simp: only_prunes_def)

section \<open>A pass that nothing disturbs\<close>

definition quiet :: "cleanup_env \<Rightarrow> bool" where
  "quiet env = (\<forall>n. ce_fault env n = None \<and> \<not> ce_cancelled env n)"

lemma quiet_simps [simp]:
  "quiet env \<Longrightarrow> \<not> ctx_err env s"
  "quiet env \<Longrightarrow> statement env f s =
     (Inr (fst (f (cs_db s))), s\<lparr>cs_db := snd (f (cs_db s)), cs_statements := Suc (cs_statements s)\<rparr>)"
  by (simp_all add: quiet_def ctx_err_def statement_def split_beta)

definition removed_count :: "database \<Rightarrow> database \<Rightarrow> int" where
  "removed_count db db' =
     int (length (tbl_historical db)) - int (length (tbl_historical db')) +
     (int (length (tbl_daily db)) - int (length (tbl_daily db'))) +
     (int (length (tbl_region_daily db)) - int (length (tbl_region_daily db')))"

lemma delete_range_loop_quiet:
  assumes "quiet env" and "0 < n"
  shows "\<exists>s'. delete_range_loop env n a b deleted s =
       Some ((deleted + removed_count (cs_db s) (cs_db s'), None), s') \<and>
     cs_db s' = (cs_db s)\<lparr>tbl_historical := filter (\<lambda>r. \<not> in_range a b r) (tbl_historical (cs_db s))\<rparr> \<and>
     cs_ticks s' = cs_ticks s"
proof (induction "length (filter (in_range a b) (tbl_historical (cs_db s)))" arbitrary: s deleted rule: less_induct)
  case less
  let ?P = "in_range a b" and ?rs = "tbl_historical (cs_db s)"
  let ?s1 = "s\<lparr>cs_db := snd (delete_batch a b n (cs_db s)), cs_statements := Suc (cs_statements s)\<rparr>"
  let ?m = "fst (delete_batch a b n (cs_db s))"
  have m: "?m = int (min (nat n) (length (filter ?P ?rs)))"
    using remove_first_count(2) [of ?P "nat n" ?rs] by (simp add: delete_batch_def Let_def)
  have rs1: "tbl_historical (cs_db ?s1) = remove_first ?P (nat n) ?rs"
    by (simp add: delete_batch_def Let_def)
  have db1: "cs_db ?s1 = (cs_db s)\<lparr>tbl_historical := remove_first ?P (nat n) ?rs\<rparr>"
    by (simp add: delete_batch_def Let_def)
  have cnt: "?m = removed_count (cs_db s) (cs_db ?s1)"
    by (simp add: delete_batch_def Let_def removed_count_def)
  show ?case
  proof (cases "?m < n")
    case True
    then have "length (filter ?P ?rs) \<le> nat n"
      using m by linarith
    then have "remove_first ?P (nat n) ?rs = filter (\<lambda>r. \<not> ?P r) ?rs"
      by (rule remove_first_all)
    then show ?thesis
      using assms(1) True db1 cnt by (subst delete_range_loop.simps) (auto intro!: exI [of _ ?s1])
  next
    case False
    then have "nat n \<le> length (filter ?P ?rs)"
      using m by linarith
    then have "length (filter ?P (tbl_historical (cs_db ?s1))) < length (filter ?P ?rs)"
      unfolding rs1 using remove_first_count(1) [of ?P "nat n" ?rs] assms(2) by simp
    from less [OF this, of "deleted + ?m"] obtain s' where s':
        "delete_range_loop env n a b (deleted + ?m) ?s1 = Some ((deleted + ?m + removed_count (cs_db ?s1) (cs_db s'), None), s')"
        "cs_db s' = (cs_db ?s1)\<lparr>tbl_historical := filter (\<lambda>r. \<not> ?P r) (tbl_historical (cs_db ?s1))\<rparr>"
        "cs_ticks s' = cs_ticks s"
      by auto
    have "cs_db s' = (cs_db s)\<lparr>tbl_historical := filter (\<lambda>r. \<not> ?P r) ?rs\<rparr>"
      unfolding s'(2) db1 by (simp add: remove_first_rest)
    moreover have "?m + removed_count (cs_db ?s1) (cs_db s') = removed_count (cs_db s) (cs_db s')"
      unfolding cnt by (simp add: removed_count_def)
    ultimately show ?thesis
      using assms(1) False s' by (subst delete_range_loop.simps) (auto intro!: exI [of _ s'] simp: add.assoc)
  qed
qed

lemma delete_days_quiet:
  "quiet env \<Longrightarrow> 0 < CleanupBatchSize cfg \<Longrightarrow> utcDayStart d = d \<Longrightarrow> utcDayStart till = till \<Longrightarrow>
     \<exists>s'. delete_days env cfg d till deleted s = Some ((deleted + removed_count (cs_db s) (cs_db s'), None), s') \<and>
       cs_db s' = (cs_db s)\<lparr>tbl_historical := filter (\<lambda>r. \<not> in_range d till r) (tbl_historical (cs_db s))\<rparr> \<and>
       cs_ticks s' = cs_ticks s"
proof (induction env cfg d till deleted s rule: delete_days.induct)
  case (1 env cfg d till deleted s)
  show ?case
  proof (cases "d < till")
    case False
    then have "filter (\<lambda>r. \<not> in_range d till r) rs = rs" for rs
      by (auto simp: in_range_def filter_id_conv)
    with False show ?thesis
      by (simp add: delete_days.simps [of env cfg d] removed_count_def)
  next
    case True
    let ?u = "add_days d 1"
    have le: "?u \<le> till"
      using True "1.prems"(3,4) by (intro next_day_le) simp_all
    have mid: "utcDayStart ?u = ?u"
      using "1.prems"(3) by simp
    obtain s1 where r: "deleteDayRange env cfg d ?u s = Some ((removed_count (cs_db s) (cs_db s1), None), s1)"
        "cs_db s1 = (cs_db s)\<lparr>tbl_historical := filter (\<lambda>r. \<not> in_range d ?u r) (tbl_historical (cs_db s))\<rparr>"
        "cs_ticks s1 = cs_ticks s"
      using delete_range_loop_quiet [OF "1.prems"(1,2), of d ?u 0 s] unfolding deleteDayRange_def by auto
    let ?n = "removed_count (cs_db s) (cs_db s1)"
    obtain s2 where r2: "delete_days env cfg ?u till (deleted + ?n) s1 =
          Some ((deleted + ?n + removed_count (cs_db s1) (cs_db s2), None), s2)"
        "cs_db s2 = (cs_db s1)\<lparr>tbl_historical := filter (\<lambda>r. \<not> in_range ?u till r) (tbl_historical (cs_db s1))\<rparr>"
        "cs_ticks s2 = cs_ticks s1"
      using "1.IH" [of "((?n, None), s1)" "(?n, None)" s1 ?n None] True r(1) "1.prems" mid by auto
    have "in_range d till r = (in_range d ?u r \<or> in_range ?u till r)" for r
      using le by (auto simp: in_range_def add_days_def day_def)
    then have "cs_db s2 = (cs_db s)\<lparr>tbl_historical := filter (\<lambda>r. \<not> in_range d till r) (tbl_historical (cs_db s))\<rparr>"
      unfolding r2(2) r(2) by (auto intro!: filter_cong)
    moreover have "?n + removed_count (cs_db s1) (cs_db s2) = removed_count (cs_db s) (cs_db s2)"
      by (simp add: removed_count_def)
    ultimately show ?thesis
      using True "1.prems"(1) r r2 by (auto simp: delete_days.simps [of env cfg d] add.assoc)
  qed
qed

lemma delete_expired_quiet:
  fixes env :: cleanup_env and cfg :: DatasetConfig and s :: cleanup_state
  assumes "quiet env" and "0 < CleanupBatchSize cfg" and "\<And>t. sql_date t = utc_date t"
  defines "till \<equiv> utcDayStart (add_days (ce_clock env (cs_ticks s)) (- RetentionDays cfg))"
  shows "\<exists>s'. deleteExpiredHistorical sql_date env cfg s = Some ((removed_count (cs_db s) (cs_db s'), None), s') \<and>
     cs_db s' = (cs_db s)\<lparr>tbl_historical := filter (\<lambda>r. till \<le> hist_CreatedAt r) (tbl_historical (cs_db s))\<rparr> \<and>
     cs_ticks s' = Suc (cs_ticks s)"
proof -
  let ?cutoff = "add_days (ce_clock env (cs_ticks s)) (- RetentionDays cfg)"
  let ?s1 = "s\<lparr>cs_ticks := Suc (cs_ticks s), cs_statements := Suc (cs_statements s)\<rparr>"
  let ?rs = "tbl_historical (cs_db s)"
  have c: "till \<le> timestamptz ?cutoff"
  proof -
    have "till = timestamptz till"
      by (simp add: till_def utcDayStart_eq timestamptz_def day_def)
    also have "\<dots> \<le> timestamptz ?cutoff"
      unfolding till_def by (rule timestamptz_mono) (rule utcDayStart_le)
    finally show ?thesis .
  qed
  show ?thesis
  proof (cases "oldest_day sql_date ?cutoff (cs_db s)")
    case None
    then have "\<forall>r \<in> set ?rs. \<not> hist_CreatedAt r < timestamptz ?cutoff"
      by (auto simp: oldest_day_def Let_def filter_empty_conv split: if_splits)
    then have "filter (\<lambda>r. till \<le> hist_CreatedAt r) ?rs = ?rs"
      using c by (fastforce simp: filter_id_conv)
    then show ?thesis
      using None assms(1) by (simp add: deleteExpiredHistorical_def cutoffTime_def Let_def removed_count_def)
  next
    case (Some d)
    have mid: "utcDayStart (d * day) = d * day" "utcDayStart till = till"
      by (simp_all add: till_def utcDayStart_eq)
    obtain s' where s': "delete_days env cfg (d * day) till 0 ?s1 = Some ((0 + removed_count (cs_db ?s1) (cs_db s'), None), s')"
        "cs_db s' = (cs_db ?s1)\<lparr>tbl_historical := filter (\<lambda>r. \<not> in_range (d * day) till r) (tbl_historical (cs_db ?s1))\<rparr>"
        "cs_ticks s' = cs_ticks ?s1"
      using delete_days_quiet [OF assms(1,2) mid, of 0 ?s1] by blast
    have old: "d * day \<le> hist_CreatedAt r" if "r \<in> set ?rs" "hist_CreatedAt r < till" for r
    proof -
      have "d \<le> utc_date (hist_CreatedAt r)"
        using Some that c assms(3) by (auto simp: oldest_day_def Let_def split: if_splits)
      then have "d * day \<le> utc_date (hist_CreatedAt r) * day"
        by (intro mult_right_mono) (simp_all add: day_def)
      then show ?thesis
        using utcDayStart_le(1) [of "hist_CreatedAt r"] by (simp add: utcDayStart_eq)
    qed
    have "filter (\<lambda>r. \<not> in_range (d * day) till r) ?rs = filter (\<lambda>r. till \<le> hist_CreatedAt r) ?rs"
      using old by (intro filter_cong refl) (force simp: in_range_def not_le)
    then show ?thesis
      using Some assms(1) s'
      by (auto simp: deleteExpiredHistorical_def cutoffTime_def Let_def till_def [symmetric] intro!: exI [of _ s']
          simp del: utcDayStart_add_days)
  qed
qed

lemma runCleanup_returns:
  assumes batch: "0 < CleanupBatchSize cfg"
  shows "runCleanup sql_date env cfg s \<noteq> None"
proof -
  have "deleteExpiredHistorical sql_date env cfg v \<noteq> None" for v
    using delete_expired_returns [OF batch, of sql_date env v] by blast
  then have "delete_pass sql_date env cfg r v \<noteq> None" for r v
    by (auto simp: delete_pass_def split: option.split simp del: not_None_eq)
  then show ?thesis
    by (auto simp: runCleanup_def Let_def split: sum.split prod.split simp del: not_None_eq)
qed

section \<open>Properties\<close>

text \<open>
  C31: With the batch size of a valid configuration every pass returns, whatever fails and whenever
  it is cancelled: each full batch leaves fewer rows of the day, and there are finitely many days.
\<close>

theorem cleanup_returns:
  assumes "server_Validate c = None"
  shows "runCleanup sql_date env (sc_Dataset c) s \<noteq> None"
  using assms by (intro runCleanup_returns) (auto simp: server_Validate_def split: option.splits if_splits)

text \<open>What a pass does to the tables, however far it comes.\<close>

lemma runCleanup_effect:
  fixes env :: cleanup_env and cfg :: DatasetConfig and s :: cleanup_state
  assumes "0 < CleanupBatchSize cfg" and "runCleanup sql_date env cfg s = Some (report, s')"
  defines "cutoff \<equiv> \<lambda>n. utcDayStart (add_days (ce_clock env (cs_ticks s + n)) (- RetentionDays cfg))"
  shows "\<exists>db. only_removes (\<lambda>r. hist_CreatedAt r < cutoff 0) (cs_db s) db \<and> only_prunes (cutoff 1) db (cs_db s')"
proof -
  have noop: "only_removes P db db" "only_prunes t db db" for P db t
    by (simp_all add: only_prunes_def)
  have pass: "\<exists>db. only_removes (\<lambda>r. hist_CreatedAt r < cutoff 0) (cs_db s) db \<and> only_prunes (cutoff 1) db (cs_db v')"
    if p: "delete_pass sql_date env cfg r v = Some (r', v')" and v: "cs_db v = cs_db s" "cs_ticks v = cs_ticks s" for r v r' v'
  proof -
    obtain n e v1 where d: "deleteExpiredHistorical sql_date env cfg v = Some ((n, e), v1)"
        "only_removes (\<lambda>r. hist_CreatedAt r < cutoff 0) (cs_db s) (cs_db v1)" "cs_ticks v1 = Suc (cs_ticks s)"
      using delete_expired_returns [OF assms(1), of sql_date env v] v unfolding cutoff_def by auto
    have "v' = v \<or> v' = v1 \<or> (\<exists>r r'. prune_pass env cfg r v1 = (r', v'))"
      using p d(1) by (cases e) (auto simp: delete_pass_def split: if_splits)
    then have "cs_db v' = cs_db s \<or> only_prunes (cutoff 1) (cs_db v1) (cs_db v')"
      using prune_pass_prunes [of env cfg _ v1] noop(2) v d(3) unfolding cutoff_def by auto
    then show ?thesis
      using d(2) noop by metis
  qed
  show ?thesis
  proof -
    obtain x s1 where st: "statement env (\<lambda>db. ((), db)) s = (x, s1)" by fastforce
    obtain y s2 where cap: "captureDatabaseSize env s1 = (y, s2)" by fastforce
    note same = statement_noop [OF st] captureDatabaseSize_db [OF cap]
    have "s' = s \<or> s' = s1 \<or> s' = s2 \<or> (\<exists>r r'. delete_pass sql_date env cfg r s2 = Some (r', s'))"
      using assms(2) st cap by (auto simp: runCleanup_def Let_def split: if_splits sum.splits)
    then show ?thesis
      using pass [of _ s2] same noop by metis
  qed
qed

text \<open>
  C21: A pass never touches what the retention keeps: every raw row from the cutoff day on stays, in
  order, no row appears, and of the aggregates and incidents only aggregates of days before the
  cutoff day may go, whatever fails in between.
\<close>

theorem cleanup_keeps_recent_data:
  fixes env :: cleanup_env and cfg :: DatasetConfig and s :: cleanup_state
  assumes "0 < CleanupBatchSize cfg" and "runCleanup sql_date env cfg s = Some (report, s')"
  defines "cutoff \<equiv> \<lambda>n. utcDayStart (add_days (ce_clock env (cs_ticks s + n)) (- RetentionDays cfg))"
  shows "filter (\<lambda>r. cutoff 0 \<le> hist_CreatedAt r) (tbl_historical (cs_db s')) =
           filter (\<lambda>r. cutoff 0 \<le> hist_CreatedAt r) (tbl_historical (cs_db s)) \<and>
         set (tbl_historical (cs_db s')) \<subseteq> set (tbl_historical (cs_db s)) \<and>
         tbl_daily (cs_db s') \<in> {tbl_daily (cs_db s),
           filter (\<lambda>r. utc_date (cutoff 1) \<le> daily_Date r) (tbl_daily (cs_db s))} \<and>
         tbl_region_daily (cs_db s') \<in> {tbl_region_daily (cs_db s),
           filter (\<lambda>r. utc_date (cutoff 1) \<le> region_Date r) (tbl_region_daily (cs_db s))} \<and>
         tbl_state (cs_db s') = tbl_state (cs_db s) \<and> tbl_incidents (cs_db s') = tbl_incidents (cs_db s) \<and>
         tbl_events (cs_db s') = tbl_events (cs_db s)"
proof -
  obtain db where db: "only_removes (\<lambda>r. hist_CreatedAt r < cutoff 0) (cs_db s) db" "only_prunes (cutoff 1) db (cs_db s')"
    using runCleanup_effect [OF assms(1,2)] unfolding cutoff_def by blast
  from db(1) have "tbl_daily db = tbl_daily (cs_db s)" "tbl_region_daily db = tbl_region_daily (cs_db s)"
      "tbl_state db = tbl_state (cs_db s)" "tbl_incidents db = tbl_incidents (cs_db s)" "tbl_events db = tbl_events (cs_db s)"
    unfolding only_removes_def by (metis database.select_convs(2-6) database.surjective database.update_convs(1))+
  then show ?thesis
    using db by (simp add: only_removes_def only_prunes_def not_less)
qed

lemma prune_pass_quiet:
  fixes env :: cleanup_env and cfg :: DatasetConfig and s :: cleanup_state
  assumes "quiet env"
  defines "till \<equiv> utcDayStart (add_days (ce_clock env (cs_ticks s)) (- RetentionDays cfg))"
  shows "\<exists>bytes s'. prune_pass env cfg r s =
       (r\<lparr>cr_rowsDeleted := cr_rowsDeleted r + removed_count (cs_db s) (cs_db s'), cr_bytes := bytes\<rparr>, s') \<and>
     cs_db s' = (cs_db s)\<lparr>tbl_daily := filter (\<lambda>r. utc_date till \<le> daily_Date r) (tbl_daily (cs_db s)),
       tbl_region_daily := filter (\<lambda>r. utc_date till \<le> region_Date r) (tbl_region_daily (cs_db s))\<rparr>"
proof -
  have p: "\<exists>s'. pruneAggregates env cfg s = ((removed_count (cs_db s) (cs_db s'), None), s') \<and>
      cs_db s' = (cs_db s)\<lparr>tbl_daily := filter (\<lambda>r. utc_date till \<le> daily_Date r) (tbl_daily (cs_db s)),
       tbl_region_daily := filter (\<lambda>r. utc_date till \<le> region_Date r) (tbl_region_daily (cs_db s))\<rparr>"
    using assms(1)
    by (simp add: pruneAggregates_def cutoffTime_def prune_daily_def prune_regions_def Let_def till_def [symmetric]
        removed_count_def not_less del: utcDayStart_add_days utc_date_utcDayStart utc_date_add_days)
  have f: "\<exists>bytes s'. finish_pass env r v = (r\<lparr>cr_bytes := bytes\<rparr>, s') \<and> cs_db s' = cs_db v" for r v
    using assms(1)
    by (simp add: finish_pass_def checkpoint_def checkpoint_loop.simps [of env] captureDatabaseSize_def Let_def split_beta) blast
  obtain s1 where s1: "pruneAggregates env cfg s = ((removed_count (cs_db s) (cs_db s1), None), s1)"
      "cs_db s1 = (cs_db s)\<lparr>tbl_daily := filter (\<lambda>r. utc_date till \<le> daily_Date r) (tbl_daily (cs_db s)),
       tbl_region_daily := filter (\<lambda>r. utc_date till \<le> region_Date r) (tbl_region_daily (cs_db s))\<rparr>"
    using p by blast
  obtain bytes s2 where "finish_pass env (r\<lparr>cr_rowsDeleted := cr_rowsDeleted r + removed_count (cs_db s) (cs_db s1)\<rparr>) s1 =
      (r\<lparr>cr_rowsDeleted := cr_rowsDeleted r + removed_count (cs_db s) (cs_db s1), cr_bytes := bytes\<rparr>, s2)"
      "cs_db s2 = cs_db s1"
    using f [of "r\<lparr>cr_rowsDeleted := cr_rowsDeleted r + removed_count (cs_db s) (cs_db s1)\<rparr>" s1] by auto
  then show ?thesis
    using assms(1) s1 by (intro exI [of _ bytes] exI [of _ s2]) (simp add: prune_pass_def)
qed

text \<open>
  C20: A pass that nothing disturbs enforces the retention exactly, in a session in UTC: what is left
  are the raw rows from the cutoff day on and the aggregates of the days from the cutoff day of the
  second reading of the clock on, and the report counts exactly the rows that went.
\<close>

theorem cleanup_enforces_retention:
  fixes env :: cleanup_env and cfg :: DatasetConfig and s :: cleanup_state
  assumes "quiet env" and "0 < CleanupBatchSize cfg" and "\<And>t. sql_date t = utc_date t"
  defines "cutoff \<equiv> \<lambda>n. utcDayStart (add_days (ce_clock env (cs_ticks s + n)) (- RetentionDays cfg))"
  shows "\<exists>report s'. runCleanup sql_date env cfg s = Some (Some report, s') \<and>
     cr_status report = ''success'' \<and> cr_rowsDeleted report = removed_count (cs_db s) (cs_db s') \<and>
     cs_db s' = (cs_db s)
       \<lparr>tbl_historical := filter (\<lambda>r. cutoff 0 \<le> hist_CreatedAt r) (tbl_historical (cs_db s)),
        tbl_daily := filter (\<lambda>r. utc_date (cutoff 1) \<le> daily_Date r) (tbl_daily (cs_db s)),
        tbl_region_daily := filter (\<lambda>r. utc_date (cutoff 1) \<le> region_Date r) (tbl_region_daily (cs_db s))\<rparr>"
proof -
  define s1 where "s1 = s\<lparr>cs_statements := Suc (Suc (cs_statements s))\<rparr>"
  have s1: "cs_db s1 = cs_db s" "cs_ticks s1 = cs_ticks s"
    by (simp_all add: s1_def)
  obtain s2 where s2: "deleteExpiredHistorical sql_date env cfg s1 = Some ((removed_count (cs_db s) (cs_db s2), None), s2)"
      "cs_db s2 = (cs_db s)\<lparr>tbl_historical := filter (\<lambda>r. cutoff 0 \<le> hist_CreatedAt r) (tbl_historical (cs_db s))\<rparr>"
      "cs_ticks s2 = Suc (cs_ticks s)"
    using delete_expired_quiet [OF assms(1-3), of s1] unfolding s1 cutoff_def by auto
  obtain bytes0 where cap: "captureDatabaseSize env (s\<lparr>cs_statements := Suc (cs_statements s)\<rparr>) = (Inr bytes0, s1)"
    using assms(1) by (simp add: captureDatabaseSize_def Let_def split_beta s1_def)
  define r where "r = \<lparr>cr_status = ''success'', cr_rowsDeleted = removed_count (cs_db s) (cs_db s2), cr_bytes = bytes0\<rparr>"
  obtain bytes s3 where s3: "prune_pass env cfg r s2 =
       (r\<lparr>cr_rowsDeleted := cr_rowsDeleted r + removed_count (cs_db s2) (cs_db s3), cr_bytes := bytes\<rparr>, s3)"
      "cs_db s3 = (cs_db s2)\<lparr>tbl_daily := filter (\<lambda>r. utc_date (cutoff 1) \<le> daily_Date r) (tbl_daily (cs_db s2)),
       tbl_region_daily := filter (\<lambda>r. utc_date (cutoff 1) \<le> region_Date r) (tbl_region_daily (cs_db s2))\<rparr>"
    using prune_pass_quiet [OF assms(1), where s = s2 and cfg = cfg and r = r] unfolding cutoff_def s2(3) by auto
  have "delete_pass sql_date env cfg \<lparr>cr_status = ''success'', cr_rowsDeleted = 0, cr_bytes = bytes0\<rparr> s1 =
      Some (r\<lparr>cr_rowsDeleted := cr_rowsDeleted r + removed_count (cs_db s2) (cs_db s3), cr_bytes := bytes\<rparr>, s3)"
    using assms(1) s2(1) s3(1) by (simp add: delete_pass_def r_def)
  then have "runCleanup sql_date env cfg s =
      Some (Some (r\<lparr>cr_rowsDeleted := cr_rowsDeleted r + removed_count (cs_db s2) (cs_db s3), cr_bytes := bytes\<rparr>), s3)"
    using assms(1) cap by (simp add: runCleanup_def Let_def)
  moreover have "removed_count (cs_db s) (cs_db s2) + removed_count (cs_db s2) (cs_db s3) = removed_count (cs_db s) (cs_db s3)"
    by (simp add: removed_count_def)
  ultimately show ?thesis
    using s2(2) s3(2) by (simp add: r_def)
qed

section \<open>Examples\<close>

definition ex_cleanup_env :: cleanup_env where
  "ex_cleanup_env = \<lparr>ce_clock = (\<lambda>_. 1700000040000000000), ce_fault = (\<lambda>_. None), ce_cancelled = (\<lambda>_. False),
     ce_size = (\<lambda>_. (262144, 10, 2))\<rparr>"

definition ex_cleanup_state :: cleanup_state where
  "ex_cleanup_state = \<lparr>cs_db = empty_db\<lparr>tbl_daily :=
       [\<lparr>daily_MonitorID = ''api'', daily_Date = 19000, daily_AvgLatencyMs = 10, daily_MinLatencyMs = 5,
         daily_MaxLatencyMs = 20, daily_SuccessRate = 100\<rparr>,
        \<lparr>daily_MonitorID = ''api'', daily_Date = 19670, daily_AvgLatencyMs = 10, daily_MinLatencyMs = 5,
         daily_MaxLatencyMs = 20, daily_SuccessRate = 99\<rparr>]\<rparr>, cs_statements = 0, cs_ticks = 0\<rparr>"

theorem cleanup_returns_witness:
  "runCleanup utc_date ex_cleanup_env (sc_Dataset ex_server_config) ex_cleanup_state \<noteq> None"
  by (rule cleanup_returns [OF ex_server_config_valid])

theorem cleanup_enforces_retention_witness:
  "\<exists>report s'. runCleanup utc_date ex_cleanup_env (sc_Dataset ex_server_config) ex_cleanup_state = Some (Some report, s') \<and>
     cr_rowsDeleted report = 1 \<and> map daily_Date (tbl_daily (cs_db s')) = [19670]"
proof -
  have q: "quiet ex_cleanup_env" and b: "0 < CleanupBatchSize (sc_Dataset ex_server_config)"
    by (simp_all add: quiet_def ex_cleanup_env_def ex_server_config_def)
  have t: "utc_date (utcDayStart (add_days (ce_clock ex_cleanup_env (cs_ticks ex_cleanup_state + 1))
      (- RetentionDays (sc_Dataset ex_server_config)))) = 19585"
    by (simp add: ex_cleanup_env_def ex_server_config_def utc_date_def day_def add_days_def utcDayStart_def)
  show ?thesis
    using cleanup_enforces_retention [OF q b refl, of ex_cleanup_state] unfolding t
    by (auto simp: ex_cleanup_state_def empty_db_def removed_count_def)
qed

theorem cleanup_keeps_recent_data_witness:
  "\<exists>report s'. runCleanup utc_date ex_cleanup_env (sc_Dataset ex_server_config) ex_cleanup_state = Some (report, s') \<and>
     tbl_incidents (cs_db s') = []"
proof -
  obtain report s' where r: "runCleanup utc_date ex_cleanup_env (sc_Dataset ex_server_config) ex_cleanup_state = Some (report, s')"
    using runCleanup_returns [of "sc_Dataset ex_server_config" utc_date ex_cleanup_env ex_cleanup_state]
    by (auto simp: ex_server_config_def)
  have "0 < CleanupBatchSize (sc_Dataset ex_server_config)"
    by (simp add: ex_server_config_def)
  from cleanup_keeps_recent_data [OF this r] r show ?thesis
    by (simp add: ex_cleanup_state_def empty_db_def)
qed

end
