(* ===== verification/Uptime_Cache.thy ===== *)
theory Uptime_Cache
  imports Config_Server
begin

text \<open>
  \<open>uptime_cache.go\<close> and \<open>uptime_cache_backend.go\<close>: the caches in front of the aggregates of past
  days, one in memory and one on a Redis server, behind the interface \<open>uptimeAggregateCache\<close>.

  The world is met at numbered interactions (reading the clock, asking the database or Redis): a
  call takes the number of the next one and returns the number after its last. A loader is such a
  call. The calls here are those of a caller who finds no flight of its key under way and so runs its own
  function; how concurrent callers share flights is in \<open>Cache_Flights\<close>, which takes a call apart into the
  sections of code under the lock, and has this call as one of its runs.
\<close>

section \<open>The cache in memory\<close>

record 'v ttlCacheEntry =
  entry_value :: 'v
  entry_expiresAt :: gotime

record 'v ttlCache =
  tc_ttl :: duration
  tc_entries :: "(string, 'v ttlCacheEntry) gomap"

definition newTTLCache :: "duration \<Rightarrow> 'v ttlCache" where
  "newTTLCache ttl = \<lparr>tc_ttl = ttl, tc_entries = []\<rparr>"

text \<open>The three sections under the lock: the lookup, the second lookup, and the store.\<close>

datatype 'v lookup = Missing | Fresh 'v | Expired

definition read_section :: "gotime \<Rightarrow> string \<Rightarrow> 'v ttlCache \<Rightarrow> 'v lookup" where
  "read_section now key c =
     (case map_of (tc_entries c) key of
        None \<Rightarrow> Missing
      | Some entry \<Rightarrow> if now < entry_expiresAt entry then Fresh (entry_value entry) else Expired)"

definition expire_section :: "gotime \<Rightarrow> string \<Rightarrow> 'v ttlCache \<Rightarrow> 'v option \<times> 'v ttlCache" where
  "expire_section now key c =
     (case map_of (tc_entries c) key of
        None \<Rightarrow> (None, c)
      | Some entry \<Rightarrow>
          if now > entry_expiresAt entry then (None, c\<lparr>tc_entries := AList.delete key (tc_entries c)\<rparr>)
          else (Some (entry_value entry), c))"

definition set_section :: "gotime \<Rightarrow> string \<Rightarrow> 'v \<Rightarrow> 'v ttlCache \<Rightarrow> 'v ttlCache" where
  "set_section now key v c =
     c\<lparr>tc_entries :=
        AList.update key \<lparr>entry_value = v, entry_expiresAt = now + tc_ttl c\<rparr>
          (filter (\<lambda>(k, entry). \<not> now > entry_expiresAt entry) (tc_entries c))\<rparr>"

definition ttl_get :: "(nat \<Rightarrow> gotime) \<Rightarrow> string \<Rightarrow> 'v ttlCache \<Rightarrow> nat \<Rightarrow> 'v option \<times> 'v ttlCache \<times> nat" where
  "ttl_get clock key c n =
     (case read_section (clock n) key c of
        Missing \<Rightarrow> (None, c, n + 1)
      | Fresh v \<Rightarrow> (Some v, c, n + 1)
      | Expired \<Rightarrow> (case expire_section (clock (n + 1)) key c of (v, c) \<Rightarrow> (v, c, n + 2)))"

definition ttl_set :: "(nat \<Rightarrow> gotime) \<Rightarrow> string \<Rightarrow> 'v \<Rightarrow> 'v ttlCache \<Rightarrow> nat \<Rightarrow> 'v ttlCache \<times> nat" where
  "ttl_set clock key v c n = (set_section (clock n) key v c, n + 1)"

type_synonym 'v loader = "nat \<Rightarrow> 'v result \<times> nat"

text \<open>The function given to \<open>group.Do\<close>, and the whole call. A nil cache only loads.\<close>

definition ttl_load ::
    "(nat \<Rightarrow> gotime) \<Rightarrow> string \<Rightarrow> 'v loader \<Rightarrow> 'v ttlCache \<Rightarrow> nat \<Rightarrow> 'v result \<times> 'v ttlCache \<times> nat" where
  "ttl_load clock key loader c n =
     (case ttl_get clock key c n of
        (Some v, c, n) \<Rightarrow> (Inr v, c, n)
      | (None, c, n) \<Rightarrow>
          (case loader n of
             (Inl e, n) \<Rightarrow> (Inl e, c, n)
           | (Inr v, n) \<Rightarrow> (case ttl_set clock key v c n of (c, n) \<Rightarrow> (Inr v, c, n))))"

definition ttl_getOrLoadContext ::
    "(nat \<Rightarrow> gotime) \<Rightarrow> string \<Rightarrow> 'v loader \<Rightarrow> 'v ttlCache option \<Rightarrow> nat \<Rightarrow>
       'v result \<times> 'v ttlCache option \<times> nat" where
  "ttl_getOrLoadContext clock key loader c n =
     (case c of
        None \<Rightarrow> (case loader n of (r, n) \<Rightarrow> (r, None, n))
      | Some c \<Rightarrow>
          (case ttl_get clock key c n of
             (Some v, c, n) \<Rightarrow> (Inr v, Some c, n)
           | (None, c, n) \<Rightarrow> (case ttl_load clock key loader c n of (r, c, n) \<Rightarrow> (r, Some c, n))))"

section \<open>The cache on Redis\<close>

record redisTTLCache =
  rt_ttl :: duration
  rt_prefix :: string
  rt_namespace :: string

text \<open>
  The client of the Redis library and the JSON codec of the cached type are parameters.
  \<open>rc_get\<close> answers \<open>Inr None\<close> for \<open>redis.Nil\<close>; \<open>'r\<close> is the server's state, which the client
  reaches at an interaction.
\<close>

record 'r redis_client =
  rc_get :: "nat \<Rightarrow> string \<Rightarrow> 'r \<Rightarrow> string option result"
  rc_set :: "nat \<Rightarrow> string \<Rightarrow> string \<Rightarrow> duration \<Rightarrow> 'r \<Rightarrow> string option \<times> 'r"

record 'v codec =
  cd_marshal :: "'v \<Rightarrow> string result"
  cd_unmarshal :: "string \<Rightarrow> 'v result"

definition cacheKey :: "redisTTLCache \<Rightarrow> string \<Rightarrow> string" where
  "cacheKey c key =
     (if rt_prefix c = [] then rt_namespace c @ '':'' @ key
      else rt_prefix c @ '':'' @ rt_namespace c @ '':'' @ key)"

definition redis_get ::
    "'r redis_client \<Rightarrow> 'v codec \<Rightarrow> redisTTLCache \<Rightarrow> string \<Rightarrow> 'r \<Rightarrow> nat \<Rightarrow> 'v option result \<times> nat" where
  "redis_get client codec c key r n =
     (case rc_get client n (cacheKey c key) r of
        Inl e \<Rightarrow> (Inl e, n + 1)
      | Inr None \<Rightarrow> (Inr None, n + 1)
      | Inr (Some b) \<Rightarrow>
          (case cd_unmarshal codec b of Inl e \<Rightarrow> (Inl e, n + 1) | Inr v \<Rightarrow> (Inr (Some v), n + 1)))"

definition redis_set ::
    "'r redis_client \<Rightarrow> 'v codec \<Rightarrow> redisTTLCache \<Rightarrow> string \<Rightarrow> 'v \<Rightarrow> 'r \<Rightarrow> nat \<Rightarrow> string option \<times> 'r \<times> nat" where
  "redis_set client codec c key v r n =
     (case cd_marshal codec v of
        Inl e \<Rightarrow> (Some e, r, n)
      | Inr b \<Rightarrow> (case rc_set client n (cacheKey c key) b (rt_ttl c) r of (e, r) \<Rightarrow> (e, r, n + 1)))"

definition redis_load ::
    "'r redis_client \<Rightarrow> 'v codec \<Rightarrow> redisTTLCache \<Rightarrow> string \<Rightarrow> 'v loader \<Rightarrow> 'r \<Rightarrow> nat \<Rightarrow> 'v result \<times> 'r \<times> nat" where
  "redis_load client codec c key loader r n =
     (case redis_get client codec c key r n of
        (Inl e, n) \<Rightarrow> (Inl e, r, n)
      | (Inr (Some v), n) \<Rightarrow> (Inr v, r, n)
      | (Inr None, n) \<Rightarrow>
          (case loader n of
             (Inl e, n) \<Rightarrow> (Inl e, r, n)
           | (Inr v, n) \<Rightarrow>
               (case redis_set client codec c key v r n of
                  (Some e, r, n) \<Rightarrow> (Inl e, r, n)
                | (None, r, n) \<Rightarrow> (Inr v, r, n))))"

definition redis_getOrLoadContext ::
    "'r redis_client \<Rightarrow> 'v codec \<Rightarrow> redisTTLCache \<Rightarrow> string \<Rightarrow> 'v loader \<Rightarrow> 'r \<Rightarrow> nat \<Rightarrow> 'v result \<times> 'r \<times> nat" where
  "redis_getOrLoadContext client codec c key loader r n =
     (case redis_get client codec c key r n of
        (Inl e, n) \<Rightarrow> (Inl e, r, n)
      | (Inr (Some v), n) \<Rightarrow> (Inr v, r, n)
      | (Inr None, n) \<Rightarrow> redis_load client codec c key loader r n)"

section \<open>Choosing the backend\<close>

record tls_config =
  tls_InsecureSkipVerify :: bool

definition redisTLSConfig :: "bool \<Rightarrow> bool \<Rightarrow> tls_config option" where
  "redisTLSConfig enabled skipVerify =
     (if \<not> enabled then None else Some \<lparr>tls_InsecureSkipVerify = skipVerify\<rparr>)"

record redis_options =
  ro_Addr :: string
  ro_Username :: string
  ro_Password :: string
  ro_DB :: int
  ro_TLSConfig :: "tls_config option"
  ro_PoolSize :: int
  ro_MinIdleConns :: int

datatype 'v backend = MemoryBackend "'v ttlCache" | RedisBackend redis_options redisTTLCache

text \<open>\<open>Inl\<close> is the error \<open>unsupported cache backend\<close> with the configured name.\<close>

definition newUptimeAggregateCache :: "ServerConfig \<Rightarrow> string \<Rightarrow> duration \<Rightarrow> string + 'v backend" where
  "newUptimeAggregateCache config namespace ttl =
     (let backend = to_lower (trim_space (cache_Backend (sc_Cache config)));
          redis = cache_Redis (sc_Cache config)
      in if backend = [] \<or> backend = ''memory'' then Inr (MemoryBackend (newTTLCache ttl))
         else if backend = ''redis'' then
           Inr (RedisBackend
             \<lparr>ro_Addr = redis_cache_Address redis, ro_Username = redis_cache_Username redis,
              ro_Password = redis_cache_Password redis, ro_DB = redis_cache_DB redis,
              ro_TLSConfig = redisTLSConfig (redis_cache_TLS redis) (redis_cache_SkipTLSVerify redis),
              ro_PoolSize = 10, ro_MinIdleConns = 1\<rparr>
             \<lparr>rt_ttl = ttl, rt_prefix = redis_cache_Prefix redis, rt_namespace = namespace\<rparr>)
         else Inl (cache_Backend (sc_Cache config)))"

section \<open>Concurrent callers of the cache in memory\<close>

type_synonym 'v log = "(string \<times> 'v \<times> gotime) list"

inductive cache_step ::
    "'v ttlCache \<times> 'v log \<times> gotime \<Rightarrow> 'v ttlCache \<times> 'v log \<times> gotime \<Rightarrow> bool" where
  expire: "T \<le> now \<Longrightarrow> cache_step (c, L, T) (snd (expire_section now k c), L, now)"
| store: "T \<le> now \<Longrightarrow> cache_step (c, L, T) (set_section now k v c, (k, v, now) # L, now)"

inductive_cases cache_stepE: "cache_step (c, L, T) s"

definition cache_reachable :: "duration \<Rightarrow> 'v ttlCache \<times> 'v log \<times> gotime \<Rightarrow> bool" where
  "cache_reachable ttl s = (\<exists>T. cache_step\<^sup>*\<^sup>* (newTTLCache ttl, [], T) s)"

definition agrees :: "duration \<Rightarrow> 'v ttlCache \<times> 'v log \<times> gotime \<Rightarrow> bool" where
  "agrees ttl s = (case s of (c, L, T) \<Rightarrow>
     gm_wf (tc_entries c) \<and> tc_ttl c = ttl \<and>
     (\<forall>k e. map_of (tc_entries c) k = Some e \<longrightarrow> map_of L k = Some (entry_value e, entry_expiresAt e - ttl)) \<and>
     (\<forall>k v u. map_of L k = Some (v, u) \<and> T \<le> u + ttl \<longrightarrow>
        map_of (tc_entries c) k = Some \<lparr>entry_value = v, entry_expiresAt = u + ttl\<rparr>))"

lemma agrees_later: "agrees ttl (c, L, T) \<Longrightarrow> T \<le> now \<Longrightarrow> agrees ttl (c, L, now)"
  unfolding agrees_def by (simp only: prod.case) (meson order_trans)

lemma agrees_expire:
  assumes a: "agrees ttl (c, L, T)" and t: "T \<le> now"
  shows "agrees ttl (snd (expire_section now k c), L, now)"
proof (cases "map_of (tc_entries c) k")
  case None
  with assms show ?thesis by (simp add: expire_section_def agrees_def)
next
  case (Some e)
  with a have L: "map_of L k = Some (entry_value e, entry_expiresAt e - ttl)"
    by (simp add: agrees_def)
  show ?thesis
  proof (cases "now > entry_expiresAt e")
    case True
    then show ?thesis
      using a t Some L by (auto simp: expire_section_def agrees_def delete_conv' split: if_splits)
  next
    case False
    then show ?thesis
      using a t Some by (simp add: expire_section_def agrees_def)
  qed
qed

lemma agrees_store:
  assumes a: "agrees ttl (c, L, T)" and t: "T \<le> now"
  shows "agrees ttl (set_section now k v c, (k, v, now) # L, now)"
  using agrees_later [OF assms]
  by (auto simp: set_section_def agrees_def update_conv' map_of_filter_wf split: option.splits if_splits)

lemma cache_step_agrees: "cache_step s s' \<Longrightarrow> agrees ttl s \<Longrightarrow> agrees ttl s'"
  by (induction rule: cache_step.induct) (auto intro: agrees_expire agrees_store)

lemma cache_steps_agree: "cache_step\<^sup>*\<^sup>* s s' \<Longrightarrow> agrees ttl s \<Longrightarrow> agrees ttl s'"
  by (induction rule: rtranclp_induct) (auto intro: cache_step_agrees)

lemma reachable_agrees: "cache_reachable ttl s \<Longrightarrow> agrees ttl s"
  unfolding cache_reachable_def
  by (elim exE) (erule cache_steps_agree, simp add: agrees_def newTTLCache_def)

lemma agrees_read:
  assumes "agrees ttl (c, L, T)" and "T \<le> now"
  shows "(read_section now k c = Fresh v) = (\<exists>u. map_of L k = Some (v, u) \<and> now < u + ttl)"
  using assms by (fastforce simp: agrees_def read_section_def split: option.splits if_splits)

lemma agrees_expire_read:
  assumes "agrees ttl (c, L, T)" and "T \<le> now"
  shows "(fst (expire_section now k c) = Some v) = (\<exists>u. map_of L k = Some (v, u) \<and> now \<le> u + ttl)"
  using assms by (fastforce simp: agrees_def expire_section_def split: option.splits if_splits)

text \<open>Clocks and loaders that do not go back.\<close>

definition ticking :: "(nat \<Rightarrow> gotime) \<Rightarrow> bool" where
  "ticking clock = (\<forall>m n. m \<le> n \<longrightarrow> clock m \<le> clock n)"

definition forward :: "'v loader \<Rightarrow> bool" where
  "forward loader = (\<forall>m. m \<le> snd (loader m))"

text \<open>The value came from the loader, when it was called at or after an interaction.\<close>

definition loads :: "'v loader \<Rightarrow> nat \<Rightarrow> 'v \<Rightarrow> bool" where
  "loads loader n v = (\<exists>m\<ge>n. fst (loader m) = Inr v)"

lemma loadsI: "loader m = (Inr v, k) \<Longrightarrow> n \<le> m \<Longrightarrow> loads loader n v"
  by (auto simp: loads_def intro!: exI [of _ m])

lemma loads_earlier: "loads loader m v \<Longrightarrow> n \<le> m \<Longrightarrow> loads loader n v"
  by (auto simp: loads_def intro: order_trans)

lemma ticking_le: "ticking clock \<Longrightarrow> m \<le> n \<Longrightarrow> clock m \<le> clock n"
  by (simp add: ticking_def)

section \<open>The contract of the interface\<close>

text \<open>
  What a client of \<open>uptimeAggregateCache\<close> relies on: an answer comes from the cache or from the
  loader of this call, and the cache takes up nothing else.
\<close>

locale uptime_aggregate_cache =
  fixes getOrLoad :: "string \<Rightarrow> 'v loader \<Rightarrow> 'c \<Rightarrow> nat \<Rightarrow> 'v result \<times> 'c \<times> nat"
    and holds :: "'c \<Rightarrow> string \<Rightarrow> 'v \<Rightarrow> bool"
  assumes answer: "getOrLoad k loader c n = (Inr v, c', n') \<Longrightarrow>
      holds c k v \<or> loads loader n v"
    and keep: "getOrLoad k loader c n = (r, c', n') \<Longrightarrow> holds c' j v \<Longrightarrow>
      holds c j v \<or> j = k \<and> loads loader n v"

definition holds_only :: "('c \<Rightarrow> string \<Rightarrow> 'v \<Rightarrow> bool) \<Rightarrow> (string \<Rightarrow> 'v \<Rightarrow> bool) \<Rightarrow> 'c \<Rightarrow> bool" where
  "holds_only holds Q c = (\<forall>k v. holds c k v \<longrightarrow> Q k v)"

context uptime_aggregate_cache begin

lemma call_holds_only:
  assumes "getOrLoad k loader c n = (r, c', n')" and "holds_only holds Q c"
    and "\<And>v. loads loader n v \<Longrightarrow> Q k v"
  shows "holds_only holds Q c'" and "r = Inr v \<Longrightarrow> Q k v"
  using assms keep [OF assms(1)] answer [of k loader c n v c' n'] unfolding holds_only_def by blast+

end

definition ttl_holds :: "'v ttlCache option \<Rightarrow> string \<Rightarrow> 'v \<Rightarrow> bool" where
  "ttl_holds c k v = (case c of None \<Rightarrow> False | Some c \<Rightarrow> \<exists>x. (k, x) \<in> set (tc_entries c) \<and> entry_value x = v)"

lemma expire_section_holds:
  assumes "expire_section now k c = (r, c')"
  shows "r = Some v \<Longrightarrow> ttl_holds (Some c) k v" and "ttl_holds (Some c') j v \<Longrightarrow> ttl_holds (Some c) j v"
  using assms
  by (auto simp: expire_section_def ttl_holds_def AList.delete_eq dest: map_of_SomeD
      split: option.splits if_splits)

lemma read_section_holds: "read_section now k c = Fresh v \<Longrightarrow> ttl_holds (Some c) k v"
  by (auto simp: read_section_def ttl_holds_def dest: map_of_SomeD split: option.splits if_splits)

lemma set_section_holds:
  "ttl_holds (Some (set_section now k w c)) j v \<Longrightarrow> ttl_holds (Some c) j v \<or> j = k \<and> v = w"
  using set_update_subset [of k _ "filter (\<lambda>(k, entry). \<not> now > entry_expiresAt entry) (tc_entries c)"]
  by (fastforce simp: ttl_holds_def set_section_def)

lemma ttl_get_holds:
  assumes "ttl_get clock k c n = (r, c', n')"
  shows "r = Some v \<Longrightarrow> ttl_holds (Some c) k v" and "ttl_holds (Some c') j v \<Longrightarrow> ttl_holds (Some c) j v"
    and "n \<le> n'"
proof -
  have "(r = Some v \<longrightarrow> ttl_holds (Some c) k v) \<and> (ttl_holds (Some c') j v \<longrightarrow> ttl_holds (Some c) j v) \<and> n \<le> n'"
  proof (cases "read_section (clock n) k c")
    case Missing
    with assms show ?thesis by (simp add: ttl_get_def)
  next
    case (Fresh w)
    with assms read_section_holds [OF Fresh] show ?thesis by (auto simp: ttl_get_def)
  next
    case Expired
    then have "expire_section (clock (n + 1)) k c = (r, c')" "n' = n + 2"
      using assms by (simp_all add: ttl_get_def split: prod.splits)
    then show ?thesis using expire_section_holds [of "clock (n + 1)" k c r c'] by auto
  qed
  then show "r = Some v \<Longrightarrow> ttl_holds (Some c) k v" "ttl_holds (Some c') j v \<Longrightarrow> ttl_holds (Some c) j v" "n \<le> n'"
    by blast+
qed

lemma ttl_load_holds:
  assumes g: "ttl_load clock k loader c n = (r, c', n')"
  shows "(r = Inr v \<longrightarrow> ttl_holds (Some c) k v \<or> loads loader n v) \<and>
    (ttl_holds (Some c') j w \<longrightarrow> ttl_holds (Some c) j w \<or> j = k \<and> loads loader n w)"
proof -
  obtain r1 c1 n1 where g1: "ttl_get clock k c n = (r1, c1, n1)" by (metis prod_cases3)
  obtain r2 n2 where l: "loader n1 = (r2, n2)" by fastforce
  note h = ttl_get_holds [OF g1]
  consider x where "r1 = Some x" "r = Inr x" "c' = c1" | e where "r = Inl e" "c' = c1"
    | x where "r2 = Inr x" "r = Inr x" "c' = set_section (clock n2) k x c1"
    using g g1 l by (auto simp: ttl_load_def ttl_set_def split: option.splits sum.splits)
  then show ?thesis
  proof cases
    case 3
    then have "loads loader n x"
      using l h(3) by (auto intro: loadsI)
    then show ?thesis
      using 3 h(2) set_section_holds [of "clock n2" k x c1 j w] by auto
  qed (use h(1,2) in auto)
qed

lemma ttl_call_holds:
  assumes g: "ttl_getOrLoadContext clock k loader c n = (r, c', n')"
  shows "(r = Inr v \<longrightarrow> ttl_holds c k v \<or> loads loader n v) \<and>
    (ttl_holds c' j w \<longrightarrow> ttl_holds c j w \<or> j = k \<and> loads loader n w)"
proof (cases c)
  case None
  with g show ?thesis
    by (auto simp: ttl_getOrLoadContext_def ttl_holds_def split: prod.splits intro: loadsI)
next
  case (Some c0)
  obtain r1 c1 n1 where g1: "ttl_get clock k c0 n = (r1, c1, n1)" by (metis prod_cases3)
  obtain r2 c2 n2 where g2: "ttl_load clock k loader c1 n1 = (r2, c2, n2)" by (metis prod_cases3)
  note h = ttl_get_holds [OF g1]
  consider x where "r1 = Some x" "r = Inr x" "c' = Some c1" | "r = r2" "c' = Some c2"
    using g g1 g2 Some by (cases r1) (auto simp: ttl_getOrLoadContext_def)
  then show ?thesis
  proof cases
    case 1
    then show ?thesis using h(1,2) Some by auto
  next
    case 2
    have up: "loads loader n1 x \<Longrightarrow> loads loader n x" for x
      using h(3) by (rule loads_earlier [rotated])
    from 2 show ?thesis
      using ttl_load_holds [OF g2, of v j w] h(2) [of k v] h(2) [of j w] up Some by auto
  qed
qed

interpretation memory_cache: uptime_aggregate_cache "ttl_getOrLoadContext clock" ttl_holds for clock
  by unfold_locales (auto dest: ttl_call_holds)

section \<open>The contract on Redis\<close>

text \<open>
  What is known of a Redis server: a read returns something stored under the key, and a write
  stores its value under its key and nothing else; \<open>stored\<close> names what a server state has. Other
  writers may be at work between the calls, so it is not said that a read returns the last write.
\<close>

definition redis_laws :: "'r redis_client \<Rightarrow> ('r \<Rightarrow> string \<Rightarrow> string \<Rightarrow> bool) \<Rightarrow> bool" where
  "redis_laws client stored =
     ((\<forall>n k r b. rc_get client n k r = Inr (Some b) \<longrightarrow> stored r k b) \<and>
      (\<forall>n k b ttl r e r' j x. rc_set client n k b ttl r = (e, r') \<longrightarrow> stored r' j x \<longrightarrow>
         stored r j x \<or> j = k \<and> x = b))"

definition codec_laws :: "'v codec \<Rightarrow> bool" where
  "codec_laws codec = (\<forall>v b w. cd_marshal codec v = Inr b \<longrightarrow> cd_unmarshal codec b = Inr w \<longrightarrow> w = v)"

definition redis_holds ::
    "'v codec \<Rightarrow> ('r \<Rightarrow> string \<Rightarrow> string \<Rightarrow> bool) \<Rightarrow> redisTTLCache \<Rightarrow> 'r \<Rightarrow> string \<Rightarrow> 'v \<Rightarrow> bool" where
  "redis_holds codec stored c r k v = (\<exists>b. stored r (cacheKey c k) b \<and> cd_unmarshal codec b = Inr v)"

lemma cacheKey_inj [simp]: "cacheKey c j = cacheKey c k \<longleftrightarrow> j = k"
  by (simp add: cacheKey_def)

lemma redis_get_holds:
  assumes "redis_laws client stored" and "redis_get client codec c k r n = (Inr (Some v), n')"
  shows "redis_holds codec stored c r k v"
proof -
  obtain b where b: "rc_get client n (cacheKey c k) r = Inr (Some b)" "cd_unmarshal codec b = Inr v"
    using assms(2) by (auto simp: redis_get_def split: sum.splits option.splits)
  moreover have "stored r (cacheKey c k) b"
    using assms(1) b(1) unfolding redis_laws_def by blast
  ultimately show ?thesis by (auto simp: redis_holds_def)
qed

lemma redis_get_later: "redis_get client codec c k r n = (x, n') \<Longrightarrow> n \<le> n'"
  by (auto simp: redis_get_def split: sum.splits option.splits)

lemma redis_set_holds:
  assumes laws: "redis_laws client stored" "codec_laws codec"
    and s: "redis_set client codec c k v r n = (e, r', n')" and h: "redis_holds codec stored c r' j w"
  shows "redis_holds codec stored c r j w \<or> j = k \<and> w = v"
proof (cases "cd_marshal codec v")
  case (Inl e)
  with s h show ?thesis by (simp add: redis_set_def)
next
  case (Inr b)
  with s have "rc_set client n (cacheKey c k) b (rt_ttl c) r = (e, r')"
    by (auto simp: redis_set_def split: prod.splits)
  moreover from h obtain x where x: "stored r' (cacheKey c j) x" "cd_unmarshal codec x = Inr w"
    by (auto simp: redis_holds_def)
  ultimately have "stored r (cacheKey c j) x \<or> cacheKey c j = cacheKey c k \<and> x = b"
    using laws(1) unfolding redis_laws_def by blast
  then show ?thesis
    using x laws(2) Inr by (auto simp: redis_holds_def codec_laws_def)
qed

lemma redis_load_holds:
  assumes laws: "redis_laws client stored" "codec_laws codec"
    and g: "redis_load client codec c k loader r n = (x, r', n')"
  shows "(x = Inr v \<longrightarrow> redis_holds codec stored c r k v \<or> loads loader n v) \<and>
    (redis_holds codec stored c r' j w \<longrightarrow> redis_holds codec stored c r j w \<or> j = k \<and> loads loader n w)"
proof -
  obtain y n1 where g1: "redis_get client codec c k r n = (y, n1)" by fastforce
  note n1 = redis_get_later [OF g1]
  show ?thesis
  proof (cases "\<exists>u n2. y = Inr None \<and> loader n1 = (Inr u, n2)")
    case True
    then obtain u n2 where u: "y = Inr None" "loader n1 = (Inr u, n2)" by blast
    then have l: "loads loader n u"
      using n1 by (auto intro: loadsI)
    obtain e r2 n3 where s: "redis_set client codec c k u r n2 = (e, r2, n3)" by (metis prod_cases3)
    from g g1 u s have "r' = r2" "x = Inr v \<longrightarrow> v = u"
      by (auto simp: redis_load_def split: option.splits)
    then show ?thesis
      using l redis_set_holds [OF laws s, of j w] by blast
  next
    case False
    then have "r' = r" "x = Inr v \<longrightarrow> y = Inr (Some v)"
      using g g1 by (auto simp: redis_load_def split: sum.splits option.splits prod.splits)
    then show ?thesis
      using redis_get_holds [OF laws(1), of codec c k r n v n1] g1 by auto
  qed
qed

text \<open>
  Behind the interface a Redis server keeps the contract of a cache as the memory does: if a read
  returns something stored under its key and the encoding is read back as it was, then an answer
  is a value that was stored under the same key of the same namespace, or the value that this
  call loaded, and nothing else gets into the cache.
\<close>

theorem redis_cache_contract:
  assumes "redis_laws client stored" and "codec_laws codec"
  shows "uptime_aggregate_cache (redis_getOrLoadContext client codec c) (redis_holds codec stored c)"
proof -
  have "(x = Inr v \<longrightarrow> redis_holds codec stored c r k v \<or> loads loader n v) \<and>
      (redis_holds codec stored c r' j w \<longrightarrow> redis_holds codec stored c r j w \<or> j = k \<and> loads loader n w)"
    if g: "redis_getOrLoadContext client codec c k loader r n = (x, r', n')" for k loader r n x r' n' j v w
  proof -
    obtain y n1 where g1: "redis_get client codec c k r n = (y, n1)" by fastforce
    show ?thesis
    proof (cases "y = Inr None")
      case True
      have "loads loader n1 u \<Longrightarrow> loads loader n u" for u
        by (erule loads_earlier) (rule redis_get_later [OF g1])
      moreover have "redis_load client codec c k loader r n1 = (x, r', n')"
        using g g1 True by (simp add: redis_getOrLoadContext_def)
      ultimately show ?thesis
        using redis_load_holds [OF assms, of c k loader r n1 x r' n' v j w] by blast
    next
      case False
      then have "r' = r" "x = Inr v \<longrightarrow> y = Inr (Some v)"
        using g g1 by (auto simp: redis_getOrLoadContext_def split: sum.splits option.splits)
      then show ?thesis
        using redis_get_holds [OF assms(1), of codec c k r n v n1] g1 by auto
    qed
  qed
  then show ?thesis
    by unfold_locales blast+
qed

text \<open>A server with one table of keys, and a codec for one-letter texts.\<close>

definition ex_redis :: "(string, string) gomap redis_client" where
  "ex_redis = \<lparr>rc_get = (\<lambda>n k r. Inr (map_of r k)), rc_set = (\<lambda>n k b ttl r. (None, AList.update k b r))\<rparr>"

definition ex_codec :: "char codec" where
  "ex_codec = \<lparr>cd_marshal = (\<lambda>v. Inr [v]), cd_unmarshal = (\<lambda>b. case b of [v] \<Rightarrow> Inr v | _ \<Rightarrow> Inl ''json'')\<rparr>"

definition ex_namespace :: redisTTLCache where
  "ex_namespace = \<lparr>rt_ttl = minutes 15, rt_prefix = ''eyrie'', rt_namespace = ''uptime:daily''\<rparr>"

theorem redis_cache_contract_witness:
  "redis_laws ex_redis (\<lambda>r k b. (k, b) \<in> set r) \<and> codec_laws ex_codec \<and>
   uptime_aggregate_cache (redis_getOrLoadContext ex_redis ex_codec ex_namespace)
     (redis_holds ex_codec (\<lambda>r k b. (k, b) \<in> set r) ex_namespace) \<and>
   redis_getOrLoadContext ex_redis ex_codec ex_namespace ''web'' (\<lambda>n. (Inr CHR ''v'', n + 1)) [] 0 =
     (Inr CHR ''v'', [(''eyrie:uptime:daily:web'', ''v'')], 4)"
proof -
  have l: "redis_laws ex_redis (\<lambda>r k b. (k, b) \<in> set r)"
    using set_update_subset by (fastforce simp: redis_laws_def ex_redis_def dest: map_of_SomeD)
  have c: "codec_laws ex_codec"
    by (simp add: codec_laws_def ex_codec_def)
  have "redis_getOrLoadContext ex_redis ex_codec ex_namespace ''web'' (\<lambda>n. (Inr CHR ''v'', n + 1)) [] 0 =
     (Inr CHR ''v'', [(''eyrie:uptime:daily:web'', ''v'')], 4)"
    by (simp add: redis_getOrLoadContext_def redis_load_def redis_get_def redis_set_def ex_redis_def
        ex_codec_def ex_namespace_def cacheKey_def)
  with l c redis_cache_contract [OF l c, of ex_namespace] show ?thesis
    by blast
qed

section \<open>Properties of the cache in memory\<close>



end
