(* ===== verification/Uptime_Summaries.thy ===== *)
theory Uptime_Summaries
  imports Tables Config_Monitor
begin

text \<open>
  \<open>uptime_aggregate_summaries.go\<close>: what the status page shows of a monitor, from the daily
  aggregates, from the daily aggregates by region, and from the raw rows by region.

  The map \<open>Downtimes\<close> is written to JSON, which orders the keys: it is a partial function here.
  \<open>time.Now()\<close> is read once, so \<open>now\<close> is an argument.
\<close>

section \<open>Data of the page\<close>

definition uptimeDataCacheTTL :: duration where
  "uptimeDataCacheTTL = minutes 15"

record UptimeDataTLSInfo =
  tls_Version :: string
  tls_Cipher :: string
  tls_NotAfter :: string
  tls_Issuer :: string
  tls_Subject :: string
  tls_DN :: string
  tls_IsExpired :: bool
  tls_IsHttps :: bool

record UptimeDataHistorical =
  uh_LatencyMs :: int
  uh_MonitorAge :: int
  uh_DailyDowntimes :: "int \<rightharpoonup> int"
  uh_TLS :: "UptimeDataTLSInfo option"

record UptimeDataByRegionMonitor =
  urm_Region :: string
  urm_ResponseTimeMs :: int
  urm_Age :: int
  urm_Downtimes :: "int \<rightharpoonup> int"

section \<open>The summaries\<close>

text \<open>\<open>(100 - row.SuccessRate) * 1440 / 100\<close>\<close>

definition downtime_minutes :: "int \<Rightarrow> int" where
  "downtime_minutes successRate = wrap64 (wrap64 (100 - successRate) * 1440) sdiv 100"

definition summarize_day ::
    "gotime \<Rightarrow> UptimeDataHistorical \<times> int \<Rightarrow> MonitorHistoricalDailyAggregate \<Rightarrow> UptimeDataHistorical \<times> int" where
  "summarize_day now s row =
     (case s of (summary, totalLatency) \<Rightarrow>
        (summary\<lparr>uh_MonitorAge := uh_MonitorAge summary + 1,
                 uh_DailyDowntimes := (uh_DailyDowntimes summary)
                   (daysAgo now (daily_Date row * day) \<mapsto> downtime_minutes (daily_SuccessRate row))\<rparr>,
         wrap64 (totalLatency + daily_AvgLatencyMs row)))"

definition zero_historical :: UptimeDataHistorical where
  "zero_historical = \<lparr>uh_LatencyMs = 0, uh_MonitorAge = 0, uh_DailyDowntimes = Map.empty, uh_TLS = None\<rparr>"

definition summarizeUptimeHistoricalAggregates ::
    "gotime \<Rightarrow> MonitorHistoricalDailyAggregate list \<Rightarrow> UptimeDataHistorical" where
  "summarizeUptimeHistoricalAggregates now rows =
     (case foldl (summarize_day now) (zero_historical, 0) rows of
        (summary, totalLatency) \<Rightarrow>
          if uh_MonitorAge summary > 0
          then summary\<lparr>uh_LatencyMs := totalLatency sdiv uh_MonitorAge summary\<rparr>
          else summary)"

definition summarize_region_day ::
    "gotime \<Rightarrow> (string, UptimeDataByRegionMonitor) gomap \<Rightarrow> MonitorHistoricalRegionDailyAggregate \<Rightarrow>
       (string, UptimeDataByRegionMonitor) gomap" where
  "summarize_region_day now monitorsByRegion row =
     (let monitor = (case map_of monitorsByRegion (region_Region row) of
            Some m \<Rightarrow> m
          | None \<Rightarrow> \<lparr>urm_Region = region_Region row, urm_ResponseTimeMs = 0, urm_Age = 0, urm_Downtimes = Map.empty\<rparr>);
          monitor = monitor\<lparr>urm_Age := urm_Age monitor + 1,
            urm_ResponseTimeMs := wrap64 (urm_ResponseTimeMs monitor + region_AvgLatencyMs row),
            urm_Downtimes := (urm_Downtimes monitor)
              (daysAgo now (region_Date row * day) \<mapsto> downtime_minutes (region_SuccessRate row))\<rparr>
      in AList.update (region_Region row) monitor monitorsByRegion)"

definition average_response :: "UptimeDataByRegionMonitor \<Rightarrow> UptimeDataByRegionMonitor" where
  "average_response monitor =
     (if urm_Age monitor > 0
      then monitor\<lparr>urm_ResponseTimeMs := urm_ResponseTimeMs monitor sdiv urm_Age monitor\<rparr>
      else monitor)"

definition summarizeRegionHistoricalAggregates ::
    "gotime \<Rightarrow> MonitorHistoricalRegionDailyAggregate list \<Rightarrow> UptimeDataByRegionMonitor list" where
  "summarizeRegionHistoricalAggregates now rows =
     sort_key urm_Region
       (map (\<lambda>(region, monitor). average_response monitor) (foldl (summarize_region_day now) [] rows))"

text \<open>The variadic argument \<open>successSource ...any\<close>.\<close>

type_synonym successPredicate = "int \<Rightarrow> bool \<Rightarrow> bool"

datatype success_source =
    SourceNil
  | SourceMonitor Monitor
  | SourceMonitorPointer "Monitor option"
  | SourcePredicate successPredicate
  | SourceFunction "int \<Rightarrow> bool \<Rightarrow> bool"
  | SourceOther

definition resolveSuccessPredicate :: "success_source list \<Rightarrow> int \<Rightarrow> bool \<Rightarrow> bool" where
  "resolveSuccessPredicate successSource =
     (case successSource of
        [] \<Rightarrow> (\<lambda>_ explicitSuccess. explicitSuccess)
      | SourceNil # _ \<Rightarrow> (\<lambda>_ explicitSuccess. explicitSuccess)
      | SourceMonitor m # _ \<Rightarrow> IsSuccessfulStatus m
      | SourceMonitorPointer None # _ \<Rightarrow> (\<lambda>_ explicitSuccess. explicitSuccess)
      | SourceMonitorPointer (Some m) # _ \<Rightarrow> IsSuccessfulStatus m
      | SourcePredicate p # _ \<Rightarrow> p
      | SourceFunction f # _ \<Rightarrow> f
      | SourceOther # _ \<Rightarrow> (\<lambda>_ explicitSuccess. explicitSuccess))"

definition bucket_date :: "MonitorHistorical \<Rightarrow> gotime" where
  "bucket_date mh = utcDayStart (hist_CreatedAt mh)"

definition summarize_bucket ::
    "gotime \<Rightarrow> (int \<Rightarrow> bool \<Rightarrow> bool) \<Rightarrow> UptimeDataByRegionMonitor \<Rightarrow> gotime \<times> MonitorHistorical list \<Rightarrow>
       UptimeDataByRegionMonitor" where
  "summarize_bucket now isSuccessful monitor b =
     (case b of (date, dayHistoricals) \<Rightarrow>
        let totalLatency = sum64 (map hist_LatencyMs dayHistoricals);
            totalChecks = int (length dayHistoricals);
            downtimeMinutes =
              int (length (filter (\<lambda>mh. \<not> isSuccessful (hist_StatusCode mh) (hist_Success mh)) dayHistoricals))
        in if totalChecks = 0 then monitor
           else monitor\<lparr>urm_ResponseTimeMs := wrap64 (urm_ResponseTimeMs monitor + totalLatency sdiv totalChecks),
                        urm_Downtimes := (urm_Downtimes monitor)(daysAgo now date \<mapsto> downtimeMinutes),
                        urm_Age := urm_Age monitor + 1\<rparr>)"

definition summarize_region_buckets ::
    "gotime \<Rightarrow> (int \<Rightarrow> bool \<Rightarrow> bool) \<Rightarrow> string \<Rightarrow> (gotime, MonitorHistorical list) gomap \<Rightarrow>
       UptimeDataByRegionMonitor" where
  "summarize_region_buckets now isSuccessful region dailyBucket =
     average_response
       (foldl (summarize_bucket now isSuccessful)
         \<lparr>urm_Region = region, urm_ResponseTimeMs = 0, urm_Age = 0, urm_Downtimes = Map.empty\<rparr> dailyBucket)"

definition summarizeUptimeRegionHistoricalRows ::
    "gotime \<Rightarrow> (string, MonitorHistorical list) gomap \<Rightarrow> success_source list \<Rightarrow> UptimeDataByRegionMonitor list" where
  "summarizeUptimeRegionHistoricalRows now regionData successSource =
     sort_key urm_Region
       (map (\<lambda>(region, historicals).
              summarize_region_buckets now (resolveSuccessPredicate successSource) region
                (group_by bucket_date historicals))
         regionData)"

section \<open>The loops in closed form\<close>

lemma summarize_day_fold:
  "foldl (summarize_day now) (s, t) rows =
     (s\<lparr>uh_MonitorAge := uh_MonitorAge s + int (length rows),
        uh_DailyDowntimes := uh_DailyDowntimes s ++
          map_of (rev (map (\<lambda>row. (daysAgo now (daily_Date row * day), downtime_minutes (daily_SuccessRate row))) rows))\<rparr>,
      foldl (\<lambda>t row. wrap64 (t + daily_AvgLatencyMs row)) t rows)"
  by (induction rows arbitrary: s t) (simp_all add: summarize_day_def map_add_upd_left)

lemma foldl_map_sum64: "foldl (\<lambda>t row. wrap64 (t + f row)) 0 rows = sum64 (map f rows)"
  by (simp add: sum64_def foldl_map)

lemma daily_summary:
  "summarizeUptimeHistoricalAggregates now rows =
     \<lparr>uh_LatencyMs = (if rows = [] then 0 else sum64 (map daily_AvgLatencyMs rows) sdiv int (length rows)),
      uh_MonitorAge = int (length rows),
      uh_DailyDowntimes =
        map_of (rev (map (\<lambda>row. (daysAgo now (daily_Date row * day), downtime_minutes (daily_SuccessRate row))) rows)),
      uh_TLS = None\<rparr>"
  unfolding summarizeUptimeHistoricalAggregates_def summarize_day_fold foldl_map_sum64
  by (simp add: zero_historical_def)

section \<open>Regions\<close>

definition region_rows :: "string \<Rightarrow> MonitorHistoricalRegionDailyAggregate list \<Rightarrow> MonitorHistoricalRegionDailyAggregate list" where
  "region_rows region rows = filter (\<lambda>r. region_Region r = region) rows"

definition region_total :: "gotime \<Rightarrow> string \<Rightarrow> MonitorHistoricalRegionDailyAggregate list \<Rightarrow> UptimeDataByRegionMonitor" where
  "region_total now region rows =
     \<lparr>urm_Region = region, urm_ResponseTimeMs = sum64 (map region_AvgLatencyMs rows), urm_Age = int (length rows),
      urm_Downtimes =
        map_of (rev (map (\<lambda>row. (daysAgo now (region_Date row * day), downtime_minutes (region_SuccessRate row))) rows))\<rparr>"

lemma region_fold:
  "gm_wf (foldl (summarize_region_day now) [] rows)"
  "map_of (foldl (summarize_region_day now) [] rows) region =
     (if region \<in> region_Region ` set rows then Some (region_total now region (region_rows region rows)) else None)"
proof (induction rows arbitrary: region rule: rev_induct)
  case Nil
  {
    case 1 then show ?case by simp
  next
    case 2 then show ?case by simp
  }
next
  case (snoc row rows)
  {
    case 1
    then show ?case using snoc(1) by (simp add: summarize_region_day_def Let_def)
  next
    case 2
    have none: "region_rows r rows = []" if "r \<notin> region_Region ` set rows" for r
      using that by (auto simp: region_rows_def filter_empty_conv)
    show ?case
      using snoc(2) none [of "region_Region row"]
      by (auto simp: summarize_region_day_def Let_def update_conv' region_total_def region_rows_def sum64_def
          map_add_upd_left)
  }
qed

lemma region_fold_keys:
  "set (map fst (foldl (summarize_region_day now) [] rows)) = region_Region ` set rows"
  unfolding map_of_dom_keys [symmetric] by (auto simp: dom_def region_fold(2))

definition as_daily :: "MonitorHistoricalRegionDailyAggregate \<Rightarrow> MonitorHistoricalDailyAggregate" where
  "as_daily r = \<lparr>daily_MonitorID = region_MonitorID r, daily_Date = region_Date r,
     daily_AvgLatencyMs = region_AvgLatencyMs r, daily_MinLatencyMs = region_MinLatencyMs r,
     daily_MaxLatencyMs = region_MaxLatencyMs r, daily_SuccessRate = region_SuccessRate r\<rparr>"

definition region_view :: "string \<Rightarrow> UptimeDataHistorical \<Rightarrow> UptimeDataByRegionMonitor" where
  "region_view region s = \<lparr>urm_Region = region, urm_ResponseTimeMs = uh_LatencyMs s, urm_Age = uh_MonitorAge s,
     urm_Downtimes = uh_DailyDowntimes s\<rparr>"

lemma average_region_total:
  "rows \<noteq> [] \<Longrightarrow>
     average_response (region_total now region rows) =
     region_view region (summarizeUptimeHistoricalAggregates now (map as_daily rows))"
  by (simp add: average_response_def region_total_def region_view_def daily_summary as_daily_def comp_def rev_map)

text \<open>
  The summary by region agrees with the summary of a monitor: each region shows what the page of
  the monitor would show if only the rows of this region existed. The regions come in
  alphabetical order, each once, whatever order Go visits the map in.
\<close>

theorem region_summary_is_daily_summary:
  "summarizeRegionHistoricalAggregates now rows =
     map (\<lambda>region. region_view region
            (summarizeUptimeHistoricalAggregates now (map as_daily (region_rows region rows))))
       (sort (dedup_from [] (map region_Region rows)))"
proof -
  define view where "view region = region_view region
      (summarizeUptimeHistoricalAggregates now (map as_daily (region_rows region rows)))" for region
  define m where "m = foldl (summarize_region_day now) [] rows"
  have entry: "average_response x = view region" if "(region, x) \<in> set m" for region x
  proof -
    have "map_of m region = Some x"
      using that region_fold(1) unfolding m_def by (simp add: gm_wf_map_of)
    then have "region \<in> region_Region ` set rows" "x = region_total now region (region_rows region rows)"
      unfolding m_def region_fold(2) by (simp_all split: if_splits)
    then show ?thesis
      unfolding view_def by (auto intro!: average_region_total simp: region_rows_def filter_empty_conv)
  qed
  then have views: "map (\<lambda>(region, x). average_response x) m = map view (map fst m)"
    by auto
  have "sort_key urm_Region (map view (map fst m)) = map view (sort (map fst m))"
    by (subst sort_key_section [where g = view]) (auto simp: view_def region_view_def comp_def)
  moreover have "sort (map fst m) = sort (dedup_from [] (map region_Region rows))"
    using region_fold(1) [of now rows] region_fold_keys [of now rows]
    by (intro sort_distinct_set_eq) (simp_all add: m_def gm_wf_def)
  ultimately show ?thesis
    unfolding summarizeRegionHistoricalAggregates_def m_def [symmetric] views by (simp add: view_def [abs_def])
qed

section \<open>Order of the maps\<close>

text \<open>The days of a page are told apart by their distance from today, unless they are centuries away.\<close>

definition near :: "gotime \<Rightarrow> gotime \<Rightarrow> bool" where
  "near now t = (\<bar>utcDayStart now - utcDayStart t\<bar> < 2 ^ 63)"

lemma daysAgo_near: "near now t \<Longrightarrow> daysAgo now t = utc_date now - utc_date t"
  by (simp add: near_def daysAgo_eq)

definition day_failures :: "(int \<Rightarrow> bool \<Rightarrow> bool) \<Rightarrow> MonitorHistorical list \<Rightarrow> int" where
  "day_failures ok rows = int (length (filter (\<lambda>mh. \<not> ok (hist_StatusCode mh) (hist_Success mh)) rows))"

definition day_latency :: "MonitorHistorical list \<Rightarrow> int" where
  "day_latency rows = sum64 (map hist_LatencyMs rows) sdiv int (length rows)"

lemma bucket_fold:
  "\<forall>(d, rows) \<in> set bs. rows \<noteq> [] \<Longrightarrow>
   foldl (summarize_bucket now ok) m bs =
     m\<lparr>urm_ResponseTimeMs := foldl (\<lambda>t (d, rows). wrap64 (t + day_latency rows)) (urm_ResponseTimeMs m) bs,
       urm_Downtimes := urm_Downtimes m ++ map_of (rev (map (\<lambda>(d, rows). (daysAgo now d, day_failures ok rows)) bs)),
       urm_Age := urm_Age m + int (length bs)\<rparr>"
  by (induction bs arbitrary: m)
    (auto simp: summarize_bucket_def Let_def day_latency_def day_failures_def map_add_upd_left)

lemma region_buckets:
  assumes "\<forall>(d, rows) \<in> set bs. rows \<noteq> []"
  shows "summarize_region_buckets now ok region bs =
     average_response \<lparr>urm_Region = region,
       urm_ResponseTimeMs = sum64 (map (\<lambda>(d, rows). day_latency rows) bs), urm_Age = int (length bs),
       urm_Downtimes = map_of (rev (map (\<lambda>(d, rows). (daysAgo now d, day_failures ok rows)) bs))\<rparr>"
  unfolding summarize_region_buckets_def bucket_fold [OF assms]
  by (simp add: sum64_def foldl_map case_prod_unfold)

text \<open>The buckets of a region in some other order give the same summary.\<close>

lemma region_buckets_perm:
  assumes p: "mset bs = mset (group_by bucket_date rows)"
    and near: "\<And>r. r \<in> set rows \<Longrightarrow> near now (hist_CreatedAt r)"
  shows "summarize_region_buckets now ok region bs =
     summarize_region_buckets now ok region (group_by bucket_date rows)"
proof -
  let ?gs = "group_by bucket_date rows"
  have s: "set bs = set ?gs" using p by (rule mset_eq_setD)
  have ne: "\<forall>(d, rows) \<in> set ?gs. rows \<noteq> []" by (auto dest: group_by_nonempty)
  let ?f = "\<lambda>(d, rows). (daysAgo now d, day_failures ok rows)"
  have inj: "inj_on (daysAgo now) (set (map fst ?gs))"
  proof (rule inj_onI)
    fix d e
    assume "d \<in> set (map fst ?gs)" "e \<in> set (map fst ?gs)" and eq: "daysAgo now d = daysAgo now e"
    then obtain r q where r: "r \<in> set rows" "d = bucket_date r" "q \<in> set rows" "e = bucket_date q"
      unfolding group_by_keys by blast
    moreover from r near have "near now d" "near now e"
      by (simp_all add: near_def bucket_date_def)
    ultimately show "d = e"
      using eq by (simp add: daysAgo_near bucket_date_def utcDayStart_eq)
  qed
  have keys: "map fst (map ?f ?gs) = map (daysAgo now) (map fst ?gs)"
    by (simp add: case_prod_unfold comp_def)
  have "gm_wf (rev (map ?f ?gs))"
    using group_by_wf [of bucket_date rows] inj
    unfolding gm_wf_def rev_map [symmetric] distinct_rev keys distinct_map by blast
  then have "map_of (rev (map ?f ?gs)) = map_of (rev (map ?f bs))"
    by (rule map_of_perm) (simp add: p)
  moreover have "sum64 (map (\<lambda>(d, rows). day_latency rows) bs) = sum64 (map (\<lambda>(d, rows). day_latency rows) ?gs)"
    by (rule sum64_perm) (simp add: p)
  moreover have "length bs = length ?gs"
    using p by (rule mset_eq_length)
  ultimately show ?thesis
    using ne s by (simp add: region_buckets)
qed

text \<open>
  The summary of the raw rows by region does not depend on the order in which Go visits the
  two kinds of maps: visit the regions in any order, and the days of each region in any order,
  and the list on the page is the same, provided every row lies within some centuries of now.
\<close>

theorem raw_summary_any_order:
  assumes "mset (map (\<lambda>(region, rows, bs). (region, rows)) visits) = mset regionData" and "gm_wf regionData"
    and "\<And>region rows bs. (region, rows, bs) \<in> set visits \<Longrightarrow> mset bs = mset (group_by bucket_date rows)"
    and "\<And>region rows r. (region, rows) \<in> set regionData \<Longrightarrow> r \<in> set rows \<Longrightarrow> near now (hist_CreatedAt r)"
  shows "sort_key urm_Region
      (map (\<lambda>(region, rows, bs). summarize_region_buckets now (resolveSuccessPredicate src) region bs) visits) =
     summarizeUptimeRegionHistoricalRows now regionData src"
proof -
  define f where "f = (\<lambda>(region, rows). summarize_region_buckets now (resolveSuccessPredicate src) region
      (group_by bucket_date rows))"
  define vs where "vs = map (\<lambda>(region, rows, bs). (region, rows)) visits"
  have vs: "mset vs = mset regionData" using assms(1) by (simp add: vs_def)
  have "summarize_region_buckets now (resolveSuccessPredicate src) region bs = f (region, rows)"
    if "(region, rows, bs) \<in> set visits" for region rows bs
  proof -
    have "(region, rows) \<in> set vs" using that by (force simp: vs_def)
    then have "(region, rows) \<in> set regionData" using mset_eq_setD [OF vs] by simp
    with that show ?thesis
      unfolding f_def by (simp, intro region_buckets_perm assms(3) assms(4))
  qed
  then have m: "map (\<lambda>(region, rows, bs). summarize_region_buckets now (resolveSuccessPredicate src) region bs) visits = map f vs"
    by (auto simp: vs_def)
  have "urm_Region (f x) = fst x" for x
    unfolding f_def case_prod_unfold
    by (subst region_buckets) (auto dest: group_by_nonempty simp: average_response_def)
  then have "map urm_Region (map f vs) = map fst vs" by simp
  then have "distinct (map urm_Region (map f vs))"
    using assms(2) gm_wf_perm [OF vs] unfolding gm_wf_def by (simp del: map_map)
  then have "sort_key urm_Region (map f vs) = sort_key urm_Region (map f regionData)"
    by (rule sort_key_perm [rotated]) (simp add: vs)
  then show ?thesis
    unfolding m summarizeUptimeRegionHistoricalRows_def f_def .
qed

definition ex_row :: "string \<Rightarrow> gotime \<Rightarrow> bool \<Rightarrow> MonitorHistorical" where
  "ex_row region t ok =
     \<lparr>hist_MonitorID = ''web'', hist_Region = region, hist_ProbeType = ''tcp'', hist_Success = ok,
      hist_FailureReason = None, hist_StatusCode = 0, hist_LatencyMs = 30, hist_ResponseBody = None,
      hist_TlsVersion = None, hist_TlsCipher = None, hist_TlsExpiry = None, hist_TlsCertNotBefore = None,
      hist_TlsCertIssuer = None, hist_TlsCertSubject = None, hist_TlsCertDN = None,
      hist_TlsCertFingerprint = None, hist_TlsCertIsExpired = False, hist_TimingConnAcquiredMs = None,
      hist_TimingFirstResponseByteMs = None, hist_TimingDNSLookupStartMs = None,
      hist_TimingDNSLookupDoneMs = None, hist_TimingTLSHandshakeStartMs = None,
      hist_TimingTLSHandshakeDoneMs = None, hist_CreatedAt = t\<rparr>"

definition ex_eu :: "MonitorHistorical list" where
  "ex_eu = [ex_row ''eu'' (day + 5) False, ex_row ''eu'' (2 * day) True]"

definition ex_us :: "MonitorHistorical list" where
  "ex_us = [ex_row ''us'' day True]"

theorem raw_summary_any_order_witness:
  "sort_key urm_Region
      (map (\<lambda>(region, rows, bs). summarize_region_buckets (3 * day) (resolveSuccessPredicate []) region bs)
        [(''us'', ex_us, group_by bucket_date ex_us), (''eu'', ex_eu, rev (group_by bucket_date ex_eu))]) =
     summarizeUptimeRegionHistoricalRows (3 * day) [(''eu'', ex_eu), (''us'', ex_us)] []"
  by (rule raw_summary_any_order)
    (auto simp: gm_wf_def ex_eu_def ex_us_def near_def ex_row_def utcDayStart_eq utc_date_def day_def)

section \<open>The page of a monitor\<close>

lemma downtime_minutes_eq:
  assumes "0 \<le> rate" "rate \<le> 100"
  shows "downtime_minutes rate = (100 - rate) * 1440 div 100"
    and "0 \<le> downtime_minutes rate" and "downtime_minutes rate \<le> 1440"
proof -
  have "wrap64 (100 - rate) = 100 - rate"
    by (rule wrap64_id) (use assms in simp_all)
  moreover have "wrap64 ((100 - rate) * 1440) = (100 - rate) * 1440"
    by (rule wrap64_id) (use assms in simp_all)
  ultimately have e: "downtime_minutes rate = (100 - rate) * 1440 sdiv 100"
    by (simp add: downtime_minutes_def)
  show eq: "downtime_minutes rate = (100 - rate) * 1440 div 100"
    unfolding e using assms by (cases "rate = 100") (simp_all add: signed_divide_int_def sgn_if)
  show "0 \<le> downtime_minutes rate" and "downtime_minutes rate \<le> 1440"
    unfolding eq using assms zdiv_mono1 [of "(100 - rate) * 1440" 144000 100]
    by (simp_all add: pos_imp_zdiv_nonneg_iff)
qed

lemma daysAgo_date: "near now (d * day) \<Longrightarrow> daysAgo now (d * day) = utc_date now - d"
  by (simp add: daysAgo_near)

lemma daily_downtimes:
  assumes "distinct (map daily_Date rows)" and "\<And>r. r \<in> set rows \<Longrightarrow> near now (daily_Date r * day)"
  shows "uh_DailyDowntimes (summarizeUptimeHistoricalAggregates now rows) n =
    map_option (\<lambda>r. downtime_minutes (daily_SuccessRate r)) (List.find (\<lambda>r. daily_Date r = utc_date now - n) rows)"
proof -
  let ?ps = "map (\<lambda>r. (daysAgo now (daily_Date r * day), downtime_minutes (daily_SuccessRate r))) rows"
  have ps: "?ps = map (\<lambda>r. (utc_date now - daily_Date r, downtime_minutes (daily_SuccessRate r))) rows"
    using assms(2) by (simp add: daysAgo_date)
  have "gm_wf ?ps"
    unfolding ps gm_wf_def using assms(1) by (simp add: comp_def distinct_map inj_on_def)
  then have "map_of (rev ?ps) = map_of ?ps"
    by (intro map_of_perm [symmetric]) simp_all
  then have "uh_DailyDowntimes (summarizeUptimeHistoricalAggregates now rows) n = map_of ?ps n"
    by (simp add: daily_summary)
  also have "\<dots> = map_option (\<lambda>r. downtime_minutes (daily_SuccessRate r))
      (List.find (\<lambda>r. utc_date now - daily_Date r = n) rows)"
    unfolding ps by (rule map_of_find)
  also have "(\<lambda>r. utc_date now - daily_Date r = n) = (\<lambda>r. daily_Date r = utc_date now - n)"
    by auto
  finally show ?thesis .
qed

text \<open>
  The page of a monitor from its daily aggregates, as the table holds them: one row per day, rates
  between 0 and 100. Day \<open>n\<close> before today shows 14.4 minutes of downtime for each percent that the
  day's rate misses, rounded down, so between 0 and 1440 minutes, and nothing when the day has
  no row; the age is the number of days.
\<close>

theorem daily_page_is_exact:
  assumes "distinct (map daily_Date rows)"
    and "\<And>r. r \<in> set rows \<Longrightarrow> near now (daily_Date r * day) \<and> 0 \<le> daily_SuccessRate r \<and> daily_SuccessRate r \<le> 100"
  shows "uh_DailyDowntimes (summarizeUptimeHistoricalAggregates now rows) n =
      map_option (\<lambda>r. (100 - daily_SuccessRate r) * 1440 div 100)
        (List.find (\<lambda>r. daily_Date r = utc_date now - n) rows) \<and>
    pred_option (\<lambda>m. 0 \<le> m \<and> m \<le> 1440) (uh_DailyDowntimes (summarizeUptimeHistoricalAggregates now rows) n) \<and>
    uh_MonitorAge (summarizeUptimeHistoricalAggregates now rows) = int (card (set rows))"
proof -
  note d = daily_downtimes [OF assms(1), of now n]
  have r: "downtime_minutes (daily_SuccessRate r) = (100 - daily_SuccessRate r) * 1440 div 100"
      "0 \<le> downtime_minutes (daily_SuccessRate r)" "downtime_minutes (daily_SuccessRate r) \<le> 1440"
    if "List.find P rows = Some r" for P r
    using downtime_minutes_eq [of "daily_SuccessRate r"] assms(2) [of r] find_Some_in [OF that] by simp_all
  have "uh_DailyDowntimes (summarizeUptimeHistoricalAggregates now rows) n =
      map_option (\<lambda>r. (100 - daily_SuccessRate r) * 1440 div 100)
        (List.find (\<lambda>r. daily_Date r = utc_date now - n) rows)"
    using d assms(2) r(1) by (auto intro: option.map_cong)
  moreover have "pred_option (\<lambda>m. 0 \<le> m \<and> m \<le> 1440) (uh_DailyDowntimes (summarizeUptimeHistoricalAggregates now rows) n)"
    using d assms(2) r(2,3) by (auto simp: pred_option_def)
  moreover have "distinct rows"
    using assms(1) by (simp add: distinct_map)
  then have "uh_MonitorAge (summarizeUptimeHistoricalAggregates now rows) = int (card (set rows))"
    by (simp add: daily_summary distinct_card)
  ultimately show ?thesis by blast
qed

definition ex_daily :: "int \<Rightarrow> int \<Rightarrow> MonitorHistoricalDailyAggregate" where
  "ex_daily date rate = \<lparr>daily_MonitorID = ''web'', daily_Date = date, daily_AvgLatencyMs = 30,
     daily_MinLatencyMs = 20, daily_MaxLatencyMs = 50, daily_SuccessRate = rate\<rparr>"

theorem daily_page_is_exact_witness:
  "uh_DailyDowntimes (summarizeUptimeHistoricalAggregates (9 * day + 5) [ex_daily 7 99, ex_daily 9 100]) 2 = Some 14"
proof -
  have "distinct (map daily_Date [ex_daily 7 99, ex_daily 9 100])"
    by (simp add: ex_daily_def)
  moreover have "near (9 * day + 5) (daily_Date r * day) \<and> 0 \<le> daily_SuccessRate r \<and> daily_SuccessRate r \<le> 100"
    if "r \<in> set [ex_daily 7 99, ex_daily 9 100]" for r
    using that by (auto simp: ex_daily_def near_def utcDayStart_eq utc_date_def day_def)
  ultimately show ?thesis
    using daily_page_is_exact [of "[ex_daily 7 99, ex_daily 9 100]" "9 * day + 5" 2]
    by (simp add: ex_daily_def utc_date_def day_def)
qed

end
