(* ===== verification/Server_Data.thy ===== *)
theory Server_Data
  imports Messages Uptime_Cache Uptime_Summaries Go_Float Go_Calendar
begin

text \<open>
  The first half of \<open>server.go\<close>: the queries of the HTTP server, and the data of the status page
  that it builds from them.

  As in \<open>Uptime_Cache\<close> the interactions with the world are numbered. At each of them the
  environment gives the clock, the fault of the call, if it fails, and the database as it then is:
  the workers write to it between two statements of a request. Where the source does not look at
  \<open>rows.Err()\<close>, a read that breaks off ends the rows early, after \<open>en_cut\<close> rows.

  A date goes into a query as text and is cast back by the database, so that it is the day number
  here. \<open>ORDER BY\<close> does not say how equal rows are ordered; the model keeps the order of the table.
\<close>

record environment =
  en_clock :: "nat \<Rightarrow> gotime"
  en_fault :: "nat \<Rightarrow> string option"
  en_db :: "nat \<Rightarrow> database"
  en_cut :: "nat \<Rightarrow> nat"

record Server =
  srv_serverConfig :: ServerConfig
  srv_monitorConfig :: MonitorConfig

text \<open>The two caches, nil or some value of the interface, and the calls that the interface dispatches to.\<close>

record ('c, 'd) caches =
  ca_daily :: "'c option"
  ca_region :: "'d option"

record ('c, 'd) cache_calls =
  call_daily :: "string \<Rightarrow> MonitorHistoricalDailyAggregate list loader \<Rightarrow> 'c \<Rightarrow> nat \<Rightarrow>
    MonitorHistoricalDailyAggregate list result \<times> 'c \<times> nat"
  call_region :: "string \<Rightarrow> MonitorHistoricalRegionDailyAggregate list loader \<Rightarrow> 'd \<Rightarrow> nat \<Rightarrow>
    MonitorHistoricalRegionDailyAggregate list result \<times> 'd \<times> nat"
  call_daily_close :: "'c \<Rightarrow> string option"
  call_region_close :: "'d \<Rightarrow> string option"

definition resolveDuckDBReadConcurrencyLimit :: "int \<Rightarrow> int \<Rightarrow> int" where
  "resolveDuckDBReadConcurrencyLimit configured gomaxprocs =
     (if configured > 0 then configured
      else let derivedLimit = gomaxprocs sdiv 2
        in if derivedLimit < 1 then 1 else derivedLimit)"

definition aggregateCacheKey :: "string \<Rightarrow> gotime \<Rightarrow> string" where
  "aggregateCacheKey monitorID date = monitorID @ '':'' @ format_date (utcDayStart date)"

section \<open>Queries for aggregates\<close>

text \<open>
  The four calls of a query that returns rows: the connection, the query, the scans, and
  \<open>rows.Err()\<close>. Without rows nothing is scanned.
\<close>

definition query_rows ::
    "environment \<Rightarrow> string \<Rightarrow> string \<Rightarrow> string \<Rightarrow> string \<Rightarrow> (database \<Rightarrow> 'r list) \<Rightarrow> nat \<Rightarrow> 'r list result \<times> nat" where
  "query_rows env connecting querying scanning iterating select n =
     (bind_result (attempt (en_fault env n) connecting (Inr ())) (\<lambda>_.
      bind_result (attempt (en_fault env (n + 1)) querying (Inr (select (en_db env (n + 1))))) (\<lambda>rows.
      bind_result (attempt (if rows = [] then None else en_fault env (n + 2)) scanning (Inr ())) (\<lambda>_.
      attempt (en_fault env (n + 3)) iterating (Inr rows)))), n + 4)"

definition daily_before :: "string \<Rightarrow> gotime \<Rightarrow> database \<Rightarrow> MonitorHistoricalDailyAggregate list" where
  "daily_before monitorID beforeDate db =
     sort_key daily_Date
       (filter (\<lambda>r. daily_MonitorID r = monitorID \<and> daily_Date r < utc_date (utcDayStart beforeDate)) (tbl_daily db))"

definition loadHistoricalDailyAggregatesBeforeDate ::
    "environment \<Rightarrow> string \<Rightarrow> gotime \<Rightarrow> MonitorHistoricalDailyAggregate list loader" where
  "loadHistoricalDailyAggregatesBeforeDate env monitorID beforeDate n =
     query_rows env ''getting db connection'' ''querying historical daily aggregates''
       ''scanning historical daily aggregate'' ''iterating historical daily aggregates''
       (daily_before monitorID beforeDate) n"

definition daily_on :: "string \<Rightarrow> gotime \<Rightarrow> database \<Rightarrow> MonitorHistoricalDailyAggregate list" where
  "daily_on monitorID date db =
     sort_key daily_Date
       (filter (\<lambda>r. daily_MonitorID r = monitorID \<and> daily_Date r = utc_date (utcDayStart date)) (tbl_daily db))"

definition loadHistoricalDailyAggregatesForDate ::
    "environment \<Rightarrow> string \<Rightarrow> gotime \<Rightarrow> MonitorHistoricalDailyAggregate list loader" where
  "loadHistoricalDailyAggregatesForDate env monitorID date n =
     query_rows env ''getting db connection'' ''querying current day daily aggregates''
       ''scanning current day daily aggregate'' ''iterating current day daily aggregates''
       (daily_on monitorID date) n"

definition historicalDailyAggregatesBeforeDate ::
    "environment \<Rightarrow> ('c, 'd) cache_calls \<Rightarrow> string \<Rightarrow> gotime \<Rightarrow> ('c, 'd) caches \<Rightarrow> nat \<Rightarrow>
       MonitorHistoricalDailyAggregate list result \<times> ('c, 'd) caches \<times> nat" where
  "historicalDailyAggregatesBeforeDate env calls monitorID beforeDate caches n =
     (case ca_daily caches of
        None \<Rightarrow> (case loadHistoricalDailyAggregatesBeforeDate env monitorID beforeDate n of (r, n) \<Rightarrow> (r, caches, n))
      | Some c \<Rightarrow>
          (case call_daily calls (aggregateCacheKey monitorID beforeDate)
                  (loadHistoricalDailyAggregatesBeforeDate env monitorID beforeDate) c n of
             (r, c, n) \<Rightarrow> (r, caches\<lparr>ca_daily := Some c\<rparr>, n)))"

definition region_before :: "string \<Rightarrow> gotime \<Rightarrow> database \<Rightarrow> MonitorHistoricalRegionDailyAggregate list" where
  "region_before monitorID beforeDate db =
     sort_key region_Date
       (filter (\<lambda>r. region_MonitorID r = monitorID \<and> region_Date r < utc_date (utcDayStart beforeDate))
         (tbl_region_daily db))"

definition loadHistoricalRegionDailyAggregatesBeforeDate ::
    "environment \<Rightarrow> string \<Rightarrow> gotime \<Rightarrow> MonitorHistoricalRegionDailyAggregate list loader" where
  "loadHistoricalRegionDailyAggregatesBeforeDate env monitorID beforeDate n =
     query_rows env ''getting db connection'' ''querying historical region daily aggregates''
       ''scanning historical region daily aggregate'' ''iterating historical region daily aggregates''
       (region_before monitorID beforeDate) n"

definition region_on :: "string \<Rightarrow> gotime \<Rightarrow> database \<Rightarrow> MonitorHistoricalRegionDailyAggregate list" where
  "region_on monitorID date db =
     sort_key region_Date
       (filter (\<lambda>r. region_MonitorID r = monitorID \<and> region_Date r = utc_date (utcDayStart date))
         (tbl_region_daily db))"

definition loadHistoricalRegionDailyAggregatesForDate ::
    "environment \<Rightarrow> string \<Rightarrow> gotime \<Rightarrow> MonitorHistoricalRegionDailyAggregate list loader" where
  "loadHistoricalRegionDailyAggregatesForDate env monitorID date n =
     query_rows env ''getting db connection'' ''querying current day region daily aggregates''
       ''scanning current day region daily aggregate'' ''iterating current day region daily aggregates''
       (region_on monitorID date) n"

definition historicalRegionDailyAggregatesBeforeDate ::
    "environment \<Rightarrow> ('c, 'd) cache_calls \<Rightarrow> string \<Rightarrow> gotime \<Rightarrow> ('c, 'd) caches \<Rightarrow> nat \<Rightarrow>
       MonitorHistoricalRegionDailyAggregate list result \<times> ('c, 'd) caches \<times> nat" where
  "historicalRegionDailyAggregatesBeforeDate env calls monitorID beforeDate caches n =
     (case ca_region caches of
        None \<Rightarrow>
          (case loadHistoricalRegionDailyAggregatesBeforeDate env monitorID beforeDate n of (r, n) \<Rightarrow> (r, caches, n))
      | Some c \<Rightarrow>
          (case call_region calls (aggregateCacheKey monitorID beforeDate)
                  (loadHistoricalRegionDailyAggregatesBeforeDate env monitorID beforeDate) c n of
             (r, c, n) \<Rightarrow> (r, caches\<lparr>ca_region := Some c\<rparr>, n)))"

definition CloseCaches :: "('c, 'd) cache_calls \<Rightarrow> ('c, 'd) caches \<Rightarrow> string option" where
  "CloseCaches calls caches =
     (case Option.bind (ca_daily caches) (call_daily_close calls) of
        Some e \<Rightarrow> Some e
      | None \<Rightarrow> Option.bind (ca_region caches) (call_region_close calls))"

section \<open>The data of one monitor\<close>

definition fetchFromAggregateMonitorHistorical ::
    "environment \<Rightarrow> ('c, 'd) cache_calls \<Rightarrow> string \<Rightarrow> ('c, 'd) caches \<Rightarrow> nat \<Rightarrow>
       UptimeDataHistorical result \<times> ('c, 'd) caches \<times> nat" where
  "fetchFromAggregateMonitorHistorical env calls monitorId caches n =
     (let today = utcDayStart (en_clock env n) in
      case historicalDailyAggregatesBeforeDate env calls monitorId today caches (n + 1) of
        (Inl e, caches, n) \<Rightarrow> (Inl (''loading historical aggregate monitor data: '' @ e), caches, n)
      | (Inr historicalAggregates, caches, n) \<Rightarrow>
          (case loadHistoricalDailyAggregatesForDate env monitorId today n of
             (Inl e, n) \<Rightarrow> (Inl (''loading current day aggregate monitor data: '' @ e), caches, n)
           | (Inr todayAggregates, n) \<Rightarrow>
               (let aggregates = historicalAggregates @ todayAggregates in
                if aggregates = [] then (Inl (''no aggregate data found for monitor '' @ monitorId), caches, n)
                else (Inr (summarizeUptimeHistoricalAggregates (en_clock env n) aggregates), caches, n + 1))))"

text \<open>\<open>int(now.Sub(date).Hours() / 24)\<close>, with the floating-point steps of \<open>Duration.Hours\<close>.\<close>

definition duration_hours :: "duration \<Rightarrow> rat" where
  "duration_hours d =
     f64 (f64_of_int (d sdiv hour) + f64_div (f64_of_int (d smod hour)) (f64_of_int 3600000000000))"

definition dailyDowntimesIndex :: "gotime \<Rightarrow> gotime \<Rightarrow> int" where
  "dailyDowntimesIndex now date = truncate_f64 (f64_div (duration_hours (time_sub now date)) 24)"

definition monitor_rows :: "string \<Rightarrow> database \<Rightarrow> MonitorHistorical list" where
  "monitor_rows monitorId db = filter (\<lambda>r. hist_MonitorID r = monitorId) (tbl_historical db)"

definition raw_rows :: "environment \<Rightarrow> string \<Rightarrow> nat \<Rightarrow> MonitorHistorical list result \<times> nat" where
  "raw_rows env monitorId n =
     (bind_result (attempt (en_fault env n) ''getting db connection'' (Inr ())) (\<lambda>_.
      bind_result (attempt (en_fault env (n + 1)) ''querying monitor historical''
        (Inr (monitor_rows monitorId (en_db env (n + 1))))) (\<lambda>rows.
      let rows = (if en_fault env (n + 3) = None then rows else take (en_cut env (n + 3)) rows) in
      attempt (if rows = [] then None else en_fault env (n + 2)) ''scanning monitor historical'' (Inr rows))), n + 4)"

text \<open>The first row in the order by \<open>created_at DESC\<close>.\<close>

definition latest_row :: "MonitorHistorical list \<Rightarrow> MonitorHistorical option" where
  "latest_row rows = (case sort_key (\<lambda>r. - hist_CreatedAt r) rows of [] \<Rightarrow> None | r # _ \<Rightarrow> Some r)"

definition or_empty :: "string option \<Rightarrow> string" where
  "or_empty s = (case s of None \<Rightarrow> [] | Some s \<Rightarrow> s)"

definition tls_info :: "MonitorHistorical \<Rightarrow> UptimeDataTLSInfo option" where
  "tls_info r =
     (let isHttps = (hist_TlsVersion r \<noteq> None) in
      if isHttps \<or> hist_TlsCertIssuer r \<noteq> None \<or> hist_TlsCertSubject r \<noteq> None then
        Some \<lparr>tls_Version = or_empty (hist_TlsVersion r), tls_Cipher = or_empty (hist_TlsCipher r),
              tls_NotAfter = (case hist_TlsExpiry r of None \<Rightarrow> [] | Some t \<Rightarrow> format_rfc3339 t),
              tls_Issuer = or_empty (hist_TlsCertIssuer r), tls_Subject = or_empty (hist_TlsCertSubject r),
              tls_DN = or_empty (hist_TlsCertDN r), tls_IsExpired = hist_TlsCertIsExpired r,
              tls_IsHttps = isHttps\<rparr>
      else None)"

definition fetchLatestTLSInfo :: "environment \<Rightarrow> string \<Rightarrow> nat \<Rightarrow> UptimeDataTLSInfo option result \<times> nat" where
  "fetchLatestTLSInfo env monitorId n =
     (bind_result (attempt (en_fault env n) ''getting db connection'' (Inr ())) (\<lambda>_.
      bind_result (attempt (en_fault env (n + 1)) ''querying latest TLS info''
        (Inr (latest_row (monitor_rows monitorId (en_db env (n + 1)))))) (\<lambda>row.
      Inr (Option.bind row tls_info))), n + 2)"

definition raw_bucket ::
    "environment \<Rightarrow> Monitor \<Rightarrow> UptimeDataHistorical \<times> nat \<Rightarrow> gotime \<times> MonitorHistorical list \<Rightarrow>
       UptimeDataHistorical \<times> nat" where
  "raw_bucket env monitorConfig s b =
     (case s of (h, n) \<Rightarrow> case b of (date, historicals) \<Rightarrow>
        let totalLatency = sum64 (map hist_LatencyMs historicals);
            totalChecks = int (length historicals);
            downtimeMinutes = int (length
              (filter (\<lambda>mh. \<not> IsSuccessfulStatus monitorConfig (hist_StatusCode mh) (hist_Success mh)) historicals));
            averageLatency = totalLatency sdiv totalChecks
        in (h\<lparr>uh_LatencyMs := wrap64 (uh_LatencyMs h + averageLatency),
              uh_DailyDowntimes := (uh_DailyDowntimes h)(dailyDowntimesIndex (en_clock env n) date \<mapsto> downtimeMinutes)\<rparr>,
            n + 1))"

definition raw_summary ::
    "environment \<Rightarrow> Monitor \<Rightarrow> MonitorHistorical list \<Rightarrow> nat \<Rightarrow> UptimeDataHistorical \<times> nat" where
  "raw_summary env monitorConfig monitorHistoricals n =
     (let dailyBucket = group_by bucket_date monitorHistoricals;
          (h, n) = foldl (raw_bucket env monitorConfig)
            (zero_historical\<lparr>uh_MonitorAge := int (length dailyBucket)\<rparr>, n) dailyBucket
      in (h\<lparr>uh_LatencyMs := uh_LatencyMs h sdiv int (length dailyBucket)\<rparr>, n))"

definition fetchFromRawMonitorHistorical ::
    "environment \<Rightarrow> Server \<Rightarrow> ('c, 'd) cache_calls \<Rightarrow> string \<Rightarrow> ('c, 'd) caches \<Rightarrow> nat \<Rightarrow>
       UptimeDataHistorical result \<times> ('c, 'd) caches \<times> nat" where
  "fetchFromRawMonitorHistorical env srv calls monitorId caches n =
     (case fetchFromAggregateMonitorHistorical env calls monitorId caches n of
        (Inr result, caches, n) \<Rightarrow> (Inr result, caches, n)
      | (Inl _, caches, n) \<Rightarrow>
          (case raw_rows env monitorId n of
             (Inl e, n) \<Rightarrow> (Inl e, caches, n)
           | (Inr monitorHistoricals, n) \<Rightarrow>
               if monitorHistoricals = []
               then (Inl (''no raw historical data for monitor '' @ monitorId), caches, n)
               else (case findMonitor (srv_monitorConfig srv) monitorId of
                       None \<Rightarrow> (Inl ''monitor config not found'', caches, n)
                     | Some monitorConfig \<Rightarrow>
                         (case raw_summary env monitorConfig monitorHistoricals n of
                            (h, n) \<Rightarrow>
                              (case fetchLatestTLSInfo env monitorId n of
                                 (Inr (Some tlsInfo), n) \<Rightarrow> (Inr (h\<lparr>uh_TLS := Some tlsInfo\<rparr>), caches, n)
                               | (_, n) \<Rightarrow> (Inr h, caches, n))))))"

section \<open>The data by region\<close>

definition fetchMonitorHistoricalGroupedByRegionFromAggregates ::
    "environment \<Rightarrow> ('c, 'd) cache_calls \<Rightarrow> string \<Rightarrow> ('c, 'd) caches \<Rightarrow> nat \<Rightarrow>
       UptimeDataByRegionMonitor list result \<times> ('c, 'd) caches \<times> nat" where
  "fetchMonitorHistoricalGroupedByRegionFromAggregates env calls monitorId caches n =
     (let today = utcDayStart (en_clock env n) in
      case historicalRegionDailyAggregatesBeforeDate env calls monitorId today caches (n + 1) of
        (Inl e, caches, n) \<Rightarrow> (Inl (''loading historical region aggregate monitor data: '' @ e), caches, n)
      | (Inr historicalAggregates, caches, n) \<Rightarrow>
          (case loadHistoricalRegionDailyAggregatesForDate env monitorId today n of
             (Inl e, n) \<Rightarrow> (Inl (''loading current day region aggregate monitor data: '' @ e), caches, n)
           | (Inr todayAggregates, n) \<Rightarrow>
               (let aggregates = historicalAggregates @ todayAggregates in
                if aggregates = [] then (Inl (''no aggregate data found for monitor '' @ monitorId), caches, n)
                else (Inr (summarizeRegionHistoricalAggregates (en_clock env n) aggregates), caches, n + 1))))"

definition fetchMonitorHistoricalGroupedByRegionRaw ::
    "environment \<Rightarrow> string \<Rightarrow> nat \<Rightarrow> (string, MonitorHistorical list) gomap result \<times> nat" where
  "fetchMonitorHistoricalGroupedByRegionRaw env monitorId n =
     (case query_rows env ''acquiring database connection'' ''querying monitor historical''
             ''scanning monitor historical'' ''iterating monitor historical'' (monitor_rows monitorId) n of
        (Inl e, n) \<Rightarrow> (Inl e, n)
      | (Inr monitorHistoricals, n) \<Rightarrow> (Inr (group_by hist_Region monitorHistoricals), n))"

definition fetchMonitorHistoricalGroupedByRegion ::
    "environment \<Rightarrow> Server \<Rightarrow> ('c, 'd) cache_calls \<Rightarrow> string \<Rightarrow> ('c, 'd) caches \<Rightarrow> nat \<Rightarrow>
       UptimeDataByRegionMonitor list result \<times> ('c, 'd) caches \<times> nat" where
  "fetchMonitorHistoricalGroupedByRegion env srv calls monitorId caches n =
     (case fetchMonitorHistoricalGroupedByRegionFromAggregates env calls monitorId caches n of
        (Inr regionData, caches, n) \<Rightarrow> (Inr regionData, caches, n)
      | (Inl _, caches, n) \<Rightarrow>
          (case fetchMonitorHistoricalGroupedByRegionRaw env monitorId n of
             (Inl rawErr, n) \<Rightarrow> (Inl rawErr, caches, n)
           | (Inr rawRegionData, n) \<Rightarrow>
               (case findMonitor (srv_monitorConfig srv) monitorId of
                  None \<Rightarrow> (Inl ''monitor config not found'', caches, n)
                | Some monitorConfig \<Rightarrow>
                    (Inr (summarizeUptimeRegionHistoricalRows (en_clock env n) rawRegionData
                            [SourceMonitor monitorConfig]), caches, n + 1))))"

section \<open>Keys\<close>

lemma aggregateCacheKey_inj:
  assumes "in_calendar t" and "in_calendar u"
  shows "aggregateCacheKey m t = aggregateCacheKey k u \<longleftrightarrow> m = k \<and> utc_date t = utc_date u"
proof -
  have "aggregateCacheKey m t = aggregateCacheKey k u \<longleftrightarrow>
      m = k \<and> format_date (utcDayStart t) = format_date (utcDayStart u)"
    by (auto simp: aggregateCacheKey_def)
  then show ?thesis
    using format_date_inj [of "utcDayStart t" "utcDayStart u"] assms by (simp add: in_calendar_def)
qed

section \<open>What a query returns\<close>

lemma query_rows_Inr:
  "query_rows env a b c d select n = (Inr rows, n') \<Longrightarrow> rows = select (en_db env (n + 1)) \<and> n' = n + 4"
  by (auto simp: query_rows_def result_simps)

text \<open>What the caches may hold: for each monitor and day, rows that the table had at some interaction.\<close>

definition daily_from_database :: "environment \<Rightarrow> string \<Rightarrow> MonitorHistoricalDailyAggregate list \<Rightarrow> bool" where
  "daily_from_database env key rows =
     (\<forall>monitorID date. in_calendar date \<longrightarrow> key = aggregateCacheKey monitorID date \<longrightarrow>
        (\<exists>m. rows = daily_before monitorID date (en_db env m)))"

definition region_from_database :: "environment \<Rightarrow> string \<Rightarrow> MonitorHistoricalRegionDailyAggregate list \<Rightarrow> bool" where
  "region_from_database env key rows =
     (\<forall>monitorID date. in_calendar date \<longrightarrow> key = aggregateCacheKey monitorID date \<longrightarrow>
        (\<exists>m. rows = region_before monitorID date (en_db env m)))"

lemma daily_loads_database:
  assumes "loads (loadHistoricalDailyAggregatesBeforeDate env monitorID date) n rows" and "in_calendar date"
  shows "daily_from_database env (aggregateCacheKey monitorID date) rows"
proof -
  obtain m where "fst (loadHistoricalDailyAggregatesBeforeDate env monitorID date m) = Inr rows"
    using assms(1) by (auto simp: loads_def)
  then have "loadHistoricalDailyAggregatesBeforeDate env monitorID date m =
      (Inr rows, snd (loadHistoricalDailyAggregatesBeforeDate env monitorID date m))"
    by (simp add: prod_eq_iff)
  then obtain m where "rows = daily_before monitorID date (en_db env m)"
    by (auto simp: loadHistoricalDailyAggregatesBeforeDate_def dest: query_rows_Inr)
  then show ?thesis
    using assms(2) unfolding daily_from_database_def
    by (auto simp: aggregateCacheKey_inj daily_before_def)
qed

lemma region_loads_database:
  assumes "loads (loadHistoricalRegionDailyAggregatesBeforeDate env monitorID date) n rows" and "in_calendar date"
  shows "region_from_database env (aggregateCacheKey monitorID date) rows"
proof -
  obtain m where "fst (loadHistoricalRegionDailyAggregatesBeforeDate env monitorID date m) = Inr rows"
    using assms(1) by (auto simp: loads_def)
  then have "loadHistoricalRegionDailyAggregatesBeforeDate env monitorID date m =
      (Inr rows, snd (loadHistoricalRegionDailyAggregatesBeforeDate env monitorID date m))"
    by (simp add: prod_eq_iff)
  then obtain m where "rows = region_before monitorID date (en_db env m)"
    by (auto simp: loadHistoricalRegionDailyAggregatesBeforeDate_def dest: query_rows_Inr)
  then show ?thesis
    using assms(2) unfolding region_from_database_def
    by (auto simp: aggregateCacheKey_inj region_before_def)
qed

text \<open>The invariant of the two caches, whatever is behind the interface.\<close>

definition caches_ok ::
    "environment \<Rightarrow> ('c \<Rightarrow> string \<Rightarrow> MonitorHistoricalDailyAggregate list \<Rightarrow> bool) \<Rightarrow>
       ('d \<Rightarrow> string \<Rightarrow> MonitorHistoricalRegionDailyAggregate list \<Rightarrow> bool) \<Rightarrow> ('c, 'd) caches \<Rightarrow> bool" where
  "caches_ok env holds_daily holds_region caches =
     (pred_option (holds_only holds_daily (daily_from_database env)) (ca_daily caches) \<and>
      pred_option (holds_only holds_region (region_from_database env)) (ca_region caches))"

text \<open>The calls of the interface, each under its contract.\<close>

locale server_caches =
  daily: uptime_aggregate_cache "call_daily calls" holds_daily +
  region: uptime_aggregate_cache "call_region calls" holds_region
  for calls :: "('c, 'd) cache_calls" and holds_daily holds_region
begin

lemma cached_daily:
  assumes "historicalDailyAggregatesBeforeDate env calls monitorID date caches n = (r, caches', n')"
    and "caches_ok env holds_daily holds_region caches" and "in_calendar date"
  shows "caches_ok env holds_daily holds_region caches'"
    and "r = Inr rows \<Longrightarrow> \<exists>m. rows = daily_before monitorID date (en_db env m)"
proof -
  have load: "loads (loadHistoricalDailyAggregatesBeforeDate env monitorID date) n rows \<Longrightarrow>
      daily_from_database env (aggregateCacheKey monitorID date) rows" for n rows
    using assms(3) by (rule daily_loads_database [rotated])
  have "caches_ok env holds_daily holds_region caches' \<and>
      (\<forall>rows. r = Inr rows \<longrightarrow> daily_from_database env (aggregateCacheKey monitorID date) rows)"
  proof (cases "ca_daily caches")
    case None
    with assms show ?thesis
      by (auto simp: historicalDailyAggregatesBeforeDate_def split: prod.splits intro!: load loadsI)
  next
    case (Some c)
    obtain r1 c1 n1 where g: "call_daily calls (aggregateCacheKey monitorID date)
        (loadHistoricalDailyAggregatesBeforeDate env monitorID date) c n = (r1, c1, n1)" by (metis prod_cases3)
    have "holds_only holds_daily (daily_from_database env) c"
      using assms(2) Some by (simp add: caches_ok_def)
    note h = daily.call_holds_only [OF g this load]
    show ?thesis
      using assms(1,2) Some g h by (auto simp: historicalDailyAggregatesBeforeDate_def caches_ok_def)
  qed
  then show "caches_ok env holds_daily holds_region caches'"
    and "r = Inr rows \<Longrightarrow> \<exists>m. rows = daily_before monitorID date (en_db env m)"
    using assms(3) unfolding daily_from_database_def by blast+
qed

lemma cached_region:
  assumes "historicalRegionDailyAggregatesBeforeDate env calls monitorID date caches n = (r, caches', n')"
    and "caches_ok env holds_daily holds_region caches" and "in_calendar date"
  shows "caches_ok env holds_daily holds_region caches'"
    and "r = Inr rows \<Longrightarrow> \<exists>m. rows = region_before monitorID date (en_db env m)"
proof -
  have load: "loads (loadHistoricalRegionDailyAggregatesBeforeDate env monitorID date) n rows \<Longrightarrow>
      region_from_database env (aggregateCacheKey monitorID date) rows" for n rows
    using assms(3) by (rule region_loads_database [rotated])
  have "caches_ok env holds_daily holds_region caches' \<and>
      (\<forall>rows. r = Inr rows \<longrightarrow> region_from_database env (aggregateCacheKey monitorID date) rows)"
  proof (cases "ca_region caches")
    case None
    with assms show ?thesis
      by (auto simp: historicalRegionDailyAggregatesBeforeDate_def split: prod.splits intro!: load loadsI)
  next
    case (Some c)
    obtain r1 c1 n1 where g: "call_region calls (aggregateCacheKey monitorID date)
        (loadHistoricalRegionDailyAggregatesBeforeDate env monitorID date) c n = (r1, c1, n1)" by (metis prod_cases3)
    have "holds_only holds_region (region_from_database env) c"
      using assms(2) Some by (simp add: caches_ok_def)
    note h = region.call_holds_only [OF g this load]
    show ?thesis
      using assms(1,2) Some g h by (auto simp: historicalRegionDailyAggregatesBeforeDate_def caches_ok_def)
  qed
  then show "caches_ok env holds_daily holds_region caches'"
    and "r = Inr rows \<Longrightarrow> \<exists>m. rows = region_before monitorID date (en_db env m)"
    using assms(3) unfolding region_from_database_def by blast+
qed

lemma aggregate_page:
  assumes "fetchFromAggregateMonitorHistorical env calls monitorId caches n = (r, caches', n')"
    and "caches_ok env holds_daily holds_region caches" and "in_calendar (en_clock env n)"
  shows "caches_ok env holds_daily holds_region caches'"
    and "r = Inr h \<Longrightarrow> \<exists>m k now. h = summarizeUptimeHistoricalAggregates now
      (daily_before monitorId (en_clock env n) (en_db env m) @ daily_on monitorId (en_clock env n) (en_db env k))"
proof -
  let ?today = "utcDayStart (en_clock env n)"
  obtain r1 c1 n1 where g: "historicalDailyAggregatesBeforeDate env calls monitorId ?today caches (n + 1) = (r1, c1, n1)"
    by (metis prod_cases3)
  obtain r2 n2 where l: "loadHistoricalDailyAggregatesForDate env monitorId ?today n1 = (r2, n2)"
    by fastforce
  have today: "in_calendar ?today"
    using assms(3) by (simp add: in_calendar_def)
  note h1 = cached_daily [OF g assms(2) today]
  have c: "caches' = c1"
    using assms(1) g l by (auto simp: fetchFromAggregateMonitorHistorical_def Let_def split: sum.splits if_splits)
  then show "caches_ok env holds_daily holds_region caches'"
    using h1(1) by simp
  assume "r = Inr h"
  then obtain hs ts where "r1 = Inr hs" "r2 = Inr ts" "h = summarizeUptimeHistoricalAggregates (en_clock env n2) (hs @ ts)"
    using assms(1) g l by (auto simp: fetchFromAggregateMonitorHistorical_def Let_def split: sum.splits if_splits)
  moreover from this obtain m where "hs = daily_before monitorId ?today (en_db env m)"
    using h1(2) by blast
  moreover have "ts = daily_on monitorId ?today (en_db env (n1 + 1))"
    using l \<open>r2 = Inr ts\<close> by (auto simp: loadHistoricalDailyAggregatesForDate_def dest: query_rows_Inr)
  ultimately show "\<exists>m k now. h = summarizeUptimeHistoricalAggregates now
      (daily_before monitorId (en_clock env n) (en_db env m) @ daily_on monitorId (en_clock env n) (en_db env k))"
    by (auto simp: daily_before_def daily_on_def)
qed

lemma region_page:
  assumes "fetchMonitorHistoricalGroupedByRegionFromAggregates env calls monitorId caches n = (r, caches', n')"
    and "caches_ok env holds_daily holds_region caches" and "in_calendar (en_clock env n)"
  shows "caches_ok env holds_daily holds_region caches'"
    and "r = Inr h \<Longrightarrow> \<exists>m k now. h = summarizeRegionHistoricalAggregates now
      (region_before monitorId (en_clock env n) (en_db env m) @ region_on monitorId (en_clock env n) (en_db env k))"
proof -
  let ?today = "utcDayStart (en_clock env n)"
  obtain r1 c1 n1 where g: "historicalRegionDailyAggregatesBeforeDate env calls monitorId ?today caches (n + 1) = (r1, c1, n1)"
    by (metis prod_cases3)
  obtain r2 n2 where l: "loadHistoricalRegionDailyAggregatesForDate env monitorId ?today n1 = (r2, n2)"
    by fastforce
  have today: "in_calendar ?today"
    using assms(3) by (simp add: in_calendar_def)
  note h1 = cached_region [OF g assms(2) today]
  have c: "caches' = c1"
    using assms(1) g l
    by (auto simp: fetchMonitorHistoricalGroupedByRegionFromAggregates_def Let_def split: sum.splits if_splits)
  then show "caches_ok env holds_daily holds_region caches'"
    using h1(1) by simp
  assume "r = Inr h"
  then obtain hs ts where "r1 = Inr hs" "r2 = Inr ts" "h = summarizeRegionHistoricalAggregates (en_clock env n2) (hs @ ts)"
    using assms(1) g l
    by (auto simp: fetchMonitorHistoricalGroupedByRegionFromAggregates_def Let_def split: sum.splits if_splits)
  moreover from this obtain m where "hs = region_before monitorId ?today (en_db env m)"
    using h1(2) by blast
  moreover have "ts = region_on monitorId ?today (en_db env (n1 + 1))"
    using l \<open>r2 = Inr ts\<close> by (auto simp: loadHistoricalRegionDailyAggregatesForDate_def dest: query_rows_Inr)
  ultimately show "\<exists>m k now. h = summarizeRegionHistoricalAggregates now
      (region_before monitorId (en_clock env n) (en_db env m) @ region_on monitorId (en_clock env n) (en_db env k))"
    by (auto simp: region_before_def region_on_def)
qed

end

text \<open>Both caches in memory, as \<open>newUptimeAggregateCache\<close> makes them by default.\<close>

definition memory_calls ::
    "(nat \<Rightarrow> gotime) \<Rightarrow> (MonitorHistoricalDailyAggregate list ttlCache option,
       MonitorHistoricalRegionDailyAggregate list ttlCache option) cache_calls" where
  "memory_calls clock = \<lparr>call_daily = ttl_getOrLoadContext clock, call_region = ttl_getOrLoadContext clock,
     call_daily_close = (\<lambda>_. None), call_region_close = (\<lambda>_. None)\<rparr>"

interpretation memory_server: server_caches "memory_calls clock" ttl_holds ttl_holds for clock
  unfolding server_caches_def memory_calls_def cache_calls.simps
  by (intro conjI memory_cache.uptime_aggregate_cache_axioms)

section \<open>The page of a monitor\<close>

text \<open>
  What the page may show of a monitor: the summary of aggregates that the table held, the summary
  of rows that the table held, or nothing.
\<close>

definition shows_data :: "environment \<Rightarrow> Server \<Rightarrow> string \<Rightarrow> UptimeDataHistorical \<Rightarrow> bool" where
  "shows_data env srv monitorId h =
     ((\<exists>t m k now. h = summarizeUptimeHistoricalAggregates now
         (daily_before monitorId t (en_db env m) @ daily_on monitorId t (en_db env k))) \<or>
      (\<exists>monitor m j n tls. findMonitor (srv_monitorConfig srv) monitorId = Some monitor \<and>
         h = (fst (raw_summary env monitor (take j (monitor_rows monitorId (en_db env m))) n))\<lparr>uh_TLS := tls\<rparr>) \<or>
      h = zero_historical)"

lemma raw_rows_Inr:
  assumes "raw_rows env monitorId n = (Inr rows, n')"
  shows "\<exists>j. rows = take j (monitor_rows monitorId (en_db env (n + 1)))"
proof (cases "en_fault env (n + 3) = None")
  case True
  with assms have "rows = monitor_rows monitorId (en_db env (n + 1))"
    by (auto simp: raw_rows_def result_simps Let_def)
  then show ?thesis by (metis take_all order_refl)
qed (use assms in \<open>auto simp: raw_rows_def result_simps Let_def\<close>)

lemma raw_bucket_tls: "uh_TLS (fst (foldl (raw_bucket env mon) s bs)) = uh_TLS (fst s)"
  by (induction bs arbitrary: s) (auto simp: raw_bucket_def Let_def split: prod.splits)

lemma raw_summary_tls: "uh_TLS (fst (raw_summary env mon rows n)) = None"
  using raw_bucket_tls [of env mon
      "(zero_historical\<lparr>uh_MonitorAge := int (length (group_by bucket_date rows))\<rparr>, n)" "group_by bucket_date rows"]
  by (simp add: raw_summary_def Let_def case_prod_unfold zero_historical_def)

context server_caches begin

lemma raw_page:
  assumes "fetchFromRawMonitorHistorical env srv calls monitorId caches n = (r, caches', n')"
    and "caches_ok env holds_daily holds_region caches" and "in_calendar (en_clock env n)"
  shows "caches_ok env holds_daily holds_region caches'"
    and "r = Inr h \<Longrightarrow> shows_data env srv monitorId h"
proof -
  obtain r1 c1 n1 where g: "fetchFromAggregateMonitorHistorical env calls monitorId caches n = (r1, c1, n1)"
    by (metis prod_cases3)
  note a = aggregate_page [OF g assms(2,3)]
  show "caches_ok env holds_daily holds_region caches'"
    using assms(1) g a(1)
    by (auto simp: fetchFromRawMonitorHistorical_def split: sum.splits prod.splits if_splits option.splits)
  assume r: "r = Inr h"
  show "shows_data env srv monitorId h"
  proof (cases r1)
    case (Inr x)
    then have "h = x"
      using assms(1) g r by (simp add: fetchFromRawMonitorHistorical_def)
    then show ?thesis
      using a(2) [OF Inr] unfolding shows_data_def by blast
  next
    case (Inl e)
    obtain rows n2 mon where q: "raw_rows env monitorId n1 = (Inr rows, n2)" "rows \<noteq> []"
        "findMonitor (srv_monitorConfig srv) monitorId = Some mon"
      using assms(1) g r Inl
      by (auto simp: fetchFromRawMonitorHistorical_def split: sum.splits prod.splits if_splits option.splits)
    obtain h0 n3 where s: "raw_summary env mon rows n2 = (h0, n3)" by fastforce
    obtain x n4 where t: "fetchLatestTLSInfo env monitorId n3 = (x, n4)" by fastforce
    have h: "h = h0 \<or> (\<exists>tls. h = h0\<lparr>uh_TLS := tls\<rparr>)"
      using assms(1) g r Inl q s t
      by (auto simp: fetchFromRawMonitorHistorical_def split: sum.splits option.splits)
    obtain j where rows: "rows = take j (monitor_rows monitorId (en_db env (n1 + 1)))"
      using raw_rows_Inr [OF q(1)] by blast
    have "uh_TLS h0 = None"
      using raw_summary_tls [of env mon rows n2] s by simp
    then have "h0 = h0\<lparr>uh_TLS := None\<rparr>" by simp
    with h obtain t where "h = h0\<lparr>uh_TLS := t\<rparr>" by metis
    then have "h = (fst (raw_summary env mon (take j (monitor_rows monitorId (en_db env (n1 + 1)))) n2))\<lparr>uh_TLS := t\<rparr>"
      using s rows by simp
    then show ?thesis
      using q(3) unfolding shows_data_def by blast
  qed
qed

lemma grouped_page:
  assumes "fetchMonitorHistoricalGroupedByRegion env srv calls monitorId caches n = (r, caches', n')"
    and "caches_ok env holds_daily holds_region caches" and "in_calendar (en_clock env n)"
  shows "caches_ok env holds_daily holds_region caches'"
proof -
  obtain r1 c1 n1 where g: "fetchMonitorHistoricalGroupedByRegionFromAggregates env calls monitorId caches n = (r1, c1, n1)"
    by (metis prod_cases3)
  show ?thesis
    using assms(1) g region_page(1) [OF g assms(2,3)]
    by (auto simp: fetchMonitorHistoricalGroupedByRegion_def split: sum.splits prod.splits option.splits)
qed

end

end
