(* ===== verification/Server_Handlers.thy ===== *)
theory Server_Handlers
  imports Server_Data
begin

text \<open>
  The second half of \<open>server.go\<close>: the handlers. A handler returns the status code and the value
  that is written as JSON. What arrives (a query parameter, a key, a body that decodes or not)
  is an argument; the answer to every \<open>Send\<close> on a topic is the environment's.

  \<open>buildUptimeDataResponse\<close> asks for the monitors in goroutines of their own. \<open>schedule\<close> is the
  order in which they run; the requests of one monitor are not interleaved with those of another.
\<close>

datatype 'a response = Answer (response_status: int) 'a | ErrorAnswer (response_status: int) string

definition withDuckDBReadPermit ::
    "environment \<Rightarrow> bool \<Rightarrow> ('s \<Rightarrow> nat \<Rightarrow> 'a response \<times> 's \<times> nat) \<Rightarrow> 's \<Rightarrow> nat \<Rightarrow> 'a response \<times> 's \<times> nat" where
  "withDuckDBReadPermit env limited handler s n =
     (if \<not> limited then handler s n
      else case en_fault env n of
             Some e \<Rightarrow> (ErrorAnswer 503 ''request cancelled while waiting for database capacity'', s, n + 1)
           | None \<Rightarrow> handler s (n + 1))"

section \<open>The status page\<close>

record UptimeDataHandlerSingleMonitor =
  sm_ID :: string
  sm_Name :: string
  sm_Description :: "string option"
  sm_ResponseTimeMs :: int
  sm_Age :: int
  sm_Downtimes :: "int \<rightharpoonup> int"
  sm_TLS :: "UptimeDataTLSInfo option"

datatype UptimeDataHandlerMonitorType = MonitorTypeSingle | MonitorTypeGroup

record UptimeDataHandlerMonitorGroup =
  mg_Type :: UptimeDataHandlerMonitorType
  mg_ID :: string
  mg_Name :: string
  mg_Description :: "string option"
  mg_Monitors :: "UptimeDataHandlerSingleMonitor list"

record UptimeDataHandlerResponse =
  ur_LastUpdated :: gotime
  ur_Monitors :: "UptimeDataHandlerMonitorGroup list"

text \<open>One goroutine, and all of them.\<close>

definition fetch_monitor ::
    "environment \<Rightarrow> Server \<Rightarrow> ('c, 'd) cache_calls \<Rightarrow>
       (string, UptimeDataHistorical) gomap \<times> ('c, 'd) caches \<times> nat \<Rightarrow> Monitor \<Rightarrow>
       (string, UptimeDataHistorical) gomap \<times> ('c, 'd) caches \<times> nat" where
  "fetch_monitor env srv calls s monitor =
     (case s of (m, caches, n) \<Rightarrow>
        (case fetchFromRawMonitorHistorical env srv calls (mon_ID monitor) caches n of
           (r, caches, n) \<Rightarrow>
             (AList.update (mon_ID monitor) (case r of Inr historical \<Rightarrow> historical | Inl _ \<Rightarrow> zero_historical) m,
              caches, n)))"

definition historical_of :: "(string, UptimeDataHistorical) gomap \<Rightarrow> string \<Rightarrow> UptimeDataHistorical" where
  "historical_of m monitorID = (case map_of m monitorID of Some h \<Rightarrow> h | None \<Rightarrow> zero_historical)"

definition single_monitor :: "Monitor \<Rightarrow> UptimeDataHistorical \<Rightarrow> UptimeDataHandlerSingleMonitor" where
  "single_monitor monitor historical =
     \<lparr>sm_ID = mon_ID monitor, sm_Name = mon_Name monitor, sm_Description = mon_Description monitor,
      sm_ResponseTimeMs = uh_LatencyMs historical, sm_Age = uh_MonitorAge historical,
      sm_Downtimes = uh_DailyDowntimes historical, sm_TLS = uh_TLS historical\<rparr>"

text \<open>\<open>configuredMonitorByID\<close>: a later monitor with the same id overwrites an earlier one.\<close>

definition configuredMonitorByID :: "MonitorConfig \<Rightarrow> (string, Monitor) gomap" where
  "configuredMonitorByID c = foldl (\<lambda>m monitor. AList.update (mon_ID monitor) monitor m) [] (mc_Monitors c)"

definition group_entry ::
    "MonitorConfig \<Rightarrow> (string, UptimeDataHistorical) gomap \<Rightarrow> Group \<Rightarrow> UptimeDataHandlerMonitorGroup" where
  "group_entry c m g =
     \<lparr>mg_Type = MonitorTypeGroup, mg_ID = group_ID g, mg_Name = group_Name g,
      mg_Description = group_Description g,
      mg_Monitors = map (\<lambda>monitor. single_monitor monitor (historical_of m (mon_ID monitor)))
        (List.map_filter (map_of (configuredMonitorByID c)) (group_MonitorIDs g))\<rparr>"

definition single_entry ::
    "(string, UptimeDataHistorical) gomap \<Rightarrow> Monitor \<Rightarrow> UptimeDataHandlerMonitorGroup" where
  "single_entry m monitor =
     \<lparr>mg_Type = MonitorTypeSingle, mg_ID = mon_ID monitor, mg_Name = mon_Name monitor,
      mg_Description = mon_Description monitor,
      mg_Monitors = [single_monitor monitor (historical_of m (mon_ID monitor))]\<rparr>"

definition monitorsInGroups :: "MonitorConfig \<Rightarrow> string list" where
  "monitorsInGroups c = concat (map group_MonitorIDs (mc_Groups c))"

definition page_entries ::
    "MonitorConfig \<Rightarrow> (string, UptimeDataHistorical) gomap \<Rightarrow> UptimeDataHandlerMonitorGroup list" where
  "page_entries c m =
     sort_key mg_ID (map (group_entry c m) (mc_Groups c) @
       map (single_entry m) (filter (\<lambda>monitor. mon_ID monitor \<notin> set (monitorsInGroups c)) (mc_Monitors c)))"

definition buildUptimeDataResponse ::
    "environment \<Rightarrow> Server \<Rightarrow> ('c, 'd) cache_calls \<Rightarrow> Monitor list \<Rightarrow> ('c, 'd) caches \<Rightarrow> nat \<Rightarrow>
       UptimeDataHandlerResponse result \<times> ('c, 'd) caches \<times> nat" where
  "buildUptimeDataResponse env srv calls schedule caches n =
     (case foldl (fetch_monitor env srv calls) ([], caches, n) schedule of
        (m, caches, n) \<Rightarrow>
          (Inr \<lparr>ur_LastUpdated = en_clock env n, ur_Monitors = page_entries (srv_monitorConfig srv) m\<rparr>, caches, n + 1))"

definition UptimeDataHandler ::
    "environment \<Rightarrow> Server \<Rightarrow> ('c, 'd) cache_calls \<Rightarrow> Monitor list \<Rightarrow> ('c, 'd) caches \<Rightarrow> nat \<Rightarrow>
       UptimeDataHandlerResponse response \<times> ('c, 'd) caches \<times> nat" where
  "UptimeDataHandler env srv calls schedule caches n =
     (case buildUptimeDataResponse env srv calls schedule caches n of
        (Inl e, caches, n) \<Rightarrow> (ErrorAnswer 500 ''failed to fetch monitor ids'', caches, n)
      | (Inr response, caches, n) \<Rightarrow> (Answer 200 response, caches, n))"

record UptimeDataByRegionResponse =
  br_LastUpdated :: gotime
  br_Name :: string
  br_Description :: "string option"
  br_Monitors :: "UptimeDataByRegionMonitor list"

definition UptimeDataByRegionHandler ::
    "environment \<Rightarrow> Server \<Rightarrow> ('c, 'd) cache_calls \<Rightarrow> string \<Rightarrow> ('c, 'd) caches \<Rightarrow> nat \<Rightarrow>
       UptimeDataByRegionResponse response \<times> ('c, 'd) caches \<times> nat" where
  "UptimeDataByRegionHandler env srv calls monitorId caches n =
     (if monitorId = [] then (ErrorAnswer 400 ''monitorId query parameter is required'', caches, n)
      else case findMonitor (srv_monitorConfig srv) monitorId of
        None \<Rightarrow> (ErrorAnswer 400 ''monitor not found'', caches, n)
      | Some monitorConfig \<Rightarrow>
          (case fetchMonitorHistoricalGroupedByRegion env srv calls monitorId caches n of
             (Inl e, caches, n) \<Rightarrow> (ErrorAnswer 500 ''failed to fetch monitor historical data'', caches, n)
           | (Inr regionData, caches, n) \<Rightarrow>
               (Answer 200 \<lparr>br_LastUpdated = en_clock env n, br_Name = mon_Name monitorConfig,
                  br_Description = mon_Description monitorConfig, br_Monitors = regionData\<rparr>, caches, n + 1)))"

section \<open>Incidents\<close>

record UptimeDataMonitorMetadata =
  md_ID :: string
  md_Name :: string
  md_Description :: "string option"

record MonitorIncidentSummary =
  mis_MonitorID :: string
  mis_Name :: string
  mis_ProbeType :: string
  mis_Status :: string
  mis_Scope :: string
  mis_Reason :: string
  mis_AffectedRegions :: "string list"
  mis_FailureReasonsBreakdown :: "(string, string list) gomap"
  mis_LastTransitionAt :: gotime
  mis_UpdatedAt :: gotime
  mis_IncidentID :: string
  mis_IncidentSource :: string
  mis_IncidentLifecycleState :: string
  mis_IncidentImpact :: string
  mis_IncidentTitle :: string

record MonitorIncidentsResponse =
  mi_LastUpdated :: gotime
  mi_Incidents :: "MonitorIncidentSummary list"

text \<open>The two sentinel errors, with the text they wrap.\<close>

datatype incidents_error = FetchMonitorIDs string | LoadState string

definition metadata_of :: "MonitorConfig \<Rightarrow> string \<Rightarrow> UptimeDataMonitorMetadata" where
  "metadata_of c monitorID =
     (case findMonitor c monitorID of
        None \<Rightarrow> \<lparr>md_ID = monitorID, md_Name = [], md_Description = None\<rparr>
      | Some m \<Rightarrow> \<lparr>md_ID = monitorID, md_Name = mon_Name m, md_Description = mon_Description m\<rparr>)"

text \<open>\<open>SELECT DISTINCT monitor_id\<close> of the rows since yesterday; \<open>rows.Err()\<close> is not looked at.\<close>

definition recent_monitors :: "gotime \<Rightarrow> database \<Rightarrow> string list" where
  "recent_monitors yesterday db =
     dedup_from [] (map hist_MonitorID (filter (\<lambda>r. timestamptz yesterday \<le> hist_CreatedAt r) (tbl_historical db)))"

definition fetchValidMonitorIds ::
    "environment \<Rightarrow> Server \<Rightarrow> nat \<Rightarrow> UptimeDataMonitorMetadata list result \<times> nat" where
  "fetchValidMonitorIds env srv n =
     (bind_result (attempt (en_fault env n) ''acquiring database connection'' (Inr ())) (\<lambda>_.
      let yesterday = add_days (en_clock env (n + 1)) (- 1) in
      bind_result (attempt (en_fault env (n + 2)) ''querying valid monitor ids''
        (Inr (recent_monitors yesterday (en_db env (n + 2))))) (\<lambda>ids.
      let ids = (if en_fault env (n + 4) = None then ids else take (en_cut env (n + 4)) ids) in
      attempt (if ids = [] then None else en_fault env (n + 3)) ''scanning monitor row''
        (Inr (map (metadata_of (srv_monitorConfig srv)) ids)))), n + 5)"

definition state_of :: "string \<Rightarrow> database \<Rightarrow> MonitorIncidentState" where
  "state_of monitorID db =
     (case List.find (\<lambda>r. state_MonitorID r = monitorID) (tbl_state db) of
        Some r \<Rightarrow> r\<lparr>state_FailureReasonsJson :=
          Some (case state_FailureReasonsJson r of Some j \<Rightarrow> j | None \<Rightarrow> ''{}'')\<rparr>
      | None \<Rightarrow> \<lparr>state_MonitorID = monitorID, state_Status = MonitorStatusHealthy,
          state_Scope = MonitorScopeHealthy, state_AffectedRegions = ''[]'', state_Reason = [],
          state_FailureReasonsJson = Some ''{}'', state_LastTransitionAt = zero_time, state_UpdatedAt = zero_time\<rparr>)"

definition fetchIncidentState :: "environment \<Rightarrow> string \<Rightarrow> nat \<Rightarrow> MonitorIncidentState result \<times> nat" where
  "fetchIncidentState env monitorID n =
     (bind_result (attempt (en_fault env n) ''getting db connection'' (Inr ())) (\<lambda>_.
      attempt (en_fault env (n + 1)) ''querying incident state'' (Inr (state_of monitorID (en_db env (n + 1))))), n + 2)"

definition active_incident :: "string \<Rightarrow> database \<Rightarrow> MonitorIncident option" where
  "active_incident monitorID db =
     (case sort_key (\<lambda>i. - inc_StartedAt i)
             (filter (\<lambda>i. inc_MonitorID i = monitorID \<and> inc_ResolvedAt i = None) (map fst (tbl_incidents db))) of
        [] \<Rightarrow> None
      | i # _ \<Rightarrow> Some i)"

definition fetchActiveIncident :: "environment \<Rightarrow> string \<Rightarrow> nat \<Rightarrow> MonitorIncident option result \<times> nat" where
  "fetchActiveIncident env monitorID n =
     (bind_result (attempt (en_fault env n) ''getting db connection'' (Inr ())) (\<lambda>_.
      attempt (en_fault env (n + 1)) ''querying active incident'' (Inr (active_incident monitorID (en_db env (n + 1))))),
      n + 2)"

definition incident_summary ::
    "UptimeDataMonitorMetadata \<Rightarrow> Monitor \<Rightarrow> MonitorIncidentState \<Rightarrow> MonitorIncident option \<Rightarrow>
       MonitorIncidentSummary" where
  "incident_summary metadata monitorConfig state activeIncident =
     (let summary = \<lparr>mis_MonitorID = md_ID metadata, mis_Name = md_Name metadata,
        mis_ProbeType = EffectiveType monitorConfig, mis_Status = state_Status state,
        mis_Scope = state_Scope state, mis_Reason = state_Reason state,
        mis_AffectedRegions = ParseRegionsJSON (state_AffectedRegions state),
        mis_FailureReasonsBreakdown = ParseFailureReasonsJSON (or_empty (state_FailureReasonsJson state)),
        mis_LastTransitionAt = state_LastTransitionAt state, mis_UpdatedAt = state_UpdatedAt state,
        mis_IncidentID = [], mis_IncidentSource = [], mis_IncidentLifecycleState = [],
        mis_IncidentImpact = [], mis_IncidentTitle = []\<rparr>
      in case activeIncident of
           None \<Rightarrow> summary
         | Some i \<Rightarrow> summary\<lparr>mis_IncidentID := inc_ID i, mis_IncidentSource := inc_Source i,
             mis_IncidentLifecycleState := inc_LifecycleState i, mis_IncidentImpact := inc_Impact i,
             mis_IncidentTitle := inc_Title i,
             mis_Reason := (if inc_Body i \<noteq> [] then inc_Body i else mis_Reason summary)\<rparr>)"

fun incidents_loop ::
    "environment \<Rightarrow> Server \<Rightarrow> UptimeDataMonitorMetadata list \<Rightarrow> nat \<Rightarrow>
       (incidents_error + MonitorIncidentSummary list) \<times> nat" where
  "incidents_loop env srv [] n = (Inr [], n)"
| "incidents_loop env srv (metadata # rest) n =
     (case findMonitor (srv_monitorConfig srv) (md_ID metadata) of
        None \<Rightarrow> incidents_loop env srv rest n
      | Some monitorConfig \<Rightarrow>
          (case fetchIncidentState env (md_ID metadata) n of
             (Inl e, n) \<Rightarrow> (Inl (LoadState e), n)
           | (Inr state, n) \<Rightarrow>
               (case fetchActiveIncident env (md_ID metadata) n of
                  (Inl e, n) \<Rightarrow> (Inl (LoadState e), n)
                | (Inr activeIncident, n) \<Rightarrow>
                    (case incidents_loop env srv rest n of
                       (Inl e, n) \<Rightarrow> (Inl e, n)
                     | (Inr incidents, n) \<Rightarrow>
                         (Inr (incident_summary metadata monitorConfig state activeIncident # incidents), n)))))"

definition buildMonitorIncidentsResponse ::
    "environment \<Rightarrow> Server \<Rightarrow> nat \<Rightarrow> (incidents_error + MonitorIncidentsResponse) \<times> nat" where
  "buildMonitorIncidentsResponse env srv n =
     (case fetchValidMonitorIds env srv n of
        (Inl e, n) \<Rightarrow> (Inl (FetchMonitorIDs e), n)
      | (Inr monitorMetadata, n) \<Rightarrow>
          (case incidents_loop env srv monitorMetadata n of
             (Inl e, n) \<Rightarrow> (Inl e, n)
           | (Inr incidents, n) \<Rightarrow>
               (Inr \<lparr>mi_LastUpdated = en_clock env n, mi_Incidents = sort_key mis_MonitorID incidents\<rparr>, n + 1)))"

definition MonitorIncidentsHandler ::
    "environment \<Rightarrow> Server \<Rightarrow> nat \<Rightarrow> MonitorIncidentsResponse response \<times> nat" where
  "MonitorIncidentsHandler env srv n =
     (case buildMonitorIncidentsResponse env srv n of
        (Inl (FetchMonitorIDs e), n) \<Rightarrow> (ErrorAnswer 500 ''failed to fetch monitor ids'', n)
      | (Inl (LoadState e), n) \<Rightarrow> (ErrorAnswer 500 ''failed to load incident state'', n)
      | (Inr response, n) \<Rightarrow> (Answer 200 response, n))"

text \<open>
  The three handlers as \<open>NewServer\<close> registers them: behind the limit on concurrent reads, which answers 503
  to a request that is cancelled while it waits.
\<close>

definition uptime_data_route ::
    "environment \<Rightarrow> Server \<Rightarrow> ('c, 'd) cache_calls \<Rightarrow> bool \<Rightarrow> Monitor list \<Rightarrow> ('c, 'd) caches \<Rightarrow> nat \<Rightarrow>
       UptimeDataHandlerResponse response \<times> ('c, 'd) caches \<times> nat" where
  "uptime_data_route env srv calls limited schedule = withDuckDBReadPermit env limited (UptimeDataHandler env srv calls schedule)"

definition uptime_data_by_region_route ::
    "environment \<Rightarrow> Server \<Rightarrow> ('c, 'd) cache_calls \<Rightarrow> bool \<Rightarrow> string \<Rightarrow> ('c, 'd) caches \<Rightarrow> nat \<Rightarrow>
       UptimeDataByRegionResponse response \<times> ('c, 'd) caches \<times> nat" where
  "uptime_data_by_region_route env srv calls limited monitorId =
     withDuckDBReadPermit env limited (UptimeDataByRegionHandler env srv calls monitorId)"

definition monitor_incidents_route ::
    "environment \<Rightarrow> Server \<Rightarrow> bool \<Rightarrow> nat \<Rightarrow> MonitorIncidentsResponse response \<times> nat" where
  "monitor_incidents_route env srv limited n =
     (case withDuckDBReadPermit env limited (\<lambda>_ n. case MonitorIncidentsHandler env srv n of (r, n) \<Rightarrow> (r, (), n)) () n of
        (r, _, n) \<Rightarrow> (r, n))"

section \<open>Checkers\<close>

definition CheckerRegistration ::
    "Server \<Rightarrow> string \<Rightarrow> CheckerRegistrationRequest option \<Rightarrow> MonitorConfig response" where
  "CheckerRegistration srv apiKey body =
     (case body of
        None \<Rightarrow> ErrorAnswer 400 ''invalid request body''
      | Some request \<Rightarrow>
          (case FindRegisteredChecker (srv_serverConfig srv) (reg_Name request) (reg_Region request) apiKey of
             None \<Rightarrow> ErrorAnswer 401 ''invalid checker''
           | Some checker \<Rightarrow> Answer 200 (ForChecker (srv_monitorConfig srv) (EffectiveName checker))))"

text \<open>What the topics have taken up; \<open>nackable\<close> is a property of the driver behind a topic.\<close>

record topics =
  tp_processor :: "CheckerSubmissionRequest queue_message list"
  tp_ingester :: "CheckerSubmissionRequest queue_message list"

definition submission_message ::
    "environment \<Rightarrow> bool \<Rightarrow> CheckerSubmissionRequest \<Rightarrow> string \<Rightarrow> string \<Rightarrow> nat \<Rightarrow>
       CheckerSubmissionRequest queue_message" where
  "submission_message env nackable request region requestId n =
     \<lparr>msg_body = Some request,
      msg_metadata = [(''region'', region), (''received_at'', format_rfc3339 (en_clock env n)), (''request_id'', requestId)],
      msg_nackable = nackable\<rparr>"

definition send ::
    "environment \<Rightarrow> 'm \<Rightarrow> 'm list \<Rightarrow> nat \<Rightarrow> 'm list" where
  "send env message queue n = (case en_fault env n of Some e \<Rightarrow> queue | None \<Rightarrow> queue @ [message])"

text \<open>
  The key alone identifies the checker. \<open>marshal\<close> is the error of \<open>json.Marshal\<close>, if any. The two
  sends run in goroutines; they touch different topics.
\<close>

definition CheckerSubmission ::
    "environment \<Rightarrow> Server \<Rightarrow> (CheckerSubmissionRequest \<Rightarrow> string option) \<Rightarrow> bool \<times> bool \<Rightarrow> string \<Rightarrow>
       CheckerSubmissionRequest option \<Rightarrow> topics \<Rightarrow> nat \<Rightarrow> unit response \<times> topics \<times> nat" where
  "CheckerSubmission env srv marshal nackable apiKey body topics n =
     (case List.find (\<lambda>checker. checker_ApiKey checker = apiKey) (sc_RegisteredCheckers (srv_serverConfig srv)) of
        None \<Rightarrow> (ErrorAnswer 401 ''invalid API key'', topics, n)
      | Some checker \<Rightarrow>
          (let region = checker_Region checker in
           case body of
             None \<Rightarrow> (ErrorAnswer 400 ''invalid request body'', topics, n)
           | Some request \<Rightarrow>
               if marshal request \<noteq> None then (ErrorAnswer 500 ''failed to marshal request body'', topics, n)
               else (let requestId = sub_MonitorID request @ ''-'' @ int_str (en_clock env n);
                    topics = topics\<lparr>tp_processor :=
                      send env (submission_message env (fst nackable) request region requestId (n + 1))
                        (tp_processor topics) (n + 2)\<rparr>;
                    topics = topics\<lparr>tp_ingester :=
                      send env (submission_message env (snd nackable) request region requestId (n + 3))
                        (tp_ingester topics) (n + 4)\<rparr>
                  in (Answer 200 (), topics, n + 5))))"

section \<open>Configuration\<close>

record ConfigHandlerResponse =
  cfg_Title :: string
  cfg_ShowLastUpdated :: bool
  cfg_FrontendDesign :: string
  cfg_RetentionDays :: int
  cfg_DegradedThresholdMinutes :: int
  cfg_DegradedThresholdConsecutiveBuckets :: int
  cfg_FailureThresholdMinutes :: int

definition buildConfigResponse :: "Server \<Rightarrow> ConfigHandlerResponse" where
  "buildConfigResponse srv =
     (let metadata = sc_Metadata (srv_serverConfig srv); dataset = sc_Dataset (srv_serverConfig srv) in
      \<lparr>cfg_Title = meta_Title metadata, cfg_ShowLastUpdated = meta_ShowLastUpdated metadata,
       cfg_FrontendDesign = meta_FrontendDesign metadata, cfg_RetentionDays = RetentionDays dataset,
       cfg_DegradedThresholdMinutes = DegradedThresholdMinutes dataset,
       cfg_DegradedThresholdConsecutiveBuckets = DegradedThresholdConsecutiveBuckets dataset,
       cfg_FailureThresholdMinutes = FailureThresholdMinutes dataset\<rparr>)"

definition ConfigHandler :: "Server \<Rightarrow> ConfigHandlerResponse response" where
  "ConfigHandler srv = Answer 200 (buildConfigResponse srv)"

section \<open>The status page\<close>

context server_caches begin

lemma fetch_all:
  assumes "foldl (fetch_monitor env srv calls) (m, caches, n) ms = (m', caches', n')"
    and "caches_ok env holds_daily holds_region caches" and "\<And>n. in_calendar (en_clock env n)"
    and "\<forall>i h. map_of m i = Some h \<longrightarrow> shows_data env srv i h"
  shows "caches_ok env holds_daily holds_region caches' \<and> (\<forall>i h. map_of m' i = Some h \<longrightarrow> shows_data env srv i h)"
  using assms(1,2,4)
proof (induction ms arbitrary: m caches n)
  case (Cons mon ms)
  obtain r c1 n1 where g: "fetchFromRawMonitorHistorical env srv calls (mon_ID mon) caches n = (r, c1, n1)"
    by (metis prod_cases3)
  let ?h = "case r of Inr historical \<Rightarrow> historical | Inl _ \<Rightarrow> zero_historical"
  have "shows_data env srv (mon_ID mon) ?h"
    using raw_page(2) [OF g Cons.prems(2) assms(3)]
    by (cases r) (simp_all add: shows_data_def)
  then have "\<forall>i h. map_of (AList.update (mon_ID mon) ?h m) i = Some h \<longrightarrow> shows_data env srv i h"
    using Cons.prems(3) by (simp add: update_conv')
  moreover have "fetch_monitor env srv calls (m, caches, n) mon = (AList.update (mon_ID mon) ?h m, c1, n1)"
    using g by (simp add: fetch_monitor_def)
  then have "foldl (fetch_monitor env srv calls) (AList.update (mon_ID mon) ?h m, c1, n1) ms = (m', caches', n')"
    using Cons.prems(1) by simp
  ultimately show ?case
    using Cons.IH raw_page(1) [OF g Cons.prems(2) assms(3)] by blast
qed auto

lemma region_handler:
  assumes "UptimeDataByRegionHandler env srv calls monitorId caches n = (r, caches', n')"
    and "caches_ok env holds_daily holds_region caches" and "\<And>n. in_calendar (en_clock env n)"
  shows "caches_ok env holds_daily holds_region caches'"
proof -
  obtain r1 c1 n1 where g: "fetchMonitorHistoricalGroupedByRegion env srv calls monitorId caches n = (r1, c1, n1)"
    by (metis prod_cases3)
  show ?thesis
    using assms(1,2) g grouped_page [OF g assms(2,3)]
    by (auto simp: UptimeDataByRegionHandler_def split: if_splits option.splits sum.splits)
qed

end

lemma configured_by_id:
  assumes "distinct (map mon_ID (mc_Monitors c))"
  shows "map_of (configuredMonitorByID c) i = findMonitor c i"
proof -
  have "map_of (foldl (\<lambda>m monitor. AList.update (mon_ID monitor) monitor m) m0 ms) i =
      (case List.find (\<lambda>m. mon_ID m = i) ms of Some m \<Rightarrow> Some m | None \<Rightarrow> map_of m0 i)"
    if "distinct (map mon_ID ms)" for ms m0
    using that
  proof (induction ms arbitrary: m0)
    case (Cons x ms)
    have "mon_ID x = i \<Longrightarrow> List.find (\<lambda>m. mon_ID m = i) ms = None"
      using Cons.prems unfolding find_None by (metis distinct.simps(2) image_eqI list.set_map list.simps(9))
    with Cons show ?case
      by (auto simp: update_conv' split: option.split)
  qed simp
  from this [OF assms, of "[]"] show ?thesis
    by (simp add: configuredMonitorByID_def findMonitor_def split: option.split)
qed

lemma findMonitor_None: "findMonitor c i = None \<longleftrightarrow> i \<notin> mon_ID ` set (mc_Monitors c)"
  by (auto simp: findMonitor_def find_None)

lemma map_filter_set: "x \<in> set (List.map_filter f is) \<longleftrightarrow> (\<exists>i \<in> set is. f i = Some x)"
  by (induction "is") (auto split: option.split)

lemma group_members:
  "map sm_ID (map (\<lambda>m. single_monitor m (f m)) (List.map_filter (findMonitor c) is)) =
     filter (\<lambda>i. i \<in> mon_ID ` set (mc_Monitors c)) is"
proof (induction "is")
  case (Cons i "is")
  show ?case
  proof (cases "findMonitor c i")
    case None
    then have "i \<notin> mon_ID ` set (mc_Monitors c)"
      using findMonitor_None [of c i] by blast
    with None Cons show ?thesis by simp
  next
    case (Some m)
    then have "i \<in> mon_ID ` set (mc_Monitors c)" "mon_ID m = i"
      using findMonitor_Some [OF Some] by auto
    with Some Cons show ?thesis by (simp add: map_filter_simps single_monitor_def)
  qed
qed (simp add: map_filter_simps)

text \<open>
  C15: The status page is complete, and shows only what the database held. Whatever caches stand behind
  the interface, as long as they keep its contract, and whatever calls fail: the answer is a page,
  its entries are the configured groups and the monitors in no group, ordered by id; the entry
  of a group lists the configured monitors among its members in order; and the data of every
  monitor shown is the summary of its aggregates, or of its raw rows, as the table held them at
  some interaction, or empty. The caches afterwards hold again only what the tables held.
\<close>

theorem status_page_is_complete:
  assumes "server_caches calls holds_daily holds_region" and "caches_ok env holds_daily holds_region caches"
    and "\<And>n. in_calendar (en_clock env n)" and "distinct (map mon_ID (mc_Monitors (srv_monitorConfig srv)))"
    and "UptimeDataHandler env srv calls schedule caches n = (response, caches', n')"
  shows "caches_ok env holds_daily holds_region caches' \<and>
    (\<exists>page. response = Answer 200 page \<and>
       (let c = srv_monitorConfig srv; entries = set (ur_Monitors page); ids = mon_ID ` set (mc_Monitors c) in
        sorted (map mg_ID (ur_Monitors page)) \<and>
        mset (map mg_ID (ur_Monitors page)) = mset (map group_ID (mc_Groups c)) +
          mset (filter (\<lambda>i. i \<notin> set (monitorsInGroups c)) (map mon_ID (mc_Monitors c))) \<and>
        (\<forall>g \<in> set (mc_Groups c). \<exists>e \<in> entries. mg_Type e = MonitorTypeGroup \<and> mg_ID e = group_ID g \<and>
           map sm_ID (mg_Monitors e) = filter (\<lambda>i. i \<in> ids) (group_MonitorIDs g)) \<and>
        (\<forall>m \<in> set (mc_Monitors c). mon_ID m \<notin> set (monitorsInGroups c) \<longrightarrow>
           (\<exists>e \<in> entries. mg_Type e = MonitorTypeSingle \<and> map sm_ID (mg_Monitors e) = [mon_ID m])) \<and>
        (\<forall>e \<in> entries. \<forall>s \<in> set (mg_Monitors e). \<exists>m \<in> set (mc_Monitors c). \<exists>h.
           s = single_monitor m h \<and> shows_data env srv (mon_ID m) h)))"
proof -
  let ?c = "srv_monitorConfig srv"
  obtain m' c1 n1 where f: "foldl (fetch_monitor env srv calls) ([], caches, n) schedule = (m', c1, n1)"
    by (metis prod_cases3)
  have "caches_ok env holds_daily holds_region c1 \<and> (\<forall>i h. map_of m' i = Some h \<longrightarrow> shows_data env srv i h)"
    by (rule server_caches.fetch_all [OF assms(1) f assms(2,3)]) simp
  then have ok: "caches_ok env holds_daily holds_region c1" and data: "shows_data env srv i (historical_of m' i)" for i
    by (auto simp: historical_of_def shows_data_def split: option.split)
  have r: "response = Answer 200 \<lparr>ur_LastUpdated = en_clock env n1, ur_Monitors = page_entries ?c m'\<rparr>" "caches' = c1"
    using assms(5) f by (simp_all add: UptimeDataHandler_def buildUptimeDataResponse_def)
  have lookup: "map_of (configuredMonitorByID ?c) = findMonitor ?c"
    using configured_by_id [OF assms(4)] by (intro ext)
  have groups: "map sm_ID (mg_Monitors (group_entry ?c m' g)) = filter (\<lambda>i. i \<in> mon_ID ` set (mc_Monitors ?c)) (group_MonitorIDs g)"
    for g
    by (simp only: group_entry_def UptimeDataHandlerMonitorGroup.simps lookup group_members)
  have ids: "map mg_ID (map (group_entry ?c m') gs) = map group_ID gs"
    "map mg_ID (map (single_entry m') ms) = map mon_ID ms" for gs ms
    by (simp_all add: group_entry_def single_entry_def)
  have multi: "mset (map mg_ID (page_entries ?c m')) = mset (map group_ID (mc_Groups ?c)) +
      mset (filter (\<lambda>i. i \<notin> set (monitorsInGroups ?c)) (map mon_ID (mc_Monitors ?c)))"
    unfolding page_entries_def map_sort_key mset_sort map_append ids mset_append by (simp only: filter_map comp_def)
  have sorted: "sorted (map mg_ID (page_entries ?c m'))"
    by (simp add: page_entries_def)
  have entries: "set (page_entries ?c m') = group_entry ?c m' ` set (mc_Groups ?c) \<union>
      single_entry m' ` {m \<in> set (mc_Monitors ?c). mon_ID m \<notin> set (monitorsInGroups ?c)}"
    by (auto simp: page_entries_def)
  have shown: "\<exists>m \<in> set (mc_Monitors ?c). \<exists>h. s = single_monitor m h \<and> shows_data env srv (mon_ID m) h"
    if "e \<in> set (page_entries ?c m')" "s \<in> set (mg_Monitors e)" for e s
  proof -
    from that consider g where "s \<in> set (mg_Monitors (group_entry ?c m' g))"
      | m where "m \<in> set (mc_Monitors ?c)" "s \<in> set (mg_Monitors (single_entry m' m))"
      unfolding entries by blast
    then obtain m where "m \<in> set (mc_Monitors ?c)" "s = single_monitor m (historical_of m' (mon_ID m))"
    proof cases
      case 1
      then obtain i m where "findMonitor ?c i = Some m" "s = single_monitor m (historical_of m' (mon_ID m))"
        by (auto simp: group_entry_def lookup map_filter_set)
      then show thesis
        using that findMonitor_Some by blast
    next
      case 2
      then show thesis using that by (simp add: single_entry_def)
    qed
    then show ?thesis using data by blast
  qed
  have g: "\<exists>e \<in> set (page_entries ?c m'). mg_Type e = MonitorTypeGroup \<and> mg_ID e = group_ID g \<and>
      map sm_ID (mg_Monitors e) = filter (\<lambda>i. i \<in> mon_ID ` set (mc_Monitors ?c)) (group_MonitorIDs g)"
    if "g \<in> set (mc_Groups ?c)" for g
    unfolding entries using that groups [of g] by (intro bexI [of _ "group_entry ?c m' g"]) (simp_all add: group_entry_def)
  have i: "\<exists>e \<in> set (page_entries ?c m'). mg_Type e = MonitorTypeSingle \<and> map sm_ID (mg_Monitors e) = [mon_ID m]"
    if "m \<in> set (mc_Monitors ?c)" "mon_ID m \<notin> set (monitorsInGroups ?c)" for m
    unfolding entries using that
    by (intro bexI [of _ "single_entry m' m"]) (auto simp: single_entry_def single_monitor_def)
  show ?thesis
    unfolding r Let_def using ok sorted multi g i shown by (simp del: map_map)
qed

definition ex_env :: environment where
  "ex_env = \<lparr>en_clock = (\<lambda>n. 20000 * day), en_fault = (\<lambda>n. None),
     en_db = (\<lambda>n. empty_db\<lparr>tbl_daily := [ex_daily 19999 99]\<rparr>), en_cut = (\<lambda>n. 0)\<rparr>"

definition ex_server :: Server where
  "ex_server = \<lparr>srv_serverConfig = ex_server_config,
     srv_monitorConfig = \<lparr>mc_Monitors = [zero_monitor\<lparr>mon_ID := ''web''\<rparr>], mc_Groups = []\<rparr>\<rparr>"

definition new_caches ::
    "(MonitorHistoricalDailyAggregate list ttlCache option, MonitorHistoricalRegionDailyAggregate list ttlCache option) caches"
  where
  "new_caches = \<lparr>ca_daily = Some (Some (newTTLCache uptimeDataCacheTTL)),
     ca_region = Some (Some (newTTLCache uptimeDataCacheTTL))\<rparr>"

lemma new_caches_ok: "caches_ok env ttl_holds ttl_holds new_caches"
  by (simp add: caches_ok_def new_caches_def holds_only_def ttl_holds_def newTTLCache_def)

lemma ex_env_calendar: "in_calendar (en_clock ex_env n)"
  by code_simp

theorem status_page_is_complete_witness:
  "\<exists>page. fst (UptimeDataHandler ex_env ex_server (memory_calls (\<lambda>n. 20000 * day))
       (mc_Monitors (srv_monitorConfig ex_server)) new_caches 0) = Answer 200 page \<and>
     map mg_ID (ur_Monitors page) = [''web''] \<and>
     (\<exists>e \<in> set (ur_Monitors page). mg_Type e = MonitorTypeSingle \<and> map sm_ID (mg_Monitors e) = [''web''])"
proof -
  let ?calls = "memory_calls (\<lambda>n. 20000 * day)"
  let ?ms = "mc_Monitors (srv_monitorConfig ex_server)"
  obtain r c n where e: "UptimeDataHandler ex_env ex_server ?calls ?ms new_caches 0 = (r, c, n)"
    by (metis prod_cases3)
  have d: "distinct (map mon_ID ?ms)"
    by (simp add: ex_server_def)
  have c: "srv_monitorConfig ex_server = \<lparr>mc_Monitors = [zero_monitor\<lparr>mon_ID := ''web''\<rparr>], mc_Groups = []\<rparr>"
    by (simp add: ex_server_def)
  from status_page_is_complete [OF memory_server.server_caches_axioms new_caches_ok ex_env_calendar d e, THEN conjunct2]
  obtain page where p: "r = Answer 200 page" "mset (map mg_ID (ur_Monitors page)) = {#''web''#}"
      "\<exists>e \<in> set (ur_Monitors page). mg_Type e = MonitorTypeSingle \<and> map sm_ID (mg_Monitors e) = [''web'']"
    unfolding c Let_def monitorsInGroups_def by (elim exE conjE) (simp del: mset_map)
  from p(2) have "map mg_ID (ur_Monitors page) = [''web'']"
    by (metis mset_single_iff_right mset.simps)
  with p e show ?thesis by auto
qed

section \<open>Starting the server\<close>

definition chosen_backend :: "ServerConfig \<Rightarrow> string \<Rightarrow> duration \<Rightarrow> 'v backend" where
  "chosen_backend config namespace ttl =
     (let redis = cache_Redis (sc_Cache config) in
      if normalized (cache_Backend (sc_Cache config)) = ''redis''
      then RedisBackend
             \<lparr>ro_Addr = redis_cache_Address redis, ro_Username = redis_cache_Username redis,
              ro_Password = redis_cache_Password redis, ro_DB = redis_cache_DB redis,
              ro_TLSConfig = redisTLSConfig (redis_cache_TLS redis) (redis_cache_SkipTLSVerify redis),
              ro_PoolSize = 10, ro_MinIdleConns = 1\<rparr>
             \<lparr>rt_ttl = ttl, rt_prefix = redis_cache_Prefix redis, rt_namespace = namespace\<rparr>
      else MemoryBackend (newTTLCache ttl))"

text \<open>
  A configuration that passes validation starts: both caches can be made, the one in memory or the
  one on Redis, which then has an address, and the number of concurrent reads is at least one, so
  that no request waits for a permit that does not exist.
\<close>

theorem valid_configuration_starts:
  assumes "server_Validate config = None"
  shows "newUptimeAggregateCache config namespace ttl = Inr (chosen_backend config namespace ttl) \<and>
    (case chosen_backend config namespace ttl of
       MemoryBackend c \<Rightarrow> c = newTTLCache ttl | RedisBackend options c \<Rightarrow> ro_Addr options \<noteq> []) \<and>
    1 \<le> resolveDuckDBReadConcurrencyLimit (db_ReadConcurrencyLimit (sc_Database config)) gomaxprocs"
proof -
  have "validate_cache (sc_Cache config) = None"
    using assms by (auto simp: server_Validate_def split: option.splits if_splits)
  then show ?thesis
    unfolding validate_cache_None
    by (auto simp: newUptimeAggregateCache_def chosen_backend_def normalized_def Let_def
        resolveDuckDBReadConcurrencyLimit_def)
qed

theorem valid_configuration_starts_witness:
  "newUptimeAggregateCache ex_server_config ''uptime:daily'' uptimeDataCacheTTL =
     (Inr (MemoryBackend (newTTLCache uptimeDataCacheTTL)) :: string + bool list backend) \<and>
   1 \<le> resolveDuckDBReadConcurrencyLimit (db_ReadConcurrencyLimit (sc_Database ex_server_config)) 1"
proof -
  have "normalized (cache_Backend (sc_Cache ex_server_config)) = ''memory''"
    by code_simp
  then show ?thesis
    using valid_configuration_starts [OF ex_server_config_valid, of "''uptime:daily''" uptimeDataCacheTTL 1]
    by (simp add: chosen_backend_def)
qed

end
