(* ===== verification/Root_Handler.thy ===== *)
theory Root_Handler
  imports Server_Handlers
begin

text \<open>
  \<open>root_handler.go\<close> and \<open>spa_server.go\<close>: the address \<open>/\<close> answers browsers with the page and other
  clients with the status as text or JSON. A reply is a value: the status code, the headers that
  are set, and the content; \<open>StatusReply\<close> is written as indented JSON. What the file system of the
  frontend answers is a parameter of the SPA handler.
\<close>

section \<open>Data\<close>

datatype rootRequestAudience = AudienceBrowser | AudienceCLI

datatype rootCLIFormat = FormatJSON | FormatText

definition rootRecentEventLimit :: nat where
  "rootRecentEventLimit = 5"

definition rootBrowserMarkers :: "string list" where
  "rootBrowserMarkers =
     [''mozilla'', ''chrome'', ''safari'', ''edge'', ''firefox'', ''opera'', ''chromium'', ''iphone'',
      ''ipad'', ''android'', ''mobile'']"

record RootStatusSummary =
  rss_Services :: int
  rss_Healthy :: int
  rss_Degraded :: int
  rss_Down :: int
  rss_Incidents :: int

record RootStatusService =
  svc_ID :: string
  svc_Name :: string
  svc_Group :: string
  svc_GroupType :: UptimeDataHandlerMonitorType
  svc_ProbeType :: string
  svc_Status :: string
  svc_Scope :: string
  svc_ResponseTimeMs :: int
  svc_AgeDays :: int
  svc_DowntimeTodayMinutes :: int
  svc_Description :: string
  svc_Reason :: string
  svc_AffectedRegions :: "string list"

record RootStatusEvent =
  rev_MonitorID :: string
  rev_Name :: string
  rev_EventType :: string
  rev_Status :: string
  rev_Scope :: string
  rev_Impact :: string
  rev_Title :: string
  rev_Body :: string
  rev_CreatedAt :: gotime

record RootStatusResponse =
  rsr_Title :: string
  rsr_LastUpdated :: gotime
  rsr_Summary :: RootStatusSummary
  rsr_Services :: "RootStatusService list"
  rsr_RecentEvents :: "RootStatusEvent list"

section \<open>Which answer\<close>

definition classifyRootRequest :: "string \<Rightarrow> rootRequestAudience" where
  "classifyRootRequest userAgent =
     (if userAgent = [] then AudienceCLI
      else if contains_any (to_lower userAgent) rootBrowserMarkers then AudienceBrowser else AudienceCLI)"

text \<open>The query parameter \<open>format\<close> and the header \<open>Accept\<close>, both empty when they are missing.\<close>

definition resolveRootCLIFormat :: "string \<Rightarrow> string \<Rightarrow> rootCLIFormat" where
  "resolveRootCLIFormat format accept =
     (let format = to_lower format; accept = to_lower accept in
      if format = ''text'' \<or> format = ''plain'' \<or> format = ''ascii'' then FormatText
      else if format = ''json'' then FormatJSON
      else if contains accept ''text/plain'' \<and> \<not> contains accept ''text/html'' then FormatText
      else FormatJSON)"

section \<open>The status of all services\<close>

definition monitorDowntimeToday :: "UptimeDataHandlerSingleMonitor \<Rightarrow> int" where
  "monitorDowntimeToday monitor = (case sm_Downtimes monitor 0 of Some today \<Rightarrow> today | None \<Rightarrow> 0)"

text \<open>\<open>now\<close> is read when no candidate is later than the zero time.\<close>

definition latestRootUpdate :: "gotime \<Rightarrow> gotime list \<Rightarrow> gotime" where
  "latestRootUpdate now candidates =
     (let latest = foldl (\<lambda>latest candidate. if candidate > latest then candidate else latest) zero_time candidates
      in if latest = zero_time then now else latest)"

definition monitorName :: "MonitorConfig \<Rightarrow> string \<Rightarrow> string" where
  "monitorName c monitorID = (case findMonitor c monitorID of Some m \<Rightarrow> mon_Name m | None \<Rightarrow> monitorID)"

definition root_event :: "MonitorConfig \<Rightarrow> MonitorIncidentEvent \<Rightarrow> RootStatusEvent" where
  "root_event c e =
     \<lparr>rev_MonitorID = ev_MonitorID e, rev_Name = monitorName c (ev_MonitorID e), rev_EventType = ev_EventType e,
      rev_Status = ev_Status e, rev_Scope = ev_Scope e, rev_Impact = ev_Impact e, rev_Title = ev_Title e,
      rev_Body = ev_Body e, rev_CreatedAt = ev_CreatedAt e\<rparr>"

definition recent_events :: "nat \<Rightarrow> database \<Rightarrow> MonitorIncidentEvent list" where
  "recent_events limit db = take limit (sort_key (\<lambda>e. - ev_CreatedAt e) (tbl_events db))"

definition loadRecentIncidentEvents :: "environment \<Rightarrow> Server \<Rightarrow> nat \<Rightarrow> nat \<Rightarrow> RootStatusEvent list result \<times> nat" where
  "loadRecentIncidentEvents env srv limit n =
     (case query_rows env ''getting db connection'' ''querying recent incident events''
             ''scanning recent incident event'' ''iterating recent incident events'' (recent_events limit) n of
        (Inl e, n) \<Rightarrow> (Inl e, n)
      | (Inr rows, n) \<Rightarrow> (Inr (map (root_event (srv_monitorConfig srv)) rows), n))"

definition incidentByMonitorID ::
    "MonitorIncidentSummary list \<Rightarrow> (string, MonitorIncidentSummary) gomap" where
  "incidentByMonitorID incidents = foldl (\<lambda>m incident. AList.update (mis_MonitorID incident) incident m) [] incidents"

text \<open>The summary that stands for a monitor of which the incidents page says nothing.\<close>

definition no_incident :: "UptimeDataHandlerSingleMonitor \<Rightarrow> MonitorIncidentSummary" where
  "no_incident monitor =
     \<lparr>mis_MonitorID = sm_ID monitor, mis_Name = sm_Name monitor, mis_ProbeType = [],
      mis_Status = MonitorStatusHealthy, mis_Scope = MonitorScopeHealthy, mis_Reason = [],
      mis_AffectedRegions = [], mis_FailureReasonsBreakdown = [], mis_LastTransitionAt = zero_time,
      mis_UpdatedAt = zero_time, mis_IncidentID = [], mis_IncidentSource = [],
      mis_IncidentLifecycleState = [], mis_IncidentImpact = [], mis_IncidentTitle = []\<rparr>"

definition root_service ::
    "(string, MonitorIncidentSummary) gomap \<Rightarrow> UptimeDataHandlerMonitorGroup \<Rightarrow> UptimeDataHandlerSingleMonitor \<Rightarrow>
       RootStatusService" where
  "root_service incidents g monitor =
     (let incident = (case map_of incidents (sm_ID monitor) of Some i \<Rightarrow> i | None \<Rightarrow> no_incident monitor) in
      \<lparr>svc_ID = sm_ID monitor, svc_Name = sm_Name monitor,
       svc_Group = (if mg_Type g = MonitorTypeGroup then mg_Name g else []), svc_GroupType = mg_Type g,
       svc_ProbeType = mis_ProbeType incident, svc_Status = mis_Status incident, svc_Scope = mis_Scope incident,
       svc_ResponseTimeMs = sm_ResponseTimeMs monitor, svc_AgeDays = sm_Age monitor,
       svc_DowntimeTodayMinutes = monitorDowntimeToday monitor,
       svc_Description = or_empty (sm_Description monitor), svc_Reason = mis_Reason incident,
       svc_AffectedRegions = mis_AffectedRegions incident\<rparr>)"

definition count_service :: "RootStatusSummary \<Rightarrow> RootStatusService \<Rightarrow> RootStatusSummary" where
  "count_service summary service =
     (let summary = summary\<lparr>rss_Services := rss_Services summary + 1\<rparr> in
      if svc_Status service = MonitorStatusDown then summary\<lparr>rss_Down := rss_Down summary + 1\<rparr>
      else if svc_Status service = MonitorStatusDegraded then summary\<lparr>rss_Degraded := rss_Degraded summary + 1\<rparr>
      else summary\<lparr>rss_Healthy := rss_Healthy summary + 1\<rparr>)"

definition root_services ::
    "MonitorIncidentSummary list \<Rightarrow> UptimeDataHandlerMonitorGroup list \<Rightarrow> RootStatusService list" where
  "root_services incidents groups =
     concat (map (\<lambda>g. map (root_service (incidentByMonitorID incidents) g) (mg_Monitors g)) groups)"

definition root_summary :: "RootStatusService list \<Rightarrow> RootStatusSummary" where
  "root_summary services =
     (let summary = foldl count_service
        \<lparr>rss_Services = 0, rss_Healthy = 0, rss_Degraded = 0, rss_Down = 0, rss_Incidents = 0\<rparr> services
      in summary\<lparr>rss_Incidents := rss_Degraded summary + rss_Down summary\<rparr>)"

definition buildRootStatusResponse ::
    "environment \<Rightarrow> Server \<Rightarrow> ('c, 'd) cache_calls \<Rightarrow> Monitor list \<Rightarrow> ('c, 'd) caches \<Rightarrow> nat \<Rightarrow>
       RootStatusResponse option \<times> ('c, 'd) caches \<times> nat" where
  "buildRootStatusResponse env srv calls schedule caches n =
     (case buildUptimeDataResponse env srv calls schedule caches n of
        (Inl e, caches, n) \<Rightarrow> (None, caches, n)
      | (Inr uptime, caches, n) \<Rightarrow>
          (case buildMonitorIncidentsResponse env srv n of
             (Inl e, n) \<Rightarrow> (None, caches, n)
           | (Inr incidents, n) \<Rightarrow>
               (case loadRecentIncidentEvents env srv rootRecentEventLimit n of
                  (Inl e, n) \<Rightarrow> (None, caches, n)
                | (Inr recentEvents, n) \<Rightarrow>
                    (let services = root_services (mi_Incidents incidents) (ur_Monitors uptime);
                         title = cfg_Title (buildConfigResponse srv)
                     in (Some \<lparr>rsr_Title = (if title = [] then ''Status Page'' else title),
                           rsr_LastUpdated = latestRootUpdate (en_clock env n)
                             [ur_LastUpdated uptime, mi_LastUpdated incidents],
                           rsr_Summary = root_summary services, rsr_Services = services,
                           rsr_RecentEvents = recentEvents\<rparr>, caches, n + 1)))))"

section \<open>The text\<close>

text \<open>\<open>[]rune(s)\<close>, each rune as its encoding; a byte outside any encoding becomes U+FFFD.\<close>

function runes :: "string \<Rightarrow> string list" where
  "runes s =
     (if s = [] then []
      else if rune_len s = 0 then replacement # runes (tl s)
      else take (rune_len s) s # runes (drop (rune_len s) s))"
  by pat_completeness auto
termination
  by (relation "measure length") (use drop_rune_less in auto)

declare runes.simps [simp del]

definition truncateRootText :: "string \<Rightarrow> nat \<Rightarrow> string" where
  "truncateRootText v mx =
     (if length (runes v) \<le> mx then v
      else if mx \<le> 3 then concat (take mx (runes v))
      else concat (take (mx - 3) (runes v)) @ ''...'')"

definition formatRootLatency :: "int \<Rightarrow> string" where
  "formatRootLatency latencyMs = (if latencyMs \<le> 0 then ''-'' else int_str latencyMs @ ''ms'')"

definition firstNonEmpty :: "string list \<Rightarrow> string" where
  "firstNonEmpty vs = (case List.find (\<lambda>v. trim_space v \<noteq> []) vs of Some v \<Rightarrow> v | None \<Rightarrow> [])"

text \<open>\<open>%-ns\<close>: padded on the right to a number of runes.\<close>

definition pad :: "nat \<Rightarrow> string \<Rightarrow> string" where
  "pad n s = s @ replicate (n - length (runes s)) CHR '' ''"

definition newline :: string where
  "newline = [CHR 0x0A]"

definition service_text :: "RootStatusService \<Rightarrow> string" where
  "service_text service =
     (let g = (if svc_Group service = [] then ''-'' else svc_Group service) in
      ''  '' @ pad 9 (to_upper (svc_Status service)) @ '' '' @ pad 28 (truncateRootText (svc_Name service) 28) @ '' '' @
      pad 8 (formatRootLatency (svc_ResponseTimeMs service)) @ '' '' @ pad 4 (int_str (svc_AgeDays service) @ ''d'') @ '' '' @
      pad 12 (int_str (svc_DowntimeTodayMinutes service) @ ''m'') @ '' '' @ truncateRootText g 20 @ newline @
      (if svc_Reason service = [] then [] else ''    reason : '' @ svc_Reason service @ newline) @
      (if svc_AffectedRegions service = [] then []
       else ''    regions: '' @ join (svc_AffectedRegions service) '', '' @ newline))"

definition event_text :: "RootStatusEvent \<Rightarrow> string" where
  "event_text e =
     ''  - '' @ format_rfc3339 (rev_CreatedAt e) @ ''  '' @ pad 8 (to_upper (rev_EventType e)) @ ''  '' @
     pad 28 (truncateRootText (rev_Name e) 28) @ ''  '' @ firstNonEmpty [rev_Title e, rev_Body e, ''-''] @ newline"

definition renderRootStatusText :: "RootStatusResponse \<Rightarrow> string" where
  "renderRootStatusText r =
     (let summary = rsr_Summary r in
      rsr_Title r @ newline @
      ''Updated: '' @ format_rfc3339 (rsr_LastUpdated r) @ newline @
      ''Format : text'' @ newline @ newline @
      ''Summary'' @ newline @
      ''  Services : '' @ int_str (rss_Services summary) @ newline @
      ''  Healthy  : '' @ int_str (rss_Healthy summary) @ newline @
      ''  Degraded : '' @ int_str (rss_Degraded summary) @ newline @
      ''  Down     : '' @ int_str (rss_Down summary) @ newline @
      ''  Incidents: '' @ int_str (rss_Incidents summary) @ newline @
      newline @ ''Services'' @ newline @
      (if rsr_Services r = [] then ''  No services available.'' @ newline
       else ''  STATUS    NAME                         LATENCY   AGE   DOWN TODAY   GROUP'' @ newline @
         concat (map service_text (rsr_Services r))) @
      (if rsr_RecentEvents r = [] then []
       else newline @ ''Recent events'' @ newline @ concat (map event_text (rsr_RecentEvents r))))"

section \<open>Replies\<close>

type_synonym headers = "(string \<times> string) list"

definition root_vary_headers :: headers where
  "root_vary_headers = [(''Vary'', ''User-Agent''), (''Vary'', ''Accept'')]"

definition root_cli_headers :: headers where
  "root_cli_headers = root_vary_headers @ [(''Cache-Control'', ''no-store'')]"

definition text_headers :: headers where
  "text_headers = root_cli_headers @ [(''content-type'', ''text/plain; charset=utf-8'')]"

definition json_headers :: headers where
  "json_headers = root_cli_headers @ [(''content-type'', ''application/json'')]"

text \<open>
  \<open>path.Clean\<close> removes the elements that are empty or a dot, and each \<open>..\<close> with the element before it;
  at the root of a rooted path a \<open>..\<close> goes too.
\<close>

fun split_slash :: "string \<Rightarrow> string \<Rightarrow> string list" where
  "split_slash part [] = [part]"
| "split_slash part (c # s) = (if c = CHR ''/'' then part # split_slash [] s else split_slash (part @ [c]) s)"

definition clean_element :: "bool \<Rightarrow> string list \<Rightarrow> string \<Rightarrow> string list" where
  "clean_element rooted acc c =
     (if c = [] \<or> c = ''.'' then acc
      else if c = ''..'' then
        (if acc \<noteq> [] \<and> last acc \<noteq> ''..'' then butlast acc else if rooted then acc else acc @ [c])
      else acc @ [c])"

definition clean_elements :: "string \<Rightarrow> string list" where
  "clean_elements path = foldl (clean_element (path \<noteq> [] \<and> hd path = CHR ''/'')) [] (split_slash [] path)"

definition path_Clean :: "string \<Rightarrow> string" where
  "path_Clean path =
     (if path \<noteq> [] \<and> hd path = CHR ''/'' then CHR ''/'' # join (clean_elements path) ''/''
      else if clean_elements path = [] then ''.'' else join (clean_elements path) ''/'')"

text \<open>
  What the file system of the frontend says of a path, and the replies. \<open>FileReply\<close> is what the
  file server of the library makes of the request.
\<close>

datatype file_info = NoFile | Directory | RegularFile

datatype reply =
    FileReply string
  | IndexReply headers string
  | NoIndexReply headers
  | TextReply int headers string
  | StatusReply int headers RootStatusResponse
  | JSONErrorReply int headers string

record spaHandler =
  spa_stat :: "string \<Rightarrow> file_info"
  spa_index :: "string option"
  spa_indexFile :: string

definition serveIndex :: "spaHandler \<Rightarrow> headers \<Rightarrow> reply" where
  "serveIndex h hs =
     (case spa_index h of
        None \<Rightarrow> NoIndexReply hs
      | Some content \<Rightarrow> IndexReply (hs @ [(''Content-Type'', ''text/html; charset=utf-8'')]) content)"

definition spa_path :: "spaHandler \<Rightarrow> string \<Rightarrow> string" where
  "spa_path h path =
     (let cleanPath = path_Clean path in if cleanPath = ''/'' then spa_indexFile h else tl cleanPath)"

definition spa_ServeHTTP :: "spaHandler \<Rightarrow> string \<Rightarrow> reply" where
  "spa_ServeHTTP h path =
     (case spa_stat h (spa_path h path) of
        NoFile \<Rightarrow> serveIndex h []
      | Directory \<Rightarrow> serveIndex h []
      | RegularFile \<Rightarrow> FileReply path)"

definition writeRootError :: "rootCLIFormat \<Rightarrow> int \<Rightarrow> string \<Rightarrow> reply" where
  "writeRootError format statusCode message =
     (case format of
        FormatText \<Rightarrow> TextReply statusCode text_headers (''Error: '' @ message @ newline)
      | FormatJSON \<Rightarrow> JSONErrorReply statusCode json_headers message)"

record root_request =
  rq_path :: string
  rq_method :: string
  rq_userAgent :: string
  rq_format :: string
  rq_accept :: string

definition root_reply :: "rootCLIFormat \<Rightarrow> RootStatusResponse option \<Rightarrow> reply" where
  "root_reply format response =
     (case response of
        None \<Rightarrow> writeRootError format 500 ''failed to build root status response''
      | Some r \<Rightarrow>
          (case format of
             FormatText \<Rightarrow> TextReply 200 text_headers (renderRootStatusText r)
           | FormatJSON \<Rightarrow> StatusReply 200 json_headers r))"

definition RootHandler ::
    "environment \<Rightarrow> Server \<Rightarrow> ('c, 'd) cache_calls \<Rightarrow> bool \<Rightarrow> spaHandler \<Rightarrow> Monitor list \<Rightarrow> root_request \<Rightarrow>
       ('c, 'd) caches \<Rightarrow> nat \<Rightarrow> reply \<times> ('c, 'd) caches \<times> nat" where
  "RootHandler env srv calls limited spa schedule r caches n =
     (if rq_path r \<noteq> ''/'' then (spa_ServeHTTP spa (rq_path r), caches, n)
      else if rq_method r \<noteq> ''GET'' \<and> rq_method r \<noteq> ''HEAD'' then (spa_ServeHTTP spa (rq_path r), caches, n)
      else if classifyRootRequest (rq_userAgent r) = AudienceBrowser
        then (serveIndex spa root_vary_headers, caches, n)
      else let format = resolveRootCLIFormat (rq_format r) (rq_accept r) in
        if limited \<and> en_fault env n \<noteq> None
        then (writeRootError format 503 ''request cancelled while waiting for database capacity'', caches, n + 1)
        else (case buildRootStatusResponse env srv calls schedule caches (if limited then n + 1 else n) of
                (response, caches, n) \<Rightarrow> (root_reply format response, caches, n)))"

section \<open>Text\<close>

definition whole_rune :: "string \<Rightarrow> bool" where
  "whole_rune r = (r \<noteq> [] \<and> rune_len r = length r)"

lemma runes_Nil [simp]: "runes [] = []"
  by (simp add: runes.simps)

lemma runes_whole: "r \<in> set (runes s) \<Longrightarrow> whole_rune r"
proof (induction s rule: runes.induct)
  case (1 s)
  have rep: "whole_rune replacement"
    by (simp add: whole_rune_def) code_simp
  have taken: "whole_rune (take (rune_len s) s)" if "s \<noteq> []" "rune_len s \<noteq> 0"
    using that rune_len_take [OF that(2)] rune_len_le [of s] by (simp add: whole_rune_def min_def)
  show ?case
    using 1 rep taken by (subst (asm) (3) runes.simps) (auto split: if_splits)
qed

lemma runes_append: "whole_rune r \<Longrightarrow> runes (r @ s) = r # runes s"
  using rune_len_append [of r s] by (subst runes.simps) (simp add: whole_rune_def)

lemma runes_concat: "\<forall>r \<in> set rs. whole_rune r \<Longrightarrow> runes (concat rs @ s) = rs @ runes s"
  by (induction rs) (simp_all add: runes_append)

lemma runes_ascii: "is_ascii s \<Longrightarrow> runes s = map (\<lambda>c. [c]) s"
proof (induction s)
  case (Cons c s)
  then have "whole_rune [c]"
    by (simp add: whole_rune_def is_ascii_def byte_def)
  with Cons runes_append [of "[c]" s] show ?case
    by (simp add: is_ascii_def)
qed simp

lemma runes_truncated:
  "length (runes (truncateRootText v mx)) = (if length (runes v) \<le> mx then length (runes v) else mx)"
proof -
  have take: "\<forall>r \<in> set (take k (runes v)). whole_rune r" for k
    using runes_whole in_set_takeD by fast
  have "runes (concat (take k (runes v))) = take k (runes v)" for k
    using runes_concat [OF take, of k "[]"] by simp
  moreover have "runes (concat (take k (runes v)) @ ''...'') = take k (runes v) @ [''.'', ''.'', ''.'']" for k
    using runes_concat [OF take, of k "''...''"] by (simp add: runes_ascii is_ascii_def)
  ultimately show ?thesis
    by (auto simp: truncateRootText_def min_def)
qed

text \<open>A cell of the table: the padding brings it to its width, whatever it holds.\<close>

lemma runes_pad: "length (runes (pad n s)) = max n (length (runes s))" if "valid_utf8 s" for s
proof -
  have "runes (s @ t) = runes s @ runes t" for t
    using that
  proof (induction s rule: valid_utf8.induct)
    case (1 s)
    show ?case
    proof (cases "s = []")
      case False
      with 1(2) have r: "rune_len s \<noteq> 0" "valid_utf8 (drop (rune_len s) s)"
        by (simp_all add: valid_utf8.simps [of s] split: if_splits)
      have w: "whole_rune (take (rune_len s) s)"
        using False r(1) rune_len_take [OF r(1)] rune_len_le [of s] by (simp add: whole_rune_def min_def)
      have "runes (s @ t) = runes (take (rune_len s) s @ drop (rune_len s) s @ t)"
        by (simp only: append_assoc [symmetric] append_take_drop_id)
      also have "\<dots> = take (rune_len s) s # runes (drop (rune_len s) s @ t)"
        by (rule runes_append [OF w])
      also have "\<dots> = (take (rune_len s) s # runes (drop (rune_len s) s)) @ runes t"
        using 1(1) [OF False r] by simp
      also have "take (rune_len s) s # runes (drop (rune_len s) s) = runes s"
        using False r(1) by (simp add: runes.simps [of s])
      finally show ?thesis .
    qed simp
  qed
  moreover have "runes (replicate k CHR '' '') = replicate k '' ''" for k
    by (subst runes_ascii) (simp_all add: is_ascii_def list_all_iff)
  ultimately show ?thesis
    by (simp add: pad_def max_def)
qed

section \<open>Paths\<close>

lemma split_slash_no_slash: "CHR ''/'' \<notin> set part \<Longrightarrow> x \<in> set (split_slash part s) \<Longrightarrow> CHR ''/'' \<notin> set x"
  by (induction part s rule: split_slash.induct) (auto split: if_splits)

lemma split_slash_append:
  "CHR ''/'' \<notin> set x \<Longrightarrow> split_slash part (x @ CHR ''/'' # s) = (part @ x) # split_slash [] s"
  by (induction x arbitrary: part) auto

lemma split_slash_single: "CHR ''/'' \<notin> set x \<Longrightarrow> split_slash part x = [part @ x]"
  by (induction x arbitrary: part) auto

lemma split_join:
  "es \<noteq> [] \<Longrightarrow> \<forall>e \<in> set es. CHR ''/'' \<notin> set e \<Longrightarrow> split_slash [] (join es ''/'') = es"
  by (induction es rule: induct_list012) (simp_all add: split_slash_single split_slash_append)

definition plain_element :: "string \<Rightarrow> bool" where
  "plain_element e = (e \<noteq> [] \<and> e \<noteq> ''.'' \<and> e \<noteq> ''..'' \<and> CHR ''/'' \<notin> set e)"

lemma clean_fold_plain:
  "\<forall>e \<in> set es. CHR ''/'' \<notin> set e \<Longrightarrow> \<forall>e \<in> set acc. plain_element e \<Longrightarrow>
     \<forall>e \<in> set (foldl (clean_element True) acc es). plain_element e"
proof (induction es arbitrary: acc)
  case (Cons e es)
  have "\<forall>x \<in> set (clean_element True acc e). plain_element x"
    using Cons.prems by (auto simp: clean_element_def plain_element_def dest: in_set_butlastD)
  with Cons show ?case by simp
qed simp

lemma clean_elements_plain:
  assumes "path \<noteq> []" and "hd path = CHR ''/''"
  shows "\<forall>e \<in> set (clean_elements path). plain_element e"
  unfolding clean_elements_def using assms
  by (simp, intro clean_fold_plain) (auto dest: split_slash_no_slash [rotated])

lemma clean_fold_id: "\<forall>e \<in> set es. plain_element e \<Longrightarrow> foldl (clean_element r) acc es = acc @ es"
  by (induction es arbitrary: acc) (auto simp: clean_element_def plain_element_def)

text \<open>
  A request for a file cannot leave the frontend's directory: of a path that starts with a slash, the
  cleaned path has neither empty elements nor dots, so what the file system is asked for is the
  index file or a path whose elements are plain names; and cleaning it again changes nothing.
\<close>

theorem static_paths_stay_inside:
  assumes "path \<noteq> []" and "hd path = CHR ''/''"
  shows "(spa_path h path = spa_indexFile h \<or> list_all plain_element (split_slash [] (spa_path h path))) \<and>
    path_Clean (path_Clean path) = path_Clean path"
proof -
  note plain = clean_elements_plain [OF assms]
  have c: "path_Clean path = CHR ''/'' # join (clean_elements path) ''/''"
    using assms by (simp add: path_Clean_def)
  have split: "split_slash [] (join (clean_elements path) ''/'') = clean_elements path" if "clean_elements path \<noteq> []"
    using that plain by (intro split_join) (auto simp: plain_element_def)
  have inside: "spa_path h path = spa_indexFile h \<or> list_all plain_element (split_slash [] (spa_path h path))"
    using plain split by (cases "clean_elements path = []") (auto simp: spa_path_def c Let_def list_all_iff)
  have "clean_elements (path_Clean path) = clean_elements path"
  proof (cases "clean_elements path = []")
    case True
    moreover have "clean_elements ''/'' = []"
      by code_simp
    ultimately show ?thesis
      by (simp add: c)
  next
    case False
    then show ?thesis
      using clean_fold_id [OF plain, of True "[]"] split
      by (simp add: c clean_elements_def [of "CHR ''/'' # join (clean_elements path) ''/''"] clean_element_def)
  qed
  then have "path_Clean (path_Clean path) = path_Clean path"
    using c by (simp add: path_Clean_def)
  with inside show ?thesis ..
qed

theorem static_paths_stay_inside_witness:
  "spa_path \<lparr>spa_stat = (\<lambda>_. RegularFile), spa_index = None, spa_indexFile = ''index.html''\<rparr> ''/a/../../b'' = ''b'' \<and>
   path_Clean (path_Clean ''/a/../../b'') = path_Clean ''/a/../../b''"
proof -
  have "spa_path \<lparr>spa_stat = (\<lambda>_. RegularFile), spa_index = None, spa_indexFile = ''index.html''\<rparr> ''/a/../../b'' = ''b''"
    by code_simp
  then show ?thesis
    using static_paths_stay_inside [of "''/a/../../b''"] by simp
qed

lemma valid_utf8_append: "whole_rune r \<Longrightarrow> valid_utf8 (r @ s) = valid_utf8 s"
  using rune_len_append [of r s] by (subst valid_utf8.simps) (simp add: whole_rune_def)

lemma valid_utf8_concat: "\<forall>r \<in> set rs. whole_rune r \<Longrightarrow> valid_utf8 (concat rs @ s) = valid_utf8 s"
  by (induction rs) (simp_all add: valid_utf8_append)

lemma valid_utf8_truncated: "valid_utf8 v \<Longrightarrow> valid_utf8 (truncateRootText v mx)"
proof -
  have take: "\<forall>r \<in> set (take k (runes v)). whole_rune r" for k
    using runes_whole in_set_takeD by fast
  have "valid_utf8 []" "valid_utf8 ''...''"
    by (simp_all add: valid_utf8_ascii is_ascii_def)
  then show "valid_utf8 v \<Longrightarrow> valid_utf8 (truncateRootText v mx)"
    using valid_utf8_concat [OF take, of _ "[]"] valid_utf8_concat [OF take, of _ "''...''"]
    by (simp add: truncateRootText_def)
qed

text \<open>
  The columns of the text line up: whatever name a service has, cut to the width of its column and
  padded it takes exactly as many characters as the column is wide, and no character of it is cut
  in half.
\<close>

theorem columns_line_up:
  assumes "valid_utf8 v"
  shows "length (runes (pad mx (truncateRootText v mx))) = mx \<and> valid_utf8 (truncateRootText v mx)"
  using runes_pad [OF valid_utf8_truncated [OF assms, of mx], of mx] valid_utf8_truncated [OF assms, of mx]
  by (simp add: runes_truncated)

theorem columns_line_up_witness:
  "length (runes (pad 5 (truncateRootText [CHR 0xC3, CHR 0xA9, CHR ''t'', CHR 0xC3, CHR 0xA9, CHR ''s'', CHR ''x'', CHR ''y''] 5))) = 5"
proof -
  have "valid_utf8 [CHR 0xC3, CHR 0xA9, CHR ''t'', CHR 0xC3, CHR 0xA9, CHR ''s'', CHR ''x'', CHR ''y'']"
    by code_simp
  then show ?thesis using columns_line_up by blast
qed

section \<open>The incidents page\<close>

text \<open>What the loop puts on the page: one entry for each configured monitor among the recent ones.\<close>

definition reports :: "environment \<Rightarrow> Server \<Rightarrow> MonitorIncidentSummary \<Rightarrow> bool" where
  "reports env srv s =
     (\<exists>monitor m k. findMonitor (srv_monitorConfig srv) (mis_MonitorID s) = Some monitor \<and>
        s = incident_summary (metadata_of (srv_monitorConfig srv) (mis_MonitorID s)) monitor
              (state_of (mis_MonitorID s) (en_db env m)) (active_incident (mis_MonitorID s) (en_db env k)))"

lemma mis_MonitorID_summary [simp]: "mis_MonitorID (incident_summary md monitor st i) = md_ID md"
  by (simp add: incident_summary_def Let_def split: option.split)

lemma md_ID_metadata [simp]: "md_ID (metadata_of c i) = i"
  by (simp add: metadata_of_def split: option.split)

lemma fetchIncidentState_Inr: "fetchIncidentState env i n = (Inr st, n') \<Longrightarrow> st = state_of i (en_db env (n + 1))"
  by (auto simp: fetchIncidentState_def result_simps)

lemma fetchActiveIncident_Inr: "fetchActiveIncident env i n = (Inr x, n') \<Longrightarrow> x = active_incident i (en_db env (n + 1))"
  by (auto simp: fetchActiveIncident_def result_simps)

lemma incidents_loop_Inr:
  "incidents_loop env srv (map (metadata_of (srv_monitorConfig srv)) is) n = (Inr incidents, n') \<Longrightarrow>
     map mis_MonitorID incidents = filter (\<lambda>i. findMonitor (srv_monitorConfig srv) i \<noteq> None) is \<and>
     list_all (reports env srv) incidents"
proof (induction "is" arbitrary: n n' incidents)
  case (Cons i "is")
  show ?case
  proof (cases "findMonitor (srv_monitorConfig srv) i")
    case None
    with Cons show ?thesis by simp
  next
    case (Some monitor)
    obtain st n1 where s: "fetchIncidentState env i n = (st, n1)" by fastforce
    obtain ai n2 where a: "fetchActiveIncident env i n1 = (ai, n2)" by fastforce
    obtain r n3 where l: "incidents_loop env srv (map (metadata_of (srv_monitorConfig srv)) is) n2 = (r, n3)" by fastforce
    obtain st' ai' rest where r: "st = Inr st'" "ai = Inr ai'" "r = Inr rest"
        "incidents = incident_summary (metadata_of (srv_monitorConfig srv) i) monitor st' ai' # rest"
      using Cons.prems s a l Some by (auto split: sum.splits)
    have "st' = state_of i (en_db env (n + 1))" "ai' = active_incident i (en_db env (n1 + 1))"
      using s a r(1,2) by (auto dest: fetchIncidentState_Inr fetchActiveIncident_Inr)
    then have "reports env srv (incident_summary (metadata_of (srv_monitorConfig srv) i) monitor st' ai')"
      using Some unfolding reports_def by auto
    then show ?thesis
      using Cons.IH l r(3,4) Some by auto
  qed
qed simp

lemma fetchValidMonitorIds_Inr:
  assumes "fetchValidMonitorIds env srv n = (Inr ms, n')"
  shows "\<exists>j. ms = map (metadata_of (srv_monitorConfig srv))
      (take j (recent_monitors (add_days (en_clock env (n + 1)) (- 1)) (en_db env (n + 2)))) \<and>
    (en_fault env (n + 4) = None \<longrightarrow> j = length (recent_monitors (add_days (en_clock env (n + 1)) (- 1)) (en_db env (n + 2))))"
proof (cases "en_fault env (n + 4)")
  case None
  with assms have "ms = map (metadata_of (srv_monitorConfig srv))
      (recent_monitors (add_days (en_clock env (n + 1)) (- 1)) (en_db env (n + 2)))"
    by (auto simp: fetchValidMonitorIds_def result_simps Let_def)
  then show ?thesis by (intro exI conjI impI) simp_all
qed (use assms in \<open>auto simp: fetchValidMonitorIds_def result_simps Let_def\<close>)

text \<open>
  The page of incidents: sorted, each monitor once, and the entry of a monitor tells its state and its
  unresolved incident as the tables held them.
\<close>

lemma incidents_page:
  assumes "buildMonitorIncidentsResponse env srv n = (Inr page, n')"
  shows "\<exists>j. mset (map mis_MonitorID (mi_Incidents page)) = mset (filter (\<lambda>i. findMonitor (srv_monitorConfig srv) i \<noteq> None)
        (take j (recent_monitors (add_days (en_clock env (n + 1)) (- 1)) (en_db env (n + 2))))) \<and>
      (en_fault env (n + 4) = None \<longrightarrow> j = length (recent_monitors (add_days (en_clock env (n + 1)) (- 1)) (en_db env (n + 2))))"
    and "list_all (reports env srv) (mi_Incidents page)"
    and "sorted (map mis_MonitorID (mi_Incidents page))" and "distinct (map mis_MonitorID (mi_Incidents page))"
proof -
  let ?recent = "recent_monitors (add_days (en_clock env (n + 1)) (- 1)) (en_db env (n + 2))"
  obtain ms n1 where f: "fetchValidMonitorIds env srv n = (ms, n1)" by fastforce
  obtain ms' where ms: "ms = Inr ms'"
    using assms f by (cases ms) (auto simp: buildMonitorIncidentsResponse_def)
  obtain r n2 where l: "incidents_loop env srv ms' n1 = (r, n2)" by fastforce
  obtain incidents where i: "r = Inr incidents" "mi_Incidents page = sort_key mis_MonitorID incidents"
    using assms f l ms by (cases r) (auto simp: buildMonitorIncidentsResponse_def)
  from fetchValidMonitorIds_Inr f ms obtain j where
    j: "ms' = map (metadata_of (srv_monitorConfig srv)) (take j ?recent)" "en_fault env (n + 4) = None \<longrightarrow> j = length ?recent"
    by blast
  have loop: "map mis_MonitorID incidents = filter (\<lambda>i. findMonitor (srv_monitorConfig srv) i \<noteq> None) (take j ?recent)"
      "list_all (reports env srv) incidents"
    using incidents_loop_Inr [of env srv "take j ?recent" n1 incidents n2] l i(1) j(1) by simp_all
  have p: "map mis_MonitorID (mi_Incidents page) = sort (map mis_MonitorID incidents)"
    by (simp add: i(2) map_sort_key)
  then show "\<exists>j. mset (map mis_MonitorID (mi_Incidents page)) = mset (filter (\<lambda>i. findMonitor (srv_monitorConfig srv) i \<noteq> None) (take j ?recent)) \<and>
      (en_fault env (n + 4) = None \<longrightarrow> j = length ?recent)"
    using loop(1) j(2) by (intro exI [of _ j]) simp
  show "list_all (reports env srv) (mi_Incidents page)"
    using loop(2) i(2) by (simp add: list_all_iff)
  show "sorted (map mis_MonitorID (mi_Incidents page))"
    by (simp add: p)
  have "distinct (take j ?recent)"
    by (simp add: recent_monitors_def distinct_take)
  then show "distinct (map mis_MonitorID (mi_Incidents page))"
    unfolding p distinct_sort loop(1) by simp
qed

text \<open>
  C14: The page of incidents is exact: when every call succeeds and the tables do not change meanwhile, it
  lists, in alphabetical order and each once, the configured monitors that have a row since
  yesterday, and of each the stored state (healthy when there is none) and the unresolved
  incident with the latest start; the body of the incident, when it has one, stands for the
  reason of the state.
\<close>

theorem incidents_page_is_exact:
  assumes "buildMonitorIncidentsResponse env srv n = (Inr page, n')"
    and "\<And>m. en_fault env m = None" and "\<And>m. en_db env m = db"
  shows "map mis_MonitorID (mi_Incidents page) =
      sort (filter (\<lambda>i. findMonitor (srv_monitorConfig srv) i \<noteq> None)
        (recent_monitors (add_days (en_clock env (n + 1)) (- 1)) db)) \<and>
    list_all (\<lambda>s. let i = mis_MonitorID s; st = state_of i db in
        mis_Status s = state_Status st \<and> mis_Scope s = state_Scope st \<and>
        mis_AffectedRegions s = ParseRegionsJSON (state_AffectedRegions st) \<and>
        (case active_incident i db of
           None \<Rightarrow> mis_IncidentID s = [] \<and> mis_Reason s = state_Reason st
         | Some x \<Rightarrow> mis_IncidentID s = inc_ID x \<and> mis_IncidentLifecycleState s = inc_LifecycleState x \<and>
             mis_IncidentTitle s = inc_Title x \<and>
             mis_Reason s = (if inc_Body x = [] then state_Reason st else inc_Body x))) (mi_Incidents page)"
proof -
  note p = incidents_page [OF assms(1)]
  let ?ids = "filter (\<lambda>i. findMonitor (srv_monitorConfig srv) i \<noteq> None)
      (recent_monitors (add_days (en_clock env (n + 1)) (- 1)) db)"
  have "mset (map mis_MonitorID (mi_Incidents page)) = mset ?ids"
    using p(1) assms(2,3) by auto
  then have "map mis_MonitorID (mi_Incidents page) = sort ?ids"
    using p(3) by (metis properties_for_sort)
  moreover have "mis_Status s = state_Status (state_of (mis_MonitorID s) db) \<and>
      mis_Scope s = state_Scope (state_of (mis_MonitorID s) db) \<and>
      mis_AffectedRegions s = ParseRegionsJSON (state_AffectedRegions (state_of (mis_MonitorID s) db)) \<and>
      (case active_incident (mis_MonitorID s) db of
         None \<Rightarrow> mis_IncidentID s = [] \<and> mis_Reason s = state_Reason (state_of (mis_MonitorID s) db)
       | Some x \<Rightarrow> mis_IncidentID s = inc_ID x \<and> mis_IncidentLifecycleState s = inc_LifecycleState x \<and>
           mis_IncidentTitle s = inc_Title x \<and>
           mis_Reason s = (if inc_Body x = [] then state_Reason (state_of (mis_MonitorID s) db) else inc_Body x))"
    if "s \<in> set (mi_Incidents page)" for s
  proof -
    have "reports env srv s" using p(2) that by (simp add: list_all_iff)
    then obtain monitor where s: "s = incident_summary (metadata_of (srv_monitorConfig srv) (mis_MonitorID s)) monitor
        (state_of (mis_MonitorID s) db) (active_incident (mis_MonitorID s) db)"
      unfolding reports_def assms(3) by blast
    define i where "i = mis_MonitorID s"
    show ?thesis
      using s unfolding i_def [symmetric]
      by (cases "active_incident i db") (auto simp: incident_summary_def Let_def)
  qed
  ultimately show ?thesis
    by (simp add: list_all_iff Let_def)
qed

definition ex_down_state :: MonitorIncidentState where
  "ex_down_state = \<lparr>state_MonitorID = ''web'', state_Status = MonitorStatusDown, state_Scope = MonitorScopeLocal,
     state_AffectedRegions = ''[]'', state_Reason = ''timeout'', state_FailureReasonsJson = None,
     state_LastTransitionAt = 0, state_UpdatedAt = 0\<rparr>"

definition ex_incident_db :: "gotime \<Rightarrow> database" where
  "ex_incident_db t = empty_db\<lparr>tbl_historical := [ex_row ''eu'' t False], tbl_state := [ex_down_state]\<rparr>"

definition ex_incident_env :: "gotime \<Rightarrow> environment" where
  "ex_incident_env t = ex_env\<lparr>en_db := (\<lambda>n. ex_incident_db t)\<rparr>"

theorem incidents_page_is_exact_witness:
  "\<exists>page n'. buildMonitorIncidentsResponse (ex_incident_env (20000 * day)) ex_server 0 = (Inr page, n') \<and>
     map mis_MonitorID (mi_Incidents page) = [''web''] \<and> mis_Status (hd (mi_Incidents page)) = MonitorStatusDown"
proof -
  let ?env = "ex_incident_env (20000 * day)"
  obtain r n' where b: "buildMonitorIncidentsResponse ?env ex_server 0 = (r, n')" by fastforce
  have "is_ok (case fst (buildMonitorIncidentsResponse ?env ex_server 0) of Inl e \<Rightarrow> Inl [] | Inr p \<Rightarrow> Inr ())"
    by code_simp
  then obtain page where r: "r = Inr page"
    using b by (cases r) simp_all
  have "\<And>m. en_fault ?env m = None" "\<And>m. en_db ?env m = ex_incident_db (20000 * day)" "en_clock ?env 1 = 20000 * day"
    by (simp_all add: ex_incident_env_def ex_env_def)
  moreover from this have "mis_MonitorID (hd (mi_Incidents page)) = ''web''"
      "map mis_MonitorID (mi_Incidents page) = [''web'']"
  proof -
    have "sort (filter (\<lambda>i. findMonitor (srv_monitorConfig ex_server) i \<noteq> None)
        (recent_monitors (add_days (20000 * day) (- 1)) (ex_incident_db (20000 * day)))) = [''web'']"
      by code_simp
    then show e: "map mis_MonitorID (mi_Incidents page) = [''web'']"
      using incidents_page_is_exact [OF b [unfolded r], of "ex_incident_db (20000 * day)"]
      by (simp add: ex_incident_env_def ex_env_def)
    then show "mis_MonitorID (hd (mi_Incidents page)) = ''web''"
      by (cases "mi_Incidents page") simp_all
  qed
  moreover have "state_Status (state_of ''web'' (ex_incident_db (20000 * day))) = MonitorStatusDown"
    by (simp add: state_of_def ex_incident_db_def ex_down_state_def)
  ultimately have "map mis_MonitorID (mi_Incidents page) = [''web'']" "mis_Status (hd (mi_Incidents page)) = MonitorStatusDown"
    using incidents_page_is_exact [OF b [unfolded r], of "ex_incident_db (20000 * day)"]
    by (cases "mi_Incidents page"; simp add: Let_def)+
  with b r show ?thesis by auto
qed

section \<open>The status of all services\<close>

lemma count_services:
  "foldl count_service s services =
     s\<lparr>rss_Services := rss_Services s + int (length services),
       rss_Down := rss_Down s + int (length (filter (\<lambda>x. svc_Status x = MonitorStatusDown) services)),
       rss_Degraded := rss_Degraded s + int (length (filter (\<lambda>x. svc_Status x = MonitorStatusDegraded) services)),
       rss_Healthy := rss_Healthy s + int (length (filter (\<lambda>x. svc_Status x \<notin> {MonitorStatusDown, MonitorStatusDegraded}) services))\<rparr>"
proof (induction services arbitrary: s)
  case (Cons x services)
  have "MonitorStatusDown \<noteq> MonitorStatusDegraded" by (simp add: statuses)
  with Cons show ?case by (simp add: count_service_def Let_def)
qed simp

lemma uptime_response:
  "\<exists>uptime caches' n' m. buildUptimeDataResponse env srv calls schedule caches n = (Inr uptime, caches', n') \<and>
     ur_Monitors uptime = page_entries (srv_monitorConfig srv) m"
proof -
  obtain m c k where "foldl (fetch_monitor env srv calls) ([], caches, n) schedule = (m, c, k)"
    by (metis prod_cases3)
  then show ?thesis
    unfolding buildUptimeDataResponse_def by (intro exI conjI) (auto intro: refl)
qed

lemma root_response_parts:
  assumes "buildRootStatusResponse env srv calls schedule caches n = (Some r, caches', n')"
  shows "\<exists>incidents k k' m. buildMonitorIncidentsResponse env srv k = (Inr incidents, k') \<and>
      rsr_Services r = root_services (mi_Incidents incidents) (page_entries (srv_monitorConfig srv) m) \<and>
      rsr_Summary r = root_summary (rsr_Services r)"
proof -
  obtain uptime c1 n1 m where u: "buildUptimeDataResponse env srv calls schedule caches n = (Inr uptime, c1, n1)"
      "ur_Monitors uptime = page_entries (srv_monitorConfig srv) m"
    using uptime_response by blast
  obtain x n2 where i: "buildMonitorIncidentsResponse env srv n1 = (x, n2)" by fastforce
  obtain y n3 where e: "loadRecentIncidentEvents env srv rootRecentEventLimit n2 = (y, n3)" by fastforce
  obtain incidents where "x = Inr incidents"
    using assms u i by (cases x) (auto simp: buildRootStatusResponse_def)
  moreover obtain evs where "y = Inr evs"
    using assms u i e \<open>x = Inr incidents\<close> by (cases y) (auto simp: buildRootStatusResponse_def)
  ultimately have "rsr_Services r = root_services (mi_Incidents incidents) (page_entries (srv_monitorConfig srv) m)"
      "rsr_Summary r = root_summary (rsr_Services r)"
    using assms u i e by (auto simp: buildRootStatusResponse_def Let_def)
  with i \<open>x = Inr incidents\<close> show ?thesis by blast
qed

text \<open>When every call succeeds, there is a status.\<close>

lemma incidents_loop_succeeds:
  "(\<And>m. en_fault env m = None) \<Longrightarrow> \<exists>incidents n'. incidents_loop env srv ms n = (Inr incidents, n')"
proof (induction ms arbitrary: n)
  case (Cons md ms)
  have "fetchIncidentState env i k = (Inr (state_of i (en_db env (k + 1))), k + 2)"
    "fetchActiveIncident env i k = (Inr (active_incident i (en_db env (k + 1))), k + 2)" for i k
    using Cons.prems by (simp_all add: fetchIncidentState_def fetchActiveIncident_def attempt_def)
  moreover obtain r n3 where "incidents_loop env srv ms (n + 4) = (Inr r, n3)"
    using Cons by blast
  moreover obtain r n3 where "incidents_loop env srv ms n = (Inr r, n3)"
    using Cons by blast
  ultimately show ?case
    by (cases "findMonitor (srv_monitorConfig srv) (md_ID md)") (simp_all add: numeral_eq_Suc)
qed simp

lemma incidents_page_succeeds:
  assumes "\<And>m. en_fault env m = None"
  shows "\<exists>page n'. buildMonitorIncidentsResponse env srv n = (Inr page, n')"
proof -
  obtain ms n2 where v: "fetchValidMonitorIds env srv n = (Inr ms, n2)"
    by (simp add: fetchValidMonitorIds_def attempt_def Let_def assms cong: if_cong)
  obtain incidents n3 where "incidents_loop env srv ms n2 = (Inr incidents, n3)"
    using incidents_loop_succeeds assms by blast
  with v show ?thesis
    by (simp add: buildMonitorIncidentsResponse_def)
qed

lemma root_status_succeeds:
  assumes "\<And>m. en_fault env m = None"
  shows "\<exists>r caches' n'. buildRootStatusResponse env srv calls schedule caches n = (Some r, caches', n')"
proof -
  obtain uptime c1 n1 where u: "buildUptimeDataResponse env srv calls schedule caches n = (Inr uptime, c1, n1)"
    using uptime_response by blast
  obtain page n3 where v: "buildMonitorIncidentsResponse env srv n1 = (Inr page, n3)"
    using incidents_page_succeeds assms by blast
  have "\<exists>evs n'. loadRecentIncidentEvents env srv rootRecentEventLimit k = (Inr evs, n')" for k
    using assms by (simp add: loadRecentIncidentEvents_def query_rows_def attempt_def)
  then obtain evs n4 where e: "loadRecentIncidentEvents env srv rootRecentEventLimit n3 = (Inr evs, n4)" by blast
  show ?thesis
    using u v e by (simp add: buildRootStatusResponse_def Let_def)
qed

lemma incidents_lookup_fold:
  "map_of (foldl (\<lambda>m incident. AList.update (mis_MonitorID incident) incident m) m0 incidents) i = Some s \<Longrightarrow>
     map_of m0 i = Some s \<or> s \<in> set incidents \<and> mis_MonitorID s = i"
  by (induction incidents arbitrary: m0) (fastforce simp: update_conv' split: if_splits)+

lemma incidents_lookup:
  "map_of (incidentByMonitorID incidents) i = Some s \<Longrightarrow> s \<in> set incidents \<and> mis_MonitorID s = i"
  using incidents_lookup_fold [of "[]" incidents i s] by (simp add: incidentByMonitorID_def)

lemma incidents_lookup_None:
  "map_of (incidentByMonitorID incidents) i = None \<longleftrightarrow> i \<notin> mis_MonitorID ` set incidents"
proof -
  have "dom (map_of (foldl (\<lambda>m x. AList.update (mis_MonitorID x) x m) m0 incidents)) =
      dom (map_of m0) \<union> mis_MonitorID ` set incidents" for m0 :: "(string, MonitorIncidentSummary) gomap"
    by (induction incidents arbitrary: m0) (auto simp: update_conv')
  from this [of "[]"] show ?thesis
    by (auto simp: incidentByMonitorID_def domIff)
qed

text \<open>
  The totals of the status agree with its services: they count every service once, as down,
  degraded or healthy by its status, and the incidents are the services that are not healthy.
\<close>

theorem root_totals_agree:
  assumes "buildRootStatusResponse env srv calls schedule caches n = (Some r, caches', n')"
  shows "rss_Services (rsr_Summary r) = int (length (rsr_Services r)) \<and>
    rss_Down (rsr_Summary r) = int (length (filter (\<lambda>x. svc_Status x = MonitorStatusDown) (rsr_Services r))) \<and>
    rss_Degraded (rsr_Summary r) = int (length (filter (\<lambda>x. svc_Status x = MonitorStatusDegraded) (rsr_Services r))) \<and>
    rss_Healthy (rsr_Summary r) + rss_Incidents (rsr_Summary r) = rss_Services (rsr_Summary r) \<and>
    rss_Incidents (rsr_Summary r) = rss_Down (rsr_Summary r) + rss_Degraded (rsr_Summary r)"
proof -
  have split: "length (filter (\<lambda>x. svc_Status x = MonitorStatusDown) xs) +
      length (filter (\<lambda>x. svc_Status x = MonitorStatusDegraded) xs) +
      length (filter (\<lambda>x. svc_Status x \<notin> {MonitorStatusDown, MonitorStatusDegraded}) xs) = length xs" for xs
    by (induction xs) (auto simp: statuses)
  have "rsr_Summary r = root_summary (rsr_Services r)"
    using root_response_parts [OF assms] by blast
  then show ?thesis
    using arg_cong [OF split [of "rsr_Services r"], of int]
    by (simp add: root_summary_def count_services Let_def)
qed

text \<open>
  A monitor that has fallen silent looks healthy: when no row of it is younger than a day, as when
  its checkers have stopped, the status shows it as healthy and without a reason, whatever its
  stored state and its open incident say.
\<close>

theorem silent_monitor_is_shown_healthy:
  assumes "buildRootStatusResponse env srv calls schedule caches n = (Some r, caches', n')"
    and "\<And>m row. row \<in> set (tbl_historical (en_db env m)) \<Longrightarrow> hist_MonitorID row = i \<Longrightarrow> hist_CreatedAt row < t"
    and "\<And>m. t \<le> timestamptz (add_days (en_clock env m) (- 1))"
    and "s \<in> set (rsr_Services r)" and "svc_ID s = i"
  shows "svc_Status s = MonitorStatusHealthy \<and> svc_Reason s = [] \<and> svc_AffectedRegions s = []"
proof -
  obtain incidents k k' m where p: "buildMonitorIncidentsResponse env srv k = (Inr incidents, k')"
      "rsr_Services r = root_services (mi_Incidents incidents) (page_entries (srv_monitorConfig srv) m)"
    using root_response_parts [OF assms(1)] by blast
  let ?recent = "recent_monitors (add_days (en_clock env (k + 1)) (- 1)) (en_db env (k + 2))"
  have "i \<notin> set ?recent"
  proof
    assume "i \<in> set ?recent"
    then obtain row where "row \<in> set (tbl_historical (en_db env (k + 2)))" "hist_MonitorID row = i"
        "timestamptz (add_days (en_clock env (k + 1)) (- 1)) \<le> hist_CreatedAt row"
      by (auto simp: recent_monitors_def)
    with assms(2) assms(3) [of "k + 1"] show False by fastforce
  qed
  moreover obtain j where "mset (map mis_MonitorID (mi_Incidents incidents)) =
      mset (filter (\<lambda>i. findMonitor (srv_monitorConfig srv) i \<noteq> None) (take j ?recent))"
    using incidents_page(1) [OF p(1)] by blast
  then have "set (map mis_MonitorID (mi_Incidents incidents)) \<subseteq> set ?recent"
    by (metis filter_is_subset mset_eq_setD set_take_subset subset_trans)
  ultimately have none: "map_of (incidentByMonitorID (mi_Incidents incidents)) i = None"
    by (auto simp: incidents_lookup_None)
  obtain g m where "s = root_service (incidentByMonitorID (mi_Incidents incidents)) g m"
    using assms(4) p(2) by (auto simp: root_services_def)
  with none assms(5) show ?thesis
    by (simp add: root_service_def Let_def no_incident_def)
qed

text \<open>The stored state of the monitor is down, its last row two days old.\<close>

definition ex_root :: "RootStatusResponse option" where
  "ex_root = fst (buildRootStatusResponse (ex_incident_env (19998 * day)) ex_server (memory_calls (\<lambda>n. 20000 * day))
     (mc_Monitors (srv_monitorConfig ex_server)) new_caches 0)"

lemma no_fault: "en_fault (ex_incident_env t) m = None"
  by (simp add: ex_incident_env_def ex_env_def)

lemma ex_root_run:
  obtains r caches n where "ex_root = Some r" "map svc_ID (rsr_Services r) = [''web'']"
    "buildRootStatusResponse (ex_incident_env (19998 * day)) ex_server (memory_calls (\<lambda>n. 20000 * day))
       (mc_Monitors (srv_monitorConfig ex_server)) new_caches 0 = (Some r, caches, n)"
proof -
  obtain r c n where e: "buildRootStatusResponse (ex_incident_env (19998 * day)) ex_server (memory_calls (\<lambda>n. 20000 * day))
      (mc_Monitors (srv_monitorConfig ex_server)) new_caches 0 = (Some r, c, n)"
    using root_status_succeeds [OF no_fault] by blast
  have "map svc_ID (rsr_Services r) = [''web'']"
    using root_response_parts [OF e]
    by (auto simp: root_services_def page_entries_def ex_server_def monitorsInGroups_def single_entry_def
        single_monitor_def root_service_def Let_def)
  moreover have "ex_root = Some r"
    using e by (simp add: ex_root_def)
  ultimately show thesis using e by (intro that)
qed

theorem root_totals_agree_witness:
  "\<exists>r. ex_root = Some r \<and> rss_Services (rsr_Summary r) = 1 \<and>
     rss_Healthy (rsr_Summary r) + rss_Incidents (rsr_Summary r) = 1"
proof (rule ex_root_run)
  fix r caches n
  assume r: "ex_root = Some r" "map svc_ID (rsr_Services r) = [''web'']"
    and e: "buildRootStatusResponse (ex_incident_env (19998 * day)) ex_server (memory_calls (\<lambda>n. 20000 * day))
       (mc_Monitors (srv_monitorConfig ex_server)) new_caches 0 = (Some r, caches, n)"
  from r(2) have "length (rsr_Services r) = 1"
    by (metis length_map list.size(3,4) One_nat_def add.right_neutral add_Suc_right)
  with r(1) root_totals_agree [OF e] show ?thesis by auto
qed

theorem silent_monitor_is_shown_healthy_witness:
  "state_Status (state_of ''web'' (ex_incident_db (19998 * day))) = MonitorStatusDown \<and>
   (\<exists>r s. ex_root = Some r \<and> rsr_Services r = [s] \<and> svc_ID s = ''web'' \<and> svc_Status s = MonitorStatusHealthy)"
proof (rule ex_root_run)
  fix r caches n
  assume r: "ex_root = Some r" "map svc_ID (rsr_Services r) = [''web'']"
    and e: "buildRootStatusResponse (ex_incident_env (19998 * day)) ex_server (memory_calls (\<lambda>n. 20000 * day))
       (mc_Monitors (srv_monitorConfig ex_server)) new_caches 0 = (Some r, caches, n)"
  from r(2) obtain s where s: "rsr_Services r = [s]" "svc_ID s = ''web''" by auto
  have "svc_Status s = MonitorStatusHealthy"
    using silent_monitor_is_shown_healthy [OF e, of "''web''" "19999 * day" s] s
    by (simp add: ex_incident_env_def ex_env_def ex_incident_db_def ex_row_def timestamptz_def add_days_def day_def)
  moreover have "state_Status (state_of ''web'' (ex_incident_db (19998 * day))) = MonitorStatusDown"
    by (simp add: state_of_def ex_incident_db_def ex_down_state_def)
  ultimately show ?thesis using r s by blast
qed

end
