(* ===== verification/Go_Duration.thy ===== *)
theory Go_Duration
  imports Go_Time Go_Float Go_Strings
begin

text \<open>
  \<open>time.ParseDuration\<close>, \<open>Duration.Milliseconds\<close>, \<open>Duration.Seconds\<close> and \<open>Time.Unix\<close> of the standard
  library, with the limits on 64 bits. The error of a text that does not parse is only logged, so
  that parsing gives an option.
\<close>

section \<open>Parsing a duration\<close>

definition digit_value :: "char \<Rightarrow> nat option" where
  "digit_value c = (let b = of_char c :: nat in if 48 \<le> b \<and> b \<le> 57 then Some (b - 48) else None)"

text \<open>\<open>leadingInt\<close>: the number, or \<open>None\<close> on overflow, and the rest.\<close>

fun leading_int :: "nat \<Rightarrow> string \<Rightarrow> (nat \<times> string) option" where
  "leading_int x [] = Some (x, [])"
| "leading_int x (c # s) =
     (case digit_value c of
        None \<Rightarrow> Some (x, c # s)
      | Some d \<Rightarrow>
          if x > 2 ^ 63 div 10 then None
          else if x * 10 + d > 2 ^ 63 then None
          else leading_int (x * 10 + d) s)"

text \<open>\<open>leadingFraction\<close>: the digits and their scale, as many as fit, and the rest.\<close>

fun leading_fraction :: "nat \<Rightarrow> int \<Rightarrow> bool \<Rightarrow> string \<Rightarrow> nat \<times> int \<times> string" where
  "leading_fraction x scale overflow [] = (x, scale, [])"
| "leading_fraction x scale overflow (c # s) =
     (case digit_value c of
        None \<Rightarrow> (x, scale, c # s)
      | Some d \<Rightarrow>
          if overflow \<or> x > (2 ^ 63 - 1) div 10 \<or> x * 10 + d > 2 ^ 63 then leading_fraction x scale True s
          else leading_fraction (x * 10 + d) (scale * 10) False s)"

definition unit_map :: "(string \<times> nat) list" where
  "unit_map =
     [(''ns'', 1), (''us'', 1000), (CHR 0xC2 # CHR 0xB5 # ''s'', 1000), (CHR 0xCE # CHR 0xBC # ''s'', 1000),
      (''ms'', 1000000), (''s'', 1000000000), (''m'', 60000000000), (''h'', 3600000000000)]"

definition unit_char :: "char \<Rightarrow> bool" where
  "unit_char c = (c \<noteq> CHR ''.'' \<and> digit_value c = None)"

text \<open>One round of the loop: a number, a unit, and the rest.\<close>

definition duration_part :: "string \<Rightarrow> (nat \<times> string) option" where
  "duration_part s =
     (if s = [] \<or> unit_char (hd s) then None
      else case leading_int 0 s of
        None \<Rightarrow> None
      | Some (v, s1) \<Rightarrow>
          let pre = (length s1 \<noteq> length s);
              (f, scale, s2) = (if s1 \<noteq> [] \<and> hd s1 = CHR ''.'' then leading_fraction 0 1 False (tl s1) else (0, 1, s1));
              post = (s1 \<noteq> [] \<and> hd s1 = CHR ''.'' \<and> length s2 \<noteq> length (tl s1));
              u = takeWhile unit_char s2
          in if \<not> pre \<and> \<not> post then None
             else if u = [] then None
             else case map_of unit_map u of
               None \<Rightarrow> None
             | Some unit \<Rightarrow>
                 if v > 2 ^ 63 div unit then None
                 else let v = v * unit;
                          v = (if f > 0
                               then v + nat (truncate_f64 (f64_mul (f64_of_int (int f))
                                      (f64_div (f64_of_int (int unit)) (f64_of_int scale))))
                               else v)
                      in if v > 2 ^ 63 then None else Some (v, dropWhile unit_char s2))"

lemma leading_int_length: "leading_int x s = Some (v, s') \<Longrightarrow> length s' \<le> length s"
  by (induction x s arbitrary: v s' rule: leading_int.induct) (fastforce split: option.splits if_splits)+

lemma leading_fraction_length: "leading_fraction x scale b s = (f, scale', s') \<Longrightarrow> length s' \<le> length s"
  by (induction x scale b s arbitrary: f scale' s' rule: leading_fraction.induct)
    (fastforce split: option.splits if_splits)+

lemma takeWhile_dropWhile_shorter: "takeWhile P s \<noteq> [] \<Longrightarrow> length (dropWhile P s) < length s"
  by (cases s) (auto simp: length_dropWhile_le le_imp_less_Suc split: if_splits)

lemma duration_part_shorter:
  assumes "duration_part s = Some (v, r)"
  shows "length r < length s"
proof -
  obtain w s1 where li: "leading_int 0 s = Some (w, s1)"
    using assms by (auto simp: duration_part_def split: if_splits option.splits)
  obtain f scale s2 where lf:
    "(if s1 \<noteq> [] \<and> hd s1 = CHR ''.'' then leading_fraction 0 1 False (tl s1) else (0, 1, s1)) = (f, scale, s2)"
    by (metis prod_cases3)
  have "r = dropWhile unit_char s2" and "takeWhile unit_char s2 \<noteq> []"
    using assms by (simp_all add: duration_part_def li lf Let_def split: if_splits option.splits)
  then have "length r < length s2"
    using takeWhile_dropWhile_shorter [of unit_char s2] by simp
  moreover have "length s2 \<le> length s1"
    using lf leading_fraction_length [of 0 1 False "tl s1" f scale s2] by (auto split: if_splits)
  ultimately show ?thesis
    using leading_int_length [OF li] by simp
qed

function duration_loop :: "nat \<Rightarrow> string \<Rightarrow> nat option" where
  "duration_loop d s =
     (if s = [] then Some d
      else case duration_part s of
        None \<Rightarrow> None
      | Some (v, r) \<Rightarrow> if d + v > 2 ^ 63 then None else duration_loop (d + v) r)"
  by pat_completeness auto
termination
  by (relation "measure (\<lambda>(d, s). length s)") (auto dest: duration_part_shorter)

declare duration_loop.simps [simp del]

definition ParseDuration :: "string \<Rightarrow> duration option" where
  "ParseDuration s =
     (let neg = (s \<noteq> [] \<and> hd s = CHR ''-'');
          s = (if s \<noteq> [] \<and> (hd s = CHR ''-'' \<or> hd s = CHR ''+'') then tl s else s)
      in if s = ''0'' then Some 0
         else if s = [] then None
         else case duration_loop 0 s of
           None \<Rightarrow> None
         | Some d \<Rightarrow> if neg then Some (wrap64 (- int d)) else if d > 2 ^ 63 - 1 then None else Some (int d))"

section \<open>Whole minutes and seconds\<close>

lemma digit_value_digit_char: "d < 10 \<Longrightarrow> digit_value (digit_char d) = Some d"
  by (simp add: digit_value_def digit_char_def)

lemma leading_int_append:
  assumes "leading_int x u = Some (y, [])" and "v = [] \<or> digit_value (hd v) = None"
  shows "leading_int x (u @ v) = Some (y, v)"
  using assms
proof (induction x u rule: leading_int.induct)
  case (1 x)
  then show ?case by (cases v) auto
next
  case (2 x c s)
  then show ?case by (auto split: option.splits if_splits)
qed

lemma leading_int_snoc:
  assumes "leading_int x u = Some (y, [])" and "d < 10" and "y * 10 + d \<le> 2 ^ 63"
  shows "leading_int x (u @ [digit_char d]) = Some (y * 10 + d, [])"
  using assms by (induction x u rule: leading_int.induct)
    (auto simp: digit_value_digit_char split: option.splits if_splits)

lemma leading_int_nat_str: "n \<le> 2 ^ 63 \<Longrightarrow> leading_int 0 (nat_str n) = Some (n, [])"
proof (induction n rule: nat_str.induct)
  case (1 n)
  show ?case
  proof (cases "n < 10")
    case True
    then show ?thesis
      by (simp add: nat_str.simps [of n] digit_value_digit_char)
  next
    case False
    then have "leading_int 0 (nat_str (n div 10)) = Some (n div 10, [])"
      using 1 by simp
    from leading_int_snoc [OF this, of "n mod 10"] False 1(2) show ?thesis
      by (simp add: nat_str.simps [of n])
  qed
qed

lemma hd_nat_str: "digit_value (hd (nat_str n)) \<noteq> None"
proof (induction n rule: nat_str.induct)
  case (1 n)
  then show ?case
    by (cases "n < 10") (simp_all add: nat_str.simps [of n] digit_value_digit_char)
qed

text \<open>A whole number with a unit.\<close>

lemma duration_part_whole:
  assumes "n \<le> 2 ^ 63 div k" and "0 < k" and "map_of unit_map u = Some k"
    and "u \<noteq> []" and "list_all unit_char u"
  shows "duration_part (nat_str n @ u) = Some (n * k, [])"
proof -
  have "n * 1 \<le> n * k"
    using assms(2) by (intro mult_le_mono2) simp
  moreover have nk: "n * k \<le> 2 ^ 63"
    using assms(1,2) by (metis div_times_less_eq_dividend le_trans mult_le_mono1)
  ultimately have n: "n \<le> 2 ^ 63"
    by linarith
  have tw: "takeWhile unit_char u = u" "dropWhile unit_char u = []"
    using assms(5) by (simp_all add: list_all_iff takeWhile_eq_all_conv)
  have hu: "digit_value (hd u) = None" "hd u \<noteq> CHR ''.''"
    using assms(4,5) by (cases u; simp add: unit_char_def)+
  have "leading_int 0 (nat_str n @ u) = Some (n, u)"
    by (rule leading_int_append [OF leading_int_nat_str [OF n]]) (simp add: hu)
  moreover have "\<not> unit_char (hd (nat_str n @ u))"
    using hd_nat_str [of n] by (simp add: unit_char_def hd_append)
  moreover have "length u \<noteq> length (nat_str n @ u)"
    by simp
  ultimately show ?thesis
    using assms(1,3,4) nk hu by (simp add: duration_part_def Let_def tw)
qed

lemma ParseDuration_whole:
  assumes "n * k < 2 ^ 63" and "0 < k" and "map_of unit_map u = Some k"
    and "u \<noteq> []" and "list_all unit_char u"
  shows "ParseDuration (nat_str n @ u) = Some (int (n * k))"
proof -
  let ?s = "nat_str n @ u"
  have dp: "duration_part ?s = Some (n * k, [])"
    using assms by (intro duration_part_whole) (simp_all add: less_eq_div_iff_mult_less_eq)
  have "digit_value (hd ?s) \<noteq> None"
    using hd_nat_str [of n] by (simp add: hd_append)
  then have "hd ?s \<noteq> CHR ''-''" "hd ?s \<noteq> CHR ''+''"
    by (auto simp: digit_value_def)
  moreover have "?s \<noteq> ''0''"
    using assms(4) by (metis append_Nil append_eq_Cons_conv nat_str_nonempty append_is_Nil_conv)
  moreover have "duration_loop 0 ?s = Some (n * k)"
    using assms(1) dp by (simp add: duration_loop.simps [of 0 ?s] duration_loop.simps [of "n * k" "[]"])
  ultimately show ?thesis
    using assms(1) by (simp add: ParseDuration_def Let_def)
qed

lemma ParseDuration_minutes: "n < 153000000 \<Longrightarrow> ParseDuration (nat_str n @ ''m'') = Some (int n * minute)"
  using ParseDuration_whole [of n 60000000000 "''m''"]
  by (simp add: unit_map_def unit_char_def digit_value_def minute_def)

lemma ParseDuration_seconds: "n < 9000000000 \<Longrightarrow> ParseDuration (nat_str n @ ''s'') = Some (int n * second)"
  using ParseDuration_whole [of n 1000000000 "''s''"]
  by (simp add: unit_map_def unit_char_def digit_value_def second_def)

section \<open>Reading a duration\<close>

definition milliseconds :: "duration \<Rightarrow> int" where
  "milliseconds d = d sdiv 1000000"

text \<open>\<open>int64(d.Seconds())\<close>, where \<open>Seconds\<close> adds the whole seconds and the rest as floats.\<close>

definition duration_seconds :: "duration \<Rightarrow> rat" where
  "duration_seconds d =
     f64 (f64_of_int (d sdiv second) + f64_div (f64_of_int (d smod second)) (f64_of_int 1000000000))"

definition whole_seconds :: "duration \<Rightarrow> int" where
  "whole_seconds d = truncate_f64 (duration_seconds d)"

lemma whole_seconds_mult:
  assumes "0 \<le> n" and "n < 2 ^ 53"
  shows "whole_seconds (n * second) = n"
proof -
  have "(n * second) sdiv second = n"
    by (rule sdiv_mult_self) (simp add: second_def)
  moreover from this have "(n * second) smod second = 0"
    by (simp add: signed_modulo_int_def)
  moreover have "f64 (of_int n) = of_int n"
    using f64_of_int_exact [of n] assms by (simp add: f64_of_int_def)
  ultimately show ?thesis
    using assms(1) by (simp add: whole_seconds_def duration_seconds_def f64_of_int_def truncate_f64_def f64_div_def)
qed

text \<open>\<open>t.Unix()\<close> counts whole seconds, rounding down.\<close>

definition unix_seconds :: "gotime \<Rightarrow> int" where
  "unix_seconds t = t div second"

lemma milliseconds_nonneg: "0 \<le> d \<Longrightarrow> 0 \<le> milliseconds d"
  by (simp add: milliseconds_def signed_divide_int_def sgn_if)

lemma milliseconds_mono: "0 \<le> d \<Longrightarrow> d \<le> e \<Longrightarrow> milliseconds d \<le> milliseconds e"
  using zdiv_mono1 [of d e 1000000] div_int_pos_iff [of e 1000000]
  by (auto simp: milliseconds_def signed_divide_int_def sgn_if)

end
