(* ===== verification/Checker_Tracer.thy ===== *)
theory Checker_Tracer
  imports Messages Go_Duration Go_Http
begin

text \<open>
  \<open>checker_tracer.go\<close>: the times at which the stages of an HTTP request are reached, filled in by
  the callbacks of \<open>net/http/httptrace\<close>, and what the checker makes of them.

  A certificate has the fields the program reads; names are the texts of \<open>pkix.Name.String\<close>. The
  table behind \<open>tls.CipherSuiteName\<close> is a parameter.
\<close>

section \<open>Data\<close>

record certificate =
  x_NotBefore :: gotime
  x_NotAfter :: gotime
  x_Issuer :: string
  x_Subject :: string
  x_CommonName :: string
  x_RawSubject :: string

record ConnectionState =
  cs_Version :: int
  cs_CipherSuite :: int
  cs_PeerCertificates :: "certificate list"

record TLSCertInfo =
  tci_Version :: string
  tci_Cipher :: string
  tci_NotBefore :: gotime
  tci_NotAfter :: gotime
  tci_Issuer :: string
  tci_Subject :: string
  tci_DN :: string
  tci_Fingerprint :: string

record CheckerTracer =
  tr_connStartTime :: gotime
  tr_connAcquiredTime :: gotime
  tr_firstResponseByte :: gotime
  tr_dnsStartTime :: gotime
  tr_dnsDoneTime :: gotime
  tr_tlsHandshakeStartTime :: gotime
  tr_tlsHandshakeDoneTime :: gotime
  tr_tlsConnState :: "ConnectionState option"
  tr_tlsConnError :: "string option"

definition NewCheckerTracer :: CheckerTracer where
  "NewCheckerTracer = \<lparr>tr_connStartTime = zero_time, tr_connAcquiredTime = zero_time,
     tr_firstResponseByte = zero_time, tr_dnsStartTime = zero_time, tr_dnsDoneTime = zero_time,
     tr_tlsHandshakeStartTime = zero_time, tr_tlsHandshakeDoneTime = zero_time,
     tr_tlsConnState = None, tr_tlsConnError = None\<rparr>"

section \<open>The callbacks\<close>

datatype trace_event =
    GetConn
  | GotConn
  | GotFirstResponseByte
  | DNSStart
  | DNSDone
  | TLSHandshakeStart
  | TLSHandshakeDone ConnectionState "string option"

fun client_trace :: "trace_event \<Rightarrow> gotime \<Rightarrow> CheckerTracer \<Rightarrow> CheckerTracer" where
  "client_trace GetConn now ct = ct\<lparr>tr_connStartTime := now\<rparr>"
| "client_trace GotConn now ct = ct\<lparr>tr_connAcquiredTime := now\<rparr>"
| "client_trace GotFirstResponseByte now ct = ct\<lparr>tr_firstResponseByte := now\<rparr>"
| "client_trace DNSStart now ct = ct\<lparr>tr_dnsStartTime := now\<rparr>"
| "client_trace DNSDone now ct = ct\<lparr>tr_dnsDoneTime := now\<rparr>"
| "client_trace TLSHandshakeStart now ct = ct\<lparr>tr_tlsHandshakeStartTime := now\<rparr>"
| "client_trace (TLSHandshakeDone connState err) now ct =
     ct\<lparr>tr_tlsHandshakeDoneTime := now,
        tr_tlsConnState := (if tr_tlsConnState ct = None then Some connState else tr_tlsConnState ct),
        tr_tlsConnError := err\<rparr>"

definition traced :: "(trace_event \<times> gotime) list \<Rightarrow> CheckerTracer" where
  "traced events = foldl (\<lambda>ct (e, now). client_trace e now ct) NewCheckerTracer events"

text \<open>The difference of two times that were both set.\<close>

definition elapsed :: "gotime \<Rightarrow> gotime \<Rightarrow> int" where
  "elapsed later earlier =
     (if later \<noteq> zero_time \<and> earlier \<noteq> zero_time then milliseconds (time_sub later earlier) else 0)"

definition GetTimings :: "CheckerTracer \<Rightarrow> CheckerTraceTimings" where
  "GetTimings ct =
     \<lparr>ct_ConnAcquiredMs = elapsed (tr_connAcquiredTime ct) (tr_connStartTime ct),
      ct_FirstResponseByteMs = elapsed (tr_firstResponseByte ct) (tr_connAcquiredTime ct),
      ct_DNSLookupStartMs = elapsed (tr_dnsStartTime ct) (tr_connStartTime ct),
      ct_DNSLookupDoneMs = elapsed (tr_dnsDoneTime ct) (tr_dnsStartTime ct),
      ct_TLSHandshakeStartMs = elapsed (tr_tlsHandshakeStartTime ct) (tr_connStartTime ct),
      ct_TLSHandshakeDoneMs = elapsed (tr_tlsHandshakeDoneTime ct) (tr_tlsHandshakeStartTime ct)\<rparr>"

definition GetTLSConnectionState :: "CheckerTracer \<Rightarrow> ConnectionState option" where
  "GetTLSConnectionState ct = tr_tlsConnState ct"

definition GetTLSError :: "CheckerTracer \<Rightarrow> string option" where
  "GetTLSError ct = tr_tlsConnError ct"

section \<open>Certificates\<close>

definition tls_VersionName :: "int \<Rightarrow> string" where
  "tls_VersionName v =
     (if v = 768 then ''SSLv3'' else if v = 769 then ''TLS 1.0'' else if v = 770 then ''TLS 1.1''
      else if v = 771 then ''TLS 1.2'' else if v = 772 then ''TLS 1.3'' else hex16 v)"

definition tls_CipherSuiteName :: "(int \<Rightarrow> string option) \<Rightarrow> int \<Rightarrow> string" where
  "tls_CipherSuiteName suites c = (case suites c of Some name \<Rightarrow> name | None \<Rightarrow> hex16 c)"

text \<open>Nothing in the program calls this one; the probes use the functions of \<open>checker_probe_http.go\<close>.\<close>

definition ExtractTLSCertInfo :: "(int \<Rightarrow> string option) \<Rightarrow> ConnectionState option \<Rightarrow> TLSCertInfo" where
  "ExtractTLSCertInfo suites state =
     (case state of
        Some s \<Rightarrow>
          (case cs_PeerCertificates s of
             cert # _ \<Rightarrow>
               \<lparr>tci_Version = tls_VersionName (cs_Version s), tci_Cipher = tls_CipherSuiteName suites (cs_CipherSuite s),
                tci_NotBefore = x_NotBefore cert, tci_NotAfter = x_NotAfter cert, tci_Issuer = x_Issuer cert,
                tci_Subject = x_Subject cert, tci_DN = x_CommonName cert, tci_Fingerprint = hex_bytes (x_RawSubject cert)\<rparr>
           | [] \<Rightarrow> \<lparr>tci_Version = [], tci_Cipher = [], tci_NotBefore = zero_time, tci_NotAfter = zero_time,
               tci_Issuer = [], tci_Subject = [], tci_DN = [], tci_Fingerprint = []\<rparr>)
      | None \<Rightarrow> \<lparr>tci_Version = [], tci_Cipher = [], tci_NotBefore = zero_time, tci_NotAfter = zero_time,
          tci_Issuer = [], tci_Subject = [], tci_DN = [], tci_Fingerprint = []\<rparr>)"

section \<open>What a trace leaves behind\<close>

text \<open>Events without their arguments, and the time of the last event of a kind.\<close>

definition tls_done :: trace_event where
  "tls_done = TLSHandshakeDone \<lparr>cs_Version = 0, cs_CipherSuite = 0, cs_PeerCertificates = []\<rparr> None"

definition event_kind :: "trace_event \<Rightarrow> trace_event" where
  "event_kind e = (case e of TLSHandshakeDone _ _ \<Rightarrow> tls_done | _ \<Rightarrow> e)"

definition kinds :: "(trace_event \<times> gotime) list \<Rightarrow> trace_event list" where
  "kinds events = map (\<lambda>(e, now). event_kind e) events"

definition last_time :: "trace_event \<Rightarrow> (trace_event \<times> gotime) list \<Rightarrow> gotime" where
  "last_time k events = foldl (\<lambda>t (e, now). if event_kind e = k then now else t) zero_time events"

lemma kinds_simps [simp]:
  "kinds [] = []" "kinds ((e, now) # vs) = event_kind e # kinds vs" "kinds (us @ vs) = kinds us @ kinds vs"
  by (simp_all add: kinds_def)

lemma last_time_snoc:
  "last_time k (events @ [(e, now)]) = (if event_kind e = k then now else last_time k events)"
  by (simp add: last_time_def)

lemma last_time_Nil [simp]: "last_time k [] = zero_time"
  by (simp add: last_time_def)

lemma traced_snoc: "traced (events @ [(e, now)]) = client_trace e now (traced events)"
  by (simp add: traced_def)

lemma traced_times:
  "tr_connStartTime (traced events) = last_time GetConn events"
  "tr_connAcquiredTime (traced events) = last_time GotConn events"
  "tr_firstResponseByte (traced events) = last_time GotFirstResponseByte events"
  "tr_dnsStartTime (traced events) = last_time DNSStart events"
  "tr_dnsDoneTime (traced events) = last_time DNSDone events"
  "tr_tlsHandshakeStartTime (traced events) = last_time TLSHandshakeStart events"
  "tr_tlsHandshakeDoneTime (traced events) = last_time tls_done events"
proof (induction events rule: rev_induct)
  case Nil
  show "tr_connStartTime (traced []) = last_time GetConn []"
    "tr_connAcquiredTime (traced []) = last_time GotConn []"
    "tr_firstResponseByte (traced []) = last_time GotFirstResponseByte []"
    "tr_dnsStartTime (traced []) = last_time DNSStart []"
    "tr_dnsDoneTime (traced []) = last_time DNSDone []"
    "tr_tlsHandshakeStartTime (traced []) = last_time TLSHandshakeStart []"
    "tr_tlsHandshakeDoneTime (traced []) = last_time tls_done []"
    by (simp_all add: traced_def NewCheckerTracer_def)
next
  case (snoc x events)
  obtain e now where x: "x = (e, now)"
    by (cases x)
  show "tr_connStartTime (traced (events @ [x])) = last_time GetConn (events @ [x])"
    "tr_connAcquiredTime (traced (events @ [x])) = last_time GotConn (events @ [x])"
    "tr_firstResponseByte (traced (events @ [x])) = last_time GotFirstResponseByte (events @ [x])"
    "tr_dnsStartTime (traced (events @ [x])) = last_time DNSStart (events @ [x])"
    "tr_dnsDoneTime (traced (events @ [x])) = last_time DNSDone (events @ [x])"
    "tr_tlsHandshakeStartTime (traced (events @ [x])) = last_time TLSHandshakeStart (events @ [x])"
    "tr_tlsHandshakeDoneTime (traced (events @ [x])) = last_time tls_done (events @ [x])"
    using snoc by (cases e; simp add: x traced_snoc last_time_snoc event_kind_def tls_done_def)+
qed

text \<open>An error of the handshake never stands alone: the callback sets the state with it.\<close>

lemma tls_error_has_state: "GetTLSError (traced events) \<noteq> None \<Longrightarrow> GetTLSConnectionState (traced events) \<noteq> None"
proof (induction events rule: rev_induct)
  case Nil
  then show ?case
    by (simp add: traced_def NewCheckerTracer_def GetTLSError_def)
next
  case (snoc x events)
  then show ?case
    by (cases x; cases "fst x") (auto simp: traced_snoc GetTLSError_def GetTLSConnectionState_def)
qed

section \<open>One request\<close>

text \<open>
  The events of a request that is not redirected: each at most once, the first one asks for a
  connection, and a stage ends after it began.
\<close>

definition follows :: "trace_event \<Rightarrow> trace_event \<Rightarrow> (trace_event \<times> gotime) list \<Rightarrow> bool" where
  "follows l k events = (l \<notin> set (kinds events) \<or> k \<in> set (takeWhile (\<lambda>e. e \<noteq> l) (kinds events)))"

definition one_request :: "(trace_event \<times> gotime) list \<Rightarrow> bool" where
  "one_request events =
     (distinct (kinds events) \<and> sorted (map snd events) \<and>
      list_all (\<lambda>(l, k). follows l k events)
        [(GotConn, GetConn), (GotFirstResponseByte, GotConn), (DNSStart, GetConn), (DNSDone, DNSStart),
         (TLSHandshakeStart, GetConn), (tls_done, TLSHandshakeStart)])"

lemma last_time_absent: "k \<notin> set (kinds events) \<Longrightarrow> last_time k events = zero_time"
  by (induction events rule: rev_induct) (auto simp: last_time_snoc)

lemma last_time_present: "k \<in> set (kinds events) \<Longrightarrow> last_time k events \<in> set (map snd events)"
proof (induction events rule: rev_induct)
  case (snoc x events)
  then show ?case
    by (cases x) (auto simp: last_time_snoc)
qed simp

lemma last_time_append:
  "last_time k (us @ vs) = (if k \<in> set (kinds vs) then last_time k vs else last_time k us)"
proof (induction vs rule: rev_induct)
  case (snoc x vs)
  obtain e now where x: "x = (e, now)"
    by (cases x)
  have "last_time k (us @ vs @ [x]) = (if event_kind e = k then now else last_time k (us @ vs))"
    using last_time_snoc [of k "us @ vs" e now] by (simp add: x)
  then show ?case
    using snoc by (simp add: last_time_snoc x)
qed simp

lemma last_time_Cons:
  "last_time k ((e, now) # vs) =
     (if k \<in> set (kinds vs) then last_time k vs else if event_kind e = k then now else zero_time)"
  using last_time_append [of k "[(e, now)]" vs] last_time_snoc [of k "[]" e now] by simp

lemma elapsed_bounds:
  assumes "t \<le> t'" and "start \<le> t" and "t' \<le> finish" and "finish - start < 2 ^ 63"
  shows "0 \<le> elapsed t' t \<and> elapsed t' t \<le> milliseconds (time_sub finish start)"
proof -
  have "time_sub t' t = t' - t" and "time_sub finish start = finish - start"
    using assms by (auto intro!: time_sub_exact)
  then show ?thesis
    using assms milliseconds_nonneg [of "t' - t"] milliseconds_mono [of "t' - t" "finish - start"]
      milliseconds_nonneg [of "finish - start"]
    by (auto simp: elapsed_def)
qed

lemma follows_in_time:
  assumes "distinct (kinds events)" and "sorted (map snd events)" and "follows l k events"
    and "l \<in> set (kinds events)"
  shows "k \<in> set (kinds events) \<and> last_time k events \<le> last_time l events"
proof -
  let ?p = "\<lambda>(e, now). event_kind e \<noteq> l"
  define us where "us = takeWhile ?p events"
  have "takeWhile (\<lambda>e. e \<noteq> l) (kinds events) = kinds us"
    by (simp add: us_def kinds_def takeWhile_map comp_def case_prod_unfold)
  with assms(3,4) have k: "k \<in> set (kinds us)"
    by (simp add: follows_def)
  have "dropWhile ?p events \<noteq> []"
    using assms(4) by (auto simp: kinds_def)
  then obtain x vs where d: "dropWhile ?p events = x # vs"
    by (cases "dropWhile ?p events") simp_all
  obtain e now where x: "x = (e, now)"
    by (cases x)
  have ev: "events = us @ (e, now) # vs"
    using takeWhile_dropWhile_id [of ?p events] by (simp add: us_def d x)
  have e: "event_kind e = l"
    using hd_dropWhile [of ?p events] d x by simp
  have "last_time l events = now"
    using assms(1) by (simp add: ev e last_time_append last_time_Cons)
  moreover have "last_time k events = last_time k us"
    using assms(1) k by (auto simp: ev last_time_append last_time_Cons)
  moreover have "last_time k us \<in> set (map snd us)"
    by (rule last_time_present [OF k])
  ultimately show ?thesis
    using assms(2) k by (auto simp: ev sorted_append)
qed

lemma stage_bounds:
  assumes "distinct (kinds events)" and "sorted (map snd events)" and "follows l k events"
    and "list_all (\<lambda>(e, now). start \<le> now \<and> now \<le> finish) events" and "finish - start < 2 ^ 63"
    and "start \<le> finish"
  shows "0 \<le> elapsed (last_time l events) (last_time k events) \<and>
    elapsed (last_time l events) (last_time k events) \<le> milliseconds (time_sub finish start)"
proof (cases "l \<in> set (kinds events)")
  case True
  note in_time = follows_in_time [OF assms(1-3) True]
  have "start \<le> last_time k events" and "last_time l events \<le> finish"
    using assms(4) last_time_present [of k events] last_time_present [of l events] in_time True
    by (fastforce simp: list_all_iff)+
  then show ?thesis
    using in_time assms(5) by (intro elapsed_bounds) simp_all
next
  case False
  then have "elapsed (last_time l events) (last_time k events) = 0"
    by (simp add: elapsed_def last_time_absent)
  moreover have "time_sub finish start = finish - start"
    using assms(5,6) by (intro time_sub_exact) simp
  ultimately show ?thesis
    using assms(6) by (simp add: milliseconds_nonneg)
qed

text \<open>
  The six timings of a request that is not redirected are never negative and never exceed the
  latency of the request, whatever callbacks ran and however the connection was made.
\<close>

theorem timings_fit_the_request:
  assumes "one_request events" and "list_all (\<lambda>(e, now). start \<le> now \<and> now \<le> finish) events"
    and "start \<le> finish" and "finish - start < 2 ^ 63"
  shows "list_all (\<lambda>ms. 0 \<le> ms \<and> ms \<le> milliseconds (time_sub finish start))
    (let t = GetTimings (traced events) in
      [ct_ConnAcquiredMs t, ct_FirstResponseByteMs t, ct_DNSLookupStartMs t, ct_DNSLookupDoneMs t,
       ct_TLSHandshakeStartMs t, ct_TLSHandshakeDoneMs t])"
  using assms stage_bounds [OF _ _ _ assms(2,4,3)]
  by (simp add: one_request_def GetTimings_def traced_times)

definition ex_trace :: "(trace_event \<times> gotime) list" where
  "ex_trace = [(GetConn, 1000000), (DNSStart, 2000000), (DNSDone, 6000000), (GotConn, 9000000),
     (GotFirstResponseByte, 30000000)]"

theorem timings_fit_the_request_witness:
  "list_all (\<lambda>ms. 0 \<le> ms \<and> ms \<le> milliseconds (time_sub 31000000 0))
    (let t = GetTimings (traced ex_trace) in
      [ct_ConnAcquiredMs t, ct_FirstResponseByteMs t, ct_DNSLookupStartMs t, ct_DNSLookupDoneMs t,
       ct_TLSHandshakeStartMs t, ct_TLSHandshakeDoneMs t]) \<and>
   map_prod ct_ConnAcquiredMs ct_FirstResponseByteMs (GetTimings (traced ex_trace), GetTimings (traced ex_trace)) = (8, 21)"
proof -
  have "one_request ex_trace"
    by (simp add: one_request_def ex_trace_def kinds_def event_kind_def follows_def tls_done_def)
  moreover have "list_all (\<lambda>(e, now). 0 \<le> now \<and> now \<le> 31000000) ex_trace"
    by (simp add: ex_trace_def)
  ultimately show ?thesis
    using timings_fit_the_request [of ex_trace 0 31000000]
    by (simp add: GetTimings_def traced_def ex_trace_def elapsed_def milliseconds_def time_sub_def
        NewCheckerTracer_def zero_time_def)
qed

text \<open>
  A redirect to the same host reuses the connection: it asks for a connection again without a
  new lookup, so that the start of the lookup is measured from a later moment, and the timing is
  negative as soon as a millisecond lies between the two.
\<close>

theorem redirect_makes_timing_negative:
  assumes "GetConn \<notin> set (kinds rest)" and "DNSStart \<notin> set (kinds (middle @ rest))"
    and "zero_time < t" and "t + 1000000 \<le> t'"
  shows "ct_DNSLookupStartMs (GetTimings (traced (before @ (DNSStart, t) # middle @ (GetConn, t') # rest))) < 0"
proof -
  let ?ev = "before @ (DNSStart, t) # middle @ (GetConn, t') # rest"
  have "last_time GetConn ?ev = t'"
    using assms(1) by (simp add: last_time_append last_time_Cons event_kind_def)
  moreover have "last_time DNSStart ?ev = t"
    using assms(2) by (simp add: last_time_append last_time_Cons event_kind_def)
  moreover have "milliseconds (time_sub t t') < 0"
    using assms(4) by (auto simp: milliseconds_def signed_divide_int_def time_sub_def max_def min_def sgn_if
      pos_imp_zdiv_pos_iff)
  ultimately show ?thesis
    using assms(3,4) by (simp add: GetTimings_def traced_times elapsed_def)
qed

theorem redirect_makes_timing_negative_witness:
  "ct_DNSLookupStartMs (GetTimings (traced (ex_trace @ [(GetConn, 31000000), (GotConn, 31000000)]))) < 0"
  using redirect_makes_timing_negative [of "[(GotConn, 31000000)]" "drop 2 ex_trace" 2000000 31000000 "[(GetConn, 1000000)]"]
  by (simp add: ex_trace_def kinds_def event_kind_def tls_done_def zero_time_def)

end
