(* ===== verification/Checker_Probe.thy ===== *)
theory Checker_Probe
  imports Checker_Tracer Config_Monitor
begin

text \<open>
  \<open>checker_probe.go\<close> and the probes of \<open>checker_probe_tcp.go\<close>, \<open>_icmp.go\<close>, \<open>_redis.go\<close>,
  \<open>_sql.go\<close> and \<open>_grpc.go\<close>.

  The network is a parameter: each call takes the number of the interaction, so that it may answer
  differently every time, and gives the text of an error or what the call returned. A probe takes
  the number of the first interaction and returns the submission with the number after the last.
  Every call returns: a call that hangs is outside of the model, as the dial over TLS of the Redis probe may
  when the configured timeout is 0 and there is no deadline. Closing a connection has no effect on the result. \<open>time.Since\<close> reads the same clock as
  \<open>time.Now\<close>; neither \<open>nw_grpc_name\<close> nor \<open>nw_sql_open\<close> touches the network.
\<close>

record network =
  nw_clock :: "nat \<Rightarrow> gotime"
  nw_dial :: "nat \<Rightarrow> string \<Rightarrow> duration \<Rightarrow> string option"
  nw_dial_tls :: "nat \<Rightarrow> string \<Rightarrow> duration \<Rightarrow> bool \<Rightarrow> string option"
  nw_handshake :: "nat \<Rightarrow> bool \<Rightarrow> string \<Rightarrow> string option"
  nw_set_deadline :: "nat \<Rightarrow> gotime \<Rightarrow> string option"
  nw_write :: "nat \<Rightarrow> string \<Rightarrow> string option"
  nw_read :: "nat \<Rightarrow> string result"
  nw_ping :: "nat \<Rightarrow> string list \<Rightarrow> string \<times> string option"
  nw_sql_open :: "nat \<Rightarrow> string \<Rightarrow> string \<Rightarrow> string option"
  nw_sql_ping :: "nat \<Rightarrow> duration \<Rightarrow> string option"
  nw_grpc_client :: "nat \<Rightarrow> string \<Rightarrow> (bool \<times> string) option \<Rightarrow> string option"
  nw_grpc_check :: "nat \<Rightarrow> string \<Rightarrow> duration \<Rightarrow> int result"
  nw_grpc_name :: "int \<Rightarrow> string"

section \<open>The end of a probe\<close>

text \<open>
  \<^verbatim>\<open>
  submission.LatencyMs = time.Since(start).Milliseconds()
  submission.FailureReason = null.StringFrom(err.Error())
  return submission
  \<close>
  and the two lines of the successful end.
\<close>

definition latency_since :: "network \<Rightarrow> gotime \<Rightarrow> nat \<Rightarrow> int" where
  "latency_since net start n = milliseconds (time_sub (nw_clock net n) start)"

definition probe_failed ::
    "network \<Rightarrow> gotime \<Rightarrow> CheckerSubmissionRequest \<Rightarrow> string \<Rightarrow> nat \<Rightarrow> CheckerSubmissionRequest \<times> nat" where
  "probe_failed net start submission reason n =
     (submission\<lparr>sub_LatencyMs := latency_since net start n, sub_FailureReason := Some reason\<rparr>, n + 1)"

definition probe_succeeded ::
    "network \<Rightarrow> gotime \<Rightarrow> CheckerSubmissionRequest \<Rightarrow> nat \<Rightarrow> CheckerSubmissionRequest \<times> nat" where
  "probe_succeeded net start submission n =
     (submission\<lparr>sub_LatencyMs := latency_since net start n, sub_Success := True\<rparr>, n + 1)"

text \<open>A call that returns only an error, and the rest of the probe.\<close>

definition unless_failed ::
    "network \<Rightarrow> gotime \<Rightarrow> CheckerSubmissionRequest \<Rightarrow> string option \<Rightarrow> nat \<Rightarrow>
       (nat \<Rightarrow> CheckerSubmissionRequest \<times> nat) \<Rightarrow> CheckerSubmissionRequest \<times> nat" where
  "unless_failed net start submission err n rest =
     (case err of Some e \<Rightarrow> probe_failed net start submission e n | None \<Rightarrow> rest n)"

definition new_submission :: "Monitor \<Rightarrow> gotime \<Rightarrow> CheckerSubmissionRequest" where
  "new_submission monitor now =
     zero_submission\<lparr>sub_MonitorID := mon_ID monitor, sub_ProbeType := EffectiveType monitor, sub_Timestamp := now\<rparr>"

section \<open>TCP\<close>

definition trim_prefix :: "string \<Rightarrow> string \<Rightarrow> string" where
  "trim_prefix s p = (if prefix p s then drop (length p) s else s)"

definition trim_suffix :: "string \<Rightarrow> string \<Rightarrow> string" where
  "trim_suffix s p = (if suffix p s then take (length s - length p) s else s)"

definition serverNameForAddress :: "string \<Rightarrow> string" where
  "serverNameForAddress address =
     (let serverName = (case split_host address of Some host \<Rightarrow> host | None \<Rightarrow> address)
      in trim_prefix (trim_suffix serverName '']'') ''['')"

text \<open>Reading an answer: up to 4096 bytes, as many as the call returns.\<close>

definition tcp_expect ::
    "network \<Rightarrow> Monitor \<Rightarrow> gotime \<Rightarrow> CheckerSubmissionRequest \<Rightarrow> nat \<Rightarrow> CheckerSubmissionRequest \<times> nat" where
  "tcp_expect net monitor start submission n =
     (case tcp_ExpectContains (mon_TCP monitor) of
        None \<Rightarrow> probe_succeeded net start submission n
      | Some expected \<Rightarrow>
          (case nw_read net n of
             Inl e \<Rightarrow> probe_failed net start submission e (n + 1)
           | Inr reply \<Rightarrow>
               (let submission = submission\<lparr>sub_ResponseBody := Some (take 4096 reply)\<rparr> in
                if \<not> contains (take 4096 reply) expected
                then probe_failed net start submission ''tcp response did not contain expected text'' (n + 1)
                else probe_succeeded net start submission (n + 1))))"

definition tcp_talk ::
    "network \<Rightarrow> Monitor \<Rightarrow> gotime \<Rightarrow> duration \<Rightarrow> CheckerSubmissionRequest \<Rightarrow> nat \<Rightarrow>
       CheckerSubmissionRequest \<times> nat" where
  "tcp_talk net monitor start timeout submission n =
     unless_failed net start submission (nw_set_deadline net (n + 1) (nw_clock net n + timeout)) (n + 2)
       (\<lambda>n. case tcp_Send (mon_TCP monitor) of
          None \<Rightarrow> tcp_expect net monitor start submission n
        | Some text \<Rightarrow>
            unless_failed net start submission (nw_write net n text) (n + 1)
              (tcp_expect net monitor start submission))"

definition probeTCP :: "network \<Rightarrow> Monitor \<Rightarrow> nat \<Rightarrow> CheckerSubmissionRequest \<times> nat" where
  "probeTCP net monitor n =
     (let start = nw_clock net n;
          timeout = EffectiveTimeout monitor (10 * second);
          submission = new_submission monitor (nw_clock net (n + 1));
          tcp = mon_TCP monitor
      in unless_failed net start submission (nw_dial net (n + 2) (tcp_Address tcp) timeout) (n + 3)
           (\<lambda>n. if tcp_UseTLS tcp
              then unless_failed net start submission
                     (nw_handshake net n (tcp_SkipTLSVerify tcp) (serverNameForAddress (tcp_Address tcp))) (n + 1)
                     (tcp_talk net monitor start timeout submission)
              else tcp_talk net monitor start timeout submission n))"

section \<open>ICMP\<close>

definition probeICMP :: "network \<Rightarrow> Monitor \<Rightarrow> nat \<Rightarrow> CheckerSubmissionRequest \<times> nat" where
  "probeICMP net monitor n =
     (let start = nw_clock net n;
          timeout = EffectiveTimeout monitor (5 * second);
          count = max (icmp_Count (mon_ICMP monitor)) 1;
          waitSeconds = max (timeout sdiv second) 1;
          (output, err) = nw_ping net (n + 1)
            [''ping'', ''-c'', int_str count, ''-W'', int_str waitSeconds, icmp_Host (mon_ICMP monitor)];
          submission = (new_submission monitor (nw_clock net (n + 2)))
            \<lparr>sub_LatencyMs := latency_since net start (n + 3), sub_ResponseBody := Some output\<rparr>
      in case err of
           Some e \<Rightarrow>
             (submission\<lparr>sub_FailureReason := Some (if trim_space output = [] then e else trim_space output)\<rparr>, n + 4)
         | None \<Rightarrow> (submission\<lparr>sub_Success := True\<rparr>, n + 4))"

section \<open>Redis\<close>

definition crlf :: string where
  "crlf = [CHR 0x0D, CHR 0x0A]"

definition redis_payload :: "string list \<Rightarrow> string" where
  "redis_payload parts =
     ''*'' @ nat_str (length parts) @ crlf @
       concat (map (\<lambda>part. ''$'' @ nat_str (length part) @ crlf @ part @ crlf) parts)"

definition sendRedisCommand :: "network \<Rightarrow> string \<Rightarrow> string list \<Rightarrow> nat \<Rightarrow> string option \<times> nat" where
  "sendRedisCommand net command arguments n =
     (case nw_write net n (redis_payload (command # arguments)) of
        Some e \<Rightarrow> (Some e, n + 1)
      | None \<Rightarrow>
          (case nw_read net (n + 1) of
             Inl e \<Rightarrow> (Some e, n + 2)
           | Inr reply \<Rightarrow>
               (let reply = take 4096 reply in
                if reply = [] then (Some ''empty redis reply'', n + 2)
                else if hd reply = CHR ''-'' then (Some (trim_space reply), n + 2)
                else (None, n + 2))))"

definition redis_command ::
    "network \<Rightarrow> gotime \<Rightarrow> CheckerSubmissionRequest \<Rightarrow> bool \<Rightarrow> string \<Rightarrow> string list \<Rightarrow> nat \<Rightarrow>
       (nat \<Rightarrow> CheckerSubmissionRequest \<times> nat) \<Rightarrow> CheckerSubmissionRequest \<times> nat" where
  "redis_command net start submission needed command arguments n rest =
     (if needed
      then case sendRedisCommand net command arguments n of (err, n) \<Rightarrow> unless_failed net start submission err n rest
      else rest n)"

definition probeRedis :: "network \<Rightarrow> Monitor \<Rightarrow> nat \<Rightarrow> CheckerSubmissionRequest \<times> nat" where
  "probeRedis net monitor n =
     (let start = nw_clock net n;
          timeout = EffectiveTimeout monitor (10 * second);
          submission = new_submission monitor (nw_clock net (n + 1));
          redis = mon_Redis monitor;
          err = (if redis_UseTLS redis
            then nw_dial_tls net (n + 2) (redis_Address redis) timeout (redis_SkipTLSVerify redis)
            else nw_dial net (n + 2) (redis_Address redis) timeout)
      in unless_failed net start submission err (n + 3)
           (\<lambda>n. unless_failed net start submission
              (nw_set_deadline net (n + 1) (nw_clock net n + timeout)) (n + 2)
              (\<lambda>n. redis_command net start submission (redis_Password redis \<noteq> None)
                 ''AUTH'' [case redis_Password redis of Some p \<Rightarrow> p | None \<Rightarrow> []] n
                 (\<lambda>n. redis_command net start submission (redis_Database redis > 0)
                    ''SELECT'' [int_str (redis_Database redis)] n
                    (\<lambda>n. redis_command net start submission True ''PING'' [] n
                       (probe_succeeded net start submission))))))"

section \<open>Databases\<close>

definition probeDatabase :: "network \<Rightarrow> Monitor \<Rightarrow> string \<Rightarrow> string \<Rightarrow> nat \<Rightarrow> CheckerSubmissionRequest \<times> nat" where
  "probeDatabase net monitor driverName dsn n =
     (let start = nw_clock net n;
          timeout = EffectiveTimeout monitor (10 * second);
          submission = new_submission monitor (nw_clock net (n + 1))
      in unless_failed net start submission (nw_sql_open net (n + 2) driverName dsn) (n + 3)
           (\<lambda>n. unless_failed net start submission (nw_sql_ping net n timeout) (n + 1)
              (probe_succeeded net start submission)))"

definition probePostgres :: "network \<Rightarrow> Monitor \<Rightarrow> nat \<Rightarrow> CheckerSubmissionRequest \<times> nat" where
  "probePostgres net monitor = probeDatabase net monitor ''pgx'' (postgres_DSN (mon_Postgres monitor))"

definition probeMySQL :: "network \<Rightarrow> Monitor \<Rightarrow> nat \<Rightarrow> CheckerSubmissionRequest \<times> nat" where
  "probeMySQL net monitor = probeDatabase net monitor ''mysql'' (mysql_DSN (mon_MySQL monitor))"

definition probeMSSQL :: "network \<Rightarrow> Monitor \<Rightarrow> nat \<Rightarrow> CheckerSubmissionRequest \<times> nat" where
  "probeMSSQL net monitor = probeDatabase net monitor ''sqlserver'' (mssql_DSN (mon_MSSQL monitor))"

definition probeClickHouse :: "network \<Rightarrow> Monitor \<Rightarrow> nat \<Rightarrow> CheckerSubmissionRequest \<times> nat" where
  "probeClickHouse net monitor = probeDatabase net monitor ''clickhouse'' (clickhouse_DSN (mon_ClickHouse monitor))"

section \<open>gRPC\<close>

text \<open>\<open>HealthCheckResponse_SERVING\<close> is the number 1 of the health protocol.\<close>

definition probeGRPC :: "network \<Rightarrow> Monitor \<Rightarrow> nat \<Rightarrow> CheckerSubmissionRequest \<times> nat" where
  "probeGRPC net monitor n =
     (let start = nw_clock net n;
          timeout = EffectiveTimeout monitor (10 * second);
          submission = new_submission monitor (nw_clock net (n + 1));
          grpc = mon_GRPC monitor;
          transportCredentials = (if grpc_UseTLS grpc
            then Some (grpc_SkipTLSVerify grpc, serverNameForAddress (grpc_Address grpc)) else None)
      in unless_failed net start submission (nw_grpc_client net (n + 2) (grpc_Address grpc) transportCredentials) (n + 3)
           (\<lambda>n. case nw_grpc_check net n (grpc_Service grpc) timeout of
              Inl e \<Rightarrow> probe_failed net start submission e (n + 1)
            | Inr status \<Rightarrow>
                (let submission = submission\<lparr>sub_ResponseBody := Some (nw_grpc_name net status)\<rparr> in
                 if status \<noteq> 1
                 then probe_failed net start submission
                        (''grpc health check returned status '' @ nw_grpc_name net status) (n + 1)
                 else probe_succeeded net start submission (n + 1))))"

section \<open>Every probe gives a verdict with its reason\<close>

definition verdict_of :: "Monitor \<Rightarrow> CheckerSubmissionRequest \<Rightarrow> bool" where
  "verdict_of monitor s =
     (sub_MonitorID s = mon_ID monitor \<and> sub_ProbeType s = EffectiveType monitor \<and>
      (sub_Success s \<longleftrightarrow> sub_FailureReason s = None))"

text \<open>A submission on its way: nothing is decided yet.\<close>

definition undecided :: "Monitor \<Rightarrow> CheckerSubmissionRequest \<Rightarrow> bool" where
  "undecided monitor s =
     (sub_MonitorID s = mon_ID monitor \<and> sub_ProbeType s = EffectiveType monitor \<and>
      \<not> sub_Success s \<and> sub_FailureReason s = None)"

lemma undecided_new [simp]: "undecided monitor (new_submission monitor now)"
  by (simp add: undecided_def new_submission_def zero_submission_def)

lemma undecided_update [simp]:
  "undecided monitor s \<Longrightarrow> undecided monitor (s\<lparr>sub_ResponseBody := b\<rparr>)"
  "undecided monitor s \<Longrightarrow> undecided monitor (s\<lparr>sub_LatencyMs := l\<rparr>)"
  by (simp_all add: undecided_def)

lemma verdict_ends [simp]:
  "undecided monitor s \<Longrightarrow> verdict_of monitor (fst (probe_failed net start s e n))"
  "undecided monitor s \<Longrightarrow> verdict_of monitor (fst (probe_succeeded net start s n))"
  by (simp_all add: undecided_def verdict_of_def probe_failed_def probe_succeeded_def)

lemma verdict_unless_failed [intro!]:
  "undecided monitor s \<Longrightarrow> (\<And>n. verdict_of monitor (fst (rest n))) \<Longrightarrow>
     verdict_of monitor (fst (unless_failed net start s err n rest))"
  by (simp add: unless_failed_def split: option.split)

lemma verdict_redis_command [intro!]:
  "undecided monitor s \<Longrightarrow> (\<And>n. verdict_of monitor (fst (rest n))) \<Longrightarrow>
     verdict_of monitor (fst (redis_command net start s needed command arguments n rest))"
  by (cases "sendRedisCommand net command arguments n") (auto simp: redis_command_def)

lemma verdict_probeTCP: "verdict_of monitor (fst (probeTCP net monitor n))"
  by (auto simp: probeTCP_def tcp_talk_def tcp_expect_def Let_def split: option.split sum.split)

lemma verdict_probeICMP: "verdict_of monitor (fst (probeICMP net monitor n))"
  by (auto simp: probeICMP_def Let_def verdict_of_def new_submission_def zero_submission_def
      split: option.split prod.split)

lemma verdict_probeRedis: "verdict_of monitor (fst (probeRedis net monitor n))"
  by (auto simp: probeRedis_def Let_def)

lemma verdict_probeDatabase: "verdict_of monitor (fst (probeDatabase net monitor driverName dsn n))"
  by (auto simp: probeDatabase_def Let_def)

lemma verdict_probeGRPC: "verdict_of monitor (fst (probeGRPC net monitor n))"
  by (auto simp: probeGRPC_def Let_def split: sum.split)

lemmas verdict_probes =
  verdict_probeTCP verdict_probeICMP verdict_probeRedis verdict_probeDatabase verdict_probeGRPC

text \<open>
  A TCP monitor is found up exactly when the connection is made, the handshake succeeds where TLS
  is used, the deadline is set, the text is sent where there is one, and what is read contains the
  expected text where there is one.
\<close>

theorem tcp_probe_success:
  "sub_Success (fst (probeTCP net monitor n)) \<longleftrightarrow>
     (let tcp = mon_TCP monitor;
          h = n + 3;
          d = (if tcp_UseTLS tcp then h + 1 else h);
          w = d + 2;
          r = (if tcp_Send tcp = None then w else w + 1)
      in nw_dial net (n + 2) (tcp_Address tcp) (EffectiveTimeout monitor (10 * second)) = None \<and>
         (if tcp_UseTLS tcp
          then nw_handshake net h (tcp_SkipTLSVerify tcp) (serverNameForAddress (tcp_Address tcp)) = None else True) \<and>
         nw_set_deadline net (d + 1) (nw_clock net d + EffectiveTimeout monitor (10 * second)) = None \<and>
         (case tcp_Send tcp of None \<Rightarrow> True | Some text \<Rightarrow> nw_write net w text = None) \<and>
         (case tcp_ExpectContains tcp of None \<Rightarrow> True
          | Some expected \<Rightarrow> (case nw_read net r of Inl _ \<Rightarrow> False | Inr reply \<Rightarrow> contains (take 4096 reply) expected)))"
  by (auto simp: probeTCP_def tcp_talk_def tcp_expect_def Let_def unless_failed_def probe_failed_def
      probe_succeeded_def new_submission_def zero_submission_def split: option.split sum.split)

section \<open>Commands for Redis are framed\<close>

text \<open>How a Redis server reads a command: the lengths say where an argument ends.\<close>

fun read_number :: "nat \<Rightarrow> string \<Rightarrow> nat \<times> string" where
  "read_number x [] = (x, [])"
| "read_number x (c # s) = (case digit_value c of None \<Rightarrow> (x, c # s) | Some d \<Rightarrow> read_number (x * 10 + d) s)"

definition read_line_number :: "char \<Rightarrow> string \<Rightarrow> (nat \<times> string) option" where
  "read_line_number mark s =
     (if s = [] \<or> hd s \<noteq> mark then None
      else case read_number 0 (tl s) of
        (x, r) \<Rightarrow> if take 2 r = crlf then Some (x, drop 2 r) else None)"

definition read_bulk :: "string \<Rightarrow> (string \<times> string) option" where
  "read_bulk s =
     (case read_line_number (CHR ''$'') s of
        None \<Rightarrow> None
      | Some (x, r) \<Rightarrow>
          if length r \<ge> x + 2 \<and> take 2 (drop x r) = crlf then Some (take x r, drop (x + 2) r) else None)"

fun read_bulks :: "nat \<Rightarrow> string \<Rightarrow> (string list \<times> string) option" where
  "read_bulks 0 s = Some ([], s)"
| "read_bulks (Suc k) s =
     (case read_bulk s of
        None \<Rightarrow> None
      | Some (part, s) \<Rightarrow> (case read_bulks k s of None \<Rightarrow> None | Some (parts, s) \<Rightarrow> Some (part # parts, s)))"

definition read_command :: "string \<Rightarrow> (string list \<times> string) option" where
  "read_command s =
     (case read_line_number (CHR ''*'') s of None \<Rightarrow> None | Some (k, s) \<Rightarrow> read_bulks k s)"

lemma read_number_append:
  "read_number x u = (y, []) \<Longrightarrow> v = [] \<or> digit_value (hd v) = None \<Longrightarrow> read_number x (u @ v) = (y, v)"
proof (induction x u rule: read_number.induct)
  case (1 x)
  then show ?case by (cases v) auto
next
  case (2 x c s)
  then show ?case by (auto split: option.splits)
qed

lemma read_number_snoc:
  "read_number x u = (y, []) \<Longrightarrow> d < 10 \<Longrightarrow> read_number x (u @ [digit_char d]) = (y * 10 + d, [])"
  by (induction x u rule: read_number.induct) (auto simp: digit_value_digit_char split: option.splits)

lemma read_number_nat_str: "read_number 0 (nat_str n) = (n, [])"
proof (induction n rule: nat_str.induct)
  case (1 n)
  show ?case
  proof (cases "n < 10")
    case True
    then show ?thesis
      by (simp add: nat_str.simps [of n] digit_value_digit_char)
  next
    case False
    then have "read_number 0 (nat_str (n div 10)) = (n div 10, [])"
      using 1 by simp
    from read_number_snoc [OF this, of "n mod 10"] False show ?thesis
      by (simp add: nat_str.simps [of n])
  qed
qed

lemma read_line_number_line [simp]: "read_line_number mark (mark # nat_str n @ crlf @ rest) = Some (n, rest)"
proof -
  have "read_number 0 (nat_str n @ crlf @ rest) = (n, crlf @ rest)"
    by (rule read_number_append [OF read_number_nat_str]) (simp add: crlf_def digit_value_def)
  then show ?thesis
    by (simp add: read_line_number_def) (simp add: crlf_def)
qed

lemma read_bulk_line [simp]:
  "read_bulk (CHR ''$'' # nat_str (length part) @ crlf @ part @ crlf @ rest) = Some (part, rest)"
proof -
  have "length crlf = 2"
    by (simp add: crlf_def)
  then show ?thesis
    by (simp add: read_bulk_def)
qed

lemma read_bulks_lines:
  "read_bulks (length parts)
     (concat (map (\<lambda>part. ''$'' @ nat_str (length part) @ crlf @ part @ crlf) parts) @ rest) = Some (parts, rest)"
  by (induction parts) simp_all

text \<open>
  C38: A Redis server reads back exactly the command and the arguments that were to be sent, and
  continues after them: no password, whatever bytes it holds, line ends included, can be taken for
  another command or reach into the next one.
\<close>

theorem redis_commands_are_framed:
  "read_command (redis_payload parts @ rest) = Some (parts, rest)"
  using read_bulks_lines [of parts rest] by (simp add: read_command_def redis_payload_def)

section \<open>The server name for TLS\<close>

definition plain_host :: "string \<Rightarrow> bool" where
  "plain_host s = (CHR ''['' \<notin> set s \<and> CHR '']'' \<notin> set s)"

lemma trim_brackets: "plain_host s \<Longrightarrow> trim_prefix (trim_suffix s '']'') ''['' = s"
  by (auto simp: trim_prefix_def trim_suffix_def plain_host_def prefix_def suffix_def)

lemma server_name_host_port:
  assumes "plain_host host" and "plain_host port" and "CHR '':'' \<notin> set host" and "CHR '':'' \<notin> set port"
  shows "serverNameForAddress (host @ '':'' @ port) = host"
proof -
  have "hd (host @ '':'' @ port) \<noteq> CHR ''[''"
    using assms(1) by (cases host) (auto simp: plain_host_def)
  then have "split_host (host @ '':'' @ port) = Some host"
    using assms last_index_byte_skip [of "CHR '':''" port host]
    by (simp add: split_host_def plain_host_def Let_def)
  then show ?thesis
    using assms(1) by (simp add: serverNameForAddress_def trim_brackets)
qed

lemma server_name_bracketed:
  assumes "plain_host host" and "plain_host port" and "CHR '':'' \<notin> set port"
  shows "serverNameForAddress (''['' @ host @ '']:'' @ port) = host"
proof -
  let ?a = "''['' @ host @ '']:'' @ port"
  have "last_index_byte (CHR '':'') ?a = Some (length host + 2)"
    using last_index_byte_skip [of "CHR '':''" port "''['' @ host @ '']''"] assms(3) by simp
  moreover have "index_byte (CHR '']'') ?a = Some (length host + 1)"
    using index_byte_skip [of "CHR '']''" "''['' @ host" "CHR '':'' # port"] assms(1)
    by (simp add: plain_host_def)
  ultimately have "split_host ?a = Some host"
    using assms(1,2) by (simp add: split_host_def plain_host_def)
  then show ?thesis
    using assms(1) by (simp add: serverNameForAddress_def trim_brackets)
qed

lemma server_name_bare:
  assumes "plain_host host" and "CHR '':'' \<notin> set host"
  shows "serverNameForAddress host = host"
  using assms by (simp add: serverNameForAddress_def split_host_def last_index_byte_None trim_brackets)

end
