(* ===== verification/Checker_Probe_HTTP.thy ===== *)
theory Checker_Probe_HTTP
  imports Checker_Probe
begin

text \<open>
  \<open>checker_probe_http.go\<close>: the HTTP probe, its TLS configuration with a private authority and a
  client certificate, and what it reports of the server's certificate.

  Parameters: the file system, the system's certificates, and the PEM, X.509 and key functions of the
  standard library (\<open>pki\<close>); the HTTP client (\<open>http_client\<close>), which answers a request with the
  callbacks that ran during it and either a response or an error, which may come with the response of a
  redirect that was not followed. \<open>strconv.Quote\<close> (the
  verb \<open>%q\<close>) is a parameter too. A pool of certificates is the list of its certificates.
\<close>

record pem_block =
  pem_Type :: string
  pem_Headers :: "(string, string) gomap"
  pem_Bytes :: string

record pki =
  pk_ReadFile :: "nat \<Rightarrow> string \<Rightarrow> string result"
  pk_SystemCertPool :: "nat \<Rightarrow> certificate list option result"
  pk_certificates :: "string \<Rightarrow> certificate list"
  pk_X509KeyPair :: "string \<Rightarrow> string \<Rightarrow> string option"
  pk_pem_Decode :: "string \<Rightarrow> (pem_block \<times> string) option"
  pk_DecryptPEMBlock :: "pem_block \<Rightarrow> string \<Rightarrow> string result"
  pk_pem_Encode :: "pem_block \<Rightarrow> string"
  pk_ParseCertificate :: "string \<Rightarrow> certificate result"
  pk_CipherSuites :: "int \<Rightarrow> string option"
  pk_Quote :: "string \<Rightarrow> string"

section \<open>Keys\<close>

text \<open>\<open>x509.IsEncryptedPEMBlock\<close>\<close>

definition IsEncryptedPEMBlock :: "pem_block \<Rightarrow> bool" where
  "IsEncryptedPEMBlock b = (map_of (pem_Headers b) ''DEK-Info'' \<noteq> None)"

partial_function (option) pem_encrypted_loop :: "pki \<Rightarrow> string \<Rightarrow> bool option" where
  "pem_encrypted_loop pki remaining =
     (if remaining = [] then Some False
      else case pk_pem_Decode pki remaining of
        None \<Rightarrow> Some False
      | Some (block, rest) \<Rightarrow> if IsEncryptedPEMBlock block then Some True else pem_encrypted_loop pki rest)"

definition pemContainsEncryptedBlock :: "pki \<Rightarrow> string \<Rightarrow> bool option" where
  "pemContainsEncryptedBlock pki pemBytes = pem_encrypted_loop pki pemBytes"

text \<open>A decrypted block keeps its type and loses its headers.\<close>

definition decrypted_block :: "pki \<Rightarrow> string \<Rightarrow> pem_block \<Rightarrow> pem_block result" where
  "decrypted_block pki password block =
     (if IsEncryptedPEMBlock block
      then case pk_DecryptPEMBlock pki block password of
        Inl e \<Rightarrow> Inl e
      | Inr der \<Rightarrow> Inr \<lparr>pem_Type = pem_Type block, pem_Headers = [], pem_Bytes = der\<rparr>
      else Inr block)"

partial_function (option) decrypt_loop :: "pki \<Rightarrow> string \<Rightarrow> string \<Rightarrow> string \<Rightarrow> bool \<Rightarrow> string result option" where
  "decrypt_loop pki password remaining decryptedPEM decodedAny =
     (if remaining = [] then Some (if decodedAny then Inr decryptedPEM else Inl ''invalid PEM data'')
      else case pk_pem_Decode pki remaining of
        None \<Rightarrow> Some (if decodedAny then Inr decryptedPEM else Inl ''invalid PEM data'')
      | Some (block, rest) \<Rightarrow>
          (case decrypted_block pki password block of
             Inl e \<Rightarrow> Some (Inl e)
           | Inr block \<Rightarrow> decrypt_loop pki password rest (decryptedPEM @ pk_pem_Encode pki block) True))"

definition decryptPEMPrivateKey :: "pki \<Rightarrow> string \<Rightarrow> string \<Rightarrow> string result option" where
  "decryptPEMPrivateKey pki keyPEM password = decrypt_loop pki password keyPEM [] False"

text \<open>A client certificate is the pair of texts that \<open>tls.X509KeyPair\<close> accepted.\<close>

definition key_pair :: "pki \<Rightarrow> string \<Rightarrow> string \<Rightarrow> (string \<times> string) result" where
  "key_pair pki certPEM keyPEM =
     (case pk_X509KeyPair pki certPEM keyPEM of Some e \<Rightarrow> Inl e | None \<Rightarrow> Inr (certPEM, keyPEM))"

text \<open>\<open>tls.LoadX509KeyPair\<close>\<close>

definition LoadX509KeyPair :: "pki \<Rightarrow> string \<Rightarrow> string \<Rightarrow> nat \<Rightarrow> (string \<times> string) result" where
  "LoadX509KeyPair pki certFile keyFile n =
     bind_result (pk_ReadFile pki n certFile)
       (\<lambda>certPEM. bind_result (pk_ReadFile pki (n + 1) keyFile) (\<lambda>keyPEM. key_pair pki certPEM keyPEM))"

definition key_error :: "pki \<Rightarrow> string \<Rightarrow> MonitorHTTPConfig \<Rightarrow> string \<Rightarrow> (string \<times> string) result" where
  "key_error pki msg c e =
     Inl (msg @ '' '' @ pk_Quote pki (http_ClientCertPath c) @ '' and key '' @
       pk_Quote pki (http_ClientKeyPath c) @ '': '' @ e)"

definition load_encrypted :: "pki \<Rightarrow> MonitorHTTPConfig \<Rightarrow> string \<Rightarrow> string \<Rightarrow> (string \<times> string) result option" where
  "load_encrypted pki c certPEM keyPEM =
     (case decryptPEMPrivateKey pki keyPEM (http_ClientKeyPassword c) of
        None \<Rightarrow> None
      | Some (Inl e) \<Rightarrow> Some (Inl (''decrypt http client key '' @ pk_Quote pki (http_ClientKeyPath c) @ '': '' @ e))
      | Some (Inr decryptedKeyPEM) \<Rightarrow>
          Some (case key_pair pki certPEM decryptedKeyPEM of
             Inl e \<Rightarrow> key_error pki ''load decrypted http client certificate'' c e
           | Inr certificate \<Rightarrow> Inr certificate))"

text \<open>The value \<open>None\<close> stands for a loop over PEM blocks that does not end.\<close>

definition loadClientCertificate :: "pki \<Rightarrow> MonitorHTTPConfig \<Rightarrow> nat \<Rightarrow> (string \<times> string) result option" where
  "loadClientCertificate pki c n =
     (if http_ClientKeyPassword c = [] then
        Some (case LoadX509KeyPair pki (http_ClientCertPath c) (http_ClientKeyPath c) n of
           Inl e \<Rightarrow> key_error pki ''load http client certificate'' c e
         | Inr certificate \<Rightarrow> Inr certificate)
      else
        (case pk_ReadFile pki n (http_ClientCertPath c) of
           Inl e \<Rightarrow> Some (Inl (''load http client certificate '' @ pk_Quote pki (http_ClientCertPath c) @ '': '' @ e))
         | Inr certPEM \<Rightarrow>
             (case pk_ReadFile pki (n + 1) (http_ClientKeyPath c) of
                Inl e \<Rightarrow> Some (Inl (''load http client key '' @ pk_Quote pki (http_ClientKeyPath c) @ '': '' @ e))
              | Inr keyPEM \<Rightarrow>
                  (case key_pair pki certPEM keyPEM of
                     Inr certificate \<Rightarrow> Some (Inr certificate)
                   | Inl e \<Rightarrow>
                       (case pemContainsEncryptedBlock pki keyPEM of
                          None \<Rightarrow> None
                        | Some False \<Rightarrow> Some (key_error pki ''load http client certificate'' c e)
                        | Some True \<Rightarrow> load_encrypted pki c certPEM keyPEM)))))"

section \<open>The TLS configuration\<close>

record http_tls_config =
  ht_InsecureSkipVerify :: bool
  ht_RootCAs :: "certificate list option"
  ht_Certificates :: "(string \<times> string) list"

text \<open>
  The pool of the system is loaded once per process; the state is \<open>None\<close> before that. A pool is
  cloned before it is handed out, which on lists means that the list is handed out.
\<close>

type_synonym cert_pool_state = "certificate list result option"

definition cachedSystemCertPool ::
    "pki \<Rightarrow> nat \<Rightarrow> cert_pool_state \<Rightarrow> certificate list result \<times> cert_pool_state" where
  "cachedSystemCertPool pki n st =
     (case st of
        Some r \<Rightarrow> (r, st)
      | None \<Rightarrow>
          (let r = (case pk_SystemCertPool pki n of Inl e \<Rightarrow> Inl e | Inr None \<Rightarrow> Inr [] | Inr (Some pool) \<Rightarrow> Inr pool)
           in (r, Some r)))"

definition root_cas ::
    "pki \<Rightarrow> MonitorHTTPConfig \<Rightarrow> nat \<Rightarrow> cert_pool_state \<Rightarrow> certificate list option result \<times> cert_pool_state" where
  "root_cas pki c n st =
     (if http_CACertPath c = [] then (Inr None, st)
      else case pk_ReadFile pki n (http_CACertPath c) of
        Inl e \<Rightarrow> (Inl (''load http CA certificate '' @ pk_Quote pki (http_CACertPath c) @ '': '' @ e), st)
      | Inr caCertPEM \<Rightarrow>
          (case cachedSystemCertPool pki (n + 1) st of
             (pool, st) \<Rightarrow>
               let rootCAs = (case pool of Inl _ \<Rightarrow> [] | Inr p \<Rightarrow> p)
               in if pk_certificates pki caCertPEM = []
                  then (Inl (''parse http CA certificate '' @ pk_Quote pki (http_CACertPath c) @ '': no certificates found''), st)
                  else (Inr (Some (rootCAs @ pk_certificates pki caCertPEM)), st)))"

definition NewTLSConfig ::
    "pki \<Rightarrow> MonitorHTTPConfig \<Rightarrow> nat \<Rightarrow> cert_pool_state \<Rightarrow> http_tls_config result option \<times> cert_pool_state" where
  "NewTLSConfig pki c n st =
     (case root_cas pki c n st of
        (Inl e, st) \<Rightarrow> (Some (Inl e), st)
      | (Inr roots, st) \<Rightarrow>
          (if http_ClientCertPath c = [] then
             (Some (Inr \<lparr>ht_InsecureSkipVerify = SkipTLSVerifyValue c, ht_RootCAs = roots, ht_Certificates = []\<rparr>), st)
           else
             (case loadClientCertificate pki c (n + 2) of
                None \<Rightarrow> (None, st)
              | Some (Inl e) \<Rightarrow> (Some (Inl e), st)
              | Some (Inr certificate) \<Rightarrow>
                  (Some (Inr \<lparr>ht_InsecureSkipVerify = SkipTLSVerifyValue c, ht_RootCAs = roots,
                     ht_Certificates = [certificate]\<rparr>), st))))"

section \<open>What is reported of a certificate\<close>

definition buildTLSCertInfoFromConnectionState ::
    "(int \<Rightarrow> string option) \<Rightarrow> gotime \<Rightarrow> ConnectionState \<Rightarrow> TLSCertificateInfo" where
  "buildTLSCertInfoFromConnectionState suites now tlsState =
     (case cs_PeerCertificates tlsState of
        [] \<Rightarrow> zero_tls_info
      | cert # _ \<Rightarrow>
          \<lparr>tlsinfo_Version = Some (tls_VersionName (cs_Version tlsState)),
           tlsinfo_Cipher = Some (tls_CipherSuiteName suites (cs_CipherSuite tlsState)),
           tlsinfo_NotBefore = Some (x_NotBefore cert), tlsinfo_NotAfter = Some (x_NotAfter cert),
           tlsinfo_Issuer = Some (x_Issuer cert), tlsinfo_Subject = Some (x_Subject cert),
           tlsinfo_DN = Some (x_CommonName cert), tlsinfo_Fingerprint = Some (hex_bytes (x_RawSubject cert)),
           tlsinfo_IsExpired = (now > x_NotAfter cert)\<rparr>)"

definition buildTLSCertInfoFromError :: "pki \<Rightarrow> gotime \<Rightarrow> string \<Rightarrow> TLSCertificateInfo" where
  "buildTLSCertInfoFromError pki now errStr =
     (case pk_pem_Decode pki errStr of
        None \<Rightarrow> zero_tls_info
      | Some (pemBlock, _) \<Rightarrow>
          (case pk_ParseCertificate pki (pem_Bytes pemBlock) of
             Inl _ \<Rightarrow> zero_tls_info
           | Inr cert \<Rightarrow>
               zero_tls_info\<lparr>tlsinfo_NotBefore := Some (x_NotBefore cert), tlsinfo_NotAfter := Some (x_NotAfter cert),
                 tlsinfo_Issuer := Some (x_Issuer cert), tlsinfo_Subject := Some (x_Subject cert),
                 tlsinfo_DN := Some (x_CommonName cert), tlsinfo_Fingerprint := Some (hex_bytes (x_RawSubject cert)),
                 tlsinfo_IsExpired := (now > x_NotAfter cert)\<rparr>))"

section \<open>The probe\<close>

record http_probe_request =
  rq_Method :: string
  rq_URL :: string
  rq_Headers :: "(string, string) gomap"
  rq_TLSClientConfig :: http_tls_config
  rq_Timeout :: duration

text \<open>\<open>hr_Body\<close> is nil or what \<open>io.ReadAll\<close> gives of it.\<close>

record http_response =
  hr_StatusCode :: int
  hr_ContentLength :: int
  hr_Body :: "string result option"
  hr_TLS :: "ConnectionState option"

type_synonym http_answer = "(string \<times> http_response option) + http_response"

record http_client =
  hc_NewRequest :: "string \<Rightarrow> string \<Rightarrow> string option"
  hc_Do :: "nat \<Rightarrow> http_probe_request \<Rightarrow> (trace_event \<times> gotime) list \<times> http_answer"

definition tls_from_state ::
    "pki \<Rightarrow> gotime \<Rightarrow> ConnectionState \<Rightarrow> CheckerSubmissionRequest \<Rightarrow> CheckerSubmissionRequest" where
  "tls_from_state pki now state submission =
     (let submission = submission\<lparr>sub_TlsVersion := Some (tls_VersionName (cs_Version state)),
            sub_TlsCipher := Some (tls_CipherSuiteName (pk_CipherSuites pki) (cs_CipherSuite state))\<rparr>
      in case cs_PeerCertificates state of
           [] \<Rightarrow> submission
         | cert # _ \<Rightarrow> submission\<lparr>sub_TlsExpiry := Some (x_NotAfter cert),
             sub_TlsCertInfo := buildTLSCertInfoFromConnectionState (pk_CipherSuites pki) now state\<rparr>)"

definition tls_from_error :: "pki \<Rightarrow> gotime \<Rightarrow> string \<Rightarrow> CheckerSubmissionRequest \<Rightarrow> CheckerSubmissionRequest" where
  "tls_from_error pki now err submission =
     (let certInfo = buildTLSCertInfoFromError pki now err in
      if tlsinfo_IsExpired certInfo \<or> tlsinfo_NotBefore certInfo \<noteq> None
      then submission\<lparr>sub_TlsExpiry := or_option (sub_TlsExpiry submission) (tlsinfo_NotAfter certInfo),
             sub_TlsVersion := or_option (sub_TlsVersion submission) (tlsinfo_Version certInfo),
             sub_TlsCipher := or_option (sub_TlsCipher submission) (tlsinfo_Cipher certInfo),
             sub_TlsCertInfo := certInfo\<rparr>
      else submission)"

definition tls_report ::
    "pki \<Rightarrow> gotime \<Rightarrow> CheckerTracer \<Rightarrow> http_answer \<Rightarrow> CheckerSubmissionRequest \<Rightarrow> CheckerSubmissionRequest" where
  "tls_report pki now tracer answer submission =
     (case Option.bind (case answer of Inl (_, response) \<Rightarrow> response | Inr response \<Rightarrow> Some response) hr_TLS of
        Some state \<Rightarrow> tls_from_state pki now state submission
      | None \<Rightarrow>
          (case GetTLSConnectionState tracer of
             Some state \<Rightarrow> tls_from_state pki now state submission
           | None \<Rightarrow> (case GetTLSError tracer of Some e \<Rightarrow> tls_from_error pki now e submission | None \<Rightarrow> submission)))"

definition http_verdict ::
    "Monitor \<Rightarrow> http_answer \<Rightarrow> CheckerSubmissionRequest \<Rightarrow> CheckerSubmissionRequest" where
  "http_verdict monitor answer submission =
     (case answer of
        Inl (e, _) \<Rightarrow> submission\<lparr>sub_FailureReason := Some e\<rparr>
      | Inr response \<Rightarrow>
          (let submission = submission\<lparr>sub_StatusCode := hr_StatusCode response,
                 sub_Success := IsSuccessfulStatus monitor (hr_StatusCode response) False\<rparr>;
               submission = (case hr_Body response of
                   Some (Inr bodyBytes) \<Rightarrow>
                     if hr_ContentLength response > 0 then submission\<lparr>sub_ResponseBody := Some bodyBytes\<rparr> else submission
                 | _ \<Rightarrow> submission)
           in if \<not> sub_Success submission
              then submission\<lparr>sub_FailureReason := Some (''received unexpected status code '' @ int_str (hr_StatusCode response))\<rparr>
              else submission))"

definition new_probe_request ::
    "Monitor \<Rightarrow> http_tls_config \<Rightarrow> http_probe_request" where
  "new_probe_request monitor tlsConfig =
     (let httpConfig = EffectiveHTTP monitor in
      \<lparr>rq_Method = http_Method httpConfig, rq_URL = http_URL httpConfig,
       rq_Headers = set_headers (case http_Headers httpConfig of None \<Rightarrow> [] | Some h \<Rightarrow> h) [],
       rq_TLSClientConfig = tlsConfig, rq_Timeout = EffectiveTimeout monitor (30 * second)\<rparr>)"

definition probeHTTP ::
    "network \<Rightarrow> pki \<Rightarrow> http_client \<Rightarrow> Monitor \<Rightarrow> nat \<Rightarrow> cert_pool_state \<Rightarrow>
       CheckerSubmissionRequest option \<times> nat \<times> cert_pool_state" where
  "probeHTTP net pki client monitor n st =
     (let httpConfig = EffectiveHTTP monitor;
          requestStart = nw_clock net n;
          submission = new_submission monitor (nw_clock net (n + 1))
      in case hc_NewRequest client (http_Method httpConfig) (http_URL httpConfig) of
           Some e \<Rightarrow> (Some (submission\<lparr>sub_FailureReason := Some e\<rparr>), n + 2, st)
         | None \<Rightarrow>
             (case NewTLSConfig pki httpConfig (n + 2) st of
                (None, st) \<Rightarrow> (None, n + 6, st)
              | (Some (Inl e), st) \<Rightarrow> (Some (submission\<lparr>sub_FailureReason := Some e\<rparr>), n + 6, st)
              | (Some (Inr tlsConfig), st) \<Rightarrow>
                  (case hc_Do client (n + 6) (new_probe_request monitor tlsConfig) of
                     (events, answer) \<Rightarrow>
                       let submission = submission\<lparr>sub_LatencyMs := latency_since net requestStart (n + 7),
                             sub_Timings := GetTimings (traced events)\<rparr>
                       in (Some (http_verdict monitor answer
                             (tls_report pki (nw_clock net (n + 8)) (traced events) answer submission)), n + 9, st))))"

section \<open>Choosing the probe\<close>

definition probeMonitor ::
    "network \<Rightarrow> pki \<Rightarrow> http_client \<Rightarrow> Monitor \<Rightarrow> nat \<Rightarrow> cert_pool_state \<Rightarrow>
       CheckerSubmissionRequest option \<times> nat \<times> cert_pool_state" where
  "probeMonitor net pki client monitor n st =
     (let direct = (\<lambda>(submission, n). (Some submission, n, st));
          t = EffectiveType monitor
      in if t = MonitorTypeTCP then direct (probeTCP net monitor n)
         else if t = MonitorTypeICMP then direct (probeICMP net monitor n)
         else if t = MonitorTypeRedis then direct (probeRedis net monitor n)
         else if t = MonitorTypePostgres then direct (probePostgres net monitor n)
         else if t = MonitorTypeMySQL then direct (probeMySQL net monitor n)
         else if t = MonitorTypeMSSQL then direct (probeMSSQL net monitor n)
         else if t = MonitorTypeClickHouse then direct (probeClickHouse net monitor n)
         else if t = MonitorTypeGRPC then direct (probeGRPC net monitor n)
         else probeHTTP net pki client monitor n st)"

section \<open>Loops over PEM blocks\<close>

text \<open>
  The documented behaviour of \<open>pem.Decode\<close> that the loops rely on: the rest after a block is shorter.
  \<open>pem_blocks\<close> are the blocks of a text in order, with the length of the text as fuel, which by this
  law is enough.
\<close>

definition pem_law :: "pki \<Rightarrow> bool" where
  "pem_law pki = (\<forall>s block rest. pk_pem_Decode pki s = Some (block, rest) \<longrightarrow> length rest < length s)"

fun pem_blocks :: "pki \<Rightarrow> nat \<Rightarrow> string \<Rightarrow> pem_block list" where
  "pem_blocks pki 0 s = []"
| "pem_blocks pki (Suc k) s =
     (case (if s = [] then None else pk_pem_Decode pki s) of
        None \<Rightarrow> []
      | Some (block, rest) \<Rightarrow> block # pem_blocks pki k rest)"

lemma pem_law_shorter: "pem_law pki \<Longrightarrow> pk_pem_Decode pki s = Some (block, rest) \<Longrightarrow> length rest < length s"
  by (auto simp: pem_law_def)

lemma pem_encrypted_loop_eq:
  "pem_law pki \<Longrightarrow> length s \<le> k \<Longrightarrow>
     pem_encrypted_loop pki s = Some (list_ex IsEncryptedPEMBlock (pem_blocks pki k s))"
proof (induction k arbitrary: s)
  case 0
  then show ?case by (simp add: pem_encrypted_loop.simps)
next
  case (Suc k)
  then show ?case
    using pem_law_shorter [OF Suc.prems(1), of s]
    by (fastforce simp: pem_encrypted_loop.simps [of pki s] split: option.split prod.split)
qed

text \<open>The text of a block without its password, or the error of decrypting it.\<close>

definition clear_text :: "pki \<Rightarrow> string \<Rightarrow> pem_block \<Rightarrow> string result" where
  "clear_text pki password block = map_sum id (pk_pem_Encode pki) (decrypted_block pki password block)"

fun join_results :: "string \<Rightarrow> string result list \<Rightarrow> string result" where
  "join_results acc [] = Inr acc"
| "join_results acc (r # rs) = (case r of Inl e \<Rightarrow> Inl e | Inr t \<Rightarrow> join_results (acc @ t) rs)"

lemma decrypt_loop_eq:
  "pem_law pki \<Longrightarrow> length s \<le> k \<Longrightarrow>
     decrypt_loop pki password s acc decoded =
       Some (if \<not> decoded \<and> pem_blocks pki k s = [] then Inl ''invalid PEM data''
             else join_results acc (map (clear_text pki password) (pem_blocks pki k s)))"
proof (induction k arbitrary: s acc decoded)
  case 0
  then show ?case by (simp add: decrypt_loop.simps)
next
  case (Suc k)
  show ?case
  proof (cases "if s = [] then None else pk_pem_Decode pki s")
    case None
    then show ?thesis
      by (simp add: decrypt_loop.simps [of pki password s] split: if_splits)
  next
    case (Some x)
    obtain block rest where x: "x = (block, rest)"
      by (cases x)
    have s: "s \<noteq> []" and d: "pk_pem_Decode pki s = Some (block, rest)"
      using Some by (simp_all add: x split: if_splits)
    have "length rest \<le> k"
      using pem_law_shorter [OF Suc.prems(1) d] Suc.prems(2) by simp
    from Suc.IH [OF Suc.prems(1) this] show ?thesis
      by (cases "decrypted_block pki password block")
        (simp_all add: decrypt_loop.simps [of pki password s] s d clear_text_def)
  qed
qed

text \<open>
  C37: Decrypting a key file always ends. It gives the blocks of the file in their order, each
  encrypted one replaced by what the password opens, and fails exactly when the file has no block or
  the password does not open one; whether the file needs a password is decided by its blocks alone.
\<close>

theorem key_decryption_returns:
  assumes "pem_law pki"
  shows "decryptPEMPrivateKey pki keyPEM password =
      Some (let blocks = pem_blocks pki (length keyPEM) keyPEM in
        if blocks = [] then Inl ''invalid PEM data'' else join_results [] (map (clear_text pki password) blocks)) \<and>
    pemContainsEncryptedBlock pki keyPEM = Some (list_ex IsEncryptedPEMBlock (pem_blocks pki (length keyPEM) keyPEM))"
  using decrypt_loop_eq [OF assms, of keyPEM "length keyPEM"] pem_encrypted_loop_eq [OF assms, of keyPEM "length keyPEM"]
  by (simp add: decryptPEMPrivateKey_def pemContainsEncryptedBlock_def Let_def)

text \<open>A small PEM format: a line is a block, and a line that begins with \<open>E\<close> is an encrypted one.\<close>

definition ex_line :: "string \<Rightarrow> (pem_block \<times> string) option" where
  "ex_line s =
     (if CHR 0x0A \<in> set s
      then let line = takeWhile (\<lambda>c. c \<noteq> CHR 0x0A) s in
        Some (\<lparr>pem_Type = ''KEY'', pem_Headers = (if prefix ''E'' line then [(''DEK-Info'', ''AES'')] else []),
                pem_Bytes = line\<rparr>, drop (length line + 1) s)
      else None)"

definition ex_pki :: pki where
  "ex_pki = \<lparr>pk_ReadFile = \<lambda>n path. if path = ''ca'' then Inr ''ca'' else Inl ''no such file'',
     pk_SystemCertPool = \<lambda>n. Inr None,
     pk_certificates = \<lambda>s. [\<lparr>x_NotBefore = 0, x_NotAfter = 9, x_Issuer = ''CN=root'', x_Subject = ''CN=root'',
       x_CommonName = ''root'', x_RawSubject = ''r''\<rparr>],
     pk_X509KeyPair = \<lambda>cert key. None, pk_pem_Decode = ex_line,
     pk_DecryptPEMBlock = \<lambda>b password. if password = ''secret'' then Inr (tl (pem_Bytes b)) else Inl ''wrong password'',
     pk_pem_Encode = \<lambda>b. pem_Bytes b @ [CHR 0x0A],
     pk_ParseCertificate = \<lambda>s. Inl ''malformed'', pk_CipherSuites = \<lambda>c. None, pk_Quote = \<lambda>s. s\<rparr>"

lemma ex_pki_law: "pem_law ex_pki"
  by (auto simp: pem_law_def ex_pki_def ex_line_def Let_def split: if_splits) (case_tac s; simp)

theorem key_decryption_returns_witness:
  "decryptPEMPrivateKey ex_pki [CHR ''a'', CHR 0x0A, CHR ''E'', CHR ''b'', CHR 0x0A] ''secret'' =
     Some (Inr [CHR ''a'', CHR 0x0A, CHR ''b'', CHR 0x0A])"
  using key_decryption_returns [OF ex_pki_law, of "[CHR ''a'', CHR 0x0A, CHR ''E'', CHR ''b'', CHR 0x0A]" "''secret''"]
  by (simp add: ex_pki_def ex_line_def Let_def clear_text_def decrypted_block_def IsEncryptedPEMBlock_def eval_nat_numeral)

section \<open>The pool of the system\<close>

lemma cachedSystemCertPool_loaded [simp]: "cachedSystemCertPool pki n (Some r) = (r, Some r)"
  by (simp add: cachedSystemCertPool_def)

lemma root_cas_keeps_pool: "root_cas pki c n (Some r) = (x, st) \<Longrightarrow> st = Some r"
  by (auto simp: root_cas_def Let_def split: sum.splits if_splits)

lemma NewTLSConfig_keeps_pool: "NewTLSConfig pki c n (Some r) = (x, st) \<Longrightarrow> st = Some r"
  using root_cas_keeps_pool [of pki c n r]
  by (auto simp: NewTLSConfig_def split: prod.splits sum.splits option.splits if_splits)

lemma probeHTTP_keeps_pool: "snd (snd (probeHTTP net pki client monitor n (Some r))) = Some r"
  using NewTLSConfig_keeps_pool [of pki "EffectiveHTTP monitor" "n + 2" r]
  by (auto simp: probeHTTP_def Let_def split: prod.splits sum.splits option.splits)

lemma NewTLSConfig_roots:
  assumes "NewTLSConfig pki c n (Some r) = (Some (Inr cfg), st)"
  shows "ht_RootCAs cfg =
    (if http_CACertPath c = [] then None
     else Some ((case r of Inl _ \<Rightarrow> [] | Inr pool \<Rightarrow> pool) @
       (case pk_ReadFile pki n (http_CACertPath c) of Inl _ \<Rightarrow> [] | Inr pem \<Rightarrow> pk_certificates pki pem)))"
  using assms
  by (auto simp: NewTLSConfig_def root_cas_def Let_def split: prod.splits sum.splits option.splits if_splits)

text \<open>
  A private authority is trusted only by the monitor that names it. Once the system's pool is
  loaded no probe changes it, and a monitor's configuration trusts the system's pool and the
  authorities in its own file, whatever was probed before.
\<close>

theorem authorities_do_not_leak:
  assumes "NewTLSConfig pki (EffectiveHTTP monitor) k (Some r) = (Some (Inr cfg), st)"
  shows "snd (snd (probeMonitor net pki client other n (Some r))) = Some r \<and>
    ht_RootCAs cfg =
      (let c = EffectiveHTTP monitor in
       if http_CACertPath c = [] then None
       else Some ((case r of Inl _ \<Rightarrow> [] | Inr pool \<Rightarrow> pool) @
         (case pk_ReadFile pki k (http_CACertPath c) of Inl _ \<Rightarrow> [] | Inr pem \<Rightarrow> pk_certificates pki pem)))"
  using NewTLSConfig_roots [OF assms] probeHTTP_keeps_pool
  by (simp add: probeMonitor_def Let_def split: prod.split)

definition ex_https :: Monitor where
  "ex_https = zero_monitor\<lparr>mon_ID := ''shop'', mon_Url := ''https://shop'',
     mon_HTTP := Some (zero_http\<lparr>http_CACertPath := ''ca''\<rparr>)\<rparr>"

theorem authorities_do_not_leak_witness:
  "\<exists>cfg. NewTLSConfig ex_pki (EffectiveHTTP ex_https) 0 (Some (Inr [])) = (Some (Inr cfg), Some (Inr [])) \<and>
     map_option length (ht_RootCAs cfg) = Some 1"
proof -
  define cfg where "cfg = \<lparr>ht_InsecureSkipVerify = False, ht_RootCAs = Some (pk_certificates ex_pki ''ca''),
    ht_Certificates = []\<rparr>"
  have n: "NewTLSConfig ex_pki (EffectiveHTTP ex_https) 0 (Some (Inr [])) = (Some (Inr cfg), Some (Inr []))"
    by (simp add: NewTLSConfig_def root_cas_def EffectiveHTTP_def ex_https_def zero_monitor_def zero_http_def
        or_option_def or_list_def SkipTLSVerifyValue_def ex_pki_def cfg_def)
  from authorities_do_not_leak [OF n] show ?thesis
    using n by (auto simp: EffectiveHTTP_def ex_https_def zero_monitor_def zero_http_def ex_pki_def)
qed

section \<open>The verdict\<close>

lemma undecided_tls_report:
  "undecided monitor s \<Longrightarrow> undecided monitor (tls_report pki now tracer answer s)"
  by (simp add: undecided_def tls_report_def tls_from_state_def tls_from_error_def Let_def
      split: option.split list.split sum.split)

lemma verdict_http:
  "undecided monitor s \<Longrightarrow> verdict_of monitor (http_verdict monitor answer s)"
  by (auto simp: undecided_def verdict_of_def http_verdict_def Let_def split: sum.split option.split)

definition gives_verdict :: "Monitor \<Rightarrow> CheckerSubmissionRequest option \<times> nat \<times> cert_pool_state \<Rightarrow> bool" where
  "gives_verdict monitor r = (\<exists>s n' st'. r = (Some s, n', st') \<and> verdict_of monitor s)"

lemma gives_verdict_direct:
  "verdict_of monitor (fst p) \<Longrightarrow> gives_verdict monitor (case p of (s, n) \<Rightarrow> (Some s, n, st))"
  by (cases p) (simp add: gives_verdict_def)

lemma NewTLSConfig_returns:
  assumes "pem_law pki"
  shows "\<exists>x st'. NewTLSConfig pki c n st = (Some x, st')"
proof -
  have enc: "\<exists>b. pemContainsEncryptedBlock pki s = Some b" for s
    using pem_encrypted_loop_eq [OF assms, of s "length s"] by (simp add: pemContainsEncryptedBlock_def)
  have dec: "\<exists>r. decryptPEMPrivateKey pki s p = Some r" for s p
    using decrypt_loop_eq [OF assms, of s "length s"] by (simp add: decryptPEMPrivateKey_def)
  have le: "\<exists>r. load_encrypted pki c s t = Some r" for s t
    using dec [of t "http_ClientKeyPassword c"] by (auto simp: load_encrypted_def split: sum.split)
  have "\<exists>r. loadClientCertificate pki c k = Some r" for k
  proof -
    have "\<exists>r. (case pemContainsEncryptedBlock pki t of None \<Rightarrow> None
        | Some False \<Rightarrow> Some (key_error pki ''load http client certificate'' c e)
        | Some True \<Rightarrow> load_encrypted pki c s t) = Some r" for s t e
      using enc [of t] le [of s t] by (auto split: bool.split)
    then show ?thesis
      by (simp add: loadClientCertificate_def split: sum.split)
  qed
  then have lc: "loadClientCertificate pki c k \<noteq> None" for k
    by (metis option.distinct(1))
  show ?thesis
    using lc by (auto simp: NewTLSConfig_def split: prod.split sum.split option.split) (metis lc)+
qed

lemma probeHTTP_verdict:
  assumes "pem_law pki"
  shows "gives_verdict monitor (probeHTTP net pki client monitor n st)"
proof -
  obtain x st' where x: "NewTLSConfig pki (EffectiveHTTP monitor) (n + 2) st = (Some x, st')"
    using NewTLSConfig_returns [OF assms] by blast
  have u: "undecided monitor (new_submission monitor now)" for now
    by simp
  have f: "undecided monitor s \<Longrightarrow> verdict_of monitor (s\<lparr>sub_FailureReason := Some e\<rparr>)" for s e
    by (simp add: undecided_def verdict_of_def)
  have t: "undecided monitor s \<Longrightarrow> undecided monitor (s\<lparr>sub_Timings := ts\<rparr>)" for s ts
    by (simp add: undecided_def)
  show ?thesis
  proof (cases "hc_NewRequest client (http_Method (EffectiveHTTP monitor)) (http_URL (EffectiveHTTP monitor))")
    case (Some e)
    then show ?thesis
      by (simp add: probeHTTP_def gives_verdict_def Let_def f)
  next
    case None
    then show ?thesis
      using x by (cases x) (simp_all add: probeHTTP_def gives_verdict_def Let_def f t verdict_http undecided_tls_report split: prod.split)
  qed
qed

lemma probeMonitor_verdict:
  assumes "pem_law pki"
  shows "gives_verdict monitor (probeMonitor net pki client monitor n st)"
  using probeHTTP_verdict [OF assms, of monitor net client n st]
  by (simp add: probeMonitor_def Let_def verdict_probes probePostgres_def probeMySQL_def probeMSSQL_def
      probeClickHouse_def gives_verdict_direct)

text \<open>
  C36: A check of any type ends with a verdict: the submission names its monitor and type, and it
  carries a reason for failure exactly when it is not a success.
\<close>

theorem every_probe_gives_a_verdict:
  assumes "pem_law pki"
  shows "\<exists>s n' st'. probeMonitor net pki client monitor n st = (Some s, n', st') \<and>
    sub_MonitorID s = mon_ID monitor \<and> sub_ProbeType s = EffectiveType monitor \<and>
    (sub_Success s \<longleftrightarrow> sub_FailureReason s = None)"
  using probeMonitor_verdict [OF assms] by (simp add: gives_verdict_def verdict_of_def)

definition ex_network :: network where
  "ex_network = \<lparr>nw_clock = \<lambda>n. int n * 1000000, nw_dial = \<lambda>n a t. None, nw_dial_tls = \<lambda>n a t s. None,
     nw_handshake = \<lambda>n s h. None, nw_set_deadline = \<lambda>n t. None, nw_write = \<lambda>n s. None,
     nw_read = \<lambda>n. Inr ''+PONG'', nw_ping = \<lambda>n args. ([], None), nw_sql_open = \<lambda>n d dsn. None,
     nw_sql_ping = \<lambda>n t. None, nw_grpc_client = \<lambda>n a c. None, nw_grpc_check = \<lambda>n s t. Inr 1,
     nw_grpc_name = \<lambda>s. ''SERVING''\<rparr>"

definition ex_client :: http_client where
  "ex_client = \<lparr>hc_NewRequest = \<lambda>m u. None,
     hc_Do = \<lambda>n r. ([(GetConn, 5000000), (GotConn, 6000000)],
       Inr \<lparr>hr_StatusCode = 503, hr_ContentLength = 0, hr_Body = None, hr_TLS = None\<rparr>)\<rparr>"

theorem every_probe_gives_a_verdict_witness:
  "\<exists>s n' st'. probeMonitor ex_network ex_pki ex_client ex_https 0 None = (Some s, n', st') \<and>
    sub_MonitorID s = ''shop'' \<and> sub_ProbeType s = ''http'' \<and> (sub_Success s \<longleftrightarrow> sub_FailureReason s = None)"
  using every_probe_gives_a_verdict [OF ex_pki_law, of ex_network ex_client ex_https 0 None]
  by (simp add: ex_https_def EffectiveType_def zero_monitor_def MonitorTypeHTTP_def)

lemma http_verdict_success:
  "undecided monitor s \<Longrightarrow> sub_Success (http_verdict monitor answer s) \<longleftrightarrow>
     (case answer of Inl _ \<Rightarrow> False | Inr response \<Rightarrow> IsSuccessfulStatus monitor (hr_StatusCode response) False)"
  by (simp add: undecided_def http_verdict_def Let_def split: sum.split option.split)

text \<open>
  C23: An HTTP monitor is found up exactly when the request can be made, its TLS files can be loaded,
  the client returns a response, and the status code of the response is one of the expected ones.
\<close>

theorem http_probe_success:
  assumes "EffectiveType monitor = MonitorTypeHTTP"
    and "probeMonitor net pki client monitor n st = (Some s, n', st')"
  shows "sub_Success s \<longleftrightarrow>
    hc_NewRequest client (http_Method (EffectiveHTTP monitor)) (http_URL (EffectiveHTTP monitor)) = None \<and>
    (\<exists>cfg response. fst (NewTLSConfig pki (EffectiveHTTP monitor) (n + 2) st) = Some (Inr cfg) \<and>
       snd (hc_Do client (n + 6) (new_probe_request monitor cfg)) = Inr response \<and>
       hr_StatusCode response \<in> set (http_ExpectedStatusCodes (EffectiveHTTP monitor)))"
proof -
  have p: "probeHTTP net pki client monitor n st = (Some s, n', st')"
    using assms by (simp add: probeMonitor_def monitor_types)
  have f: "\<not> sub_Success (new_submission monitor now\<lparr>sub_FailureReason := e\<rparr>)" for now e
    by (simp add: new_submission_def zero_submission_def)
  show ?thesis
  proof (cases "hc_NewRequest client (http_Method (EffectiveHTTP monitor)) (http_URL (EffectiveHTTP monitor))")
    case (Some e)
    then show ?thesis
      using p f by (auto simp: probeHTTP_def Let_def)
  next
    case None
    obtain x st1 where x: "NewTLSConfig pki (EffectiveHTTP monitor) (n + 2) st = (x, st1)"
      by (cases "NewTLSConfig pki (EffectiveHTTP monitor) (n + 2) st")
    consider "x = None" | e where "x = Some (Inl e)" | cfg where "x = Some (Inr cfg)"
      by (metis obj_sumE option.exhaust)
    then show ?thesis
    proof cases
      case 3
      obtain events answer where d: "hc_Do client (n + 6) (new_probe_request monitor cfg) = (events, answer)"
        by (cases "hc_Do client (n + 6) (new_probe_request monitor cfg)")
      define u where "u = tls_report pki (nw_clock net (n + 8)) (traced events) answer
        (new_submission monitor (nw_clock net (n + 1))
          \<lparr>sub_LatencyMs := latency_since net (nw_clock net n) (n + 7), sub_Timings := GetTimings (traced events)\<rparr>)"
      have "undecided monitor u"
        unfolding u_def by (rule undecided_tls_report) (simp add: undecided_def new_submission_def zero_submission_def)
      moreover have "s = http_verdict monitor answer u"
        using p None x 3 d by (simp add: probeHTTP_def Let_def u_def)
      ultimately show ?thesis
        using None x 3 d assms(1) by (simp add: http_verdict_success IsSuccessfulStatus_def split: sum.split)
    qed (use p None x f in \<open>auto simp: probeHTTP_def Let_def\<close>)
  qed
qed

theorem http_probe_success_witness:
  "\<exists>s n' st'. probeMonitor ex_network ex_pki ex_client ex_https 0 None = (Some s, n', st') \<and> \<not> sub_Success s"
proof -
  obtain s n' st' where p: "probeMonitor ex_network ex_pki ex_client ex_https 0 None = (Some s, n', st')"
    using probeHTTP_verdict [OF ex_pki_law, of ex_https ex_network ex_client 0 None]
    by (auto simp: gives_verdict_def probeMonitor_def monitor_types ex_https_def EffectiveType_def zero_monitor_def)
  have "EffectiveType ex_https = MonitorTypeHTTP"
    by (simp add: ex_https_def EffectiveType_def zero_monitor_def)
  from http_probe_success [OF this p] have "\<not> sub_Success s"
    by (auto simp: ex_client_def ex_https_def EffectiveHTTP_def zero_monitor_def zero_http_def or_list_def)
  with p show ?thesis
    by blast
qed

section \<open>A handshake that fails\<close>

lemma no_handshake_no_state: "tls_done \<notin> set (kinds events) \<Longrightarrow> tr_tlsConnState (traced events) = None"
proof (induction events rule: rev_induct)
  case Nil
  then show ?case
    by (simp add: traced_def NewCheckerTracer_def)
next
  case (snoc x events)
  then show ?case
    by (cases x; cases "fst x") (auto simp: traced_snoc event_kind_def tls_done_def)
qed

lemma first_state_stays:
  "tr_tlsConnState (traced before) = Some state \<Longrightarrow> tr_tlsConnState (traced (before @ after)) = Some state"
proof (induction after rule: rev_induct)
  case (snoc x after)
  obtain e t where x: "x = (e, t)"
    by (cases x)
  have "traced (before @ after @ [x]) = client_trace e t (traced (before @ after))"
    using traced_snoc [of "before @ after" e t] by (simp add: x)
  then show ?case
    using snoc by (cases e) auto
qed simp

lemma version_zero: "tls_VersionName 0 = ''0x0000''"
  by (simp add: tls_VersionName_def hex16_def hex_digit_def upper_char_def char_of_def bit_0)

text \<open>
  When a request fails, the certificate inside the error of its TLS handshake is never reported:
  the callback stores an empty connection state together with the error, the state is looked at
  first, and the submission says version and cipher suite number zero.
\<close>

theorem failed_handshake_hides_certificate:
  assumes "tls_done \<notin> set (kinds before)"
  shows "tls_report pki now
      (traced (before @ (TLSHandshakeDone \<lparr>cs_Version = 0, cs_CipherSuite = 0, cs_PeerCertificates = []\<rparr> (Some err), t) # after))
      (Inl (e, None)) s =
    s\<lparr>sub_TlsVersion := Some ''0x0000'', sub_TlsCipher := Some (tls_CipherSuiteName (pk_CipherSuites pki) 0)\<rparr>"
proof -
  let ?state = "\<lparr>cs_Version = 0, cs_CipherSuite = 0, cs_PeerCertificates = []\<rparr> :: ConnectionState"
  let ?done = "before @ [(TLSHandshakeDone ?state (Some err), t)]"
  have "tr_tlsConnState (traced ?done) = Some ?state"
    using no_handshake_no_state [OF assms] by (simp add: traced_snoc)
  from first_state_stays [OF this, of after] show ?thesis
    by (simp add: tls_report_def GetTLSConnectionState_def tls_from_state_def version_zero)
qed

theorem failed_handshake_hides_certificate_witness:
  "sub_TlsVersion (tls_report ex_pki 0
     (traced ([(GetConn, 1), (TLSHandshakeStart, 2)] @
        (TLSHandshakeDone \<lparr>cs_Version = 0, cs_CipherSuite = 0, cs_PeerCertificates = []\<rparr> (Some ''certificate has expired''), 3) # []))
     (Inl (''certificate has expired'', None)) zero_submission) = Some ''0x0000''"
  by (subst failed_handshake_hides_certificate) (simp_all add: event_kind_def tls_done_def)

end
