(* ===== verification/Checker.thy ===== *)
theory Checker
  imports Checker_Probe_HTTP Config_Server
begin

text \<open>
  \<open>checker.go\<close>: registering with the server, deciding which monitors to check and when, sending the
  results, and the loop over all of it.

  Parameters besides those of the probes: the server as the checker sees it (\<open>upstream\<close>), numbered
  interactions as in \<open>Checker_Probe\<close>; \<open>url.JoinPath\<close> and the check of the URL by
  \<open>http.NewRequest\<close>; \<open>json.Marshal\<close>, of which only the error matters, since a body is written here
  as the value it encodes. Tracing and metrics are left out.
\<close>

section \<open>The server as the checker sees it\<close>

record 'b checker_post =
  cp_URL :: string
  cp_Headers :: "(string, string) gomap"
  cp_Body :: 'b

record upstream =
  up_JoinPath :: "string \<Rightarrow> string \<Rightarrow> string result"
  up_NewRequest :: "string \<Rightarrow> string option"
  up_register :: "nat \<Rightarrow> CheckerRegistrationRequest checker_post \<Rightarrow> (int \<times> MonitorConfig result) result"
  up_submit :: "nat \<Rightarrow> CheckerSubmissionRequest checker_post \<Rightarrow> int result"
  up_Marshal :: "CheckerSubmissionRequest \<Rightarrow> string option"

record Checker =
  ck_config :: CheckerConfig
  ck_shutdown :: bool
  ck_submissions :: nat
  ck_submissionsClosing :: bool
  ck_monitors :: MonitorConfig
  ck_nextUpstreamFetch :: "gotime option"

definition NewChecker :: "CheckerConfig \<Rightarrow> Checker" where
  "NewChecker config = \<lparr>ck_config = config, ck_shutdown = False, ck_submissions = 0,
     ck_submissionsClosing = False, ck_monitors = \<lparr>mc_Monitors = [], mc_Groups = []\<rparr>,
     ck_nextUpstreamFetch = None\<rparr>"

definition checker_headers :: "CheckerConfig \<Rightarrow> (string, string) gomap" where
  "checker_headers config =
     set_headers [(''Content-Type'', ''application/json''), (''X-API-Key'', cc_ApiKey config),
       (''User-Agent'', ''eyrie-checker/1.0'')] []"

section \<open>Registration\<close>

text \<open>\<open>RegistrationFailed\<close> stands for errors that wrap \<open>ErrCheckerRegistrationFailed\<close>.\<close>

datatype register_error = RegistrationFailed int | RegisterError string

definition registration_request :: "CheckerConfig \<Rightarrow> string \<Rightarrow> CheckerRegistrationRequest checker_post" where
  "registration_request config requestUrl =
     \<lparr>cp_URL = requestUrl, cp_Headers = checker_headers config,
      cp_Body = \<lparr>reg_Name = checker_config_EffectiveName config, reg_Region = cc_Region config\<rparr>\<rparr>"

definition registerToUpstream :: "upstream \<Rightarrow> nat \<Rightarrow> Checker \<Rightarrow> register_error option \<times> Checker" where
  "registerToUpstream up n c =
     (case up_JoinPath up (cc_UpstreamURL (ck_config c)) ''/checker/register'' of
        Inl e \<Rightarrow> (Some (RegisterError (''joining upstream URL: '' @ e)), c)
      | Inr requestUrl \<Rightarrow>
          (case up_NewRequest up requestUrl of
             Some e \<Rightarrow> (Some (RegisterError (''creating registration request: '' @ e)), c)
           | None \<Rightarrow>
               (case up_register up n (registration_request (ck_config c) requestUrl) of
                  Inl e \<Rightarrow> (Some (RegisterError (''sending registration request: '' @ e)), c)
                | Inr (status, body) \<Rightarrow>
                    if status \<noteq> 200 then (Some (RegistrationFailed status), c)
                    else (case body of
                        Inl e \<Rightarrow> (Some (RegisterError (''decoding registration response: '' @ e)), c)
                      | Inr monitorConfig \<Rightarrow> (None, c\<lparr>ck_monitors := monitorConfig\<rparr>)))))"

section \<open>One check\<close>

datatype check_outcome =
    IntervalError
  | IntervalNotMet
  | ProbeHangs
  | SubmissionsClosed CheckerSubmissionRequest
  | Submitted CheckerSubmissionRequest

definition interval_met :: "duration \<Rightarrow> gotime \<Rightarrow> bool" where
  "interval_met parsedInterval currentTime =
     (\<not> parsedInterval > minute \<or> unix_seconds currentTime smod whole_seconds parsedInterval = 0)"

definition finish_submission :: "gotime \<Rightarrow> CheckerSubmissionRequest \<Rightarrow> CheckerSubmissionRequest" where
  "finish_submission now submission =
     (let submission = (if sub_Timestamp submission = zero_time then submission\<lparr>sub_Timestamp := now\<rparr> else submission)
      in if \<not> sub_Success submission \<and> sub_FailureReason submission = None
         then submission\<lparr>sub_FailureReason := Some ''probe failed''\<rparr> else submission)"

text \<open>\<open>ProbeHangs\<close>: the loop over a key file does not end, which \<open>pem_law\<close> excludes.\<close>

definition performMonitorCheck ::
    "network \<Rightarrow> pki \<Rightarrow> http_client \<Rightarrow> Monitor \<Rightarrow> nat \<Rightarrow> Checker \<times> cert_pool_state \<Rightarrow>
       check_outcome \<times> Checker \<times> cert_pool_state" where
  "performMonitorCheck net pki client monitor n cst =
     (case cst of (c, st) \<Rightarrow>
        case ParseDuration (mon_Interval monitor) of
          None \<Rightarrow> (IntervalError, c, st)
        | Some parsedInterval \<Rightarrow>
            if \<not> interval_met parsedInterval (nw_clock net n) then (IntervalNotMet, c, st)
            else
              (case probeMonitor net pki client monitor (n + 1) st of
                 (None, n, st) \<Rightarrow> (ProbeHangs, c, st)
               | (Some submission, n, st) \<Rightarrow>
                   let submission = finish_submission (nw_clock net n) submission
                   in if ck_submissionsClosing c then (SubmissionsClosed submission, c, st)
                      else (Submitted submission, c\<lparr>ck_submissions := ck_submissions c + 1\<rparr>, st)))"

section \<open>Sending a submission\<close>

definition maxAttempts :: nat where
  "maxAttempts = 3"

datatype send_event = Posted "CheckerSubmissionRequest checker_post" "int result" | Slept duration

definition retry_delay :: "nat \<Rightarrow> send_event list" where
  "retry_delay i = (if i < maxAttempts then [Slept (int i * 250 * 1000000)] else [])"

text \<open>The loop over the attempts that are left: whether one succeeded, and what happened.\<close>

fun send_attempts ::
    "upstream \<Rightarrow> CheckerSubmissionRequest checker_post \<Rightarrow> nat \<Rightarrow> nat \<Rightarrow> nat \<Rightarrow> bool \<times> send_event list" where
  "send_attempts up request 0 i n = (False, [])"
| "send_attempts up request (Suc left) i n =
     (let retry = (\<lambda>posted. case send_attempts up request left (i + 1) (n + 1) of
            (sent, events) \<Rightarrow> (sent, posted @ retry_delay i @ events))
      in case up_NewRequest up (cp_URL request) of
           Some e \<Rightarrow> retry []
         | None \<Rightarrow>
             (case up_submit up n request of
                Inl e \<Rightarrow> retry [Posted request (Inl e)]
              | Inr status \<Rightarrow>
                  if status \<noteq> 200 then retry [Posted request (Inr status)]
                  else (True, [Posted request (Inr status)])))"

definition submission_request ::
    "CheckerConfig \<Rightarrow> string \<Rightarrow> CheckerSubmissionRequest \<Rightarrow> CheckerSubmissionRequest checker_post" where
  "submission_request config requestUrl submission =
     \<lparr>cp_URL = requestUrl, cp_Headers = checker_headers config, cp_Body = submission\<rparr>"

definition sendMonitorSubmission ::
    "upstream \<Rightarrow> CheckerConfig \<Rightarrow> CheckerSubmissionRequest \<Rightarrow> nat \<Rightarrow> bool \<times> send_event list" where
  "sendMonitorSubmission up config submission n =
     (if up_Marshal up submission \<noteq> None then (False, [])
      else case up_JoinPath up (cc_UpstreamURL config) ''/checker/submit'' of
        Inl e \<Rightarrow> (False, [])
      | Inr requestUrl \<Rightarrow> send_attempts up (submission_request config requestUrl submission) maxAttempts 1 n)"

section \<open>The loop\<close>

definition seconds_of :: "gotime \<Rightarrow> int" where
  "seconds_of t = unix_seconds t mod 60"

definition minute_of :: "gotime \<Rightarrow> int" where
  "minute_of t = unix_seconds t div 60"

text \<open>One round of the loop of \<open>Start\<close>: return, sleep, or a cycle of checks, after which the configuration is fetched or not.\<close>

datatype loop_action = LoopReturn | LoopSleep duration | LoopCycle "Monitor list" bool

definition loop_round :: "Checker \<Rightarrow> gotime \<Rightarrow> loop_action" where
  "loop_round c currentTime =
     (if ck_shutdown c then LoopReturn
      else case ck_nextUpstreamFetch c of
        None \<Rightarrow> LoopSleep second
      | Some nextUpstreamFetch \<Rightarrow>
          if mc_Monitors (ck_monitors c) = [] then LoopSleep (30 * second)
          else if seconds_of currentTime \<noteq> 0
            then LoopSleep (time_sub (truncate_time currentTime minute + minute) currentTime)
          else LoopCycle (mc_Monitors (ck_monitors c)) (currentTime > nextUpstreamFetch))"

definition stop_checker :: "Checker \<Rightarrow> Checker" where
  "stop_checker c = c\<lparr>ck_shutdown := True, ck_submissionsClosing := True\<rparr>"

text \<open>
  The goroutines of the program as steps. The main one is registering, at the top of its loop, or in
  a cycle with the checks that have not ended; a check that waits for a free place longer than the
  five minutes of the cycle's context is dropped. Next to it run the fetches of the configuration,
  each with the time of the cycle that started it. The log tells what happened, newest first. Time
  passes between steps, at least as long as the code sleeps.
\<close>

datatype phase = Registering | Looping | Checking gotime "Monitor list" bool | Returned "register_error option"

datatype checker_event = CycleStarted gotime | Checked Monitor check_outcome | FetchStarted gotime

record checker_run =
  rn_phase :: phase
  rn_checker :: Checker
  rn_pool :: cert_pool_state
  rn_fetches :: "gotime list"
  rn_now :: gotime
  rn_log :: "checker_event list"

inductive checker_step :: "checker_run \<Rightarrow> checker_run \<Rightarrow> bool" where
  registered:
    "rn_phase s = Registering \<Longrightarrow> registerToUpstream up n (rn_checker s) = (None, c) \<Longrightarrow> rn_now s \<le> t \<Longrightarrow>
     checker_step s (s\<lparr>rn_phase := Looping, rn_checker := c\<lparr>ck_nextUpstreamFetch := Some (t + 10 * minute)\<rparr>, rn_now := t\<rparr>)"
| retry_registration:
    "rn_phase s = Registering \<Longrightarrow> registerToUpstream up n (rn_checker s) = (Some (RegistrationFailed status), c) \<Longrightarrow>
     rn_now s + 10 * second \<le> t \<Longrightarrow>
     checker_step s (s\<lparr>rn_checker := c, rn_now := t\<rparr>)"
| stopped_registering:
    "rn_phase s = Registering \<Longrightarrow> ck_shutdown (rn_checker s) \<Longrightarrow> rn_now s \<le> t \<Longrightarrow>
     checker_step s (s\<lparr>rn_phase := Returned None, rn_now := t\<rparr>)"
| registration_error:
    "rn_phase s = Registering \<Longrightarrow> registerToUpstream up n (rn_checker s) = (Some (RegisterError e), c) \<Longrightarrow>
     rn_now s \<le> t \<Longrightarrow>
     checker_step s (s\<lparr>rn_phase := Returned (Some (RegisterError e)), rn_checker := c, rn_now := t\<rparr>)"
| loop_return:
    "rn_phase s = Looping \<Longrightarrow> loop_round (rn_checker s) (rn_now s) = LoopReturn \<Longrightarrow>
     checker_step s (s\<lparr>rn_phase := Returned None\<rparr>)"
| loop_sleep:
    "rn_phase s = Looping \<Longrightarrow> loop_round (rn_checker s) (rn_now s) = LoopSleep d \<Longrightarrow> rn_now s + d \<le> t \<Longrightarrow>
     checker_step s (s\<lparr>rn_now := t\<rparr>)"
| cycle:
    "rn_phase s = Looping \<Longrightarrow> loop_round (rn_checker s) (rn_now s) = LoopCycle monitors fetch \<Longrightarrow> rn_now s \<le> t \<Longrightarrow>
     checker_step s (s\<lparr>rn_phase := Checking (rn_now s) monitors fetch, rn_now := t, rn_log := CycleStarted (rn_now s) # rn_log s\<rparr>)"
| check:
    "rn_phase s = Checking t0 (before @ monitor # after) fetch \<Longrightarrow> rn_now s \<le> nw_clock net n \<Longrightarrow> nw_clock net n \<le> t \<Longrightarrow>
     performMonitorCheck net pki client monitor n (rn_checker s, rn_pool s) = (outcome, c, pool) \<Longrightarrow>
     checker_step s (s\<lparr>rn_phase := Checking t0 (before @ after) fetch, rn_checker := c, rn_pool := pool, rn_now := t,
       rn_log := Checked monitor outcome # rn_log s\<rparr>)"
| check_dropped:
    "rn_phase s = Checking t0 (before @ monitor # after) fetch \<Longrightarrow> rn_now s \<le> t \<Longrightarrow> t0 + 5 * minute \<le> t \<Longrightarrow>
     checker_step s (s\<lparr>rn_phase := Checking t0 (before @ after) fetch, rn_now := t\<rparr>)"
| cycle_end:
    "rn_phase s = Checking t0 [] fetch \<Longrightarrow> rn_now s + second \<le> t \<Longrightarrow>
     checker_step s (s\<lparr>rn_phase := Looping, rn_now := t,
       rn_fetches := (if fetch then t0 # rn_fetches s else rn_fetches s),
       rn_log := (if fetch then FetchStarted t0 # rn_log s else rn_log s)\<rparr>)"
| fetched:
    "rn_fetches s = before @ t0 # after \<Longrightarrow> registerToUpstream up n (rn_checker s) = (None, c) \<Longrightarrow> rn_now s \<le> t \<Longrightarrow>
     checker_step s (s\<lparr>rn_fetches := before @ after, rn_checker := c\<lparr>ck_nextUpstreamFetch := Some (t0 + 10 * minute)\<rparr>,
       rn_now := t\<rparr>)"
| fetch_failed:
    "rn_fetches s = before @ t0 # after \<Longrightarrow> registerToUpstream up n (rn_checker s) = (Some e, c) \<Longrightarrow> rn_now s \<le> t \<Longrightarrow>
     checker_step s (s\<lparr>rn_fetches := before @ after, rn_checker := c, rn_now := t\<rparr>)"
| submission_done:
    "0 < ck_submissions (rn_checker s) \<Longrightarrow>
     checker_step s (s\<lparr>rn_checker := (rn_checker s)\<lparr>ck_submissions := ck_submissions (rn_checker s) - 1\<rparr>\<rparr>)"
| stop:
    "checker_step s (s\<lparr>rn_checker := stop_checker (rn_checker s)\<rparr>)"

definition start_run :: "CheckerConfig \<Rightarrow> gotime \<Rightarrow> checker_run" where
  "start_run config t = \<lparr>rn_phase = Registering, rn_checker = NewChecker config, rn_pool = None, rn_fetches = [],
     rn_now = t, rn_log = []\<rparr>"

definition checker_reachable :: "CheckerConfig \<Rightarrow> checker_run \<Rightarrow> bool" where
  "checker_reachable config s = (\<exists>t. checker_step\<^sup>*\<^sup>* (start_run config t) s)"

inductive_cases checker_stepE: "checker_step s s'"

section \<open>Registration\<close>

lemma registerToUpstream_error: "registerToUpstream up n c = (Some e, c') \<Longrightarrow> c' = c"
  by (auto simp: registerToUpstream_def split: sum.splits option.splits if_splits)

lemma registerToUpstream_state:
  "registerToUpstream up n c = (e, c') \<Longrightarrow>
     ck_submissions c' = ck_submissions c \<and> ck_submissionsClosing c' = ck_submissionsClosing c \<and>
     ck_shutdown c' = ck_shutdown c \<and> ck_config c' = ck_config c"
  by (auto simp: registerToUpstream_def split: sum.splits option.splits if_splits)

section \<open>One check\<close>

lemma performMonitorCheck_state:
  assumes "performMonitorCheck net pki client monitor n (c, st) = (outcome, c', st')"
  shows "c' = (case outcome of Submitted _ \<Rightarrow> c\<lparr>ck_submissions := ck_submissions c + 1\<rparr> | _ \<Rightarrow> c) \<and>
    (case outcome of Submitted _ \<Rightarrow> \<not> ck_submissionsClosing c | _ \<Rightarrow> True)"
  using assms by (auto simp: performMonitorCheck_def Let_def split: option.splits if_splits prod.splits)

lemma interval_met_minutes:
  assumes "0 < k" and "k < 153000000" and "0 \<le> t"
  shows "interval_met (int k * minute) t \<longleftrightarrow> k = 1 \<or> seconds_of t = 0 \<and> int k dvd minute_of t"
proof -
  let ?u = "unix_seconds t"
  have u: "0 \<le> ?u"
    using assms(3) by (simp add: unix_seconds_def second_def pos_imp_zdiv_nonneg_iff)
  have "int k * minute = (int k * 60) * second"
    by (simp add: minute_def second_def)
  moreover have "whole_seconds ((int k * 60) * second) = int k * 60"
    using assms(2) by (intro whole_seconds_mult) simp_all
  ultimately have w: "whole_seconds (int k * minute) = int k * 60"
    by (simp only:)
  have "?u smod (int k * 60) = ?u mod (int k * 60)"
    using u assms(1) by (simp add: signed_modulo_int_def sgn_if)
  moreover have "int k * 60 dvd ?u \<longleftrightarrow> ?u mod 60 = 0 \<and> int k dvd ?u div 60"
  proof
    assume "int k * 60 dvd ?u"
    then obtain q where "?u = int k * 60 * q" ..
    then show "?u mod 60 = 0 \<and> int k dvd ?u div 60"
      by simp
  next
    assume "?u mod 60 = 0 \<and> int k dvd ?u div 60"
    then show "int k * 60 dvd ?u"
      by (metis dvd_div_iff_mult dvd_triv_right mod_eq_0_iff_dvd mult.commute zero_neq_numeral)
  qed
  moreover have "int k * minute > minute \<longleftrightarrow> k \<noteq> 1"
    using assms(1) by (auto simp: minute_def)
  ultimately show ?thesis
    by (simp add: interval_met_def w dvd_eq_mod_eq_0 seconds_of_def minute_of_def)
qed

text \<open>
  A monitor with an interval of \<open>k\<close> minutes is probed exactly when the clock, read again once the
  check has its turn, stands in the first second of a minute whose number is a multiple of \<open>k\<close>; with
  an interval of one minute it always is. So a check that had to wait for a free place beyond the
  first second is skipped without a result.
\<close>

theorem checks_fall_on_multiples:
  assumes "mon_Interval monitor = nat_str k @ ''m''" and "0 < k" and "k < 153000000" and "0 \<le> nw_clock net n"
  shows "fst (performMonitorCheck net pki client monitor n (c, st)) = IntervalNotMet \<longleftrightarrow>
    \<not> (k = 1 \<or> seconds_of (nw_clock net n) = 0 \<and> int k dvd minute_of (nw_clock net n))"
  using interval_met_minutes [OF assms(2-4)] assms(1,3)
  by (simp add: performMonitorCheck_def ParseDuration_minutes Let_def split: prod.split option.split)

definition ex_checker_config :: CheckerConfig where
  "ex_checker_config = \<lparr>cc_UpstreamURL = ''https://eyrie'', cc_Name = [], cc_Region = ''eu'', cc_ApiKey = ''key''\<rparr>"

definition ex_five_minutes :: Monitor where
  "ex_five_minutes = ex_https\<lparr>mon_Interval := ''5m''\<rparr>"

theorem checks_fall_on_multiples_witness:
  "fst (performMonitorCheck ex_network ex_pki ex_client ex_five_minutes 300000 (NewChecker ex_checker_config, None)) \<noteq> IntervalNotMet \<and>
   fst (performMonitorCheck ex_network ex_pki ex_client ex_five_minutes 301000 (NewChecker ex_checker_config, None)) = IntervalNotMet"
proof -
  have i: "mon_Interval ex_five_minutes = nat_str 5 @ ''m''"
    by (simp add: ex_five_minutes_def nat_str.simps digit_char_def char_of_def bit_0)
  show ?thesis
    using checks_fall_on_multiples [OF i, of ex_network 300000 ex_pki ex_client "NewChecker ex_checker_config" None]
      checks_fall_on_multiples [OF i, of ex_network 301000 ex_pki ex_client "NewChecker ex_checker_config" None]
    by (simp add: ex_network_def seconds_of_def minute_of_def unix_seconds_def second_def)
qed

section \<open>Sending\<close>

text \<open>The answers to the requests that were made, and the time spent waiting.\<close>

definition answers :: "send_event list \<Rightarrow> int result list" where
  "answers events = List.map_filter (\<lambda>e. case e of Posted _ r \<Rightarrow> Some r | Slept _ \<Rightarrow> None) events"

definition waited :: "send_event list \<Rightarrow> duration" where
  "waited events = sum_list (map (\<lambda>e. case e of Posted _ _ \<Rightarrow> 0 | Slept d \<Rightarrow> d) events)"

lemma answers_simps [simp]:
  "answers [] = []" "answers (Posted q r # es) = r # answers es" "answers (Slept d # es) = answers es"
  "answers (es @ fs) = answers es @ answers fs"
  by (simp_all add: answers_def map_filter_def)

lemma waited_simps [simp]:
  "waited [] = 0" "waited (Posted q r # es) = waited es" "waited (Slept d # es) = d + waited es"
  "waited (es @ fs) = waited es + waited fs"
  by (simp_all add: waited_def)

lemma answers_retry [simp]: "answers (retry_delay i) = []"
  by (simp add: retry_delay_def)

lemma send_attempts_answers:
  "send_attempts up request k i n = (sent, events) \<Longrightarrow>
     length (answers events) \<le> k \<and> (sent \<longleftrightarrow> Inr 200 \<in> set (answers events)) \<and>
     Inr 200 \<notin> set (butlast (answers events))"
proof (induction k arbitrary: i n sent events)
  case (Suc k)
  obtain s' e' where r: "send_attempts up request k (i + 1) (n + 1) = (s', e')"
    by (cases "send_attempts up request k (i + 1) (n + 1)")
  then show ?case
    using Suc.prems Suc.IH [OF r] by (auto simp: Let_def split: option.splits sum.splits if_splits)
qed simp

text \<open>
  C34: A submission is posted at most three times, always with the same body, URL and headers. Posting
  stops at the first answer 200, the submission counts as sent exactly when there is one, and the
  waits between the attempts take at most 750 milliseconds.
\<close>

theorem submission_attempts:
  assumes "sendMonitorSubmission up config submission n = (sent, events)"
  shows "length (answers events) \<le> 3 \<and> (sent \<longleftrightarrow> Inr 200 \<in> set (answers events)) \<and>
    Inr 200 \<notin> set (butlast (answers events)) \<and> 0 \<le> waited events \<and> waited events \<le> 750 * 1000000 \<and>
    list_all (\<lambda>e. case e of Posted q _ \<Rightarrow> Inr (cp_URL q) = up_JoinPath up (cc_UpstreamURL config) ''/checker/submit'' \<and>
        cp_Headers q = checker_headers config \<and> cp_Body q = submission | Slept _ \<Rightarrow> True) events"
proof (cases "up_Marshal up submission \<noteq> None \<or> (\<exists>e. up_JoinPath up (cc_UpstreamURL config) ''/checker/submit'' = Inl e)")
  case True
  then show ?thesis
    using assms by (auto simp: sendMonitorSubmission_def split: if_splits)
next
  case False
  then obtain url where url: "up_JoinPath up (cc_UpstreamURL config) ''/checker/submit'' = Inr url"
    by (metis obj_sumE)
  with assms False have s: "send_attempts up (submission_request config url submission) (Suc (Suc (Suc 0))) 1 n = (sent, events)"
    by (simp add: sendMonitorSubmission_def maxAttempts_def numeral_3_eq_3)
  have "0 \<le> waited events \<and> waited events \<le> 750 * 1000000"
    using s by (auto simp: Let_def retry_delay_def maxAttempts_def split: option.splits sum.splits if_splits)
  moreover have "list_all (\<lambda>e. case e of Posted q _ \<Rightarrow> q = submission_request config url submission | Slept _ \<Rightarrow> True) events"
    using s by (auto simp: Let_def retry_delay_def maxAttempts_def split: option.splits sum.splits if_splits)
  ultimately show ?thesis
    using send_attempts_answers [OF s] by (auto simp: url submission_request_def list_all_iff split: send_event.splits)
qed

definition ex_upstream :: upstream where
  "ex_upstream = \<lparr>up_JoinPath = \<lambda>base path. Inr (base @ path), up_NewRequest = \<lambda>url. None,
     up_register = \<lambda>n request. Inr (200, Inr \<lparr>mc_Monitors = [ex_five_minutes], mc_Groups = []\<rparr>),
     up_submit = \<lambda>n request. if n < 2 then Inr 503 else Inr 200, up_Marshal = \<lambda>s. None\<rparr>"

theorem submission_attempts_witness:
  "\<exists>events. sendMonitorSubmission ex_upstream ex_checker_config zero_submission 0 = (True, events) \<and>
     answers events = [Inr 503, Inr 503, Inr 200] \<and> waited events \<le> 750 * 1000000"
proof -
  obtain sent events where r: "sendMonitorSubmission ex_upstream ex_checker_config zero_submission 0 = (sent, events)"
    by (cases "sendMonitorSubmission ex_upstream ex_checker_config zero_submission 0")
  have "answers events = [Inr 503, Inr 503, Inr 200]"
    using r by (auto simp: sendMonitorSubmission_def ex_upstream_def maxAttempts_def numeral_3_eq_3 Let_def)
  with submission_attempts [OF r] show ?thesis
    using r by auto
qed

section \<open>The loop\<close>

lemma loop_round_cycle:
  "loop_round c t = LoopCycle monitors fetch \<Longrightarrow>
     \<not> ck_shutdown c \<and> seconds_of t = 0 \<and> monitors = mc_Monitors (ck_monitors c) \<and> monitors \<noteq> []"
  by (auto simp: loop_round_def split: if_splits option.splits)

lemma loop_round_empty:
  "mc_Monitors (ck_monitors c) = [] \<Longrightarrow> loop_round c t \<noteq> LoopCycle monitors fetch"
  by (simp add: loop_round_def split: option.split)

lemma loop_round_sleep: "loop_round c t = LoopSleep d \<Longrightarrow> 0 \<le> d"
  using truncate_time_bounds [of minute t]
  by (auto simp: loop_round_def time_sub_def second_def minute_def max_def min_def split: if_splits option.splits)

definition cycle_starts :: "checker_event list \<Rightarrow> gotime list" where
  "cycle_starts es = List.map_filter (\<lambda>e. case e of CycleStarted t \<Rightarrow> Some t | _ \<Rightarrow> None) es"

lemma cycle_starts_simps [simp]:
  "cycle_starts [] = []" "cycle_starts (CycleStarted t # es) = t # cycle_starts es"
  "cycle_starts (Checked m r # es) = cycle_starts es" "cycle_starts (FetchStarted t # es) = cycle_starts es"
  by (simp_all add: cycle_starts_def map_filter_def)

fun cycles_ok :: "phase \<Rightarrow> gotime \<Rightarrow> gotime list \<Rightarrow> bool" where
  "cycles_ok p now [] = True"
| "cycles_ok p now (t # ts) =
     (seconds_of t = 0 \<and> list_all (\<lambda>u. seconds_of u = 0) ts \<and>
      sorted_wrt (\<lambda>t u. minute_of u < minute_of t) (t # ts) \<and>
      (case p of
         Registering \<Rightarrow> False
       | Looping \<Rightarrow> t + second \<le> now
       | Checking _ _ _ \<Rightarrow> t \<le> now
       | Returned _ \<Rightarrow> True))"

lemma next_cycle_later:
  assumes "t + second \<le> u" and "seconds_of t = 0" and "seconds_of u = 0"
  shows "minute_of t < minute_of u"
proof -
  have "(t + second) div second \<le> u div second"
    using assms(1) by (intro zdiv_mono1) (simp_all add: second_def)
  moreover have "(t + second) div second = t div second + 1"
    by (simp add: second_def)
  ultimately have "unix_seconds t + 1 \<le> unix_seconds u"
    by (simp only: unix_seconds_def)
  moreover have "60 * (unix_seconds t div 60) = unix_seconds t" "60 * (unix_seconds u div 60) = unix_seconds u"
    using assms(2,3) by (simp_all add: seconds_of_def mult_div_mod_eq [symmetric] minus_mod_eq_mult_div [symmetric])
  ultimately show ?thesis
    unfolding minute_of_def by linarith
qed

lemma sorted_starts_after:
  assumes "sorted_wrt (\<lambda>t u. minute_of u < minute_of t) (t # ts)" and "minute_of t < minute_of now"
  shows "\<forall>u \<in> set (t # ts). minute_of u < minute_of now"
  using assms by force

lemma cycles_ok_later: "cycles_ok p now ts \<Longrightarrow> now \<le> t \<Longrightarrow> cycles_ok p t ts"
  by (cases ts; cases p) auto

lemma cycles_ok_returned: "cycles_ok p now ts \<Longrightarrow> cycles_ok (Returned e) t ts"
  by (cases ts) auto

lemma cycles_ok_registered: "cycles_ok Registering now ts \<Longrightarrow> cycles_ok p t ts"
  by (cases ts) auto

lemma cycles_ok_checking: "cycles_ok (Checking t0 ms f) now ts \<Longrightarrow> now \<le> t \<Longrightarrow> cycles_ok (Checking t1 ms' f') t ts"
  by (cases ts) auto

lemma cycles_ok_cycle_end: "cycles_ok (Checking t0 ms f) now ts \<Longrightarrow> now + second \<le> t \<Longrightarrow> cycles_ok Looping t ts"
  by (cases ts) auto

lemma cycles_ok_cycle:
  assumes "cycles_ok Looping now ts" and "seconds_of now = 0" and "now \<le> t"
  shows "cycles_ok (Checking now ms f) t (now # ts)"
proof (cases ts)
  case (Cons u us)
  then have "minute_of u < minute_of now"
    using assms by (intro next_cycle_later) simp_all
  then show ?thesis
    using assms sorted_starts_after [of u us now] by (simp add: Cons)
qed (use assms in simp)

lemma cycles_ok_step:
  assumes "checker_step s s'" and "cycles_ok (rn_phase s) (rn_now s) (cycle_starts (rn_log s))"
  shows "cycles_ok (rn_phase s') (rn_now s') (cycle_starts (rn_log s'))"
  using assms(1)
proof cases
  case (cycle monitors fetch t)
  then show ?thesis
    using assms(2) loop_round_cycle [OF cycle(3)] cycles_ok_cycle [of "rn_now s" _ t]
    by (simp del: cycles_ok.simps)
next
  case (loop_sleep d t)
  have "0 \<le> d"
    using loop_round_sleep [OF loop_sleep(3)] .
  then show ?thesis
    using loop_sleep assms(2) by (simp add: cycles_ok_later)
next
  case (retry_registration up n status c t)
  then show ?thesis
    using assms(2) by (simp add: cycles_ok_registered)
qed (use assms(2) in \<open>auto simp: second_def intro: cycles_ok_later cycles_ok_returned cycles_ok_registered
      cycles_ok_checking cycles_ok_cycle_end\<close>)

lemma cycles_ok_reachable:
  assumes "checker_reachable config s"
  shows "cycles_ok (rn_phase s) (rn_now s) (cycle_starts (rn_log s))"
proof -
  obtain t where "checker_step\<^sup>*\<^sup>* (start_run config t) s"
    using assms by (auto simp: checker_reachable_def)
  then show ?thesis
  proof (induction rule: rtranclp_induct)
    case base
    then show ?case by (simp add: start_run_def)
  next
    case (step s1 s2)
    show ?case by (rule cycles_ok_step [OF step(2,3)])
  qed
qed

text \<open>
  C11: In every run of the checker each cycle of checks starts in the first second of a minute, and no
  two cycles start in the same minute.
\<close>

theorem one_cycle_per_minute:
  assumes "checker_reachable config s"
  shows "list_all (\<lambda>t. seconds_of t = 0) (cycle_starts (rn_log s)) \<and>
    distinct (map minute_of (cycle_starts (rn_log s)))"
proof -
  have "sorted_wrt (\<lambda>t u. minute_of u < minute_of t) ts \<Longrightarrow> distinct (map minute_of ts)" for ts :: "gotime list"
    by (induction ts) force+
  moreover have "sorted_wrt (\<lambda>t u. minute_of u < minute_of t) (cycle_starts (rn_log s)) \<and>
      list_all (\<lambda>t. seconds_of t = 0) (cycle_starts (rn_log s))"
    using cycles_ok_reachable [OF assms] by (cases "cycle_starts (rn_log s)") simp_all
  ultimately show ?thesis
    by blast
qed

text \<open>A run with two cycles.\<close>

definition ex_checker :: Checker where
  "ex_checker = (NewChecker ex_checker_config)\<lparr>ck_monitors := \<lparr>mc_Monitors = [ex_five_minutes], mc_Groups = []\<rparr>,
     ck_nextUpstreamFetch := Some (600 * second)\<rparr>"

definition ex_run :: "phase \<Rightarrow> gotime \<Rightarrow> checker_event list \<Rightarrow> checker_run" where
  "ex_run p t es = \<lparr>rn_phase = p, rn_checker = ex_checker, rn_pool = None, rn_fetches = [], rn_now = t, rn_log = es\<rparr>"

lemma ex_run_registered: "checker_step (start_run ex_checker_config 0) (ex_run Looping 0 [])"
  using registered [of "start_run ex_checker_config 0" ex_upstream 0
      "(NewChecker ex_checker_config)\<lparr>ck_monitors := \<lparr>mc_Monitors = [ex_five_minutes], mc_Groups = []\<rparr>\<rparr>" 0]
  by (simp add: start_run_def registerToUpstream_def ex_upstream_def NewChecker_def ex_run_def ex_checker_def
      minute_def second_def)

lemma ex_run_cycle:
  "seconds_of t = 0 \<Longrightarrow> t \<le> 600 * second \<Longrightarrow>
     checker_step (ex_run Looping t es) (ex_run (Checking t [ex_five_minutes] False) t (CycleStarted t # es))"
  using cycle [of "ex_run Looping t es" "[ex_five_minutes]" False t]
  by (simp add: ex_run_def ex_checker_def loop_round_def NewChecker_def)

lemma ex_run_dropped:
  "checker_step (ex_run (Checking t [ex_five_minutes] False) t es) (ex_run (Checking t [] False) (t + 5 * minute) es)"
  using check_dropped [of "ex_run (Checking t [ex_five_minutes] False) t es" t "[]" ex_five_minutes "[]" False "t + 5 * minute"]
  by (simp add: ex_run_def minute_def)

lemma ex_run_end: "checker_step (ex_run (Checking t [] False) u es) (ex_run Looping (u + minute) es)"
  using cycle_end [of "ex_run (Checking t [] False) u es" t False "u + minute"]
  by (simp add: ex_run_def minute_def second_def)

lemma ex_run_two_cycles:
  "checker_reachable ex_checker_config
     (ex_run (Checking (360 * second) [ex_five_minutes] False) (360 * second) [CycleStarted (360 * second), CycleStarted 0])"
proof -
  have "6 * minute = 360 * second"
    by (simp add: minute_def second_def)
  then have "checker_step\<^sup>*\<^sup>* (start_run ex_checker_config 0) (ex_run Looping (360 * second) [CycleStarted 0])"
    using ex_run_registered ex_run_cycle [of 0 "[]"] ex_run_dropped [of 0 "[CycleStarted 0]"]
      ex_run_end [of 0 "5 * minute" "[CycleStarted 0]"]
    by (auto simp: seconds_of_def unix_seconds_def second_def minute_def intro!: rtranclp.rtrancl_into_rtrancl)
  then show ?thesis
    using ex_run_cycle [of "360 * second" "[CycleStarted 0]"]
    by (auto simp: checker_reachable_def seconds_of_def unix_seconds_def second_def
        intro: rtranclp.rtrancl_into_rtrancl)
qed

theorem one_cycle_per_minute_witness:
  "map minute_of (cycle_starts [CycleStarted (360 * second), CycleStarted 0]) = [6, 0] \<and>
   distinct (map minute_of (cycle_starts [CycleStarted (360 * second), CycleStarted 0]))"
  using one_cycle_per_minute [OF ex_run_two_cycles]
  by (simp add: ex_run_def minute_of_def unix_seconds_def second_def)

text \<open>
  C35: A checker that the server told of no monitors never asks again: once it is in its loop with an
  empty configuration and no fetch under way, it starts no cycle and no fetch, whatever happens, and
  the configuration stays empty until the process is restarted.
\<close>

theorem empty_configuration_is_kept:
  assumes "checker_step\<^sup>*\<^sup>* s s'" and "rn_phase s = Looping" and "mc_Monitors (ck_monitors (rn_checker s)) = []"
    and "rn_fetches s = []"
  shows "mc_Monitors (ck_monitors (rn_checker s')) = [] \<and> rn_fetches s' = [] \<and> rn_log s' = rn_log s"
proof -
  have "mc_Monitors (ck_monitors (rn_checker s')) = [] \<and> rn_fetches s' = [] \<and> rn_log s' = rn_log s \<and>
    (rn_phase s' = Looping \<or> (\<exists>e. rn_phase s' = Returned e))"
    using assms(1)
  proof (induction rule: rtranclp_induct)
    case base
    then show ?case
      using assms by simp
  next
    case (step s1 s2)
    from step(2,3) show ?case
      by (cases rule: checker_step.cases) (auto simp: loop_round_empty stop_checker_def)
  qed
  then show ?thesis
    by simp
qed

theorem empty_configuration_is_kept_witness:
  "\<exists>s s'. checker_step\<^sup>*\<^sup>* s s' \<and> rn_phase s = Looping \<and> rn_now s' = 30 * second \<and>
     mc_Monitors (ck_monitors (rn_checker s')) = [] \<and> rn_log s' = []"
proof -
  define s where "s = (start_run ex_checker_config 0)
    \<lparr>rn_phase := Looping, rn_checker := (NewChecker ex_checker_config)\<lparr>ck_nextUpstreamFetch := Some 0\<rparr>\<rparr>"
  have "checker_step s (s\<lparr>rn_now := 30 * second\<rparr>)"
    by (rule loop_sleep [where d = "30 * second"]) (simp_all add: s_def start_run_def NewChecker_def loop_round_def)
  then have r: "checker_step\<^sup>*\<^sup>* s (s\<lparr>rn_now := 30 * second\<rparr>)"
    by simp
  have "rn_phase s = Looping" "mc_Monitors (ck_monitors (rn_checker s)) = []" "rn_fetches s = []" "rn_log s = []"
    by (simp_all add: s_def start_run_def NewChecker_def)
  with empty_configuration_is_kept [OF r] r show ?thesis
    by (intro exI [of _ s] exI [of _ "s\<lparr>rn_now := 30 * second\<rparr>"]) simp
qed

text \<open>
  C33: After \<open>Stop\<close> the number of submissions under way only falls, so that waiting for it to reach
  zero waits for everything that was handed over for sending, and nothing is handed over any more.
\<close>

theorem stop_drains_submissions:
  assumes "checker_step\<^sup>*\<^sup>* s s'" and "ck_submissionsClosing (rn_checker s)"
  shows "ck_submissionsClosing (rn_checker s') \<and>
    ck_submissions (rn_checker s') \<le> ck_submissions (rn_checker s) \<and>
    (\<exists>new. rn_log s' = new @ rn_log s \<and>
       list_all (\<lambda>e. case e of Checked _ (Submitted _) \<Rightarrow> False | _ \<Rightarrow> True) new)"
  using assms(1)
proof (induction rule: rtranclp_induct)
  case base
  then show ?case
    using assms(2) by simp
next
  case (step s1 s2)
  have log: "\<exists>new'. e # rn_log s1 = new' @ rn_log s \<and>
      list_all (\<lambda>e. case e of Checked _ (Submitted _) \<Rightarrow> False | _ \<Rightarrow> True) new'"
    if "case e of Checked _ (Submitted _) \<Rightarrow> False | _ \<Rightarrow> True" for e
  proof -
    obtain new where "rn_log s1 = new @ rn_log s"
      and "list_all (\<lambda>e. case e of Checked _ (Submitted _) \<Rightarrow> False | _ \<Rightarrow> True) new"
      using step(3) by blast
    then show ?thesis
      using that by (intro exI [of _ "e # new"]) simp
  qed
  from step(2) show ?case
  proof (cases rule: checker_step.cases)
    case (check t0 before monitor after fetch net n t pki client outcome c pool)
    note performMonitorCheck_state [OF check(5)]
    then show ?thesis
      using check step(3) log [of "Checked monitor outcome"] by (cases outcome) auto
  next
    case (cycle monitors fetch t)
    then show ?thesis
      using step(3) log [of "CycleStarted (rn_now s1)"] by simp
  next
    case (cycle_end t0 fetch t)
    then show ?thesis
      using step(3) log [of "FetchStarted t0"] by simp
  qed (use step(3) in \<open>auto dest!: registerToUpstream_state simp: stop_checker_def\<close>)
qed

theorem stop_drains_submissions_witness:
  "\<exists>s s'. checker_step\<^sup>*\<^sup>* s s' \<and> ck_submissionsClosing (rn_checker s) \<and> ck_submissions (rn_checker s) = 2 \<and>
     ck_submissions (rn_checker s') = 1 \<and> ck_submissionsClosing (rn_checker s')"
proof -
  define s where "s = (start_run ex_checker_config 0)
    \<lparr>rn_checker := stop_checker ((NewChecker ex_checker_config)\<lparr>ck_submissions := 2\<rparr>)\<rparr>"
  define s' where "s' = s\<lparr>rn_checker := (rn_checker s)\<lparr>ck_submissions := ck_submissions (rn_checker s) - 1\<rparr>\<rparr>"
  have "checker_step s s'"
    unfolding s'_def by (rule submission_done) (simp add: s_def stop_checker_def)
  then have r: "checker_step\<^sup>*\<^sup>* s s'"
    by simp
  have c: "ck_submissionsClosing (rn_checker s)" "ck_submissions (rn_checker s) = 2" "ck_submissions (rn_checker s') = 1"
    by (simp_all add: s_def s'_def stop_checker_def)
  from stop_drains_submissions [OF r c(1)] r c show ?thesis
    by blast
qed

end
