(* ===== verification/Database_Migration.thy ===== *)
theory Database_Migration
  imports Messages
begin

text \<open>
  \<open>database_migration.go\<close> and \<open>duckdb_error.go\<close>: the scripts of the migration files, their statements,
  and running them in one transaction; the advice for a database that does not open.

  Parameters: the embedded directory (\<open>migration_fs\<close>) and the database (\<open>driver\<close>): what a statement
  makes of a state, and which calls fail. The connection is state: what the database has committed,
  the transaction that is open in it, and whether the \<open>sql.Tx\<close> still holds the connection, which its
  Close waits for. A failure to close is only logged.
\<close>

section \<open>Lines and statements\<close>

fun split_on :: "char \<Rightarrow> string \<Rightarrow> string list" where
  "split_on c [] = [[]]"
| "split_on c (d # s) =
     (if d = c then [] # split_on c s
      else case split_on c s of p # ps \<Rightarrow> (d # p) # ps | [] \<Rightarrow> [[d]])"

text \<open>\<open>bufio.ScanLines\<close>: a last line without a line end counts if it is not empty.\<close>

definition scan_lines :: "string \<Rightarrow> string list" where
  "scan_lines s = (let ls = split_on (CHR 0x0A) s in if last ls = [] then butlast ls else ls)"

definition statement_end :: string where
  "statement_end = ''-- +goose StatementEnd''"

definition direction_marker :: "bool \<Rightarrow> string" where
  "direction_marker directionUp = (if directionUp then ''-- +goose Up'' else ''-- +goose Down'')"

text \<open>
  The loop over the lines. A line of 64 KiB or more stops the scanner with an error, unless the end
  of the script comes first.
\<close>

fun script_loop :: "string \<Rightarrow> bool \<Rightarrow> string list \<Rightarrow> string result" where
  "script_loop marker foundStartMarker [] = Inr []"
| "script_loop marker foundStartMarker (l # ls) =
     (if length l \<ge> 65536 then Inl ''bufio.Scanner: token too long''
      else let line = trim_space l in
        if line = marker then script_loop marker True ls
        else if foundStartMarker then
          (if line = statement_end then Inr []
           else case script_loop marker True ls of
             Inl e \<Rightarrow> Inl e
           | Inr script \<Rightarrow> Inr (line @ [CHR 0x0A] @ script))
        else script_loop marker False ls)"

definition migration_script :: "bool \<Rightarrow> string \<Rightarrow> string result" where
  "migration_script directionUp content = script_loop (direction_marker directionUp) False (scan_lines content)"

definition script_statements :: "string \<Rightarrow> string list" where
  "script_statements script = filter (\<lambda>statement. trim_space statement \<noteq> []) (split_on (CHR '';'') script)"

section \<open>The files\<close>

record migration_fs =
  fs_ReadDir :: "(string \<times> bool) list result"
  fs_Open :: "string \<Rightarrow> string result"

text \<open>\<open>strconv.ParseInt\<close> of the first 14 bytes of a name; its error is ignored and leaves 0.\<close>

definition decimal_digit :: "char \<Rightarrow> bool" where
  "decimal_digit c = (48 \<le> (of_char c :: nat) \<and> (of_char c :: nat) \<le> 57)"

definition parse_int :: "string \<Rightarrow> int" where
  "parse_int s =
     (let neg = (s \<noteq> [] \<and> hd s = CHR ''-'');
          digits = (if s \<noteq> [] \<and> (hd s = CHR ''-'' \<or> hd s = CHR ''+'') then tl s else s);
          value = foldl (\<lambda>n c. n * 10 + (of_char c - 48)) 0 digits
      in if digits = [] \<or> \<not> list_all decimal_digit digits then 0 else if neg then - value else value)"

definition version_of :: "string \<Rightarrow> int" where
  "version_of name = parse_int (take 14 name)"

datatype migration_outcome = Migrated | MigrationError string | MigrationPanics

definition read_script :: "migration_fs \<Rightarrow> bool \<Rightarrow> string \<Rightarrow> string result" where
  "read_script fs directionUp file =
     (case fs_Open fs (''migrations/'' @ file) of
        Inl e \<Rightarrow> Inl (''failed to read migration file: '' @ e)
      | Inr content \<Rightarrow>
          (case migration_script directionUp content of
             Inl e \<Rightarrow> Inl (''failed to read migration file: '' @ e)
           | Inr script \<Rightarrow> Inr script))"

fun read_scripts :: "migration_fs \<Rightarrow> bool \<Rightarrow> string list \<Rightarrow> string list result" where
  "read_scripts fs directionUp [] = Inr []"
| "read_scripts fs directionUp (file # files) =
     (case read_script fs directionUp file of
        Inl e \<Rightarrow> Inl e
      | Inr script \<Rightarrow>
          (case read_scripts fs directionUp files of Inl e \<Rightarrow> Inl e | Inr scripts \<Rightarrow> Inr (script # scripts)))"

text \<open>The names that are not directories. Comparing a name of fewer than 14 bytes panics.\<close>

definition migration_files :: "(string \<times> bool) list \<Rightarrow> string list" where
  "migration_files dir = map fst (filter (\<lambda>(name, is_dir). \<not> is_dir) dir)"

section \<open>The transaction\<close>

record 'd driver =
  dr_Conn :: "string option"
  dr_Begin :: "string option"
  dr_Exec :: "string \<Rightarrow> 'd \<Rightarrow> 'd result"
  dr_Rollback :: "string option"
  dr_Commit :: "string option"

record 'd connection =
  cn_database :: 'd
  cn_pending :: "'d option"
  cn_held :: bool

definition fresh_connection :: "'d \<Rightarrow> 'd connection" where
  "fresh_connection d = \<lparr>cn_database = d, cn_pending = None, cn_held = False\<rparr>"

text \<open>
  The calls of \<open>database/sql\<close>. Commit and Rollback finish the \<open>sql.Tx\<close> also when they fail. A rollback
  that fails leaves the transaction open in the database; a commit that fails publishes nothing, and
  the database drops the transaction. After its end the \<open>sql.Tx\<close> refuses every call.
\<close>

definition ErrTxDone :: string where
  "ErrTxDone = ''sql: transaction has already been committed or rolled back''"

definition conn_BeginTx :: "'d driver \<Rightarrow> 'd connection \<Rightarrow> string option \<times> 'd connection" where
  "conn_BeginTx dr c =
     (case dr_Begin dr of
        Some e \<Rightarrow> (Some e, c)
      | None \<Rightarrow> (None, c\<lparr>cn_pending := Some (cn_database c), cn_held := True\<rparr>))"

definition tx_Exec :: "'d driver \<Rightarrow> string \<Rightarrow> 'd connection \<Rightarrow> string option \<times> 'd connection" where
  "tx_Exec dr statement c =
     (if \<not> cn_held c then (Some ErrTxDone, c)
      else case cn_pending c of
        None \<Rightarrow> (Some ErrTxDone, c)
      | Some d \<Rightarrow>
          (case dr_Exec dr statement d of
             Inl e \<Rightarrow> (Some e, c)
           | Inr d' \<Rightarrow> (None, c\<lparr>cn_pending := Some d'\<rparr>)))"

definition tx_Rollback :: "'d driver \<Rightarrow> 'd connection \<Rightarrow> string option \<times> 'd connection" where
  "tx_Rollback dr c =
     (if \<not> cn_held c then (Some ErrTxDone, c)
      else case dr_Rollback dr of
        Some e \<Rightarrow> (Some e, c\<lparr>cn_held := False\<rparr>)
      | None \<Rightarrow> (None, c\<lparr>cn_pending := None, cn_held := False\<rparr>))"

definition tx_Commit :: "'d driver \<Rightarrow> 'd connection \<Rightarrow> string option \<times> 'd connection" where
  "tx_Commit dr c =
     (if \<not> cn_held c then (Some ErrTxDone, c)
      else case dr_Commit dr of
        Some e \<Rightarrow> (Some e, c\<lparr>cn_pending := None, cn_held := False\<rparr>)
      | None \<Rightarrow>
          (None, c\<lparr>cn_database := (case cn_pending c of Some d \<Rightarrow> d | None \<Rightarrow> cn_database c),
             cn_pending := None, cn_held := False\<rparr>))"

fun exec_statements :: "'d driver \<Rightarrow> string list \<Rightarrow> 'd connection \<Rightarrow> string option \<times> 'd connection" where
  "exec_statements dr [] c = (None, c)"
| "exec_statements dr (statement # rest) c =
     (case tx_Exec dr statement c of (Some e, c) \<Rightarrow> (Some e, c) | (None, c) \<Rightarrow> exec_statements dr rest c)"

definition run_migrations :: "'d driver \<Rightarrow> string list \<Rightarrow> 'd connection \<Rightarrow> migration_outcome \<times> 'd connection" where
  "run_migrations dr statements c =
     (case dr_Conn dr of
        Some e \<Rightarrow> (MigrationError (''failed to open connection: '' @ e), c)
      | None \<Rightarrow>
     (case conn_BeginTx dr c of
        (Some e, c) \<Rightarrow> (MigrationError (''failed to begin transaction: '' @ e), c)
      | (None, c) \<Rightarrow>
     (case exec_statements dr statements c of
        (Some e, c) \<Rightarrow>
          (case tx_Rollback dr c of
             (Some r, c) \<Rightarrow> (MigrationError (''failed to rollback transaction: '' @ r @ '' ('' @ e @ '')''), c)
           | (None, c) \<Rightarrow> (MigrationError (''failed to execute migration script: '' @ e), c))
      | (None, c) \<Rightarrow>
     (case tx_Commit dr c of
        (Some e, c) \<Rightarrow> (MigrationError (''failed to commit transaction: '' @ e), c)
      | (None, c) \<Rightarrow> (Migrated, c)))))"

definition migrate_connection ::
    "migration_fs \<Rightarrow> 'd driver \<Rightarrow> bool \<Rightarrow> 'd connection \<Rightarrow> migration_outcome \<times> 'd connection" where
  "migrate_connection fs dr directionUp c =
     (case fs_ReadDir fs of
        Inl e \<Rightarrow> (MigrationError (''failed to read migrations directory: '' @ e), c)
      | Inr dir \<Rightarrow>
          (let files = migration_files dir in
           if length files \<ge> 2 \<and> list_ex (\<lambda>name. length name < 14) files then (MigrationPanics, c)
           else case read_scripts fs directionUp (sort_key version_of files) of
               Inl e \<Rightarrow> (MigrationError e, c)
             | Inr scripts \<Rightarrow> run_migrations dr (concat (map script_statements scripts)) c))"

text \<open>What the rest of the program has of it: the outcome, and what the database has committed.\<close>

definition Migrate :: "migration_fs \<Rightarrow> 'd driver \<Rightarrow> bool \<Rightarrow> 'd \<Rightarrow> migration_outcome \<times> 'd" where
  "Migrate fs dr directionUp d =
     map_prod id cn_database (migrate_connection fs dr directionUp (fresh_connection d))"

section \<open>A database that does not open\<close>

definition isDuckDBWALReplayError :: "string option \<Rightarrow> bool" where
  "isDuckDBWALReplayError err =
     (case err of
        None \<Rightarrow> False
      | Some message \<Rightarrow> contains message ''Failure while replaying WAL file'' \<or>
          contains message ''GetDefaultDatabase with no default database set'')"

definition duckDBStartupRecoveryHint :: "string \<Rightarrow> string option \<Rightarrow> string option" where
  "duckDBStartupRecoveryHint databasePath err =
     (if \<not> isDuckDBWALReplayError err then err
      else map_option (\<lambda>e. e @ ''; DuckDB failed while replaying '' @ databasePath @ ''.wal. Back up '' @ databasePath @
        '' and '' @ databasePath @ ''.wal first. If the WAL only contains disposable recent changes, remove the WAL and restart. If you need to preserve the WAL contents, recover from a copy by exporting into a fresh database with a newer DuckDB build'') err)"

section \<open>All or nothing\<close>

text \<open>The statements of all files, oldest version first, if the files can be read.\<close>

definition all_statements :: "migration_fs \<Rightarrow> bool \<Rightarrow> string list result" where
  "all_statements fs directionUp =
     bind_result (fs_ReadDir fs)
       (\<lambda>dir. map_sum id (\<lambda>scripts. concat (map script_statements scripts))
          (read_scripts fs directionUp (sort_key version_of (migration_files dir))))"

text \<open>What the statements make of a database, one after the other.\<close>

fun run_statements :: "'d driver \<Rightarrow> string list \<Rightarrow> 'd \<Rightarrow> 'd result" where
  "run_statements dr [] d = Inr d"
| "run_statements dr (statement # rest) d =
     (case dr_Exec dr statement d of Inl e \<Rightarrow> Inl e | Inr d \<Rightarrow> run_statements dr rest d)"

lemma run_statements_append:
  "run_statements dr (xs @ ys) d = (case run_statements dr xs d of Inl e \<Rightarrow> Inl e | Inr d \<Rightarrow> run_statements dr ys d)"
  by (induction xs arbitrary: d) (auto split: sum.split)

text \<open>The statements run inside the transaction, which stays open and is all they change.\<close>

lemma exec_statements_pending:
  assumes "exec_statements dr statements c = (r, c')" and "cn_held c" and "cn_pending c = Some d"
  shows "cn_held c' \<and> cn_database c' = cn_database c \<and> cn_pending c' \<noteq> None \<and>
    (r = None \<longrightarrow> (\<exists>d'. run_statements dr statements d = Inr d' \<and> cn_pending c' = Some d'))"
  using assms
proof (induction statements arbitrary: c d)
  case Nil
  then show ?case by simp
next
  case (Cons statement rest)
  show ?case
  proof (cases "dr_Exec dr statement d")
    case (Inl e)
    then show ?thesis
      using Cons.prems by (auto simp: tx_Exec_def)
  next
    case (Inr d1)
    then show ?thesis
      using Cons.prems Cons.IH [of "c\<lparr>cn_pending := Some d1\<rparr>" d1] by (simp add: tx_Exec_def)
  qed
qed

lemma run_migrations_ends:
  assumes "run_migrations dr statements (fresh_connection d) = (r, c)"
  shows "\<not> cn_held c \<and>
    (if r = Migrated then run_statements dr statements d = Inr (cn_database c) \<and> cn_pending c = None
     else cn_database c = d \<and> (cn_pending c = None \<or> dr_Rollback dr \<noteq> None))"
proof (cases "dr_Conn dr = None \<and> dr_Begin dr = None")
  case False
  then show ?thesis
    using assms by (auto simp: run_migrations_def conn_BeginTx_def fresh_connection_def split: option.splits)
next
  case True
  let ?c = "\<lparr>cn_database = d, cn_pending = Some d, cn_held = True\<rparr>"
  obtain x c1 where x: "exec_statements dr statements ?c = (x, c1)" by fastforce
  have inside: "cn_held c1" "cn_database c1 = d"
      "x = None \<Longrightarrow> \<exists>d'. run_statements dr statements d = Inr d' \<and> cn_pending c1 = Some d'"
    using exec_statements_pending [OF x, of d] by auto
  show ?thesis
    using assms True x inside
    by (cases x; cases "dr_Rollback dr"; cases "dr_Commit dr")
      (auto simp: run_migrations_def conn_BeginTx_def fresh_connection_def tx_Rollback_def tx_Commit_def)
qed

lemma migrate_connection_ends:
  assumes "migrate_connection fs dr directionUp (fresh_connection d) = (r, c)"
  shows "\<not> cn_held c \<and>
    (if r = Migrated
     then (\<exists>statements. all_statements fs directionUp = Inr statements \<and>
       run_statements dr statements d = Inr (cn_database c)) \<and> cn_pending c = None
     else cn_database c = d \<and> (cn_pending c = None \<or> dr_Rollback dr \<noteq> None))"
proof (cases "c = fresh_connection d \<and> r \<noteq> Migrated")
  case True
  then show ?thesis by (simp add: fresh_connection_def)
next
  case False
  then obtain statements where "all_statements fs directionUp = Inr statements"
      "run_migrations dr statements (fresh_connection d) = (r, c)"
    using assms by (auto simp: migrate_connection_def all_statements_def Let_def split: sum.splits if_splits)
  then show ?thesis
    using run_migrations_ends by (metis (no_types, lifting))
qed

lemma Migrate_Migrated:
  assumes "Migrate fs dr directionUp d = (Migrated, d')"
  shows "\<exists>statements. all_statements fs directionUp = Inr statements \<and> run_statements dr statements d = Inr d'"
proof -
  obtain c where "migrate_connection fs dr directionUp (fresh_connection d) = (Migrated, c)" "d' = cn_database c"
    using assms by (auto simp: Migrate_def map_prod_def split: prod.splits)
  then show ?thesis
    using migrate_connection_ends by fastforce
qed

lemma Migrate_otherwise:
  assumes "Migrate fs dr directionUp d = (r, d')" and "r \<noteq> Migrated"
  shows "d' = d"
proof -
  obtain c where "migrate_connection fs dr directionUp (fresh_connection d) = (r, c)" "d' = cn_database c"
    using assms(1) by (auto simp: Migrate_def map_prod_def split: prod.splits)
  then show ?thesis
    using migrate_connection_ends assms(2) by fastforce
qed

text \<open>
  C39: A migration is all or nothing, and leaves nothing behind. Whichever call fails, what is committed
  at the end is the result of every statement of every file, the files in the order of their
  versions, if the migration succeeded, and what was committed before if it did not. The \<open>sql.Tx\<close> is finished, so that closing the
  connection does not wait for it, and no transaction is open in the database unless the rollback itself failed.
\<close>

theorem migration_all_or_nothing:
  assumes "migrate_connection fs dr directionUp (fresh_connection d) = (r, c)"
  shows "\<not> cn_held c \<and>
    (if r = Migrated
     then (\<exists>statements. all_statements fs directionUp = Inr statements \<and>
       run_statements dr statements d = Inr (cn_database c)) \<and> cn_pending c = None
     else cn_database c = d \<and> (cn_pending c = None \<or> dr_Rollback dr \<noteq> None))"
  by (rule migrate_connection_ends [OF assms])

text \<open>The smallest of the migration files, and a database that records its statements.\<close>

definition failure_reasons_sql :: "string list" where
  "failure_reasons_sql =
     [''-- +goose Up'',
      ''-- +goose StatementBegin'',
      ''ALTER TABLE monitor_incident_state ADD COLUMN IF NOT EXISTS failure_reasons_json TEXT DEFAULT '' @ [CHR 0x27] @ ''{}'' @ [CHR 0x27] @ '';'',
      ''ALTER TABLE monitor_incidents ADD COLUMN IF NOT EXISTS failure_reasons_json TEXT DEFAULT '' @ [CHR 0x27] @ ''{}'' @ [CHR 0x27] @ '';'',
      ''-- +goose StatementEnd'',
      '''',
      ''-- +goose Down'',
      ''-- +goose StatementBegin'',
      ''-- DuckDB does not reliably support dropping columns, leaving columns in place on down migration.'',
      ''-- +goose StatementEnd'']"

definition ex_fs :: migration_fs where
  "ex_fs = \<lparr>fs_ReadDir = Inr [(''20260422114900_add_failure_reasons.sql'', False)],
     fs_Open = \<lambda>path. Inr (concat (map (\<lambda>l. l @ [CHR 0x0A]) failure_reasons_sql))\<rparr>"

definition ex_driver :: "string list driver" where
  "ex_driver = \<lparr>dr_Conn = None, dr_Begin = None, dr_Exec = \<lambda>s d. Inr (d @ [s]), dr_Rollback = None, dr_Commit = None\<rparr>"

section \<open>The script of a file\<close>

lemma split_on_join:
  "c \<notin> set l \<Longrightarrow> split_on c (l @ c # s) = l # split_on c s"
  by (induction l) auto

lemma split_on_nonempty [simp]: "split_on c s \<noteq> []"
  by (induction s) (auto split: list.split)

lemma scan_lines_text:
  "list_all (\<lambda>l. CHR 0x0A \<notin> set l) ls \<Longrightarrow> scan_lines (concat (map (\<lambda>l. l @ [CHR 0x0A]) ls)) = ls"
proof -
  assume "list_all (\<lambda>l. CHR 0x0A \<notin> set l) ls"
  then have "split_on (CHR 0x0A) (concat (map (\<lambda>l. l @ [CHR 0x0A]) ls)) = ls @ [[]]"
    by (induction ls) (simp_all add: split_on_join)
  then show ?thesis
    by (simp add: scan_lines_def Let_def)
qed

lemma script_loop_before:
  "list_all (\<lambda>l. length l < 65536 \<and> trim_space l \<noteq> marker) before \<Longrightarrow>
     script_loop marker False (before @ ls) = script_loop marker False ls"
  by (induction before) (simp_all add: Let_def)

lemma script_loop_body:
  "list_all (\<lambda>l. length l < 65536 \<and> trim_space l \<noteq> marker \<and> trim_space l \<noteq> statement_end) body \<Longrightarrow>
     length e < 65536 \<Longrightarrow> trim_space e = statement_end \<Longrightarrow> statement_end \<noteq> marker \<Longrightarrow>
     script_loop marker True (body @ e # after) = Inr (concat (map (\<lambda>l. trim_space l @ [CHR 0x0A]) body))"
  by (induction body) (simp_all add: Let_def)

lemma script_of_section:
  assumes "list_all (\<lambda>l. CHR 0x0A \<notin> set l \<and> length l < 65536) (before @ m # body @ e # after)"
    and "list_all (\<lambda>l. trim_space l \<noteq> direction_marker directionUp) (before @ body)"
    and "list_all (\<lambda>l. trim_space l \<noteq> statement_end) body"
    and "trim_space m = direction_marker directionUp" and "trim_space e = statement_end"
  shows "migration_script directionUp (concat (map (\<lambda>l. l @ [CHR 0x0A]) (before @ m # body @ e # after))) =
    Inr (concat (map (\<lambda>l. trim_space l @ [CHR 0x0A]) body))"
proof -
  let ?m = "direction_marker directionUp"
  have "statement_end \<noteq> ?m"
    by (simp add: statement_end_def direction_marker_def)
  moreover have "scan_lines (concat (map (\<lambda>l. l @ [CHR 0x0A]) (before @ m # body @ e # after))) = before @ m # body @ e # after"
    using assms(1) by (intro scan_lines_text) (simp add: list_all_iff)
  moreover have "script_loop ?m False (before @ m # body @ e # after) = script_loop ?m False (m # body @ e # after)"
    using assms(1,2) by (intro script_loop_before) (simp add: list_all_iff)
  moreover have "script_loop ?m True (body @ e # after) = Inr (concat (map (\<lambda>l. trim_space l @ [CHR 0x0A]) body))"
    using assms calculation(1) by (intro script_loop_body) (simp_all add: list_all_iff)
  ultimately show ?thesis
    using assms(1,4) by (simp add: migration_script_def)
qed

text \<open>
  The script of a direction is the text between the line that marks the direction and the first
  line after it that ends a statement, line by line without surrounding white space; what stands
  before and after, the other direction included, is never run.
\<close>

theorem script_is_its_section:
  assumes "list_all (\<lambda>l. CHR 0x0A \<notin> set l \<and> length l < 65536) (before @ m # body @ e # after)"
    and "list_all (\<lambda>l. trim_space l \<noteq> direction_marker directionUp) (before @ body)"
    and "list_all (\<lambda>l. trim_space l \<noteq> statement_end) body"
    and "trim_space m = direction_marker directionUp" and "trim_space e = statement_end"
  shows "migration_script directionUp (concat (map (\<lambda>l. l @ [CHR 0x0A]) (before @ m # body @ e # after))) =
    Inr (concat (map (\<lambda>l. trim_space l @ [CHR 0x0A]) body))"
  by (rule script_of_section [OF assms])

lemma failure_reasons_trimmed: "map trim_space failure_reasons_sql = failure_reasons_sql"
  by code_simp

lemma failure_reasons_lines:
  "failure_reasons_sql = [] @ failure_reasons_sql ! 0 # take 3 (drop 1 failure_reasons_sql) @
     failure_reasons_sql ! 4 # drop 5 failure_reasons_sql"
  by (simp add: failure_reasons_sql_def)

lemma failure_reasons_trim: "list_all (\<lambda>l. trim_space l = l) failure_reasons_sql"
  using failure_reasons_trimmed by (simp add: list_all_iff map_idI) (metis in_set_conv_nth length_map nth_map)

theorem script_is_its_section_witness:
  "migration_script True (concat (map (\<lambda>l. l @ [CHR 0x0A]) failure_reasons_sql)) =
     Inr (concat (map (\<lambda>l. trim_space l @ [CHR 0x0A]) (take 3 (drop 1 failure_reasons_sql))))"
  by (subst failure_reasons_lines, rule script_is_its_section)
    (use failure_reasons_trim in \<open>simp_all add: failure_reasons_sql_def direction_marker_def statement_end_def\<close>)

text \<open>
  The program keeps no record of the versions it has applied: a second start runs every statement
  of every file again, on what the first start left.
\<close>

theorem every_start_runs_every_statement:
  assumes "Migrate fs dr directionUp d = (Migrated, d1)" and "Migrate fs dr directionUp d1 = (Migrated, d2)"
  shows "\<exists>statements. all_statements fs directionUp = Inr statements \<and>
    run_statements dr (statements @ statements) d = Inr d2"
  using Migrate_Migrated [OF assms(1)] Migrate_Migrated [OF assms(2)] by (auto simp: run_statements_append)

lemma ex_fs_script:
  "read_scripts ex_fs True (sort_key version_of [''20260422114900_add_failure_reasons.sql'']) =
     Inr [concat (map (\<lambda>l. trim_space l @ [CHR 0x0A]) (take 3 (drop 1 failure_reasons_sql)))]"
proof -
  have "migration_script True (concat (map (\<lambda>l. l @ [CHR 0x0A]) failure_reasons_sql)) =
      Inr (concat (map (\<lambda>l. trim_space l @ [CHR 0x0A]) (take 3 (drop 1 failure_reasons_sql))))"
    by (subst failure_reasons_lines, rule script_of_section)
      (use failure_reasons_trim in \<open>simp_all add: failure_reasons_sql_def direction_marker_def statement_end_def\<close>)
  then show ?thesis
    by (simp add: read_script_def ex_fs_def)
qed

lemma failure_reasons_statements:
  "length (script_statements (concat (map (\<lambda>l. l @ [CHR 0x0A]) (take 3 (drop 1 failure_reasons_sql))))) = 2"
  by code_simp

lemma ex_driver_records: "run_statements ex_driver xs d = Inr (d @ xs)"
  by (induction xs arbitrary: d) (simp_all add: ex_driver_def)

lemma ex_driver_calls: "dr_Conn ex_driver = None" "dr_Begin ex_driver = None" "dr_Commit ex_driver = None"
  "dr_Exec ex_driver s d = Inr (d @ [s])"
  by (simp_all add: ex_driver_def)

lemma ex_driver_executes:
  "exec_statements ex_driver xs \<lparr>cn_database = d, cn_pending = Some e, cn_held = True\<rparr> =
     (None, \<lparr>cn_database = d, cn_pending = Some (e @ xs), cn_held = True\<rparr>)"
  by (induction xs arbitrary: e) (simp_all add: tx_Exec_def ex_driver_calls)

lemma ex_fs_dir: "fs_ReadDir ex_fs = Inr [(''20260422114900_add_failure_reasons.sql'', False)]"
  by (simp add: ex_fs_def)

lemma ex_migration_connection:
  "\<exists>xs. length xs = 2 \<and> migrate_connection ex_fs ex_driver True (fresh_connection d) = (Migrated, fresh_connection (d @ xs))"
proof -
  let ?script = "concat (map (\<lambda>l. l @ [CHR 0x0A]) (take 3 (drop 1 failure_reasons_sql)))"
  have m: "map (\<lambda>l. trim_space l @ [CHR 0x0A]) (take 3 (drop 1 failure_reasons_sql)) =
      map (\<lambda>l. l @ [CHR 0x0A]) (take 3 (drop 1 failure_reasons_sql))"
    using failure_reasons_trim by (auto simp: list_all_iff dest!: in_set_takeD in_set_dropD)
  have "run_migrations ex_driver xs (fresh_connection d) = (Migrated, fresh_connection (d @ xs))" for xs
    by (simp add: run_migrations_def conn_BeginTx_def tx_Commit_def fresh_connection_def ex_driver_calls ex_driver_executes)
  then have "migrate_connection ex_fs ex_driver True (fresh_connection d) =
      (Migrated, fresh_connection (d @ script_statements ?script))"
    using ex_fs_script [unfolded m]
    by (simp add: migrate_connection_def migration_files_def ex_fs_dir del: sort_key_simps read_scripts.simps)
  then show ?thesis
    using failure_reasons_statements by blast
qed

lemma ex_migration:
  "\<exists>xs. length xs = 2 \<and> Migrate ex_fs ex_driver True d = (Migrated, d @ xs)"
  using ex_migration_connection [of d] by (auto simp: Migrate_def fresh_connection_def)

text \<open>A run that succeeds, and one whose statement fails.\<close>

theorem migration_all_or_nothing_witness:
  "(\<exists>c. migrate_connection ex_fs ex_driver True (fresh_connection []) = (Migrated, c) \<and> length (cn_database c) = 2 \<and>
     (\<exists>statements. all_statements ex_fs True = Inr statements \<and> run_statements ex_driver statements [] = Inr (cn_database c))) \<and>
   (\<exists>r c. migrate_connection ex_fs (ex_driver\<lparr>dr_Exec := \<lambda>s d. Inl ''syntax error''\<rparr>) True (fresh_connection [''old'']) = (r, c) \<and>
     cn_pending c = None)"
proof -
  obtain xs where x: "length xs = 2"
      "migrate_connection ex_fs ex_driver True (fresh_connection []) = (Migrated, fresh_connection ([] @ xs))"
    using ex_migration_connection by blast
  let ?dr = "ex_driver\<lparr>dr_Exec := \<lambda>s d. Inl ''syntax error''\<rparr>"
  obtain r c where f: "migrate_connection ex_fs ?dr True (fresh_connection [''old'']) = (r, c)"
    by fastforce
  have "cn_pending c = None"
    using migration_all_or_nothing [OF f] by (auto simp: ex_driver_def split: if_splits)
  then show ?thesis
    using migration_all_or_nothing [OF x(2)] x f by (auto simp: fresh_connection_def)
qed

theorem every_start_runs_every_statement_witness:
  "\<exists>d1 d2. Migrate ex_fs ex_driver True [] = (Migrated, d1) \<and> Migrate ex_fs ex_driver True d1 = (Migrated, d2) \<and>
     length d2 = 4 \<and>
     (\<exists>statements. all_statements ex_fs True = Inr statements \<and> run_statements ex_driver (statements @ statements) [] = Inr d2)"
proof -
  obtain xs where x: "length xs = 2" "Migrate ex_fs ex_driver True [] = (Migrated, [] @ xs)"
    using ex_migration by blast
  obtain ys where y: "length ys = 2" "Migrate ex_fs ex_driver True ([] @ xs) = (Migrated, ([] @ xs) @ ys)"
    using ex_migration by blast
  from every_start_runs_every_statement [OF x(2) y(2)] x y show ?thesis
    by (intro exI [of _ "[] @ xs"] exI [of _ "([] @ xs) @ ys"]) auto
qed

end
