(* ===== verification/Program_Entry.thy ===== *)
theory Program_Entry
  imports Processor_Worker Alerter_Worker Ingester Cleanup Root_Handler Checker Database_Migration
begin

text \<open>
  \<open>main.go\<close> and \<open>NewServer\<close> of \<open>server.go\<close>: reading and checking the configuration, the order in which
  the parts of the program are made, which request reaches which handler, and the shutdown.

  Parameters (\<open>startup\<close>): the files, the YAML decoder and the environment variables that override what
  it read, and the calls of libraries that may fail. An exit keeps the message that is logged and its
  error. Flags and signals are left out.
\<close>

section \<open>What the start depends on\<close>

datatype file_error = NotExist string | FileError string

datatype startup_call =
    SentryInit
  | NewConnector
  | OpenIngesterProducer
  | OpenProcessorProducer
  | OpenAlerterProducer
  | OpenIngesterSubscriber
  | OpenProcessorSubscriber
  | OpenAlerterSubscriber
  | FrontendSub

record startup =
  su_ReadFile :: "string \<Rightarrow> file_error + string"
  su_server_yaml :: "string \<Rightarrow> ServerConfig result"
  su_server_environment :: "ServerConfig \<Rightarrow> ServerConfig result"
  su_monitor_yaml :: "string \<Rightarrow> MonitorConfig result"
  su_monitor_environment :: "MonitorConfig \<Rightarrow> MonitorConfig result"
  su_checker_yaml :: "string \<Rightarrow> CheckerConfig result"
  su_checker_environment :: "CheckerConfig \<Rightarrow> CheckerConfig result"
  su_fault :: "startup_call \<Rightarrow> string option"
  su_gomaxprocs :: int

datatype startup_error =
    StartupError string string
  | InvalidServerConfig server_config_error
  | InvalidMonitorConfig config_error
  | UnknownMode string

definition file_error_text :: "file_error \<Rightarrow> string" where
  "file_error_text e = (case e of NotExist t \<Rightarrow> t | FileError t \<Rightarrow> t)"

text \<open>A call that ends the process with a message when it fails.\<close>

definition or_exit :: "string \<Rightarrow> 'a result \<Rightarrow> startup_error + 'a" where
  "or_exit msg r = (case r of Inl e \<Rightarrow> Inl (StartupError msg e) | Inr x \<Rightarrow> Inr x)"

definition and_then :: "'e + 'a \<Rightarrow> ('a \<Rightarrow> 'e + 'b) \<Rightarrow> 'e + 'b" where
  "and_then r f = (case r of Inl e \<Rightarrow> Inl e | Inr x \<Rightarrow> f x)"

lemma or_exit_Inr [simp]: "or_exit msg r = Inr x \<longleftrightarrow> r = Inr x"
  by (simp add: or_exit_def split: sum.split)

lemma and_then_Inr: "and_then r f = Inr y \<longleftrightarrow> (\<exists>x. r = Inr x \<and> f x = Inr y)"
  by (auto simp: and_then_def split: sum.split)

section \<open>Configuration\<close>

definition load_server_config :: "startup \<Rightarrow> string \<Rightarrow> startup_error + ServerConfig" where
  "load_server_config su configPath =
     and_then (or_exit ''failed to read config file'' (map_sum file_error_text id (su_ReadFile su configPath))) (\<lambda>content.
     and_then (or_exit ''failed to unmarshal config file'' (su_server_yaml su content)) (\<lambda>serverConfig.
     and_then (or_exit ''failed to process server config environment'' (su_server_environment su serverConfig)) (\<lambda>serverConfig.
       case server_Validate serverConfig of
         Some e \<Rightarrow> Inl (InvalidServerConfig e)
       | None \<Rightarrow> Inr serverConfig)))"

definition load_monitor_config :: "startup \<Rightarrow> string \<Rightarrow> ServerConfig \<Rightarrow> startup_error + MonitorConfig" where
  "load_monitor_config su monitorPath serverConfig =
     and_then (or_exit ''failed to read monitor file'' (map_sum file_error_text id (su_ReadFile su monitorPath))) (\<lambda>content.
     and_then (or_exit ''failed to unmarshal monitor file'' (su_monitor_yaml su content)) (\<lambda>monitorConfig.
     and_then (or_exit ''failed to process monitor config environment'' (su_monitor_environment su monitorConfig)) (\<lambda>monitorConfig.
       case validate_monitors (map EffectiveName (sc_RegisteredCheckers serverConfig)) (mc_Monitors monitorConfig) of
         Some e \<Rightarrow> Inl (InvalidMonitorConfig e)
       | None \<Rightarrow> Inr monitorConfig)))"

definition zero_checker_config :: CheckerConfig where
  "zero_checker_config = \<lparr>cc_UpstreamURL = [], cc_Name = [], cc_Region = [], cc_ApiKey = []\<rparr>"

text \<open>A checker needs no file, and its configuration is not validated.\<close>

definition load_checker_config :: "startup \<Rightarrow> string \<Rightarrow> startup_error + CheckerConfig" where
  "load_checker_config su configPath =
     and_then (case su_ReadFile su configPath of
         Inr content \<Rightarrow> or_exit ''failed to unmarshal config file'' (su_checker_yaml su content)
       | Inl (NotExist e) \<Rightarrow> Inr zero_checker_config
       | Inl (FileError e) \<Rightarrow> Inl (StartupError ''failed to read config file'' e)) (\<lambda>checkerConfig.
     or_exit ''failed to process checker config environment'' (su_checker_environment su checkerConfig))"

section \<open>The parts of the server\<close>

text \<open>
  The topics and subscriptions are opened one after the other; the first failure ends the process.
\<close>

definition queue_calls :: "(startup_call \<times> string) list" where
  "queue_calls =
     [(OpenIngesterProducer, ''failed to open ingester producer''),
      (OpenProcessorProducer, ''failed to open processor producer''),
      (OpenAlerterProducer, ''failed to open alerter producer''),
      (OpenIngesterSubscriber, ''failed to open ingester subscriber''),
      (OpenProcessorSubscriber, ''failed to open processor subscriber''),
      (OpenAlerterSubscriber, ''failed to open alerter subscriber'')]"

fun open_all :: "startup \<Rightarrow> (startup_call \<times> string) list \<Rightarrow> startup_error option" where
  "open_all su [] = None"
| "open_all su ((call, msg) # rest) =
     (case su_fault su call of Some e \<Rightarrow> Some (StartupError msg e) | None \<Rightarrow> open_all su rest)"

record http_server =
  hs_server :: Server
  hs_daily_cache :: "MonitorHistoricalDailyAggregate list backend"
  hs_region_cache :: "MonitorHistoricalRegionDailyAggregate list backend"
  hs_read_limit :: int

text \<open>The error of a cache names the configured backend.\<close>

definition NewServer :: "startup \<Rightarrow> ServerConfig \<Rightarrow> MonitorConfig \<Rightarrow> http_server result" where
  "NewServer su serverConfig monitorConfig =
     (let duckDBReadLimit =
        resolveDuckDBReadConcurrencyLimit (db_ReadConcurrencyLimit (sc_Database serverConfig)) (su_gomaxprocs su)
      in case newUptimeAggregateCache serverConfig ''uptime:daily'' uptimeDataCacheTTL of
           Inl e \<Rightarrow> Inl (''creating daily aggregate cache: '' @ e)
         | Inr daily \<Rightarrow>
             (case newUptimeAggregateCache serverConfig ''uptime:region-daily'' uptimeDataCacheTTL of
                Inl e \<Rightarrow> Inl (''creating region aggregate cache: '' @ e)
              | Inr region \<Rightarrow>
                  (case su_fault su FrontendSub of
                     Some e \<Rightarrow> Inl (''creating frontend sub-filesystem: '' @ e)
                   | None \<Rightarrow>
                       Inr \<lparr>hs_server = \<lparr>srv_serverConfig = serverConfig, srv_monitorConfig = monitorConfig\<rparr>,
                            hs_daily_cache = daily, hs_region_cache = region, hs_read_limit = duckDBReadLimit\<rparr>)))"

record ProcessorWorker =
  pw_monitorConfig :: MonitorConfig
  pw_datasetConfig :: DatasetConfig

definition NewProcessorWorker :: "MonitorConfig \<Rightarrow> DatasetConfig \<Rightarrow> ProcessorWorker" where
  "NewProcessorWorker monitorConfig datasetConfig =
     \<lparr>pw_monitorConfig = monitorConfig, pw_datasetConfig = datasetConfig\<rparr>"

record AlerterWorker =
  aw_alerters :: "NamedAlerter list"

definition NewAlerterWorker :: "NamedAlerter list \<Rightarrow> AlerterWorker" where
  "NewAlerterWorker alerters = \<lparr>aw_alerters = alerters\<rparr>"

record CleanupWorker =
  cw_datasetConfig :: DatasetConfig
  cw_interval :: duration

definition NewCleanupWorker :: "DatasetConfig \<Rightarrow> CleanupWorker" where
  "NewCleanupWorker datasetConfig = \<lparr>cw_datasetConfig = datasetConfig, cw_interval = interval datasetConfig\<rparr>"

record server_process =
  pr_ingester :: IngesterWorker
  pr_processor :: ProcessorWorker
  pr_alerter :: AlerterWorker
  pr_cleanup :: CleanupWorker
  pr_http :: http_server

datatype program = ServerProgram server_process | CheckerProgram Checker

datatype start = Exits startup_error | Panics | Runs program

section \<open>The start\<close>

text \<open>After the configuration was read: the database is opened and migrated before anything uses it.\<close>

definition start_server ::
    "startup \<Rightarrow> migration_fs \<Rightarrow> 'd driver \<Rightarrow> ServerConfig \<Rightarrow> MonitorConfig \<Rightarrow> 'd \<Rightarrow> start \<times> 'd" where
  "start_server su fs dr serverConfig monitorConfig d =
     (case su_fault su SentryInit of Some e \<Rightarrow> (Exits (StartupError ''sentry initialization failed'' e), d) | None \<Rightarrow>
     (case duckDBStartupRecoveryHint (db_Path (sc_Database serverConfig)) (su_fault su NewConnector) of
        Some e \<Rightarrow> (Exits (StartupError ''failed to create duckdb connector'' e), d)
      | None \<Rightarrow>
     (case Migrate fs dr True d of
        (MigrationPanics, d) \<Rightarrow> (Panics, d)
      | (MigrationError e, d) \<Rightarrow> (Exits (StartupError ''failed to migrate database'' e), d)
      | (Migrated, d) \<Rightarrow>
     (case open_all su queue_calls of Some e \<Rightarrow> (Exits e, d) | None \<Rightarrow>
     (case NewServer su serverConfig monitorConfig of
        Inl e \<Rightarrow> (Exits (StartupError ''failed to create server'' e), d)
      | Inr srv \<Rightarrow>
          (Runs (ServerProgram
             \<lparr>pr_ingester = NewIngesterWorker monitorConfig (sc_Dataset serverConfig),
              pr_processor = NewProcessorWorker monitorConfig (sc_Dataset serverConfig),
              pr_alerter = NewAlerterWorker (BuildAlerters serverConfig),
              pr_cleanup = NewCleanupWorker (sc_Dataset serverConfig),
              pr_http = srv\<rparr>), d))))))"

definition main_server ::
    "startup \<Rightarrow> migration_fs \<Rightarrow> 'd driver \<Rightarrow> string \<Rightarrow> string \<Rightarrow> 'd \<Rightarrow> start \<times> 'd" where
  "main_server su fs dr configPath monitorPath d =
     (case load_server_config su configPath of
        Inl e \<Rightarrow> (Exits e, d)
      | Inr serverConfig \<Rightarrow>
          (case load_monitor_config su monitorPath serverConfig of
             Inl e \<Rightarrow> (Exits e, d)
           | Inr monitorConfig \<Rightarrow> start_server su fs dr serverConfig monitorConfig d))"

definition main_checker :: "startup \<Rightarrow> string \<Rightarrow> start" where
  "main_checker su configPath =
     (case load_checker_config su configPath of
        Inl e \<Rightarrow> Exits e
      | Inr checkerConfig \<Rightarrow>
          (case su_fault su SentryInit of
             Some e \<Rightarrow> Exits (StartupError ''sentry initialization failed'' e)
           | None \<Rightarrow> Runs (CheckerProgram (NewChecker checkerConfig))))"

definition main_program ::
    "startup \<Rightarrow> migration_fs \<Rightarrow> 'd driver \<Rightarrow> string \<Rightarrow> string \<Rightarrow> string \<Rightarrow> 'd \<Rightarrow> start \<times> 'd" where
  "main_program su fs dr mode configPath monitorPath d =
     (if mode = ''server'' then main_server su fs dr configPath monitorPath d
      else if mode = ''checker'' then (main_checker su configPath, d)
      else (Exits (UnknownMode mode), d))"

section \<open>Requests\<close>

text \<open>
  The patterns of the mux, the most specific first: a pattern with \<open>GET\<close> also takes \<open>HEAD\<close>, and what
  no other pattern takes goes to the files. The path is the one the mux has cleaned; its redirects
  are left out. \<open>pprof\<close> tells whether the profiler is switched on.
\<close>

datatype endpoint =
    ConfigEndpoint
  | UptimeDataEndpoint
  | UptimeDataByRegionEndpoint
  | MonitorIncidentsEndpoint
  | RegisterEndpoint
  | SubmitEndpoint
  | ProfilerEndpoint
  | RootEndpoint
  | FilesEndpoint

definition route :: "bool \<Rightarrow> string \<Rightarrow> string \<Rightarrow> endpoint" where
  "route pprof verb path =
     (let get = (verb = ''GET'' \<or> verb = ''HEAD'') in
      if get \<and> path = ''/config'' then ConfigEndpoint
      else if get \<and> path = ''/uptime-data'' then UptimeDataEndpoint
      else if get \<and> path = ''/uptime-data-by-region'' then UptimeDataByRegionEndpoint
      else if get \<and> path = ''/monitor-incidents'' then MonitorIncidentsEndpoint
      else if verb = ''POST'' \<and> path = ''/checker/register'' then RegisterEndpoint
      else if verb = ''POST'' \<and> path = ''/checker/submit'' then SubmitEndpoint
      else if pprof \<and> prefix ''/debug/pprof/'' path then ProfilerEndpoint
      else if get \<and> path = ''/'' then RootEndpoint
      else FilesEndpoint)"

section \<open>Shutdown\<close>

text \<open>
  One step after the other; a step that fails is logged, and the next one is tried.
\<close>

datatype shutdown_step =
    ShutdownHttp
  | CloseUptimeCaches
  | StopAlerter
  | StopProcessor
  | StopIngester
  | StopCleanup
  | ShutdownAlerterProducer
  | ShutdownIngesterProducer
  | ShutdownProcessorProducer
  | ShutdownAlerterSubscriber
  | ShutdownProcessorSubscriber
  | ShutdownIngesterSubscriber
  | CloseDatabase
  | CloseConnector

definition shutdown_steps :: "(shutdown_step \<times> string) list" where
  "shutdown_steps =
     [(ShutdownHttp, ''failed to shutdown server''),
      (CloseUptimeCaches, ''failed to close uptime caches''),
      (StopAlerter, ''failed to stop alerter worker''),
      (StopProcessor, ''failed to stop processor worker''),
      (StopIngester, ''failed to stop ingester worker''),
      (StopCleanup, ''failed to stop cleanup worker''),
      (ShutdownAlerterProducer, ''failed to shutdown alerter producer''),
      (ShutdownIngesterProducer, ''failed to shutdown ingester producer''),
      (ShutdownProcessorProducer, ''failed to shutdown processor producer''),
      (ShutdownAlerterSubscriber, ''failed to shutdown alerter subscriber''),
      (ShutdownProcessorSubscriber, ''failed to shutdown processor subscriber''),
      (ShutdownIngesterSubscriber, ''failed to shutdown ingester subscriber''),
      (CloseDatabase, ''failed to close database''),
      (CloseConnector, ''failed to close database connector'')]"

text \<open>The steps that were tried, and what was logged.\<close>

definition shutdown_server :: "(shutdown_step \<Rightarrow> string option) \<Rightarrow> shutdown_step list \<times> (string \<times> string) list" where
  "shutdown_server fault =
     (map fst shutdown_steps,
      List.map_filter (\<lambda>(s, msg). map_option (Pair msg) (fault s)) shutdown_steps)"

section \<open>A start that succeeds\<close>

lemma load_server_config_valid: "load_server_config su path = Inr c \<Longrightarrow> server_Validate c = None"
  by (auto simp: load_server_config_def and_then_Inr split: option.splits)

lemma load_monitor_config_valid:
  "load_monitor_config su path sc = Inr c \<Longrightarrow>
     validate_monitors (map EffectiveName (sc_RegisteredCheckers sc)) (mc_Monitors c) = None"
  by (auto simp: load_monitor_config_def and_then_Inr split: option.splits)

lemma NewServer_Inr:
  "NewServer su sc mc = Inr h \<Longrightarrow>
     hs_server h = \<lparr>srv_serverConfig = sc, srv_monitorConfig = mc\<rparr> \<and>
     newUptimeAggregateCache sc ''uptime:daily'' uptimeDataCacheTTL = Inr (hs_daily_cache h) \<and>
     newUptimeAggregateCache sc ''uptime:region-daily'' uptimeDataCacheTTL = Inr (hs_region_cache h) \<and> 1 \<le> hs_read_limit h"
  by (auto simp: NewServer_def Let_def resolveDuckDBReadConcurrencyLimit_def split: sum.splits option.splits)

text \<open>What runs, in terms of the two configurations that were read.\<close>

definition runs_on :: "ServerConfig \<Rightarrow> MonitorConfig \<Rightarrow> server_process \<Rightarrow> bool" where
  "runs_on sc mc p =
     (hs_server (pr_http p) = \<lparr>srv_serverConfig = sc, srv_monitorConfig = mc\<rparr> \<and>
      pr_ingester p = NewIngesterWorker mc (sc_Dataset sc) \<and>
      pr_processor p = NewProcessorWorker mc (sc_Dataset sc) \<and>
      pr_alerter p = NewAlerterWorker (BuildAlerters sc) \<and> pr_cleanup p = NewCleanupWorker (sc_Dataset sc) \<and>
      newUptimeAggregateCache sc ''uptime:daily'' uptimeDataCacheTTL = Inr (hs_daily_cache (pr_http p)) \<and>
      newUptimeAggregateCache sc ''uptime:region-daily'' uptimeDataCacheTTL = Inr (hs_region_cache (pr_http p)) \<and>
      1 \<le> hs_read_limit (pr_http p))"

lemma start_server_Runs:
  assumes "start_server su fs dr sc mc d = (Runs r, d')"
  shows "\<exists>p. r = ServerProgram p \<and> Migrate fs dr True d = (Migrated, d') \<and> runs_on sc mc p"
  using assms
  by (auto simp: start_server_def runs_on_def
      split: option.splits prod.splits migration_outcome.splits sum.splits dest!: NewServer_Inr)

lemma start_server_database:
  "start_server su fs dr sc mc d = (r, d') \<Longrightarrow> d' = d \<or> Migrate fs dr True d = (Migrated, d')"
  by (auto simp: start_server_def split: option.splits prod.splits migration_outcome.splits sum.splits
      dest: Migrate_otherwise)

lemma cleanup_starts:
  assumes "server_Validate sc = None" and "CleanupIntervalMinutes (sc_Dataset sc) \<le> 153000000"
  shows "start_error (sc_Dataset sc) = None"
proof -
  have "0 < CleanupIntervalMinutes (sc_Dataset sc)"
    using assms(1) by (auto simp: server_Validate_def split: option.splits if_splits)
  with assms(2) show ?thesis
    by (simp add: start_error_def interval_def minutes_small minute_def)
qed

text \<open>
  C40: A server runs only on a configuration that was checked and on a migrated database. Whatever fails,
  the database is untouched, or the migration is complete and both configurations are valid. When
  the server runs, all its parts have the same two configurations, the names of its alert targets
  are distinct, requests can get a permit, and the cleanup worker does not refuse to start (for
  intervals below 290 years, where the nanoseconds do not wrap around).
\<close>

theorem server_runs_on_checked_configuration:
  assumes "main_server su fs dr configPath monitorPath d = (outcome, d')"
  shows "(if d' = d then True
       else \<exists>sc mc. load_server_config su configPath = Inr sc \<and> load_monitor_config su monitorPath sc = Inr mc \<and>
         server_Validate sc = None \<and>
         validate_monitors (map EffectiveName (sc_RegisteredCheckers sc)) (mc_Monitors mc) = None \<and>
         Migrate fs dr True d = (Migrated, d')) \<and>
    (case outcome of
       Runs r \<Rightarrow> \<exists>p. r = ServerProgram p \<and> Migrate fs dr True d = (Migrated, d') \<and>
         (let sc = srv_serverConfig (hs_server (pr_http p)); mc = srv_monitorConfig (hs_server (pr_http p)) in
          load_server_config su configPath = Inr sc \<and> load_monitor_config su monitorPath sc = Inr mc \<and>
          iw_monitorConfig (pr_ingester p) = mc \<and> pw_monitorConfig (pr_processor p) = mc \<and>
          iw_datasetConfig (pr_ingester p) = sc_Dataset sc \<and> pw_datasetConfig (pr_processor p) = sc_Dataset sc \<and>
          aw_alerters (pr_alerter p) = BuildAlerters sc \<and> distinct (map trim_space (all_alert_names (sc_Alerting sc))) \<and>
          1 \<le> hs_read_limit (pr_http p) \<and>
          (if CleanupIntervalMinutes (sc_Dataset sc) \<le> 153000000
           then start_error (cw_datasetConfig (pr_cleanup p)) = None else True))
     | _ \<Rightarrow> True)"
proof (cases "load_server_config su configPath")
  case (Inl e)
  then show ?thesis
    using assms by (auto simp: main_server_def)
next
  case sc: (Inr sc)
  show ?thesis
  proof (cases "load_monitor_config su monitorPath sc")
    case (Inl e)
    then show ?thesis
      using assms sc by (auto simp: main_server_def)
  next
    case mc: (Inr mc)
    have s: "start_server su fs dr sc mc d = (outcome, d')"
      using assms sc mc by (simp add: main_server_def)
    note valid = load_server_config_valid [OF sc] load_monitor_config_valid [OF mc]
    have "case outcome of
       Runs r \<Rightarrow> \<exists>p. r = ServerProgram p \<and> Migrate fs dr True d = (Migrated, d') \<and> runs_on sc mc p
     | _ \<Rightarrow> True"
      using s start_server_Runs by (cases outcome) auto
    then show ?thesis
      using start_server_database [OF s] sc mc valid server_Validate_alert_names(1) [OF valid(1)] cleanup_starts [OF valid(1)]
      by (cases outcome) (auto simp: runs_on_def NewIngesterWorker_def NewProcessorWorker_def NewAlerterWorker_def NewCleanupWorker_def)
  qed
qed

lemma main_server_Runs:
  assumes "main_server su fs dr configPath monitorPath d = (Runs r, d')"
  shows "\<exists>sc mc p. r = ServerProgram p \<and> runs_on sc mc p \<and> server_Validate sc = None \<and>
     validate_monitors (map EffectiveName (sc_RegisteredCheckers sc)) (mc_Monitors mc) = None"
  using assms start_server_Runs load_server_config_valid load_monitor_config_valid
  by (fastforce simp: main_server_def split: sum.splits)

text \<open>
  C12: No monitor is left without a checker. When a server runs and has at least one registered checker,
  every monitor of its configuration is in the share of some registered checker, and that checker is
  handed this share when it registers with its key, its region and its name.
\<close>

theorem every_monitor_has_a_checker:
  assumes "main_server su fs dr configPath monitorPath d = (Runs (ServerProgram p), d')"
    and "sc_RegisteredCheckers (srv_serverConfig (hs_server (pr_http p))) \<noteq> []"
    and "monitor \<in> set (mc_Monitors (srv_monitorConfig (hs_server (pr_http p))))"
  shows "\<exists>checker \<in> set (sc_RegisteredCheckers (srv_serverConfig (hs_server (pr_http p)))). \<exists>share.
     CheckerRegistration (hs_server (pr_http p)) (checker_ApiKey checker)
       (Some \<lparr>reg_Name = EffectiveName checker, reg_Region = checker_Region checker\<rparr>) = Answer 200 share \<and>
     monitor \<in> set (mc_Monitors share)"
proof -
  obtain sc mc where r: "runs_on sc mc p" and valid: "server_Validate sc = None"
      "validate_monitors (map EffectiveName (sc_RegisteredCheckers sc)) (mc_Monitors mc) = None"
    using main_server_Runs [OF assms(1)] by blast
  have srv: "hs_server (pr_http p) = \<lparr>srv_serverConfig = sc, srv_monitorConfig = mc\<rparr>"
    using r by (simp add: runs_on_def)
  have m: "monitor \<in> set (mc_Monitors mc)" "sc_RegisteredCheckers sc \<noteq> []"
    using assms(2,3) by (simp_all add: srv)
  have names: "set (mon_CheckerNames monitor) \<subseteq> EffectiveName ` set (sc_RegisteredCheckers sc)"
    using valid(2) m(1) by (simp add: validate_monitors_None)
  have "\<exists>checker \<in> set (sc_RegisteredCheckers sc). RunsOnChecker monitor (EffectiveName checker)"
    using names m(2) by (cases "mon_CheckerNames monitor"; cases "sc_RegisteredCheckers sc") (auto simp: RunsOnChecker_def)
  then obtain checker where c: "checker \<in> set (sc_RegisteredCheckers sc)" "RunsOnChecker monitor (EffectiveName checker)"
    by blast
  then have "FindRegisteredChecker sc (EffectiveName checker) (checker_Region checker) (checker_ApiKey checker) = Some checker"
    using FindRegisteredChecker_Some [OF valid(1)] by blast
  then have "CheckerRegistration (hs_server (pr_http p)) (checker_ApiKey checker)
      (Some \<lparr>reg_Name = EffectiveName checker, reg_Region = checker_Region checker\<rparr>) =
      Answer 200 (ForChecker mc (EffectiveName checker))"
    by (simp add: CheckerRegistration_def srv)
  moreover have "monitor \<in> set (mc_Monitors (ForChecker mc (EffectiveName checker)))"
    using m(1) c(2) by (simp add: ForChecker_def Let_def)
  ultimately show ?thesis
    using c(1) by (auto simp: srv)
qed

section \<open>Requests and shutdown\<close>

text \<open>Reading never reaches an endpoint that writes.\<close>

lemma route_reads: "verb \<in> {''GET'', ''HEAD''} \<Longrightarrow> route pprof verb path \<notin> {RegisterEndpoint, SubmitEndpoint}"
  by (auto simp: route_def Let_def)

text \<open>Every step is tried; the parts that use another one are told to stop before it is closed.\<close>

lemma shutdown_tries_all: "fst (shutdown_server fault) = map fst shutdown_steps" "distinct (map fst shutdown_steps)"
  by (simp_all add: shutdown_server_def shutdown_steps_def)

section \<open>A start of the example deployment\<close>

definition ex_startup :: startup where
  "ex_startup = \<lparr>su_ReadFile = \<lambda>path. Inr [], su_server_yaml = \<lambda>content. Inr ex_server_config,
     su_server_environment = Inr, su_monitor_yaml = \<lambda>content. Inr ex_monitors, su_monitor_environment = Inr,
     su_checker_yaml = \<lambda>content. Inr zero_checker_config, su_checker_environment = Inr,
     su_fault = \<lambda>call. None, su_gomaxprocs = 4\<rparr>"

lemma ex_configurations:
  "load_server_config ex_startup path = Inr ex_server_config"
  "load_monitor_config ex_startup path ex_server_config = Inr ex_monitors"
proof -
  have "validate_monitors (map EffectiveName (sc_RegisteredCheckers ex_server_config)) (mc_Monitors ex_monitors) = None"
    by code_simp
  then show "load_server_config ex_startup path = Inr ex_server_config"
    "load_monitor_config ex_startup path ex_server_config = Inr ex_monitors"
    by (simp_all add: load_server_config_def load_monitor_config_def ex_startup_def and_then_def or_exit_def
        ex_server_config_valid)
qed

lemma ex_start:
  "\<exists>p d. main_server ex_startup ex_fs ex_driver configPath monitorPath [] = (Runs (ServerProgram p), d) \<and> length d = 2 \<and>
     hs_server (pr_http p) = \<lparr>srv_serverConfig = ex_server_config, srv_monitorConfig = ex_monitors\<rparr>"
proof -
  obtain xs where x: "length xs = 2" "Migrate ex_fs ex_driver True [] = (Migrated, [] @ xs)"
    using ex_migration by blast
  have f: "su_fault ex_startup call = None" for call
    by (simp add: ex_startup_def)
  then have o: "open_all ex_startup calls = None" for calls
    by (induction calls) auto
  have c: "newUptimeAggregateCache ex_server_config ns ttl = Inr (MemoryBackend (newTTLCache ttl))" for ns ttl
  proof -
    have "normalized (cache_Backend (sc_Cache ex_server_config)) = ''memory''"
      by code_simp
    then show ?thesis
      by (simp add: newUptimeAggregateCache_def normalized_def)
  qed
  show ?thesis
    using x by (simp add: main_server_def ex_configurations start_server_def f o c NewServer_def
        duckDBStartupRecoveryHint_def isDuckDBWALReplayError_def Let_def)
qed

theorem server_runs_on_checked_configuration_witness:
  "\<exists>p d. main_server ex_startup ex_fs ex_driver ''c'' ''m'' [] = (Runs (ServerProgram p), d) \<and> length d = 2 \<and>
     Migrate ex_fs ex_driver True [] = (Migrated, d)"
proof -
  obtain p d where r: "main_server ex_startup ex_fs ex_driver ''c'' ''m'' [] = (Runs (ServerProgram p), d)" "length d = 2"
    using ex_start by blast
  from server_runs_on_checked_configuration [OF r(1)] r show ?thesis
    by auto
qed

theorem every_monitor_has_a_checker_witness:
  "\<exists>p d. main_server ex_startup ex_fs ex_driver ''c'' ''m'' [] = (Runs (ServerProgram p), d) \<and>
     (\<exists>checker share. CheckerRegistration (hs_server (pr_http p)) (checker_ApiKey checker)
        (Some \<lparr>reg_Name = EffectiveName checker, reg_Region = checker_Region checker\<rparr>) = Answer 200 share \<and>
        ex_monitor \<in> set (mc_Monitors share))"
proof -
  obtain p d where r: "main_server ex_startup ex_fs ex_driver ''c'' ''m'' [] = (Runs (ServerProgram p), d)"
      "hs_server (pr_http p) = \<lparr>srv_serverConfig = ex_server_config, srv_monitorConfig = ex_monitors\<rparr>"
    using ex_start by blast
  have "sc_RegisteredCheckers (srv_serverConfig (hs_server (pr_http p))) \<noteq> []"
    "ex_monitor \<in> set (mc_Monitors (srv_monitorConfig (hs_server (pr_http p))))"
    by (simp_all add: r(2) ex_server_config_def ex_monitors_def)
  from every_monitor_has_a_checker [OF r(1) this] r(1) show ?thesis
    by blast
qed

end
