(* ===== verification/Pipeline.thy ===== *)
theory Pipeline
  imports Program_Entry
begin

text \<open>
  The server as a whole: the goroutines \<open>main.go\<close> starts for one \<open>server_process\<close>, over one database,
  the three queues and the receivers of the alerts. A step is one submission, one message of a
  worker, one run of the aggregation, one tick of a digest or one pass of the cleanup; every call in
  it may fail in any of the ways its own theory describes. A restart makes the workers anew: what
  they kept in memory is gone, the database stays, and a queue stays if its broker outlives the process.

  The queues are outside of the program. What the development relies on is that they deliver at least once: while its queue
  lives, a message stays until an acknowledgement of it is confirmed, and may be delivered in any order, also again
  after an acknowledgement that got lost. The queues of the default configuration (the \<open>mem://\<close> addresses of
  \<open>config_server.go\<close>) take messages back but live in the process: a restart empties them. What a
  deployment's queues can do is \<open>de_nackable\<close>, \<open>de_durable\<close> and their like for the alerts.
\<close>

section \<open>The parts together\<close>

record deployment =
  de_process :: server_process
  de_nackable :: "bool \<times> bool"
  de_alert_nackable :: bool
  de_durable :: "bool \<times> bool"
  de_alert_durable :: bool
  de_hash :: "string \<Rightarrow> string"
  de_mac :: "string \<Rightarrow> string \<Rightarrow> string"
  de_sql_date :: "gotime \<Rightarrow> int"
  de_sql_int :: "rat \<Rightarrow> int"

text \<open>
  The pairs are for the processor's topic and the ingester's. The last eight fields of a state record what happened: the submissions the ingester's topic took, the alerts
  the processor published, each attempt to deliver an alert with the requests that were accepted
  during it, the cutoffs of each pass of the cleanup for the raw rows and for the aggregates (the
  clock is read twice), the begin of the window of each complete seed, whether the ingester has
  been made anew without a complete seed since, and how often the server was restarted.
\<close>

record pipeline =
  pl_db :: database
  pl_ingester :: IngesterWorker
  pl_topics :: topics
  pl_alerts :: "AlertMessage queue_message list"
  pl_world :: world
  pl_taken :: "CheckerSubmissionRequest queue_message list"
  pl_sent :: "AlertMessage list"
  pl_attempts :: "(AlertMessage \<times> http_request list) list"
  pl_cutoffs :: "gotime list"
  pl_pruned :: "gotime list"
  pl_since :: "gotime list"
  pl_unseeded :: bool
  pl_restarts :: nat

definition de_srv :: "deployment \<Rightarrow> Server" where
  "de_srv d = hs_server (pr_http (de_process d))"

definition restarted :: "world \<Rightarrow> world" where
  "restarted w = w\<lparr>w_ntfy := \<lambda>_. []\<rparr>"

definition pipeline_start :: "deployment \<Rightarrow> world \<Rightarrow> pipeline" where
  "pipeline_start d w =
     \<lparr>pl_db = empty_db, pl_ingester = pr_ingester (de_process d), pl_topics = \<lparr>tp_processor = [], tp_ingester = []\<rparr>,
      pl_alerts = [], pl_world = restarted w, pl_taken = [], pl_sent = [], pl_attempts = [],
      pl_cutoffs = [], pl_pruned = [], pl_since = [], pl_unseeded = False, pl_restarts = 0\<rparr>"

definition surviving :: "bool \<Rightarrow> 'm list \<Rightarrow> 'm list" where
  "surviving durable queue = (if durable then queue else [])"

definition surviving_topics :: "bool \<times> bool \<Rightarrow> topics \<Rightarrow> topics" where
  "surviving_topics durable topics =
     \<lparr>tp_processor = surviving (fst durable) (tp_processor topics), tp_ingester = surviving (snd durable) (tp_ingester topics)\<rparr>"

definition settle :: "ack \<Rightarrow> bool \<Rightarrow> 'm \<Rightarrow> 'm list \<Rightarrow> 'm list" where
  "settle a confirmed message queue = (if a = Ack \<and> confirmed then remove1 message queue else queue)"

definition alert_messages :: "bool \<Rightarrow> (AlertMessage \<times> (string, string) gomap) option \<Rightarrow> AlertMessage queue_message list" where
  "alert_messages nackable out =
     (case out of None \<Rightarrow> []
      | Some (alert, metadata) \<Rightarrow> [\<lparr>msg_body = Some alert, msg_metadata = metadata, msg_nackable = nackable\<rparr>])"

definition sent_alerts :: "(AlertMessage \<times> (string, string) gomap) option \<Rightarrow> AlertMessage list" where
  "sent_alerts out = (case out of None \<Rightarrow> [] | Some (alert, metadata) \<Rightarrow> [alert])"

definition attempts_of :: "AlertMessage queue_message \<Rightarrow> world \<Rightarrow> world \<Rightarrow> (AlertMessage \<times> http_request list) list" where
  "attempts_of message w w' =
     (case msg_body message of None \<Rightarrow> []
      | Some alert \<Rightarrow> [(alert, drop (length (accepted_requests w)) (accepted_requests w'))])"

definition cleanup_cutoff :: "cleanup_env \<Rightarrow> DatasetConfig \<Rightarrow> nat \<Rightarrow> gotime" where
  "cleanup_cutoff env cfg n = utcDayStart (add_days (ce_clock env n) (- RetentionDays cfg))"

definition no_seed_faults :: seed_faults where
  "no_seed_faults = \<lparr>sd_conn = None, sd_query = None, sd_scan = \<lambda>_. False\<rparr>"

definition seeded :: "deployment \<Rightarrow> seed_faults \<Rightarrow> gotime \<Rightarrow> pipeline \<Rightarrow> IngesterWorker" where
  "seeded d faults now p =
     seedRecentAggregationTasks (de_sql_date d) faults now (aggregationSeedLookback (pl_ingester p)) (pl_db p) (pl_ingester p)"

inductive pipeline_step :: "deployment \<Rightarrow> pipeline \<Rightarrow> pipeline \<Rightarrow> bool" for d :: deployment where
  submit: "CheckerSubmission env (de_srv d) marshal (de_nackable d) apiKey body (pl_topics p) n = (answer, topics, n') \<Longrightarrow>
    pipeline_step d p (p\<lparr>pl_topics := topics,
      pl_taken := pl_taken p @ drop (length (tp_ingester (pl_topics p))) (tp_ingester topics)\<rparr>)"
| ingest: "message \<in> set (tp_ingester (pl_topics p)) \<Longrightarrow>
    ingest_message faults message (pl_ingester p) (pl_db p) = (a, w, db) \<Longrightarrow>
    pipeline_step d p (p\<lparr>pl_ingester := w, pl_db := db,
      pl_topics := (pl_topics p)\<lparr>tp_ingester := settle a confirmed message (tp_ingester (pl_topics p))\<rparr>\<rparr>)"
| aggregate: "aggregateDirtyMonitors (de_sql_date d) (de_sql_int d) faults (pl_ingester p, pl_db p) = (w, db) \<Longrightarrow>
    pipeline_step d p (p\<lparr>pl_ingester := w, pl_db := db\<rparr>)"
| seed: "pipeline_step d p (p\<lparr>pl_ingester := seeded d faults now p\<rparr>)"
| seed_all: "pipeline_step d p (p\<lparr>pl_ingester := seeded d no_seed_faults now p,
      pl_since := pl_since p @ [now - aggregationSeedLookback (pl_ingester p)], pl_unseeded := False\<rparr>)"
| process_one: "message \<in> set (tp_processor (pl_topics p)) \<Longrightarrow>
    process_message (pw_monitorConfig (pr_processor (de_process d))) (pw_datasetConfig (pr_processor (de_process d)))
      env (pl_db p) message = (a, db, out) \<Longrightarrow>
    pipeline_step d p (p\<lparr>pl_db := db,
      pl_topics := (pl_topics p)\<lparr>tp_processor := settle a confirmed message (tp_processor (pl_topics p))\<rparr>,
      pl_alerts := pl_alerts p @ alert_messages (de_alert_nackable d) out, pl_sent := pl_sent p @ sent_alerts out\<rparr>)"
| deliver: "message \<in> set (pl_alerts p) \<Longrightarrow>
    process_alert (alerter_Send (de_hash d) (de_mac d)) (aw_alerters (pr_alerter (de_process d))) message (pl_world p) = (a, w) \<Longrightarrow>
    pipeline_step d p (p\<lparr>pl_world := w, pl_alerts := settle a confirmed message (pl_alerts p),
      pl_attempts := pl_attempts p @ attempts_of message (pl_world p) w\<rparr>)"
| digest: "BufferedNtfy b \<in> named_Alerter ` set (aw_alerters (pr_alerter (de_process d))) \<Longrightarrow>
    pipeline_step d p (p\<lparr>pl_world := flushDigest b (pl_world p)\<rparr>)"
| clean: "cfg = cw_datasetConfig (pr_cleanup (de_process d)) \<Longrightarrow>
    runCleanup (de_sql_date d) env cfg \<lparr>cs_db = pl_db p, cs_statements = 0, cs_ticks = 0\<rparr> = Some (report, s) \<Longrightarrow>
    pipeline_step d p (p\<lparr>pl_db := cs_db s, pl_cutoffs := pl_cutoffs p @ [cleanup_cutoff env cfg 0],
      pl_pruned := pl_pruned p @ [cleanup_cutoff env cfg 1]\<rparr>)"
| restart: "pipeline_step d p (p\<lparr>pl_ingester := pr_ingester (de_process d), pl_world := restarted (pl_world p),
      pl_topics := surviving_topics (de_durable d) (pl_topics p), pl_alerts := surviving (de_alert_durable d) (pl_alerts p),
      pl_unseeded := True, pl_restarts := Suc (pl_restarts p)\<rparr>)"

abbreviation pipeline_reachable :: "deployment \<Rightarrow> world \<Rightarrow> pipeline \<Rightarrow> bool" where
  "pipeline_reachable d w p \<equiv> (pipeline_step d)\<^sup>*\<^sup>* (pipeline_start d w) p"

section \<open>What a step does to the tables and the queues\<close>

lemma processor_run_history: "processor_run monitors cfg db alerts \<Longrightarrow> same_incidents db db' \<Longrightarrow> processor_run monitors cfg db' alerts"
proof -
  assume r: "processor_run monitors cfg db alerts" and s: "same_incidents db db'"
  have "db' = db\<lparr>tbl_historical := tbl_historical db', tbl_daily := tbl_daily db', tbl_region_daily := tbl_region_daily db'\<rparr>"
    using s by (simp add: same_incidents_def)
  then show ?thesis
    using processor_run.history [OF r, where h = "tbl_historical db'" and d = "tbl_daily db'" and rd = "tbl_region_daily db'"]
    by simp
qed

lemma clean_effect:
  assumes "runCleanup sql_date env cfg \<lparr>cs_db = db, cs_statements = 0, cs_ticks = 0\<rparr> = Some (report, s)"
    and "0 < CleanupBatchSize cfg"
  shows "same_incidents db (cs_db s)"
    and "filter (\<lambda>r. \<not> hist_CreatedAt r < cleanup_cutoff env cfg 0) (tbl_historical (cs_db s)) =
      filter (\<lambda>r. \<not> hist_CreatedAt r < cleanup_cutoff env cfg 0) (tbl_historical db)"
    and "set (tbl_historical (cs_db s)) \<subseteq> set (tbl_historical db)"
    and "tbl_daily (cs_db s) \<in> {tbl_daily db, filter (\<lambda>r. \<not> daily_Date r < utc_date (cleanup_cutoff env cfg 1)) (tbl_daily db)}"
    and "tbl_region_daily (cs_db s) \<in>
      {tbl_region_daily db, filter (\<lambda>r. \<not> region_Date r < utc_date (cleanup_cutoff env cfg 1)) (tbl_region_daily db)}"
proof -
  obtain db1 where db1: "only_removes (\<lambda>r. hist_CreatedAt r < cleanup_cutoff env cfg 0) db db1"
      "only_prunes (cleanup_cutoff env cfg 1) db1 (cs_db s)"
    using runCleanup_effect [OF assms(2,1)] by (auto simp: cleanup_cutoff_def)
  from db1(1) have same: "tbl_daily db1 = tbl_daily db" "tbl_region_daily db1 = tbl_region_daily db"
      "tbl_state db1 = tbl_state db" "tbl_incidents db1 = tbl_incidents db" "tbl_events db1 = tbl_events db"
    unfolding only_removes_def by (metis database.select_convs(2-6) database.surjective database.update_convs(1))+
  with db1(2) show "same_incidents db (cs_db s)"
    by (simp add: same_incidents_def only_prunes_def)
  show "filter (\<lambda>r. \<not> hist_CreatedAt r < cleanup_cutoff env cfg 0) (tbl_historical (cs_db s)) =
      filter (\<lambda>r. \<not> hist_CreatedAt r < cleanup_cutoff env cfg 0) (tbl_historical db)"
    and "set (tbl_historical (cs_db s)) \<subseteq> set (tbl_historical db)"
    using db1 by (simp_all add: only_removes_def only_prunes_def)
  show "tbl_daily (cs_db s) \<in> {tbl_daily db, filter (\<lambda>r. \<not> daily_Date r < utc_date (cleanup_cutoff env cfg 1)) (tbl_daily db)}"
    and "tbl_region_daily (cs_db s) \<in>
      {tbl_region_daily db, filter (\<lambda>r. \<not> region_Date r < utc_date (cleanup_cutoff env cfg 1)) (tbl_region_daily db)}"
    using db1(2) same(1,2) by (simp_all add: only_prunes_def del: utc_date_utcDayStart)
qed

lemma clean_keeps_row:
  assumes "runCleanup sql_date env cfg \<lparr>cs_db = db, cs_statements = 0, cs_ticks = 0\<rparr> = Some (report, s)"
    and "0 < CleanupBatchSize cfg" and "r \<in> set (tbl_historical db)"
  shows "r \<in> set (tbl_historical (cs_db s)) \<or> hist_CreatedAt r < cleanup_cutoff env cfg 0"
  using clean_effect(2) [OF assms(1,2)] assms(3) by (metis (mono_tags, lifting) mem_Collect_eq set_filter)

lemma submission_topics:
  assumes "CheckerSubmission env srv marshal nackable apiKey body topics n = (answer, topics', n')"
  obtains ms where "tp_ingester topics' = tp_ingester topics @ ms" and "\<forall>m \<in> set ms. msg_nackable m = snd nackable"
proof
  show "tp_ingester topics' = tp_ingester topics @ drop (length (tp_ingester topics)) (tp_ingester topics')"
    and "\<forall>m \<in> set (drop (length (tp_ingester topics)) (tp_ingester topics')). msg_nackable m = snd nackable"
    using assms by (auto simp: CheckerSubmission_def send_def submission_message_def Let_def split: option.splits if_splits)
qed

lemma surviving_simps [simp]:
  "surviving True queue = queue" "surviving False queue = []" "set (surviving durable queue) \<subseteq> set queue"
  "tp_ingester (surviving_topics ds topics) = surviving (snd ds) (tp_ingester topics)"
  by (auto simp: surviving_def surviving_topics_def)

lemma pipeline_step_restarts: "pipeline_step d p q \<Longrightarrow> pl_restarts p \<le> pl_restarts q"
  by (erule pipeline_step.cases) simp_all

lemma settle_subset: "set (settle a confirmed message queue) \<subseteq> set queue"
  using set_remove1_subset [of message queue] by (auto simp: settle_def)

lemma settle_keeps: "m \<in> set queue \<Longrightarrow> m \<in> set (settle a confirmed message queue) \<or> m = message \<and> a = Ack"
  by (auto simp: settle_def)

lemma process_message_historical:
  "process_message monitors cfg env db msg = (a, db', out) \<Longrightarrow> tbl_historical db' = tbl_historical db"
  by (erule process_message_cases)
    (auto elim!: process_evaluation_cases dest!: sync_frame simp: store_evaluation_def)

section \<open>The processor's view\<close>

lemma pipeline_runs_processor:
  assumes "pipeline_reachable d w p" and "0 < CleanupBatchSize (cw_datasetConfig (pr_cleanup (de_process d)))"
  shows "processor_run (pw_monitorConfig (pr_processor (de_process d))) (pw_datasetConfig (pr_processor (de_process d)))
    (pl_db p) (pl_sent p)"
  using assms(1)
proof (induction rule: rtranclp_induct)
  case base
  then show ?case by (simp add: pipeline_start_def processor_run.fresh)
next
  case (step p q)
  from step(2,3) show ?case
  proof (cases rule: pipeline_step.cases)
    case (ingest message faults a w db confirmed)
    then show ?thesis
      using processor_run_history [OF step(3) ingest_message_effect(1) [OF ingest(3)]] by simp
  next
    case (aggregate faults w db)
    then show ?thesis
      using processor_run_history [OF step(3) conjunct1 [OF aggregation_effect [OF aggregate(2)]]] by simp
  next
    case (process_one message env a db out confirmed)
    then show ?thesis
      using processor_run.handled [OF step(3), where env = env and msg = message] by (simp add: sent_alerts_def)
  next
    case (clean cfg env report s)
    then show ?thesis
      using processor_run_history [OF step(3) clean_effect(1) [OF clean(3)]] assms(2) by simp
  qed simp_all
qed

section \<open>No submission is lost\<close>

text \<open>A submission is waiting, stored, or of a day that a cleanup has expired.\<close>

definition submission_kept :: "pipeline \<Rightarrow> CheckerSubmissionRequest queue_message \<Rightarrow> bool" where
  "submission_kept p message =
     (message \<in> set (tp_ingester (pl_topics p)) \<or>
      (case msg_body message of
         None \<Rightarrow> False
       | Some request \<Rightarrow>
           (sub_MonitorID request, message_region message, timestamptz (sub_Timestamp request)) \<in>
             historical_key ` set (tbl_historical (pl_db p)) \<or>
           list_ex (\<lambda>cutoff. timestamptz (sub_Timestamp request) < cutoff) (pl_cutoffs p)))"

lemma submission_kept_mono:
  assumes "submission_kept p message"
    and "message \<in> set (tp_ingester (pl_topics p)) \<Longrightarrow> submission_kept q message"
    and "\<And>r. r \<in> set (tbl_historical (pl_db p)) \<Longrightarrow>
      r \<in> set (tbl_historical (pl_db q)) \<or> list_ex (\<lambda>cutoff. hist_CreatedAt r < cutoff) (pl_cutoffs q)"
    and "set (pl_cutoffs p) \<subseteq> set (pl_cutoffs q)"
  shows "submission_kept q message"
proof (cases "message \<in> set (tp_ingester (pl_topics p))")
  case True
  then show ?thesis by (rule assms(2))
next
  case False
  then obtain request where r: "msg_body message = Some request"
    using assms(1) by (auto simp: submission_kept_def split: option.splits)
  show ?thesis
    using assms(1) False r assms(3,4) by (fastforce simp: submission_kept_def list_ex_iff historical_key_def)
qed

lemma submission_kept_same:
  assumes "submission_kept p message"
    and "set (tp_ingester (pl_topics p)) \<subseteq> set (tp_ingester (pl_topics q))"
    and "set (tbl_historical (pl_db p)) \<subseteq> set (tbl_historical (pl_db q))"
    and "set (pl_cutoffs p) \<subseteq> set (pl_cutoffs q)"
  shows "submission_kept q message"
proof (rule submission_kept_mono [OF assms(1)])
  show "submission_kept q message" if "message \<in> set (tp_ingester (pl_topics p))"
    using that assms(2) unfolding submission_kept_def by blast
qed (use assms(3,4) in blast)+

lemma pipeline_step_queue:
  assumes "pipeline_step d p q" and "\<forall>m \<in> set (tp_ingester (pl_topics p)). msg_nackable m"
    and "snd (de_nackable d)"
  shows "\<forall>m \<in> set (tp_ingester (pl_topics q)). msg_nackable m"
  using assms
proof (cases rule: pipeline_step.cases)
  case (submit env marshal apiKey body n answer topics n')
  obtain ms where "tp_ingester topics = tp_ingester (pl_topics p) @ ms" "\<forall>m \<in> set ms. msg_nackable m = snd (de_nackable d)"
    using submission_topics [OF submit(2)] by blast
  then show ?thesis
    using assms(2,3) by (simp add: submit(1) ball_Un)
next
  case (ingest message faults a w db confirmed)
  then show ?thesis
    using assms(2) settle_subset by fastforce
next
  case restart
  then show ?thesis
    using assms(2) surviving_simps(3) by fastforce
qed simp_all

lemma pipeline_keeps_submissions:
  assumes "pipeline_reachable d w p" and "0 < CleanupBatchSize (cw_datasetConfig (pr_cleanup (de_process d)))"
    and "snd (de_nackable d)" and "snd (de_durable d) \<or> pl_restarts p = 0"
  shows "(\<forall>m \<in> set (tp_ingester (pl_topics p)). msg_nackable m) \<and>
     (\<forall>m \<in> set (pl_taken p). msg_body m \<noteq> None \<longrightarrow> submission_kept p m)"
  using assms(1,4)
proof (induction rule: rtranclp_induct)
  case base
  then show ?case by (simp add: pipeline_start_def)
next
  case (step p q)
  have before: "snd (de_durable d) \<or> pl_restarts p = 0"
    using pipeline_step_restarts [OF step(2)] step(4) by linarith
  note IH = step(3) [OF before]
  have queue: "\<forall>m \<in> set (tp_ingester (pl_topics q)). msg_nackable m"
    using pipeline_step_queue [OF step(2) _ assms(3)] IH by blast
  have kept: "submission_kept p m" if "m \<in> set (pl_taken p)" "msg_body m \<noteq> None" for m
    using IH that by blast
  have waits: "submission_kept q m" if "m \<in> set (tp_ingester (pl_topics q))" for m
    using that by (simp add: submission_kept_def)
  note mono = submission_kept_mono [OF kept]
  have "submission_kept q m" if m: "m \<in> set (pl_taken q)" "msg_body m \<noteq> None" for m
    using step(2)
  proof (cases rule: pipeline_step.cases)
    case (submit env marshal apiKey body n answer topics n')
    obtain ms where ms: "tp_ingester topics = tp_ingester (pl_topics p) @ ms"
      using submission_topics [OF submit(2)] by blast
    show ?thesis
    proof (cases "m \<in> set ms")
      case True
      then show ?thesis using ms by (intro waits) (simp add: submit(1))
    next
      case False
      then have "m \<in> set (pl_taken p)"
        using m(1) ms by (simp add: submit(1))
      then show ?thesis
        using ms by (intro submission_kept_same [OF kept [OF _ m(2)]]) (auto simp: submit(1))
    qed
  next
    case (ingest message faults a w db confirmed)
    have taken: "m \<in> set (pl_taken p)"
      using m(1) ingest(1) by simp
    show ?thesis
    proof (rule mono [OF taken m(2)])
      assume "m \<in> set (tp_ingester (pl_topics p))"
      then consider "m \<in> set (tp_ingester (pl_topics q))" | "m = message" "a = Ack"
        using settle_keeps [of m "tp_ingester (pl_topics p)" a confirmed message] by (auto simp: ingest(1))
      then show "submission_kept q m"
      proof cases
        case 1
        then show ?thesis by (rule waits)
      next
        case 2
        then show ?thesis
          using ingest_message_effect(3) [OF ingest(3)] m(2) IH ingest(2)
          by (auto simp: submission_kept_def ingest(1))
      qed
    next
      fix r
      assume "r \<in> set (tbl_historical (pl_db p))"
      then show "r \<in> set (tbl_historical (pl_db q)) \<or> list_ex (\<lambda>cutoff. hist_CreatedAt r < cutoff) (pl_cutoffs q)"
        using ingest_message_effect(2) [OF ingest(3)] by (auto simp: ingest(1))
    qed (simp add: ingest(1))
  next
    case (aggregate faults w db)
    then show ?thesis
      using m conjunct2 [OF aggregation_effect [OF aggregate(2)]]
      by (intro submission_kept_same [OF kept [OF _ m(2)]]) simp_all
  next
    case (process_one message env a db out confirmed)
    then show ?thesis
      using m process_message_historical [OF process_one(3)]
      by (intro submission_kept_same [OF kept [OF _ m(2)]]) simp_all
  next
    case (clean cfg env report s)
    have batch: "0 < CleanupBatchSize cfg"
      using assms(2) by (simp add: clean(2))
    show ?thesis
    proof (rule mono [of m])
      show "m \<in> set (pl_taken p)" "msg_body m \<noteq> None"
        using m by (simp_all add: clean(1))
      show "submission_kept q m" if "m \<in> set (tp_ingester (pl_topics p))"
        using that by (intro waits) (simp add: clean(1))
    qed (use clean_keeps_row [OF clean(3) batch] in \<open>auto simp: clean(1)\<close>)
  next
    case restart
    have "snd (de_durable d)"
      using step(4) by (simp add: restart)
    then show ?thesis
      using m by (intro submission_kept_same [OF kept [OF _ m(2)]]) (simp_all add: restart)
  qed (use m in \<open>(intro submission_kept_same [OF kept [OF _ m(2)]]; simp)+\<close>)
  with queue show ?case by blast
qed

section \<open>No alert is lost\<close>

text \<open>An alert is waiting, some receiver has accepted it, or it asks for targets that do not exist.\<close>

definition alert_targets :: "deployment \<Rightarrow> AlertMessage \<Rightarrow> NamedAlerter list" where
  "alert_targets d alert = selectNamedAlerters (aw_alerters (pr_alerter (de_process d))) (alert_AlertNames alert)"

definition alert_kept :: "deployment \<Rightarrow> pipeline \<Rightarrow> AlertMessage \<Rightarrow> bool" where
  "alert_kept d p alert =
     ((\<exists>message \<in> set (pl_alerts p). msg_body message = Some alert) \<or>
      (\<exists>(a, receipts) \<in> set (pl_attempts p). a = alert \<and> receipts \<noteq> []) \<or>
      alert_targets d alert = [])"

lemma alert_kept_same:
  "alert_kept d p alert \<Longrightarrow> set (pl_alerts p) \<subseteq> set (pl_alerts q) \<Longrightarrow> set (pl_attempts p) \<subseteq> set (pl_attempts q) \<Longrightarrow>
     alert_kept d q alert"
  unfolding alert_kept_def by fast

lemma deliver_keeps:
  assumes "process_alert (alerter_Send (de_hash d) (de_mac d)) (aw_alerters (pr_alerter (de_process d))) message (pl_world p) = (a, w)"
    and "alert_kept d p alert" and "msg_nackable message"
    and "list_all (direct_target \<circ> named_Alerter) (alert_targets d alert)"
    and q: "pl_alerts q = settle a confirmed message (pl_alerts p)"
      "pl_attempts q = pl_attempts p @ attempts_of message (pl_world p) w"
  shows "alert_kept d q alert"
proof (cases "a = Ack \<and> msg_body message = Some alert")
  case True
  obtain rs where rs: "accepted_requests w = accepted_requests (pl_world p) @ rs"
    "\<And>alert. a = Ack \<Longrightarrow> msg_body message = Some alert \<Longrightarrow> msg_nackable message \<Longrightarrow>
      list_all (direct_target \<circ> named_Alerter) (alert_targets d alert) \<Longrightarrow> alert_targets d alert \<noteq> [] \<Longrightarrow> rs \<noteq> []"
    using targets.process_alert_receipts [OF assms(1)] unfolding alert_targets_def by metis
  have "(alert, rs) \<in> set (pl_attempts q)"
    using True rs(1) by (simp add: q attempts_of_def)
  then show ?thesis
    using rs(2) [of alert] True assms(3,4) unfolding alert_kept_def by blast
next
  case False
  have "message' \<in> set (pl_alerts q)" if "message' \<in> set (pl_alerts p)" "msg_body message' = Some alert" for message'
    using settle_keeps [OF that(1), of a confirmed message] False that(2) by (auto simp: q)
  moreover have "set (pl_attempts p) \<subseteq> set (pl_attempts q)"
    by (simp add: q)
  ultimately show ?thesis
    using assms(2) unfolding alert_kept_def by fast
qed

lemma pipeline_step_alerts:
  assumes "pipeline_step d p q" and "\<forall>m \<in> set (pl_alerts p). msg_nackable m" and "de_alert_nackable d"
    and lives: "de_alert_durable d \<or> pl_restarts q = 0"
    and direct: "list_all (direct_target \<circ> named_Alerter) (alert_targets d alert)"
    and kept: "alert \<in> set (pl_sent p) \<Longrightarrow> alert_kept d p alert"
  shows "\<forall>m \<in> set (pl_alerts q). msg_nackable m" and "alert \<in> set (pl_sent q) \<Longrightarrow> alert_kept d q alert"
proof -
  have more: "alert_kept d q alert"
    if "alert \<in> set (pl_sent p)" "set (pl_alerts p) \<subseteq> set (pl_alerts q)" "set (pl_attempts p) \<subseteq> set (pl_attempts q)"
    by (rule alert_kept_same [OF kept [OF that(1)] that(2,3)])
  from assms(1) have "(\<forall>m \<in> set (pl_alerts q). msg_nackable m) \<and> (alert \<in> set (pl_sent q) \<longrightarrow> alert_kept d q alert)"
  proof (cases rule: pipeline_step.cases)
    case (process_one message env a db out confirmed)
    have "alert_kept d q alert" if "alert \<in> set (sent_alerts out)"
      using that unfolding alert_kept_def
      by (auto simp: process_one(1) sent_alerts_def alert_messages_def split: option.splits)
    moreover have "alert_kept d q alert" if "alert \<in> set (pl_sent p)"
      using more [OF that] by (simp add: process_one(1))
    ultimately show ?thesis
      using assms(2,3) by (auto simp: process_one(1) alert_messages_def split: option.splits)
  next
    case (deliver message a w confirmed)
    have nackable: "msg_nackable message"
      using assms(2) deliver(2) by blast
    have "alert_kept d q alert" if "alert \<in> set (pl_sent p)"
      by (rule deliver_keeps [OF deliver(3) kept [OF that] nackable direct]) (simp_all add: deliver(1))
    moreover have "set (pl_alerts q) \<subseteq> set (pl_alerts p)" "pl_sent q = pl_sent p"
      by (simp_all add: deliver(1) settle_subset)
    ultimately show ?thesis
      using assms(2) by (metis subsetD)
  next
    case restart
    have "de_alert_durable d"
      using lives by (simp add: restart)
    then show ?thesis
      using assms(2) more by (simp add: restart)
  qed (use assms(2) more in simp_all)
  then show "\<forall>m \<in> set (pl_alerts q). msg_nackable m" and "alert \<in> set (pl_sent q) \<Longrightarrow> alert_kept d q alert"
    by blast+
qed

lemma pipeline_keeps_alerts:
  assumes "pipeline_reachable d w p" and "de_alert_nackable d" and "de_alert_durable d \<or> pl_restarts p = 0"
    and "list_all (direct_target \<circ> named_Alerter) (alert_targets d alert)"
  shows "(\<forall>m \<in> set (pl_alerts p). msg_nackable m) \<and> (alert \<in> set (pl_sent p) \<longrightarrow> alert_kept d p alert)"
  using assms(1,3)
proof (induction rule: rtranclp_induct)
  case base
  then show ?case by (simp add: pipeline_start_def)
next
  case (step p q)
  have "de_alert_durable d \<or> pl_restarts p = 0"
    using pipeline_step_restarts [OF step(2)] step(4) by linarith
  then show ?case
    using pipeline_step_alerts [OF step(2) _ assms(2) step(4) assms(4)] step(3) by blast
qed

section \<open>Properties\<close>

lemma process_configuration:
  assumes "main_server su fs dr configPath monitorPath db0 = (Runs (ServerProgram proc), db1)"
  shows "0 < CleanupBatchSize (cw_datasetConfig (pr_cleanup proc))"
    and "pw_monitorConfig (pr_processor proc) = srv_monitorConfig (hs_server (pr_http proc))"
    and "pw_datasetConfig (pr_processor proc) = sc_Dataset (srv_serverConfig (hs_server (pr_http proc)))"
proof -
  obtain sc mc where r: "runs_on sc mc proc" and valid: "server_Validate sc = None"
    using main_server_Runs [OF assms] by blast
  have "0 < CleanupBatchSize (sc_Dataset sc)"
    using valid by (auto simp: server_Validate_def split: option.splits if_splits)
  then show "0 < CleanupBatchSize (cw_datasetConfig (pr_cleanup proc))"
    "pw_monitorConfig (pr_processor proc) = srv_monitorConfig (hs_server (pr_http proc))"
    "pw_datasetConfig (pr_processor proc) = sc_Dataset (srv_serverConfig (hs_server (pr_http proc)))"
    using r by (simp_all add: runs_on_def NewCleanupWorker_def NewProcessorWorker_def)
qed

text \<open>
  C8: In a server that started, however its workers interleave, fail, restart and are handed messages again, the
  database and the published alerts are ones of a run of the processor alone, on the configuration
  the server was started with; so every monitor has at most one open incident.
\<close>

theorem server_refines_its_processor:
  assumes "main_server su fs dr configPath monitorPath db0 = (Runs (ServerProgram (de_process d)), db1)"
    and "(pipeline_step d)\<^sup>*\<^sup>* (pipeline_start d w) p"
  shows "processor_run (srv_monitorConfig (de_srv d)) (sc_Dataset (srv_serverConfig (de_srv d))) (pl_db p) (pl_sent p) \<and>
     length (active_incidents m (pl_db p)) \<le> 1"
proof -
  have r: "processor_run (srv_monitorConfig (de_srv d)) (sc_Dataset (srv_serverConfig (de_srv d))) (pl_db p) (pl_sent p)"
    using pipeline_runs_processor [OF assms(2) process_configuration(1) [OF assms(1)]]
    by (simp add: process_configuration(2,3) [OF assms(1)] de_srv_def)
  then show ?thesis
    using processor_run_inv [OF r] by (simp add: processor_inv_def one_active_def active_incidents_def)
qed

text \<open>
  C2: No accepted submission is lost. In a server that started, with an ingester's queue that can
  take messages back and whose broker outlives the process, or that was never restarted, a submission its
  topic once took is still waiting, or a row for the monitor,
  the checker's region and the time of the check is in the database, or a cleanup has run whose
  cutoff is after that time; whatever fails or is delivered again, and with such a broker whenever the server
  is restarted.
\<close>

theorem no_submission_is_lost:
  assumes "main_server su fs dr configPath monitorPath db0 = (Runs (ServerProgram (de_process d)), db1)"
    and "(pipeline_step d)\<^sup>*\<^sup>* (pipeline_start d w) p"
    and "snd (de_nackable d)" and "snd (de_durable d) \<or> pl_restarts p = 0"
    and "message \<in> set (pl_taken p)" and "msg_body message = Some request"
  shows "message \<in> set (tp_ingester (pl_topics p)) \<or>
     (sub_MonitorID request, message_region message, timestamptz (sub_Timestamp request)) \<in>
       historical_key ` set (tbl_historical (pl_db p)) \<or>
     (\<exists>cutoff \<in> set (pl_cutoffs p). timestamptz (sub_Timestamp request) < cutoff)"
  using pipeline_keeps_submissions [OF assms(2) process_configuration(1) [OF assms(1)] assms(3,4)] assms(5,6)
  by (auto simp: submission_kept_def list_ex_iff)

text \<open>
  C5: No alert is lost on the way to direct targets. With an alert queue that can take messages back and
  whose broker outlives the process, or in a server that was never restarted,
  an alert the processor published, whose targets all send at once, is still waiting, or some
  receiver has accepted a request for it, or no configured target has a name the alert asks for.
\<close>

theorem no_alert_is_lost:
  assumes "(pipeline_step d)\<^sup>*\<^sup>* (pipeline_start d w) p"
    and "de_alert_nackable d" and "de_alert_durable d \<or> pl_restarts p = 0" and "alert \<in> set (pl_sent p)"
    and "list_all (direct_target \<circ> named_Alerter)
      (selectNamedAlerters (aw_alerters (pr_alerter (de_process d))) (alert_AlertNames alert))"
  shows "(\<exists>message \<in> set (pl_alerts p). msg_body message = Some alert) \<or>
     (\<exists>(a, receipts) \<in> set (pl_attempts p). a = alert \<and> receipts \<noteq> []) \<or>
     selectNamedAlerters (aw_alerters (pr_alerter (de_process d))) (alert_AlertNames alert) = []"
  using pipeline_keeps_alerts [OF assms(1,2,3) assms(5) [folded alert_targets_def]] assms(4)
  by (simp add: alert_kept_def alert_targets_def)

section \<open>A run\<close>

text \<open>
  A failed check is submitted, ingested and processed; the alert is delivered and accepted.
\<close>

definition ex_deployment :: "server_process \<Rightarrow> deployment" where
  "ex_deployment proc = \<lparr>de_process = proc, de_nackable = (True, True), de_alert_nackable = True,
     de_durable = (True, True), de_alert_durable = True,
     de_hash = (\<lambda>s. s), de_mac = (\<lambda>k s. s), de_sql_date = utc_date, de_sql_int = round_half_even\<rparr>"

definition ex_failed_check :: CheckerSubmissionRequest where
  "ex_failed_check = zero_submission\<lparr>sub_MonitorID := ''api'', sub_StatusCode := 500, sub_Timestamp := ex_now\<rparr>"

definition ex_submission_message :: "nat \<Rightarrow> CheckerSubmissionRequest queue_message" where
  "ex_submission_message n = submission_message Server_Handlers.ex_env True ex_failed_check ''eu''
     (sub_MonitorID ex_failed_check @ ''-'' @ int_str (en_clock Server_Handlers.ex_env 0)) n"

lemma ex_submission_message: "msg_body (ex_submission_message n) = Some ex_failed_check"
  "msg_nackable (ex_submission_message n)" "message_region (ex_submission_message n) = ''eu''"
  by (simp_all add: ex_submission_message_def submission_message_def message_region_def)

definition ex_stored :: "string option \<times> IngesterWorker \<times> database" where
  "ex_stored = ingestMonitorHistorical no_ingest_faults ex_failed_check ''eu''
     (NewIngesterWorker ex_monitors (sc_Dataset ex_server_config)) empty_db"

definition ex_processed :: "ack \<times> database \<times> (AlertMessage \<times> (string, string) gomap) option" where
  "ex_processed = process_message ex_monitors (sc_Dataset ex_server_config) Processor_Worker.ex_env (snd (snd ex_stored))
     \<lparr>msg_body = Some ex_failed_check, msg_metadata = [], msg_nackable = True\<rparr>"

definition ex_delivered :: "AlertMessage \<Rightarrow> ack \<times> world" where
  "ex_delivered alert = process_alert (alerter_Send (\<lambda>s. s) (\<lambda>k s. s)) (BuildAlerters ex_server_config)
     \<lparr>msg_body = Some alert, msg_metadata = [], msg_nackable = True\<rparr> (restarted (ex_world [StatusCode 200]))"

lemma ex_submit:
  "CheckerSubmission Server_Handlers.ex_env \<lparr>srv_serverConfig = ex_server_config, srv_monitorConfig = ex_monitors\<rparr> (\<lambda>_. None)
     (True, True) ''k2'' (Some ex_failed_check) \<lparr>tp_processor = [], tp_ingester = []\<rparr> 0 =
     (Answer 200 (), \<lparr>tp_processor = [ex_submission_message 1], tp_ingester = [ex_submission_message 3]\<rparr>, 5)"
proof -
  have "List.find (\<lambda>checker. checker_ApiKey checker = ''k2'') (sc_RegisteredCheckers ex_server_config) =
      Some \<lparr>checker_Name = ''b'', checker_Region = ''eu'', checker_ApiKey = ''k2''\<rparr>"
    by code_simp
  moreover have "en_fault Server_Handlers.ex_env n = None" for n
    by (simp add: Server_Handlers.ex_env_def)
  ultimately show ?thesis
    by (simp add: CheckerSubmission_def send_def ex_submission_message_def Let_def)
qed

lemma ex_results:
  "fst ex_stored = None"
  "case ex_processed of (Ack, db, Some (alert, meta)) \<Rightarrow> alert_AlertNames alert = [] | _ \<Rightarrow> False"
  by code_simp+

lemma ex_delivered_Ack:
  assumes "alert_AlertNames alert = []"
  shows "fst (ex_delivered alert) = Ack"
proof -
  have "BuildAlerters ex_server_config = [json_target ''ops'' ''https://x'' ''eyrie-slack/1.0'' Slack]"
    by code_simp
  then show ?thesis
    using assms
    by (simp add: ex_delivered_def process_alert_def selectNamedAlerters_def alerter_Send_def json_webhook_Send_def json_target_def
        doAlertRequest_def outcome_error_def restarted_def ex_world_def Let_def split_beta)
qed

lemma process_message_body:
  assumes "msg_body m = msg_body m'" and "msg_nackable m = msg_nackable m'"
  shows "process_message monitors cfg env db m = process_message monitors cfg env db m'"
proof -
  have n: "nack_or_ack m = nack_or_ack m'"
    using assms(2) by (simp add: nack_or_ack_def)
  have e: "process_evaluation env db m = process_evaluation env db m'"
    unfolding process_evaluation_def n ..
  show ?thesis
    unfolding process_message_def n e assms(1) ..
qed

lemma process_alert_body:
  assumes "msg_body m = msg_body m'" and "msg_nackable m = msg_nackable m'"
  shows "process_alert f alerters m w = process_alert f alerters m' w"
  unfolding process_alert_def nack_or_ack_def assms ..

lemma ex_pipeline_run:
  assumes "runs_on ex_server_config ex_monitors proc"
  obtains p alert where "pipeline_reachable (ex_deployment proc) (ex_world [StatusCode 200]) p"
    and "pl_taken p = [ex_submission_message 3]" and "tp_ingester (pl_topics p) = []" and "pl_cutoffs p = []"
    and "pl_sent p = [alert]" and "pl_alerts p = []" and "alert_AlertNames alert = []"
    and "pl_db p = fst (snd ex_processed)" and "pl_pruned p = []" and "pl_since p = []"
proof -
  let ?d = "ex_deployment proc" and ?p = "pipeline_start (ex_deployment proc) (ex_world [StatusCode 200])"
  have proc: "hs_server (pr_http proc) = \<lparr>srv_serverConfig = ex_server_config, srv_monitorConfig = ex_monitors\<rparr>"
      "pr_ingester proc = NewIngesterWorker ex_monitors (sc_Dataset ex_server_config)"
      "pw_monitorConfig (pr_processor proc) = ex_monitors" "pw_datasetConfig (pr_processor proc) = sc_Dataset ex_server_config"
      "aw_alerters (pr_alerter proc) = BuildAlerters ex_server_config"
    using assms by (simp_all add: runs_on_def NewProcessorWorker_def NewAlerterWorker_def)
  obtain w db where stored: "ex_stored = (None, w, db)"
    using ex_results(1) by (metis prod.collapse)
  have stored_db: "snd (snd ex_stored) = db"
    unfolding stored snd_conv ..
  obtain db' alert meta w' where processed: "ex_processed = (Ack, db', Some (alert, meta))"
    and alert: "alert_AlertNames alert = []" and delivered: "ex_delivered alert = (Ack, w')"
    using ex_results(2) ex_delivered_Ack by (auto split: prod.splits ack.splits option.splits) (metis prod.collapse)
  obtain p1 where 1: "pipeline_step ?d ?p p1" "pl_topics p1 = \<lparr>tp_processor = [ex_submission_message 1], tp_ingester = [ex_submission_message 3]\<rparr>"
      "pl_taken p1 = [ex_submission_message 3]" "pl_db p1 = empty_db" "pl_ingester p1 = pr_ingester proc" "pl_alerts p1 = []"
      "pl_world p1 = restarted (ex_world [StatusCode 200])" "pl_sent p1 = []" "pl_cutoffs p1 = []"
      "pl_pruned p1 = []" "pl_since p1 = []"
  proof (rule that [OF pipeline_step.submit])
    show "CheckerSubmission Server_Handlers.ex_env (de_srv ?d) (\<lambda>_. None) (de_nackable ?d) ''k2'' (Some ex_failed_check) (pl_topics ?p) 0 =
        (Answer 200 (), \<lparr>tp_processor = [ex_submission_message 1], tp_ingester = [ex_submission_message 3]\<rparr>, 5)"
      using ex_submit by (simp add: de_srv_def ex_deployment_def proc(1) pipeline_start_def)
  qed (simp_all add: pipeline_start_def ex_deployment_def)
  obtain p2 where 2: "pipeline_step ?d p1 p2" "pl_topics p2 = \<lparr>tp_processor = [ex_submission_message 1], tp_ingester = []\<rparr>"
      "pl_taken p2 = pl_taken p1" "pl_db p2 = db" "pl_alerts p2 = []" "pl_world p2 = pl_world p1" "pl_sent p2 = []" "pl_cutoffs p2 = []"
      "pl_pruned p2 = []" "pl_since p2 = []"
  proof (rule that [OF pipeline_step.ingest [where confirmed = True]])
    show "ex_submission_message 3 \<in> set (tp_ingester (pl_topics p1))"
      by (simp add: 1)
    show "ingest_message no_ingest_faults (ex_submission_message 3) (pl_ingester p1) (pl_db p1) = (Ack, w, db)"
      using stored by (simp add: ingest_message_def ex_submission_message ex_stored_def 1 proc(2))
  qed (simp_all add: 1 settle_def)
  obtain p3 where 3: "pipeline_step ?d p2 p3" "tp_ingester (pl_topics p3) = []"
      "pl_taken p3 = pl_taken p1" "pl_alerts p3 = [\<lparr>msg_body = Some alert, msg_metadata = meta, msg_nackable = True\<rparr>]"
      "pl_world p3 = pl_world p1" "pl_sent p3 = [alert]" "pl_cutoffs p3 = []"
      "pl_db p3 = db'" "pl_pruned p3 = []" "pl_since p3 = []"
  proof (rule that [OF pipeline_step.process_one])
    show "ex_submission_message 1 \<in> set (tp_processor (pl_topics p2))"
      by (simp add: 2)
    show "process_message (pw_monitorConfig (pr_processor (de_process ?d))) (pw_datasetConfig (pr_processor (de_process ?d)))
        Processor_Worker.ex_env (pl_db p2) (ex_submission_message 1) = (Ack, db', Some (alert, meta))"
      using processed stored_db process_message_body [of "ex_submission_message 1"
          "\<lparr>msg_body = Some ex_failed_check, msg_metadata = [], msg_nackable = True\<rparr>"]
      by (simp add: ex_submission_message ex_processed_def 2 proc(3,4) ex_deployment_def del: One_nat_def)
  qed (simp_all add: 2 alert_messages_def sent_alerts_def ex_deployment_def)
  obtain p4 where 4: "pipeline_step ?d p3 p4" "tp_ingester (pl_topics p4) = []" "pl_taken p4 = pl_taken p1" "pl_alerts p4 = []"
      "pl_sent p4 = [alert]" "pl_cutoffs p4 = []" "pl_db p4 = db'" "pl_pruned p4 = []" "pl_since p4 = []"
  proof (rule that [OF pipeline_step.deliver [where confirmed = True]])
    show "\<lparr>msg_body = Some alert, msg_metadata = meta, msg_nackable = True\<rparr> \<in> set (pl_alerts p3)"
      by (simp add: 3)
    show "process_alert (alerter_Send (de_hash ?d) (de_mac ?d)) (aw_alerters (pr_alerter (de_process ?d)))
        \<lparr>msg_body = Some alert, msg_metadata = meta, msg_nackable = True\<rparr> (pl_world p3) = (Ack, w')"
      using delivered
      by (simp add: ex_delivered_def 3 1 proc(5) ex_deployment_def
          process_alert_body [of "\<lparr>msg_body = Some alert, msg_metadata = meta, msg_nackable = True\<rparr>"
            "\<lparr>msg_body = Some alert, msg_metadata = [], msg_nackable = True\<rparr>"])
  qed (simp_all add: 3 settle_def)
  have "pipeline_reachable ?d (ex_world [StatusCode 200]) p4"
    using 1(1) 2(1) 3(1) 4(1) by (metis (no_types, lifting) converse_rtranclp_into_rtranclp rtranclp.rtrancl_refl)
  moreover have "pl_db p4 = fst (snd ex_processed)"
    by (simp add: 4 processed)
  ultimately show thesis
    using that [of p4 alert] 4 1(3) alert by simp
qed

lemma ex_server_runs:
  obtains proc d where "main_server ex_startup ex_fs ex_driver ''c'' ''m'' [] = (Runs (ServerProgram proc), d)"
    and "runs_on ex_server_config ex_monitors proc"
proof -
  obtain proc d where r: "main_server ex_startup ex_fs ex_driver ''c'' ''m'' [] = (Runs (ServerProgram proc), d)"
    and h: "hs_server (pr_http proc) = \<lparr>srv_serverConfig = ex_server_config, srv_monitorConfig = ex_monitors\<rparr>"
    using ex_start by blast
  obtain sc mc where o: "runs_on sc mc proc"
    using main_server_Runs [OF r] by blast
  then have "sc = ex_server_config" "mc = ex_monitors"
    using h by (simp_all add: runs_on_def)
  with r o show thesis
    using that by blast
qed

theorem server_refines_its_processor_witness:
  "\<exists>d p. (pipeline_step d)\<^sup>*\<^sup>* (pipeline_start d (ex_world [StatusCode 200])) p \<and> length (pl_sent p) = 1 \<and>
     length (active_incidents ''api'' (pl_db p)) \<le> 1"
proof -
  obtain proc db where r: "main_server ex_startup ex_fs ex_driver ''c'' ''m'' [] = (Runs (ServerProgram proc), db)"
    and o: "runs_on ex_server_config ex_monitors proc"
    by (rule ex_server_runs)
  have r': "main_server ex_startup ex_fs ex_driver ''c'' ''m'' [] = (Runs (ServerProgram (de_process (ex_deployment proc))), db)"
    using r by (simp add: ex_deployment_def)
  show ?thesis
    by (rule ex_pipeline_run [OF o]) (use server_refines_its_processor [OF r'] in \<open>force\<close>)
qed

theorem no_submission_is_lost_witness:
  "\<exists>d p. (pipeline_step d)\<^sup>*\<^sup>* (pipeline_start d (ex_world [StatusCode 200])) p \<and>
     pl_taken p = [ex_submission_message 3] \<and> tp_ingester (pl_topics p) = [] \<and>
     (''api'', ''eu'', ex_now) \<in> historical_key ` set (tbl_historical (pl_db p))"
proof -
  obtain proc db where r: "main_server ex_startup ex_fs ex_driver ''c'' ''m'' [] = (Runs (ServerProgram proc), db)"
    and o: "runs_on ex_server_config ex_monitors proc"
    by (rule ex_server_runs)
  let ?d = "ex_deployment proc"
  have r': "main_server ex_startup ex_fs ex_driver ''c'' ''m'' [] = (Runs (ServerProgram (de_process ?d)), db)"
    and n: "snd (de_nackable ?d)" "snd (de_durable ?d) \<or> pl_restarts q = 0" for q
    using r by (simp_all add: ex_deployment_def)
  obtain p alert where p: "pipeline_reachable ?d (ex_world [StatusCode 200]) p"
      "pl_taken p = [ex_submission_message 3]" "tp_ingester (pl_topics p) = []" "pl_cutoffs p = []"
    by (rule ex_pipeline_run [OF o])
  then have t: "ex_submission_message 3 \<in> set (pl_taken p)"
    by simp
  have "sub_MonitorID ex_failed_check = ''api''" "timestamptz (sub_Timestamp ex_failed_check) = ex_now"
    by (simp_all add: ex_failed_check_def timestamptz_def ex_now_def)
  with no_submission_is_lost [OF r' p(1) n(1) n(2) t ex_submission_message(1)] p show ?thesis
    by (auto simp: ex_submission_message(3))
qed

theorem no_alert_is_lost_witness:
  "\<exists>d p alert. (pipeline_step d)\<^sup>*\<^sup>* (pipeline_start d (ex_world [StatusCode 200])) p \<and>
     pl_sent p = [alert] \<and> pl_alerts p = [] \<and> (\<exists>(a, receipts) \<in> set (pl_attempts p). a = alert \<and> receipts \<noteq> [])"
proof -
  obtain proc db where o: "runs_on ex_server_config ex_monitors proc"
    by (rule ex_server_runs)
  let ?d = "ex_deployment proc"
  obtain p alert where p: "pipeline_reachable ?d (ex_world [StatusCode 200]) p" "pl_sent p = [alert]" "pl_alerts p = []"
      and a: "alert_AlertNames alert = []"
    by (rule ex_pipeline_run [OF o])
  have alerters: "selectNamedAlerters (aw_alerters (pr_alerter (de_process ?d))) (alert_AlertNames alert) = BuildAlerters ex_server_config"
    using o by (simp add: ex_deployment_def runs_on_def NewAlerterWorker_def selectNamedAlerters_def a)
  have direct: "list_all (direct_target \<circ> named_Alerter) (BuildAlerters ex_server_config)" "BuildAlerters ex_server_config \<noteq> []"
    by code_simp+
  have n: "de_alert_nackable ?d" "de_alert_durable ?d \<or> pl_restarts p = 0" and s: "alert \<in> set (pl_sent p)"
    by (simp_all add: ex_deployment_def p(2))
  have "\<exists>(a, receipts) \<in> set (pl_attempts p). a = alert \<and> receipts \<noteq> []"
    using no_alert_is_lost [OF p(1) n s, unfolded alerters, OF direct(1)] direct(2) p(3) by simp
  then show ?thesis
    using p by blast
qed

end
