(* ===== verification/Pipeline_Days.thy ===== *)
theory Pipeline_Days
  imports Pipeline
begin

text \<open>
  The aggregates of the whole server: which days may have aggregates that do not match their raw rows,
  when cleanups delete rows and aggregates and restarts lose the marks of the ingester. The ingester
  alone, with its two goroutines interleaved, is in \<open>Ingester\<close>.
\<close>

section \<open>Steps that keep days tracked\<close>

abbreviation days_tracked ::
    "(rat \<Rightarrow> int) \<Rightarrow> MonitorConfig \<Rightarrow> IngesterWorker \<Rightarrow> aggregationTask set \<Rightarrow> database \<Rightarrow> bool" where
  "days_tracked si monitors \<equiv> tracked pending_tasks tasks_ok (day_stale si monitors)"

abbreviation rows_of_day :: "aggregationTask \<Rightarrow> database \<Rightarrow> MonitorHistorical list" where
  "rows_of_day t db \<equiv> day_rows utc_date (task_monitorID t) (utc_date (task_date t)) (tbl_historical db)"

abbreviation calendar_rows :: "database \<Rightarrow> bool" where
  "calendar_rows db \<equiv> \<forall>r \<in> set (tbl_historical db). in_calendar (hist_CreatedAt r)"

lemma tracked_by:
  "tasks_ok w \<Longrightarrow> (\<And>t. day_stale si monitors t db \<Longrightarrow> t \<in> pending_tasks w \<or> t \<in> A) \<Longrightarrow> days_tracked si monitors w A db"
  by (auto simp: tracked_def)

lemma tracked_stale: "days_tracked si monitors w A db \<Longrightarrow> day_stale si monitors t db \<Longrightarrow> t \<in> pending_tasks w \<or> t \<in> A"
  by (auto simp: tracked_def)

lemma tracked_ok: "days_tracked si monitors w A db \<Longrightarrow> tasks_ok w"
  by (simp add: tracked_def)

lemma aggregate_tasks_tracked:
  assumes "list_all task_ok ts" and "iw_monitorConfig w = monitors"
    and "days_tracked si monitors w (set ts \<union> A) db"
    and "foldl (\<lambda>s t. aggregate_task utc_date si faults t s) (w, db) ts = (w', db')"
  shows "days_tracked si monitors w' A db' \<and> iw_monitorConfig w' = monitors"
  using assms
proof (induction ts arbitrary: w db)
  case Nil
  then show ?case by simp
next
  case (Cons t ts)
  obtain w1 db1 where s: "aggregate_task utc_date si faults t (w, db) = (w1, db1)"
    by fastforce
  have t: "task_ok t"
    using Cons.prems(1) by simp
  obtain ok where ok: "aggregates si monitors t db (ok, db1)" "w1 = (if ok then w else mark_task t w)"
    using aggregate_task_mark [OF t s] Cons.prems(2) by metis
  have "days_tracked si monitors w1 (set ts \<union> A) db1"
    unfolding ok(2) using Cons.prems(3) by (intro days.tracked_refresh [OF _ t ok(1)]) simp
  then show ?case
    using Cons.IH [of w1 db1] Cons.prems s ok(2) by auto
qed

lemma aggregation_tracked:
  assumes "aggregateDirtyMonitors utc_date si faults (w, db) = (w', db')"
    and "iw_monitorConfig w = monitors" and "days_tracked si monitors w A db"
  shows "days_tracked si monitors w' A db' \<and> iw_monitorConfig w' = monitors"
proof -
  obtain ts w1 where d: "drainAggregationTasks w = (ts, w1)" by fastforce
  show ?thesis
  proof (rule aggregate_tasks_tracked)
    show "list_all task_ok ts"
      using drain_tasks(1) [OF tracked_ok [OF assms(3)] d] by simp
    show "iw_monitorConfig w1 = monitors"
      using drain_config [OF d] assms(2) by simp
    show "days_tracked si monitors w1 (set ts \<union> A) db"
      by (rule days.tracked_take_all [OF assms(3) d])
    show "foldl (\<lambda>s t. aggregate_task utc_date si faults t s) (w1, db) ts = (w', db')"
      using assms(1) d by (simp add: aggregateDirtyMonitors_def)
  qed
qed

lemma in_calendar_timestamptz [simp]: "in_calendar (timestamptz t) = in_calendar t"
  by (simp add: in_calendar_def year_of_def)

text \<open>A message marks the day whose rows it changes.\<close>

lemma ingest_tracked:
  assumes "ingest_message faults message w db = (a, w', db')" and "days_tracked si monitors w A db"
    and "\<And>request. msg_body message = Some request \<Longrightarrow> in_calendar (sub_Timestamp request)"
    and "calendar_rows db"
  shows "tasks_ok w'" and "iw_monitorConfig w' = iw_monitorConfig w" and "calendar_rows db'"
    and "day_stale si monitors t db' \<Longrightarrow> t \<in> pending_tasks w' \<or> t \<in> A \<and> rows_of_day t db' = rows_of_day t db"
proof -
  have "tasks_ok w' \<and> iw_monitorConfig w' = iw_monitorConfig w \<and> calendar_rows db' \<and>
      (\<forall>t. day_stale si monitors t db' \<longrightarrow> t \<in> pending_tasks w' \<or> t \<in> A \<and> rows_of_day t db' = rows_of_day t db)"
  proof (cases "w' = w \<and> db' = db")
    case True
    then show ?thesis
      using tracked_ok [OF assms(2)] tracked_stale [OF assms(2)] assms(4) by blast
  next
    case False
    then obtain request where r: "msg_body message = Some request"
      and i: "insert_historical faults w request (message_region message) db = Inr db'"
      and w': "w' = enqueueAggregationTask (sub_MonitorID request) (sub_Timestamp request) w"
      using assms(1) by (auto simp: ingest_message_def ingestMonitorHistorical_def split: option.splits sum.splits)
    let ?t = "AggregationTask (sub_MonitorID request) (normalizeAggregationDate (sub_Timestamp request))"
    have ok: "task_ok ?t"
      using assms(3) [OF r] by (rule task_ok_normalize)
    have tasks: "tasks_ok w"
      by (rule tracked_ok [OF assms(2)])
    have pending: "pending_tasks w' = insert ?t (pending_tasks w)" "tasks_ok w'" "iw_monitorConfig w' = iw_monitorConfig w"
      unfolding w' enqueue_mark using pending_mark_task [OF tasks ok] tasks_ok_mark [OF tasks ok] by simp_all
    have "t \<in> pending_tasks w' \<or> t \<in> A \<and> rows_of_day t db' = rows_of_day t db" if "day_stale si monitors t db'" for t
    proof (cases "t = ?t")
      case False
      have "task_ok t"
        using that by (auto simp: day_stale_iff)
      moreover have "day_stale si monitors t db"
        using insert_stale [OF i that] False by blast
      ultimately show ?thesis
        using tracked_stale [OF assms(2)] insert_day_rows [OF i _ False] pending(1) by blast
    qed (simp add: pending(1))
    moreover have "hist_CreatedAt (historical_row w request region) = timestamptz (sub_Timestamp request)" for region
      by (simp add: historical_row_def Let_def)
    then have "calendar_rows db'"
      using i assms(3) [OF r] assms(4) by (auto simp: insert_historical_def result_simps insert_or_ignore_def split: if_splits)
    ultimately show ?thesis
      using pending(2,3) by blast
  qed
  then show "tasks_ok w'" "iw_monitorConfig w' = iw_monitorConfig w" "calendar_rows db'"
    "day_stale si monitors t db' \<Longrightarrow> t \<in> pending_tasks w' \<or> t \<in> A \<and> rows_of_day t db' = rows_of_day t db"
    by blast+
qed

text \<open>A complete seed leaves only days without a row in its window.\<close>

lemma seed_tracked:
  assumes "tasks_ok w" and "calendar_rows db"
    and "day_stale si monitors t db"
    and "t \<notin> pending_tasks (seedRecentAggregationTasks utc_date no_seed_faults now window db w)"
  shows "\<forall>r \<in> set (rows_of_day t db). hist_CreatedAt r < timestamptz (now - window)"
proof (rule ccontr)
  assume "\<not> ?thesis"
  then obtain r where r: "r \<in> set (tbl_historical db)" "hist_MonitorID r = task_monitorID t"
      "utc_date (hist_CreatedAt r) = utc_date (task_date t)" "timestamptz (now - window) \<le> hist_CreatedAt r"
    by (auto simp: day_rows_def not_less)
  have "task_ok t"
    using assms(3) by (auto simp: day_stale_iff)
  then have "AggregationTask (hist_MonitorID r) (utcDayStart (hist_CreatedAt r)) = t"
    using r(2,3) task_ok_eq [of t] by (metis aggregationTask.collapse utcDayStart_eq)
  then show False
    using seed_covers [OF assms(1,2) r(1,4)] assms(4) by (simp add: no_seed_faults_def)
qed

text \<open>A cleanup makes only days before its cutoffs stale, and leaves the rows of the others.\<close>

lemma find_filter: "(\<And>x. P x \<Longrightarrow> Q x) \<Longrightarrow> List.find P (filter Q xs) = List.find P xs"
  by (induction xs) auto

lemma clean_stale:
  assumes "runCleanup sql_date env cfg \<lparr>cs_db = db, cs_statements = 0, cs_ticks = 0\<rparr> = Some (report, s)"
    and "0 < CleanupBatchSize cfg" and "day_stale si monitors t (cs_db s)"
    and "\<not> task_date t < cleanup_cutoff env cfg 0" and "\<not> task_date t < cleanup_cutoff env cfg 1"
  shows "day_stale si monitors t db" and "rows_of_day t (cs_db s) = rows_of_day t db"
proof -
  have before: "u < cleanup_cutoff env cfg n \<longleftrightarrow> utc_date u < utc_date (cleanup_cutoff env cfg n)" for u n
    by (simp add: cleanup_cutoff_def less_utcDayStart_iff del: utcDayStart_add_days)
  have row: "\<not> hist_CreatedAt r < cleanup_cutoff env cfg 0" if "utc_date (hist_CreatedAt r) = utc_date (task_date t)" for r
    using assms(4) that by (simp add: before)
  have parts: "rows_of_day t db' = filter (\<lambda>r. hist_MonitorID r = task_monitorID t \<and> utc_date (hist_CreatedAt r) = utc_date (task_date t))
      (filter (\<lambda>r. \<not> hist_CreatedAt r < cleanup_cutoff env cfg 0) (tbl_historical db'))" for db'
    using row by (auto simp: day_rows_def intro!: filter_cong)
  show rows: "rows_of_day t (cs_db s) = rows_of_day t db"
    unfolding parts [of "cs_db s"] parts [of db] clean_effect(2) [OF assms(1,2)] ..
  have "List.find (\<lambda>r. daily_key r = (task_monitorID t, utc_date (task_date t))) (tbl_daily (cs_db s)) =
      List.find (\<lambda>r. daily_key r = (task_monitorID t, utc_date (task_date t))) (tbl_daily db)"
    using clean_effect(4) [OF assms(1,2)] assms(5) unfolding before by (auto simp: daily_key_def intro!: find_filter)
  moreover have "List.find (\<lambda>r. region_key r = (task_monitorID t, region, utc_date (task_date t))) (tbl_region_daily (cs_db s)) =
      List.find (\<lambda>r. region_key r = (task_monitorID t, region, utc_date (task_date t))) (tbl_region_daily db)" for region
    using clean_effect(5) [OF assms(1,2)] assms(5) unfolding before by (auto simp: region_key_def intro!: find_filter)
  ultimately show "day_stale si monitors t db"
    using assms(3) rows by (simp add: day_stale_iff daily_fresh_def regions_fresh_def)
qed

section \<open>The server\<close>

text \<open>Why the aggregates of a day may be outdated without a mark of the ingester.\<close>

definition excused :: "pipeline \<Rightarrow> aggregationTask \<Rightarrow> bool" where
  "excused p t =
     (pl_unseeded p \<or> list_ex (\<lambda>cutoff. task_date t < cutoff) (pl_cutoffs p @ pl_pruned p) \<or>
      list_ex (\<lambda>since. list_all (\<lambda>r. hist_CreatedAt r < timestamptz since) (rows_of_day t (pl_db p))) (pl_since p))"

definition days_inv :: "deployment \<Rightarrow> pipeline \<Rightarrow> bool" where
  "days_inv d p =
     (iw_monitorConfig (pl_ingester p) = srv_monitorConfig (de_srv d) \<and> calendar_rows (pl_db p) \<and>
      set (tp_ingester (pl_topics p)) \<subseteq> set (pl_taken p) \<and>
      days_tracked (de_sql_int d) (srv_monitorConfig (de_srv d)) (pl_ingester p) {t. excused p t} (pl_db p))"

lemma days_invI:
  assumes "iw_monitorConfig (pl_ingester p) = srv_monitorConfig (de_srv d)" and "calendar_rows (pl_db p)"
    and "set (tp_ingester (pl_topics p)) \<subseteq> set (pl_taken p)" and "tasks_ok (pl_ingester p)"
    and "\<And>t. day_stale (de_sql_int d) (srv_monitorConfig (de_srv d)) t (pl_db p) \<Longrightarrow>
      t \<in> pending_tasks (pl_ingester p) \<or> excused p t"
  shows "days_inv d p"
  using assms by (simp add: days_inv_def tracked_def)

lemma days_invD:
  assumes "days_inv d p"
  shows "iw_monitorConfig (pl_ingester p) = srv_monitorConfig (de_srv d)" and "calendar_rows (pl_db p)"
    and "set (tp_ingester (pl_topics p)) \<subseteq> set (pl_taken p)" and "tasks_ok (pl_ingester p)"
    and "day_stale (de_sql_int d) (srv_monitorConfig (de_srv d)) t (pl_db p) \<Longrightarrow>
      t \<in> pending_tasks (pl_ingester p) \<or> excused p t"
  using assms by (auto simp: days_inv_def tracked_def)

text \<open>Steps that touch neither the history nor the ingester.\<close>

lemma days_inv_other:
  assumes "days_inv d p" and "pl_ingester q = pl_ingester p" and "tbl_historical (pl_db q) = tbl_historical (pl_db p)"
    and "tbl_daily (pl_db q) = tbl_daily (pl_db p)" and "tbl_region_daily (pl_db q) = tbl_region_daily (pl_db p)"
    and "set (tp_ingester (pl_topics q)) \<subseteq> set (pl_taken q)" and "pl_cutoffs q = pl_cutoffs p" and "pl_pruned q = pl_pruned p"
    and "pl_since q = pl_since p" and "pl_unseeded q = pl_unseeded p"
  shows "days_inv d q"
proof (rule days_invI)
  fix t
  assume "day_stale (de_sql_int d) (srv_monitorConfig (de_srv d)) t (pl_db q)"
  then have "day_stale (de_sql_int d) (srv_monitorConfig (de_srv d)) t (pl_db p)"
    using assms(3-5) by (simp add: day_stale_iff daily_fresh_def regions_fresh_def)
  then show "t \<in> pending_tasks (pl_ingester q) \<or> excused q t"
    using days_invD(5) [OF assms(1)] assms(2,3,7-10) by (auto simp: excused_def)
qed (use days_invD(1-4) [OF assms(1)] assms(2,3,6) in simp_all)

lemma process_message_tables:
  assumes "process_message monitors cfg env db msg = (a, db', out)"
  shows "tbl_historical db' = tbl_historical db \<and> tbl_daily db' = tbl_daily db \<and> tbl_region_daily db' = tbl_region_daily db"
proof -
  have sync: "tbl_historical db2 = tbl_historical db \<and> tbl_daily db2 = tbl_daily db \<and> tbl_region_daily db2 = tbl_region_daily db"
    if "syncProgrammaticIncident env (store_evaluation now m ev db) monitor ev = (r, db2)" for now m ev monitor r db2
    using sync_step [OF that] incident_step_frame [of "mon_ID monitor" "store_evaluation now m ev db" db2]
    by (auto simp: store_evaluation_def)
  show ?thesis
    using assms
  proof (cases rule: process_message_cases)
    case (evaluated request monitor)
    from evaluated(4) show ?thesis
      by (cases rule: process_evaluation_cases) (use sync in auto)
  qed simp
qed

lemma days_step:
  assumes step: "pipeline_step d p q" and inv: "days_inv d p" and on: "runs_on sc mc (de_process d)"
    and positive: "0 < CleanupBatchSize (sc_Dataset sc)" and date: "de_sql_date d = utc_date"
    and calendar: "\<forall>m \<in> set (pl_taken p). \<forall>r. msg_body m = Some r \<longrightarrow> in_calendar (sub_Timestamp r)"
  shows "days_inv d q"
proof -
  note was = days_invD [OF inv]
  have monitors: "srv_monitorConfig (de_srv d) = mc" "pr_ingester (de_process d) = NewIngesterWorker mc (sc_Dataset sc)"
      "cw_datasetConfig (pr_cleanup (de_process d)) = sc_Dataset sc"
    using on by (simp_all add: runs_on_def de_srv_def NewCleanupWorker_def)
  have tracked: "days_tracked (de_sql_int d) mc (pl_ingester p) {t. excused p t} (pl_db p)"
    using inv by (simp add: days_inv_def monitors)
  from step show ?thesis
  proof (cases rule: pipeline_step.cases)
    case (submit env marshal apiKey body n answer topics n')
    obtain ms where "tp_ingester topics = tp_ingester (pl_topics p) @ ms"
      using submission_topics [OF submit(2)] by blast
    then show ?thesis
      using was(3) by (intro days_inv_other [OF inv]) (auto simp: submit(1))
  next
    case (ingest message faults a w db confirmed)
    have "in_calendar (sub_Timestamp r)" if "msg_body message = Some r" for r
      using calendar ingest(2) was(3) that by blast
    note after = ingest_tracked [OF ingest(3) tracked this was(2)]
    show ?thesis
    proof (rule days_invI)
      show "set (tp_ingester (pl_topics q)) \<subseteq> set (pl_taken q)"
        using was(3) settle_subset [of a confirmed message "tp_ingester (pl_topics p)"] by (simp add: ingest(1))
      fix t
      assume "day_stale (de_sql_int d) (srv_monitorConfig (de_srv d)) t (pl_db q)"
      then have "t \<in> pending_tasks w \<or> excused p t \<and> rows_of_day t db = rows_of_day t (pl_db p)"
        using after(4) [of t] by (simp add: ingest(1) monitors)
      then show "t \<in> pending_tasks (pl_ingester q) \<or> excused q t"
        by (auto simp: ingest(1) excused_def)
    qed (use after(1-3) was(1) in \<open>simp_all add: ingest(1)\<close>)
  next
    case (aggregate faults w db)
    have a: "aggregateDirtyMonitors utc_date (de_sql_int d) faults (pl_ingester p, pl_db p) = (w, db)"
      using aggregate(2) by (simp add: date)
    have after: "days_tracked (de_sql_int d) mc w {t. excused p t} db" "iw_monitorConfig w = mc"
      using aggregation_tracked [OF a _ tracked] was(1) by (simp_all add: monitors)
    have hist: "tbl_historical db = tbl_historical (pl_db p)"
      using aggregation_effect [OF a] by simp
    show ?thesis
    proof (rule days_invI)
      fix t
      assume "day_stale (de_sql_int d) (srv_monitorConfig (de_srv d)) t (pl_db q)"
      then have "t \<in> pending_tasks w \<or> excused p t"
        using tracked_stale [OF after(1)] by (simp add: aggregate(1) monitors)
      then show "t \<in> pending_tasks (pl_ingester q) \<or> excused q t"
        by (simp add: aggregate(1) excused_def hist)
    qed (use after(2) was hist tracked_ok [OF after(1)] in \<open>simp_all add: aggregate(1) monitors\<close>)
  next
    case (seed faults now)
    have s: "tasks_ok (pl_ingester q) \<and> pending_tasks (pl_ingester p) \<subseteq> pending_tasks (pl_ingester q) \<and>
        iw_monitorConfig (pl_ingester q) = iw_monitorConfig (pl_ingester p)"
      using seed_any [OF was(4,2)] by (simp add: seed seeded_def date)
    show ?thesis
    proof (rule days_invI)
      fix t
      assume "day_stale (de_sql_int d) (srv_monitorConfig (de_srv d)) t (pl_db q)"
      then have "t \<in> pending_tasks (pl_ingester p) \<or> excused p t"
        using was(5) by (simp add: seed)
      then show "t \<in> pending_tasks (pl_ingester q) \<or> excused q t"
        using s by (auto simp: seed excused_def)
    qed (use s was in \<open>simp_all add: seed\<close>)
  next
    case (seed_all now)
    let ?window = "aggregationSeedLookback (pl_ingester p)"
    have s: "tasks_ok (pl_ingester q)" "iw_monitorConfig (pl_ingester q) = iw_monitorConfig (pl_ingester p)"
      using seed_any [OF was(4,2)] by (simp_all add: seed_all seeded_def date)
    show ?thesis
    proof (rule days_invI)
      fix t
      assume "day_stale (de_sql_int d) (srv_monitorConfig (de_srv d)) t (pl_db q)"
      then have "t \<in> pending_tasks (pl_ingester q) \<or>
          (\<forall>r \<in> set (rows_of_day t (pl_db p)). hist_CreatedAt r < timestamptz (now - ?window))"
        using seed_tracked [OF was(4,2), of "de_sql_int d" mc t now ?window] by (auto simp: seed_all seeded_def date monitors)
      then show "t \<in> pending_tasks (pl_ingester q) \<or> excused q t"
        by (auto simp: seed_all excused_def list_all_iff)
    qed (use s was in \<open>simp_all add: seed_all\<close>)
  next
    case (process_one message env a db out confirmed)
    show ?thesis
      using process_message_tables [OF process_one(3)] was(3) by (intro days_inv_other [OF inv]) (simp_all add: process_one(1))
  next
    case (deliver message a w confirmed)
    show ?thesis
      using was(3) by (intro days_inv_other [OF inv]) (simp_all add: deliver(1))
  next
    case (digest b)
    show ?thesis
      using was(3) by (intro days_inv_other [OF inv]) (simp_all add: digest(1))
  next
    case (clean cfg env report s)
    have batch: "0 < CleanupBatchSize cfg"
      using positive by (simp add: clean(2) monitors)
    show ?thesis
    proof (rule days_invI)
      show "calendar_rows (pl_db q)"
        using clean_effect(3) [OF clean(3) batch] was(2) by (auto simp: clean(1))
      fix t
      assume stale: "day_stale (de_sql_int d) (srv_monitorConfig (de_srv d)) t (pl_db q)"
      show "t \<in> pending_tasks (pl_ingester q) \<or> excused q t"
      proof (cases "task_date t < cleanup_cutoff env cfg 0 \<or> task_date t < cleanup_cutoff env cfg 1")
        case True
        then show ?thesis by (auto simp: clean(1) excused_def)
      next
        case False
        have stale: "day_stale (de_sql_int d) (srv_monitorConfig (de_srv d)) t (cs_db s)"
          using stale by (simp add: clean(1))
        note kept = clean_stale [OF clean(3) batch stale]
        have "t \<in> pending_tasks (pl_ingester p) \<or> excused p t"
          using was(5) kept(1) False by blast
        then show ?thesis
          using kept(2) False by (auto simp: clean(1) excused_def)
      qed
    qed (use was in \<open>simp_all add: clean(1)\<close>)
  next
    case restart
    have "set (tp_ingester (pl_topics q)) \<subseteq> set (pl_taken q)"
      using subset_trans [OF surviving_simps(3) was(3)] by (simp add: restart)
    then show ?thesis
      by (intro days_invI) (use was in \<open>simp_all add: restart monitors NewIngesterWorker_def tasks_ok_def excused_def\<close>)
  qed
qed

lemma pipeline_days:
  assumes "pipeline_reachable d w p" and "runs_on sc mc (de_process d)" and "0 < CleanupBatchSize (sc_Dataset sc)"
    and "de_sql_date d = utc_date"
    and "\<forall>m \<in> set (pl_taken p). \<forall>r. msg_body m = Some r \<longrightarrow> in_calendar (sub_Timestamp r)"
  shows "days_inv d p"
  using assms(1,5)
proof (induction rule: rtranclp_induct)
  case base
  have "iw_monitorConfig (pr_ingester (de_process d)) = srv_monitorConfig (de_srv d)" "iw_dirtyAggregationTasks (pr_ingester (de_process d)) = []"
    using assms(2) by (simp_all add: runs_on_def de_srv_def NewIngesterWorker_def)
  then show ?case
    by (intro days_invI) (simp_all add: pipeline_start_def empty_db_def tasks_ok_def day_stale_iff day_rows_def)
next
  case (step p q)
  have "set (pl_taken p) \<subseteq> set (pl_taken q)"
    using step(2) by (cases rule: pipeline_step.cases) simp_all
  then have before: "\<forall>m \<in> set (pl_taken p). \<forall>r. msg_body m = Some r \<longrightarrow> in_calendar (sub_Timestamp r)"
    using step(4) by blast
  show ?case
    by (rule days_step [OF step(2) step(3) [OF before] assms(2-4) before])
qed

text \<open>
  C4: No day is forgotten by the whole server. When its clocks are in the calendar, its session in UTC
  and the ingester has been seeded completely since it was last made, a monitor's day whose
  aggregates do not match its raw rows is marked, or it is before a cutoff of some cleanup, or all
  its rows are older than the window of some seed; whatever fails and however messages, runs of the
  aggregation, cleanups and restarts come.
\<close>

theorem days_survive_restarts:
  assumes "main_server su fs dr configPath monitorPath db0 = (Runs (ServerProgram (de_process d)), db1)"
    and "(pipeline_step d)\<^sup>*\<^sup>* (pipeline_start d w) p"
    and "\<And>t. de_sql_date d t = utc_date t"
    and "\<And>m r. m \<in> set (pl_taken p) \<Longrightarrow> msg_body m = Some r \<Longrightarrow> in_calendar (sub_Timestamp r)"
    and "\<not> pl_unseeded p"
    and "day_stale (de_sql_int d) (srv_monitorConfig (de_srv d)) task (pl_db p)"
  shows "task \<in> pending_tasks (pl_ingester p) \<or>
     (\<exists>cutoff \<in> set (pl_cutoffs p) \<union> set (pl_pruned p). task_date task < cutoff) \<or>
     (\<exists>since \<in> set (pl_since p).
        \<forall>r \<in> set (day_rows utc_date (task_monitorID task) (utc_date (task_date task)) (tbl_historical (pl_db p))).
          hist_CreatedAt r < timestamptz since)"
proof -
  obtain sc mc where on: "runs_on sc mc (de_process d)"
    using main_server_Runs [OF assms(1)] by blast
  then have "0 < CleanupBatchSize (sc_Dataset sc)"
    using process_configuration(1) [OF assms(1)] by (simp add: runs_on_def NewCleanupWorker_def)
  then have "days_inv d p"
    using assms(3,4) by (intro pipeline_days [OF assms(2) on]) auto
  from days_invD(5) [OF this assms(6)] assms(5) show ?thesis
    by (auto simp: excused_def list_ex_iff list_all_iff)
qed

section \<open>A run\<close>

text \<open>After the check of the example was stored, the server is restarted and seeded, and marks the day of the check.\<close>

definition ex_failed_day :: aggregationTask where
  "ex_failed_day = AggregationTask ''api'' (utcDayStart ex_now)"

lemma ex_processed_tables:
  "tbl_historical (fst (snd ex_processed)) = tbl_historical (snd (snd ex_stored))"
  "tbl_daily (fst (snd ex_processed)) = tbl_daily (snd (snd ex_stored))"
proof -
  obtain a db out where r: "ex_processed = (a, db, out)"
    by (metis prod_cases3)
  show "tbl_historical (fst (snd ex_processed)) = tbl_historical (snd (snd ex_stored))"
    "tbl_daily (fst (snd ex_processed)) = tbl_daily (snd (snd ex_stored))"
    unfolding r snd_conv fst_conv using process_message_tables [OF r [unfolded ex_processed_def]] by blast+
qed

lemma ex_failed_day_stale:
  "day_stale round_half_even ex_monitors ex_failed_day (fst (snd ex_processed))"
  "list_ex (\<lambda>r. hist_CreatedAt r = ex_now \<and> hist_MonitorID r = ''api'') (tbl_historical (fst (snd ex_processed)))"
proof -
  have "findMonitor ex_monitors (task_monitorID ex_failed_day) = Some ex_monitor"
    by (simp add: ex_failed_day_def ex_monitors_def ex_monitor_def findMonitor_def zero_monitor_def)
  moreover have "task_ok ex_failed_day"
    by code_simp
  moreover have "length (rows_of_day ex_failed_day (snd (snd ex_stored))) = 1"
    by code_simp
  moreover have "tbl_daily (snd (snd ex_stored)) = []"
    by code_simp
  ultimately show "day_stale round_half_even ex_monitors ex_failed_day (fst (snd ex_processed))"
    by (auto simp: day_stale_iff daily_fresh_def ex_processed_tables)
  show "list_ex (\<lambda>r. hist_CreatedAt r = ex_now \<and> hist_MonitorID r = ''api'') (tbl_historical (fst (snd ex_processed)))"
    unfolding ex_processed_tables by code_simp
qed

theorem days_survive_restarts_witness:
  "\<exists>d p. (pipeline_step d)\<^sup>*\<^sup>* (pipeline_start d (ex_world [StatusCode 200])) p \<and> ex_failed_day \<in> pending_tasks (pl_ingester p)"
proof -
  obtain proc db where r: "main_server ex_startup ex_fs ex_driver ''c'' ''m'' [] = (Runs (ServerProgram proc), db)"
    and o: "runs_on ex_server_config ex_monitors proc"
    by (rule ex_server_runs)
  let ?d = "ex_deployment proc"
  have r': "main_server ex_startup ex_fs ex_driver ''c'' ''m'' [] = (Runs (ServerProgram (de_process ?d)), db)"
    and date: "de_sql_date ?d t = utc_date t" for t
    using r by (simp_all add: ex_deployment_def)
  obtain p alert where p: "pipeline_reachable ?d (ex_world [StatusCode 200]) p" "pl_taken p = [ex_submission_message 3]"
      "pl_cutoffs p = []" "pl_db p = fst (snd ex_processed)" "pl_pruned p = []" "pl_since p = []"
    by (rule ex_pipeline_run [OF o])
  obtain q where q: "pipeline_reachable ?d (ex_world [StatusCode 200]) q" "pl_taken q = pl_taken p" "pl_db q = pl_db p"
      "pl_cutoffs q = []" "pl_pruned q = []" "pl_since q = [ex_now - aggregationSeedLookback (pr_ingester proc)]" "\<not> pl_unseeded q"
  proof
    let ?q = "p\<lparr>pl_ingester := pr_ingester (de_process ?d), pl_world := restarted (pl_world p),
        pl_topics := surviving_topics (de_durable ?d) (pl_topics p), pl_alerts := surviving (de_alert_durable ?d) (pl_alerts p),
        pl_unseeded := True, pl_restarts := Suc (pl_restarts p)\<rparr>"
    show "pipeline_reachable ?d (ex_world [StatusCode 200]) (?q\<lparr>pl_ingester := seeded ?d no_seed_faults ex_now ?q,
        pl_since := pl_since ?q @ [ex_now - aggregationSeedLookback (pl_ingester ?q)], pl_unseeded := False\<rparr>)"
      by (rule rtranclp.rtrancl_into_rtrancl, rule rtranclp.rtrancl_into_rtrancl, rule p(1), rule pipeline_step.restart,
          rule pipeline_step.seed_all)
  qed (simp_all add: p ex_deployment_def)
  have calendar: "in_calendar (sub_Timestamp x)" if "m \<in> set (pl_taken q)" "msg_body m = Some x" for m x
  proof -
    have "in_calendar (sub_Timestamp ex_failed_check)"
      by code_simp
    moreover have "x = ex_failed_check"
      using that by (simp add: q(2) p(2) ex_submission_message(1))
    ultimately show ?thesis
      by simp
  qed
  have mc: "srv_monitorConfig (de_srv ?d) = ex_monitors" "pr_ingester proc = NewIngesterWorker ex_monitors (sc_Dataset ex_server_config)"
    using o by (simp_all add: runs_on_def de_srv_def ex_deployment_def)
  have stale: "day_stale (de_sql_int ?d) (srv_monitorConfig (de_srv ?d)) ex_failed_day (pl_db q)"
    unfolding mc(1) q(3) p(4) using ex_failed_day_stale(1) by (simp add: ex_deployment_def)
  obtain r where row: "r \<in> set (tbl_historical (pl_db q))" "hist_CreatedAt r = ex_now" "hist_MonitorID r = ''api''"
    using ex_failed_day_stale(2) by (auto simp: list_ex_iff q p)
  then have "r \<in> set (day_rows utc_date (task_monitorID ex_failed_day) (utc_date (task_date ex_failed_day)) (tbl_historical (pl_db q)))"
    by (simp add: day_rows_def ex_failed_day_def)
  moreover have "\<not> ex_now < timestamptz (ex_now - aggregationSeedLookback (pr_ingester proc))"
    unfolding mc(2) by code_simp
  moreover note days_survive_restarts [OF r' q(1) date _ q(7) stale]
  then have "ex_failed_day \<in> pending_tasks (pl_ingester q) \<or>
      (\<forall>r \<in> set (rows_of_day ex_failed_day (pl_db q)).
        hist_CreatedAt r < timestamptz (ex_now - aggregationSeedLookback (pr_ingester proc)))"
    using calendar by (simp add: q(4-6))
  ultimately have "ex_failed_day \<in> pending_tasks (pl_ingester q)"
    using row(2) by auto
  then show ?thesis
    using q(1) by blast
qed

end
