(* ===== verification/Cleanup_Lifecycle.thy ===== *)
theory Cleanup_Lifecycle
  imports Cleanup
begin

text \<open>
  \<open>Start\<close> and \<open>Stop\<close> of \<open>worker_cleanup.go\<close>: the goroutine of the loop, the one that cancels its context
  when \<open>stopCh\<close> is closed, and any number of callers of \<open>Stop\<close>, interleaved. A pass is entered and left
  here; what it does is \<open>runCleanup\<close>. The \<open>select\<close> of the loop may take a tick although \<open>stopCh\<close> is
  closed already, as Go chooses among the ready cases at random.
\<close>

section \<open>State\<close>

text \<open>
  \<open>LoopBegins\<close> is between the claim of \<open>started\<close> and the first look at the context; \<open>LoopSelects\<close> is
  the \<open>select\<close>. A call of \<open>Stop\<close> has passed \<open>stopOnce\<close>, waits for \<open>doneCh\<close>, or has returned, with or
  without having waited.
\<close>

datatype loop_phase = LoopNotStarted | LoopBegins | LoopInPass | LoopSelects | LoopExited

datatype stop_phase = StopNotCalled | StopSignalled | StopWaits | StopReturned bool

text \<open>\<open>lc_doneCh\<close> counts how often \<open>doneCh\<close> was closed: a second time would be a panic.\<close>

record lifecycle =
  lc_stopCh :: bool
  lc_doneCh :: nat
  lc_started :: bool
  lc_cancelled :: bool
  lc_loop :: loop_phase
  lc_passes :: nat
  lc_stops :: "nat \<Rightarrow> stop_phase"

definition new_lifecycle :: lifecycle where
  "new_lifecycle = \<lparr>lc_stopCh = False, lc_doneCh = 0, lc_started = False, lc_cancelled = False,
     lc_loop = LoopNotStarted, lc_passes = 0, lc_stops = \<lambda>_. StopNotCalled\<rparr>"

section \<open>Steps\<close>

text \<open>A call of \<open>Start\<close> up to the loop: the error it returns at once, and the state.\<close>

definition start_call :: "DatasetConfig \<Rightarrow> lifecycle \<Rightarrow> string option \<times> lifecycle" where
  "start_call cfg s =
     (case start_error cfg of
        Some e \<Rightarrow> (Some e, s)
      | None \<Rightarrow> if lc_started s then (None, s) else (None, s\<lparr>lc_started := True, lc_loop := LoopBegins\<rparr>))"

definition enter_pass :: "lifecycle \<Rightarrow> lifecycle" where
  "enter_pass s =
     (if lc_cancelled s then s\<lparr>lc_loop := LoopSelects\<rparr>
      else s\<lparr>lc_loop := LoopInPass, lc_passes := Suc (lc_passes s)\<rparr>)"

text \<open>The deferred calls of \<open>Start\<close>: the context is cancelled and \<open>doneCh\<close> is closed.\<close>

definition leave_loop :: "lifecycle \<Rightarrow> lifecycle" where
  "leave_loop s = s\<lparr>lc_loop := LoopExited, lc_cancelled := True, lc_doneCh := Suc (lc_doneCh s)\<rparr>"

definition set_stop :: "nat \<Rightarrow> stop_phase \<Rightarrow> lifecycle \<Rightarrow> lifecycle" where
  "set_stop i phase s = s\<lparr>lc_stops := (lc_stops s)(i := phase)\<rparr>"

inductive lifecycle_step :: "DatasetConfig \<Rightarrow> lifecycle \<Rightarrow> lifecycle \<Rightarrow> bool" for cfg :: DatasetConfig where
  start: "start_call cfg s = (err, s') \<Longrightarrow> lifecycle_step cfg s s'"
| begin_pass: "lc_loop s = LoopBegins \<or> lc_loop s = LoopSelects \<Longrightarrow> lifecycle_step cfg s (enter_pass s)"
| end_pass: "lc_loop s = LoopInPass \<Longrightarrow> lifecycle_step cfg s (s\<lparr>lc_loop := LoopSelects\<rparr>)"
| leave: "lc_loop s = LoopSelects \<Longrightarrow> lc_stopCh s \<Longrightarrow> lifecycle_step cfg s (leave_loop s)"
| watch: "lc_started s \<Longrightarrow> lc_stopCh s \<Longrightarrow> lifecycle_step cfg s (s\<lparr>lc_cancelled := True\<rparr>)"
| signal: "lc_stops s i = StopNotCalled \<Longrightarrow> lifecycle_step cfg s (set_stop i StopSignalled (s\<lparr>lc_stopCh := True\<rparr>))"
| await: "lc_stops s i = StopSignalled \<Longrightarrow>
    lifecycle_step cfg s (set_stop i (if lc_started s then StopWaits else StopReturned False) s)"
| return: "lc_stops s i = StopWaits \<Longrightarrow> 0 < lc_doneCh s \<Longrightarrow> lifecycle_step cfg s (set_stop i (StopReturned True) s)"

section \<open>Invariant\<close>

definition lifecycle_inv :: "lifecycle \<Rightarrow> bool" where
  "lifecycle_inv s =
     ((lc_started s = (lc_loop s \<noteq> LoopNotStarted)) \<and>
      lc_doneCh s = (if lc_loop s = LoopExited then 1 else 0) \<and>
      (\<forall>i. lc_stops s i \<noteq> StopNotCalled \<longrightarrow> lc_stopCh s) \<and>
      (\<forall>i. lc_stops s i = StopWaits \<longrightarrow> lc_started s) \<and>
      (\<forall>i. lc_stops s i = StopReturned True \<longrightarrow> lc_loop s = LoopExited))"

lemmas lifecycle_defs = start_call_def enter_pass_def leave_loop_def set_stop_def

lemma lifecycle_invI:
  assumes "lc_started s = (lc_loop s \<noteq> LoopNotStarted)" and "lc_doneCh s = (if lc_loop s = LoopExited then 1 else 0)"
    and "\<And>i. lc_stops s i \<noteq> StopNotCalled \<Longrightarrow> lc_stopCh s" and "\<And>i. lc_stops s i = StopWaits \<Longrightarrow> lc_started s"
    and "\<And>i. lc_stops s i = StopReturned True \<Longrightarrow> lc_loop s = LoopExited"
  shows "lifecycle_inv s"
  using assms unfolding lifecycle_inv_def by blast

lemma lifecycle_invD:
  assumes "lifecycle_inv s"
  shows "lc_started s = (lc_loop s \<noteq> LoopNotStarted)" and "lc_doneCh s = (if lc_loop s = LoopExited then 1 else 0)"
    and "lc_stops s i \<noteq> StopNotCalled \<Longrightarrow> lc_stopCh s" and "lc_stops s i = StopWaits \<Longrightarrow> lc_started s"
    and "lc_stops s i = StopReturned True \<Longrightarrow> lc_loop s = LoopExited"
  using assms unfolding lifecycle_inv_def by blast+

lemma lifecycle_step_inv:
  assumes "lifecycle_step cfg s s'" and "lifecycle_inv s"
  shows "lifecycle_inv s'"
  using assms
proof (induction rule: lifecycle_step.induct)
  case (start s err s')
  note inv = lifecycle_invD [OF start(2)]
  have "s' = s \<or> \<not> lc_started s \<and> s' = s\<lparr>lc_started := True, lc_loop := LoopBegins\<rparr>"
    using start(1) by (auto simp: start_call_def split: option.splits if_splits)
  then show ?case
  proof
    assume s': "\<not> lc_started s \<and> s' = s\<lparr>lc_started := True, lc_loop := LoopBegins\<rparr>"
    then show ?thesis
      using inv(1,2) inv(3,5) by (intro lifecycle_invI) simp_all
  qed (use start(2) in simp)
next
  case (begin_pass s)
  note inv = lifecycle_invD [OF begin_pass(2)]
  show ?case
    using inv(1,2) inv(3-5) begin_pass(1) by (intro lifecycle_invI) (auto simp: enter_pass_def split: if_splits)
next
  case (end_pass s)
  note inv = lifecycle_invD [OF end_pass(2)]
  show ?case
    using inv(1,2) inv(3-5) end_pass(1) by (intro lifecycle_invI) auto
next
  case (leave s)
  note inv = lifecycle_invD [OF leave(3)]
  show ?case
    using inv(1,2) inv(3-5) leave(1) by (intro lifecycle_invI) (auto simp: leave_loop_def)
next
  case (watch s)
  note inv = lifecycle_invD [OF watch(3)]
  show ?case
    using inv(1,2) inv(3-5) by (intro lifecycle_invI) auto
next
  case (signal s i)
  note inv = lifecycle_invD [OF signal(2)]
  show ?case
    using inv(1,2) inv(3-5) by (intro lifecycle_invI) (auto simp: set_stop_def split: if_splits)
next
  case (await s i)
  note inv = lifecycle_invD [OF await(2)]
  show ?case
    using inv(1,2) inv(3) [of i] inv(3-5) await(1) by (intro lifecycle_invI) (auto simp: set_stop_def split: if_splits)
next
  case (return s i)
  note inv = lifecycle_invD [OF return(3)]
  show ?case
    using inv(1,2) inv(3) [of i] inv(3-5) return(1,2) by (intro lifecycle_invI) (auto simp: set_stop_def split: if_splits)
qed

lemma lifecycle_reachable_inv: "(lifecycle_step cfg)\<^sup>*\<^sup>* new_lifecycle s \<Longrightarrow> lifecycle_inv s"
proof (induction rule: rtranclp_induct)
  case base
  then show ?case by (intro lifecycle_invI) (simp_all add: new_lifecycle_def)
next
  case (step s s')
  show ?case by (rule lifecycle_step_inv [OF step(2,3)])
qed

lemma exited_step:
  assumes "lifecycle_step cfg s s'" and "lifecycle_inv s" and "lc_loop s = LoopExited"
  shows "lc_loop s' = LoopExited \<and> lc_passes s' = lc_passes s"
  using assms(1)
proof (cases rule: lifecycle_step.cases)
  case (start err)
  then show ?thesis
    using assms(3) lifecycle_invD(1) [OF assms(2)] by (auto simp: start_call_def split: option.splits if_splits)
qed (use assms(3) in \<open>auto simp: lifecycle_defs\<close>)

lemma exited_stays:
  assumes "(lifecycle_step cfg)\<^sup>*\<^sup>* s s'" and "lifecycle_inv s" and "lc_loop s = LoopExited"
  shows "lifecycle_inv s' \<and> lc_loop s' = LoopExited \<and> lc_passes s' = lc_passes s"
  using assms(1)
proof (induction rule: rtranclp_induct)
  case base
  then show ?case using assms by simp
next
  case (step s1 s2)
  then show ?case
    using exited_step [OF step(2)] lifecycle_step_inv [OF step(2)] by simp
qed

text \<open>The loop can leave: its context is cancelled, and then it gets to the \<open>select\<close> without a pass.\<close>

lemma loop_can_leave:
  assumes "lc_started s" and "lc_stopCh s" and "lifecycle_inv s"
  shows "\<exists>s'. (lifecycle_step cfg)\<^sup>*\<^sup>* s s' \<and> lc_loop s' = LoopExited \<and> lc_passes s' = lc_passes s \<and> lc_stops s' = lc_stops s"
proof -
  define c where "c = s\<lparr>lc_cancelled := True\<rparr>"
  have c: "lifecycle_step cfg s c" "lc_stopCh c" "lc_cancelled c" "lc_loop c = lc_loop s" "lc_passes c = lc_passes s"
      "lc_stops c = lc_stops s"
    using lifecycle_step.watch [OF assms(1,2)] assms(2) by (simp_all add: c_def)
  have leaves: "\<exists>s'. (lifecycle_step cfg)\<^sup>*\<^sup>* v s' \<and> lc_loop s' = LoopExited \<and> lc_passes s' = lc_passes v \<and> lc_stops s' = lc_stops v"
    if "lc_loop v = LoopSelects" "lc_stopCh v" for v
    using lifecycle_step.leave [OF that] by (intro exI [of _ "leave_loop v"]) (auto simp: leave_loop_def)
  have selects: "\<exists>v. (lifecycle_step cfg)\<^sup>*\<^sup>* c v \<and> lc_loop v = LoopSelects \<and> lc_stopCh v \<and> lc_passes v = lc_passes s \<and> lc_stops v = lc_stops s"
    if "lc_loop s \<noteq> LoopExited"
  proof (cases "lc_loop c")
    case LoopBegins
    then show ?thesis
      using lifecycle_step.begin_pass [of c cfg] c by (intro exI [of _ "enter_pass c"]) (auto simp: enter_pass_def)
  next
    case LoopInPass
    then show ?thesis
      using lifecycle_step.end_pass [of c cfg] c by (intro exI [of _ "c\<lparr>lc_loop := LoopSelects\<rparr>"]) auto
  next
    case LoopSelects
    then show ?thesis
      using c by blast
  qed (use that assms(1) lifecycle_invD(1) [OF assms(3)] c(4) in simp_all)
  show ?thesis
  proof (cases "lc_loop s = LoopExited")
    case True
    then show ?thesis by blast
  next
    case False
    then obtain v where v: "(lifecycle_step cfg)\<^sup>*\<^sup>* c v" "lc_loop v = LoopSelects" "lc_stopCh v" "lc_passes v = lc_passes s" "lc_stops v = lc_stops s"
      using selects by blast
    have "(lifecycle_step cfg)\<^sup>*\<^sup>* s v"
      using c(1) v(1) by (rule converse_rtranclp_into_rtranclp)
    then show ?thesis
      using leaves [OF v(2,3)] v(4,5) by (metis rtranclp_trans)
  qed
qed

section \<open>Properties\<close>

text \<open>
  C22: When a call of \<open>Stop\<close> that found the worker started has returned, the loop is over: \<open>doneCh\<close> has
  been closed once, and however the program goes on, no pass begins and it is not closed again. Every
  such call can return: from each reachable state in which it waits, the worker gets to the end of
  its loop without another pass, and the call returns.
\<close>

theorem stop_ends_the_cleanup:
  assumes "(lifecycle_step cfg)\<^sup>*\<^sup>* new_lifecycle s"
  shows "case lc_stops s i of
      StopReturned True \<Rightarrow> lc_loop s = LoopExited \<and> lc_doneCh s = 1 \<and>
        (\<forall>s'. (lifecycle_step cfg)\<^sup>*\<^sup>* s s' \<longrightarrow> lc_passes s' = lc_passes s \<and> lc_doneCh s' = 1)
    | StopWaits \<Rightarrow>
        (\<exists>s'. (lifecycle_step cfg)\<^sup>*\<^sup>* s s' \<and> lc_stops s' i = StopReturned True \<and> lc_passes s' = lc_passes s)
    | _ \<Rightarrow> True"
proof (cases "lc_stops s i")
  case StopWaits
  note inv = lifecycle_reachable_inv [OF assms]
  obtain v where v: "(lifecycle_step cfg)\<^sup>*\<^sup>* s v" "lc_loop v = LoopExited" "lc_passes v = lc_passes s" "lc_stops v = lc_stops s"
    using loop_can_leave [OF lifecycle_invD(4) [OF inv StopWaits] lifecycle_invD(3) [OF inv, of i] inv] StopWaits by auto
  have "lifecycle_inv v"
    using lifecycle_reachable_inv assms v(1) by (metis rtranclp_trans)
  then have "0 < lc_doneCh v"
    using v(2) by (simp add: lifecycle_inv_def)
  then have "lifecycle_step cfg v (set_stop i (StopReturned True) v)"
    using v(4) StopWaits by (intro lifecycle_step.return) simp_all
  then have "(lifecycle_step cfg)\<^sup>*\<^sup>* s (set_stop i (StopReturned True) v)"
    using v(1) by (rule rtranclp.rtrancl_into_rtrancl [rotated])
  then show ?thesis
    using v(3) StopWaits by (auto simp: set_stop_def intro!: exI [of _ "set_stop i (StopReturned True) v"])
next
  case (StopReturned waited)
  note inv = lifecycle_reachable_inv [OF assms]
  show ?thesis
  proof (cases waited)
    case True
    then have stopped: "lc_stops s i = StopReturned True"
      using StopReturned by simp
    note exited = lifecycle_invD(5) [OF inv stopped]
    have closed: "lc_doneCh s' = 1 \<and> lc_passes s' = lc_passes s" if "(lifecycle_step cfg)\<^sup>*\<^sup>* s s'" for s'
      using exited_stays [OF that inv exited] by (simp add: lifecycle_inv_def)
    have "lc_loop s = LoopExited \<and> lc_doneCh s = 1 \<and>
        (\<forall>s'. (lifecycle_step cfg)\<^sup>*\<^sup>* s s' \<longrightarrow> lc_passes s' = lc_passes s \<and> lc_doneCh s' = 1)"
      using exited closed by blast
    then show ?thesis
      unfolding stopped stop_phase.case bool.case if_True .
  qed (simp add: StopReturned)
qed simp_all

section \<open>A run\<close>

text \<open>The first pass is running when the worker is stopped.\<close>

definition ex_stopped :: lifecycle where
  "ex_stopped = new_lifecycle\<lparr>lc_started := True, lc_loop := LoopInPass, lc_passes := 1, lc_stopCh := True,
     lc_stops := (\<lambda>_. StopNotCalled)(0 := StopWaits)\<rparr>"

lemma ex_stopped_reachable: "(lifecycle_step (sc_Dataset ex_server_config))\<^sup>*\<^sup>* new_lifecycle ex_stopped"
proof -
  let ?step = "lifecycle_step (sc_Dataset ex_server_config)"
  define a where "a = new_lifecycle\<lparr>lc_started := True, lc_loop := LoopBegins\<rparr>"
  define c where "c = set_stop 0 StopSignalled ((enter_pass a)\<lparr>lc_stopCh := True\<rparr>)"
  have "start_error (sc_Dataset ex_server_config) = None"
    by code_simp
  then have 1: "?step new_lifecycle a"
    by (intro lifecycle_step.start [where err = None]) (simp add: start_call_def new_lifecycle_def a_def)
  have 2: "?step a (enter_pass a)"
    by (intro lifecycle_step.begin_pass) (simp add: a_def)
  have 3: "?step (enter_pass a) c"
    unfolding c_def by (intro lifecycle_step.signal) (simp add: a_def enter_pass_def new_lifecycle_def)
  have "?step c (set_stop 0 (if lc_started c then StopWaits else StopReturned False) c)"
    by (intro lifecycle_step.await) (simp add: c_def set_stop_def)
  moreover have "set_stop 0 (if lc_started c then StopWaits else StopReturned False) c = ex_stopped"
    by (simp add: c_def a_def set_stop_def enter_pass_def new_lifecycle_def ex_stopped_def)
  ultimately have "?step c ex_stopped"
    by simp
  then show ?thesis
    by (rule rtranclp.rtrancl_into_rtrancl [rotated])
      (rule rtranclp.rtrancl_into_rtrancl, rule rtranclp.rtrancl_into_rtrancl, rule r_into_rtranclp, rule 1, rule 2, rule 3)
qed

theorem stop_ends_the_cleanup_witness:
  "\<exists>s. (lifecycle_step (sc_Dataset ex_server_config))\<^sup>*\<^sup>* ex_stopped s \<and> lc_stops s 0 = StopReturned True \<and> lc_passes s = 1"
  using stop_ends_the_cleanup [OF ex_stopped_reachable, of 0] by (simp add: ex_stopped_def)

text \<open>
  A call of \<open>Stop\<close> that comes before the goroutine of \<open>Start\<close> returns at once and ends nothing: the
  worker may start afterwards and run its first pass.
\<close>

lemma early_stop_lets_a_pass_run:
  assumes "start_error cfg = None"
  shows "\<exists>s s'. (lifecycle_step cfg)\<^sup>*\<^sup>* new_lifecycle s \<and> lc_stops s i = StopReturned False \<and>
     (lifecycle_step cfg)\<^sup>*\<^sup>* s s' \<and> lc_loop s' = LoopInPass"
proof -
  define a where "a = set_stop i StopSignalled (new_lifecycle\<lparr>lc_stopCh := True\<rparr>)"
  define b where "b = set_stop i (StopReturned False) a"
  define c where "c = b\<lparr>lc_started := True, lc_loop := LoopBegins\<rparr>"
  have 1: "lifecycle_step cfg new_lifecycle a"
    unfolding a_def by (intro lifecycle_step.signal) (simp add: new_lifecycle_def)
  have 2: "lifecycle_step cfg a b"
    using lifecycle_step.await [of a i cfg] by (simp add: a_def b_def set_stop_def new_lifecycle_def)
  have 3: "lifecycle_step cfg b c"
    using assms by (intro lifecycle_step.start [where err = None])
      (simp add: start_call_def a_def b_def c_def set_stop_def new_lifecycle_def)
  have 4: "lifecycle_step cfg c (enter_pass c)"
    by (intro lifecycle_step.begin_pass) (simp add: c_def)
  have "lc_stops b i = StopReturned False" "lc_loop (enter_pass c) = LoopInPass"
    by (simp_all add: a_def b_def c_def set_stop_def new_lifecycle_def enter_pass_def)
  moreover have "(lifecycle_step cfg)\<^sup>*\<^sup>* new_lifecycle b"
    by (rule rtranclp.rtrancl_into_rtrancl, rule r_into_rtranclp, rule 1, rule 2)
  moreover have "(lifecycle_step cfg)\<^sup>*\<^sup>* b (enter_pass c)"
    by (rule rtranclp.rtrancl_into_rtrancl, rule r_into_rtranclp, rule 3, rule 4)
  ultimately show ?thesis
    by blast
qed

end
