(* ===== verification/Cache_Flights.thy ===== *)
theory Cache_Flights
  imports Uptime_Cache
begin

text \<open>
  Concurrent calls of \<open>getOrLoadContext\<close> on the cache in memory (\<open>uptime_cache.go\<close>). A call moves from
  one section under the lock to the next, and calls interleave in any way. \<open>Uptime_Cache\<close> has the
  sections and the call of a caller who is alone; here are the flights that callers share.

  \<open>singleflight\<close> is outside of the program. What is relied on is what it documents: for a key one
  function runs at a time, and who calls \<open>Do\<close> meanwhile waits for it and receives its result. The loader may
  answer anything.
\<close>

section \<open>Calls\<close>

text \<open>
  Where a call is. The flag says whether it is inside the function given to \<open>group.Do\<close>, which begins with a
  lookup of its own; a flight that is landing has the result of this function, and the others are
  handed it.
\<close>

datatype 'v call_phase =
    Idle
  | Looking bool
  | Rechecking bool
  | Missed bool
  | Loading
  | Storing 'v
  | Landing "'v result"
  | Waiting nat
  | Returned "'v result"

record 'v caller =
  ca_key :: string
  ca_began :: gotime
  ca_phase :: "'v call_phase"
  ca_last :: gotime

datatype 'v cache_event = LoadBegins string gotime | LoadFails string string gotime | Stored string 'v gotime

text \<open>\<open>fg_history\<close> records the loads and the stores, the last one first.\<close>

record 'v flights =
  fg_cache :: "'v ttlCache"
  fg_group :: "string \<Rightarrow> nat option"
  fg_callers :: "nat \<Rightarrow> 'v caller"
  fg_history :: "'v cache_event list"
  fg_now :: gotime

definition flights_start :: "duration \<Rightarrow> gotime \<Rightarrow> 'v flights" where
  "flights_start ttl now =
     \<lparr>fg_cache = newTTLCache ttl, fg_group = \<lambda>_. None,
      fg_callers = \<lambda>_. \<lparr>ca_key = [], ca_began = now, ca_phase = Idle, ca_last = now\<rparr>,
      fg_history = [], fg_now = now\<rparr>"

definition move_call :: "nat \<Rightarrow> 'v call_phase \<Rightarrow> gotime \<Rightarrow> 'v flights \<Rightarrow> 'v flights" where
  "move_call i p now s =
     s\<lparr>fg_callers := (fg_callers s)(i := (fg_callers s i)\<lparr>ca_phase := p, ca_last := now\<rparr>), fg_now := now\<rparr>"

definition hit_phase :: "bool \<Rightarrow> 'v \<Rightarrow> 'v call_phase" where
  "hit_phase flying v = (if flying then Landing (Inr v) else Returned (Inr v))"

definition look_phase :: "bool \<Rightarrow> 'v lookup \<Rightarrow> 'v call_phase" where
  "look_phase flying x = (case x of Missing \<Rightarrow> Missed flying | Fresh v \<Rightarrow> hit_phase flying v | Expired \<Rightarrow> Rechecking flying)"

definition recheck_phase :: "bool \<Rightarrow> 'v option \<Rightarrow> 'v call_phase" where
  "recheck_phase flying x = (case x of None \<Rightarrow> Missed flying | Some v \<Rightarrow> hit_phase flying v)"

abbreviation phase_of :: "'v flights \<Rightarrow> nat \<Rightarrow> 'v call_phase" where
  "phase_of s i \<equiv> ca_phase (fg_callers s i)"

abbreviation key_of :: "'v flights \<Rightarrow> nat \<Rightarrow> string" where
  "key_of s i \<equiv> ca_key (fg_callers s i)"

text \<open>
  A lookup reads the clock before it takes the lock, so the time it compares with may be any since the
  call's last step; the second lookup and the store read it under the lock.
\<close>

inductive flight_step :: "'v flights \<Rightarrow> 'v flights \<Rightarrow> bool" where
  call: "phase_of s i = Idle \<Longrightarrow> fg_now s \<le> now \<Longrightarrow>
    flight_step s (s\<lparr>fg_callers := (fg_callers s)(i := \<lparr>ca_key = key, ca_began = now, ca_phase = Looking False, ca_last = now\<rparr>),
      fg_now := now\<rparr>)"
| look: "phase_of s i = Looking flying \<Longrightarrow> fg_now s \<le> now \<Longrightarrow> ca_last (fg_callers s i) \<le> t \<Longrightarrow> t \<le> now \<Longrightarrow>
    flight_step s (move_call i (look_phase flying (read_section t (key_of s i) (fg_cache s))) now s)"
| recheck: "phase_of s i = Rechecking flying \<Longrightarrow> fg_now s \<le> now \<Longrightarrow>
    expire_section now (key_of s i) (fg_cache s) = (x, c) \<Longrightarrow>
    flight_step s ((move_call i (recheck_phase flying x) now s)\<lparr>fg_cache := c\<rparr>)"
| lead: "phase_of s i = Missed False \<Longrightarrow> fg_now s \<le> now \<Longrightarrow> fg_group s (key_of s i) = None \<Longrightarrow>
    flight_step s ((move_call i (Looking True) now s)\<lparr>fg_group := (fg_group s)(key_of s i \<mapsto> i)\<rparr>)"
| join: "phase_of s i = Missed False \<Longrightarrow> fg_now s \<le> now \<Longrightarrow> fg_group s (key_of s i) = Some j \<Longrightarrow>
    flight_step s (move_call i (Waiting j) now s)"
| load: "phase_of s i = Missed True \<Longrightarrow> fg_now s \<le> now \<Longrightarrow>
    flight_step s ((move_call i Loading now s)\<lparr>fg_history := LoadBegins (key_of s i) now # fg_history s\<rparr>)"
| loaded: "phase_of s i = Loading \<Longrightarrow> fg_now s \<le> now \<Longrightarrow>
    flight_step s (move_call i (Storing v) now s)"
| load_fails: "phase_of s i = Loading \<Longrightarrow> fg_now s \<le> now \<Longrightarrow>
    flight_step s ((move_call i (Landing (Inl e)) now s)\<lparr>fg_history := LoadFails (key_of s i) e now # fg_history s\<rparr>)"
| store: "phase_of s i = Storing v \<Longrightarrow> fg_now s \<le> now \<Longrightarrow>
    flight_step s ((move_call i (Landing (Inr v)) now s)\<lparr>fg_cache := set_section now (key_of s i) v (fg_cache s),
      fg_history := Stored (key_of s i) v now # fg_history s\<rparr>)"
| land: "phase_of s i = Landing r \<Longrightarrow> fg_now s \<le> now \<Longrightarrow>
    flight_step s ((move_call i (Returned r) now s)\<lparr>fg_group := (fg_group s)(key_of s i := None)\<rparr>)"
| receive: "phase_of s i = Waiting j \<Longrightarrow> fg_now s \<le> now \<Longrightarrow> phase_of s j = Returned r \<Longrightarrow>
    flight_step s (move_call i (Returned r) now s)"

abbreviation flights_reachable :: "duration \<Rightarrow> 'v flights \<Rightarrow> bool" where
  "flights_reachable ttl s \<equiv> (\<exists>now. flight_step\<^sup>*\<^sup>* (flights_start ttl now) s)"

section \<open>The history\<close>

text \<open>The stores of a history, as the log that \<open>cache_step\<close> keeps.\<close>

fun stores_of :: "'v cache_event list \<Rightarrow> 'v log" where
  "stores_of [] = []"
| "stores_of (Stored k v t # h) = (k, v, t) # stores_of h"
| "stores_of (e # h) = stores_of h"

fun load_under_way :: "string \<Rightarrow> 'v cache_event list \<Rightarrow> bool" where
  "load_under_way key [] = False"
| "load_under_way key (LoadBegins k t # h) = (k = key \<or> load_under_way key h)"
| "load_under_way key (LoadFails k e t # h) = (k \<noteq> key \<and> load_under_way key h)"
| "load_under_way key (Stored k v t # h) = (k \<noteq> key \<and> load_under_way key h)"

definition may_load :: "duration \<Rightarrow> string \<Rightarrow> gotime \<Rightarrow> 'v cache_event list \<Rightarrow> bool" where
  "may_load ttl key t h =
     (\<not> load_under_way key h \<and> (case map_of (stores_of h) key of None \<Rightarrow> True | Some (v, u) \<Rightarrow> u + ttl < t))"

fun loads_spaced :: "duration \<Rightarrow> 'v cache_event list \<Rightarrow> bool" where
  "loads_spaced ttl [] = True"
| "loads_spaced ttl (LoadBegins k t # h) = (may_load ttl k t h \<and> loads_spaced ttl h)"
| "loads_spaced ttl (e # h) = loads_spaced ttl h"

lemma loads_spaced_split: "loads_spaced ttl (later @ LoadBegins k t # earlier) \<Longrightarrow> may_load ttl k t earlier"
  by (induction later rule: loads_spaced.induct) auto

lemma may_load_later: "may_load ttl key t h \<Longrightarrow> t \<le> t' \<Longrightarrow> may_load ttl key t' h"
  by (auto simp: may_load_def split: option.splits)

section \<open>The invariant\<close>

fun in_flight :: "'v call_phase \<Rightarrow> bool" where
  "in_flight (Looking flying) = flying"
| "in_flight (Rechecking flying) = flying"
| "in_flight (Missed flying) = flying"
| "in_flight Loading = True"
| "in_flight (Storing v) = True"
| "in_flight (Landing r) = True"
| "in_flight p = False"

fun at_loader :: "'v call_phase \<Rightarrow> bool" where
  "at_loader Loading = True"
| "at_loader (Storing v) = True"
| "at_loader p = False"

text \<open>
  What a result rests on: a value that was stored under the key and was not older than the time to live at a
  moment after the call began, or a load that failed after it began.
\<close>

definition rests_on :: "duration \<Rightarrow> 'v cache_event list \<Rightarrow> 'v caller \<Rightarrow> 'v result \<Rightarrow> bool" where
  "rests_on ttl h caller r =
     (case r of
        Inr v \<Rightarrow> \<exists>u seen. Stored (ca_key caller) v u \<in> set h \<and> ca_began caller \<le> seen \<and> seen \<le> u + ttl
      | Inl e \<Rightarrow> \<exists>t. LoadFails (ca_key caller) e t \<in> set h \<and> ca_began caller \<le> t)"

fun standing :: "duration \<Rightarrow> 'v flights \<Rightarrow> nat \<Rightarrow> 'v call_phase \<Rightarrow> bool" where
  "standing ttl s i (Missed True) = may_load ttl (key_of s i) (fg_now s) (fg_history s)"
| "standing ttl s i (Landing r) = rests_on ttl (fg_history s) (fg_callers s i) r"
| "standing ttl s i (Waiting j) =
     (key_of s j = key_of s i \<and>
      (in_flight (phase_of s j) \<or>
       (\<exists>r. phase_of s j = Returned r \<and> ca_began (fg_callers s i) \<le> ca_last (fg_callers s j) \<and>
          rests_on ttl (fg_history s) (fg_callers s j) r)))"
| "standing ttl s i (Returned r) =
     (\<exists>j. key_of s j = key_of s i \<and> rests_on ttl (fg_history s) (fg_callers s j) r \<and>
       (j = i \<or> phase_of s j = Returned r \<and> ca_began (fg_callers s i) \<le> ca_last (fg_callers s j)))"
| "standing ttl s i p = True"

definition caller_ok :: "duration \<Rightarrow> 'v flights \<Rightarrow> nat \<Rightarrow> bool" where
  "caller_ok ttl s i =
     (ca_began (fg_callers s i) \<le> ca_last (fg_callers s i) \<and> ca_last (fg_callers s i) \<le> fg_now s \<and>
      (in_flight (phase_of s i) \<longleftrightarrow> fg_group s (key_of s i) = Some i) \<and> standing ttl s i (phase_of s i))"

definition flights_inv :: "duration \<Rightarrow> 'v flights \<Rightarrow> bool" where
  "flights_inv ttl s =
     (agrees ttl (fg_cache s, stores_of (fg_history s), fg_now s) \<and> loads_spaced ttl (fg_history s) \<and>
      (\<forall>k i. fg_group s k = Some i \<longrightarrow> key_of s i = k) \<and>
      (\<forall>k. load_under_way k (fg_history s) \<longleftrightarrow> (\<exists>i. fg_group s k = Some i \<and> at_loader (phase_of s i))) \<and>
      (\<forall>i. caller_ok ttl s i))"


lemma rests_on_mono: "rests_on ttl h c r \<Longrightarrow> set h \<subseteq> set h' \<Longrightarrow> rests_on ttl h' c r"
  unfolding rests_on_def by (cases r) (simp_all; blast)+

lemma rests_on_caller: "ca_key c' = ca_key c \<Longrightarrow> ca_began c' = ca_began c \<Longrightarrow> rests_on ttl h c' r = rests_on ttl h c r"
  by (cases r) (simp_all add: rests_on_def)

lemma stores_of_mem: "(k, v, u) \<in> set (stores_of h) \<longleftrightarrow> Stored k v u \<in> set h"
  by (induction h rule: stores_of.induct) auto

lemma stored_last: "map_of (stores_of h) k = Some (v, u) \<Longrightarrow> Stored k v u \<in> set h"
  using stores_of_mem map_of_SomeD by fast

text \<open>Events of one key do not matter to another.\<close>

fun event_key :: "'v cache_event \<Rightarrow> string" where
  "event_key (LoadBegins k t) = k"
| "event_key (LoadFails k e t) = k"
| "event_key (Stored k v t) = k"

lemma load_under_way_other: "event_key e \<noteq> key \<Longrightarrow> load_under_way key (e # h) = load_under_way key h"
  by (cases e) simp_all

lemma may_load_other: "event_key e \<noteq> key \<Longrightarrow> may_load ttl key t (e # h) = may_load ttl key t h"
  by (cases e) (simp_all add: may_load_def)

text \<open>A step of one call leaves what is known of the others.\<close>

lemma caller_ok_other:
  assumes ok: "caller_ok ttl s j" and "j \<noteq> i"
    and same: "\<And>m. m \<noteq> i \<Longrightarrow> fg_callers s' m = fg_callers s m"
    and now: "fg_now s \<le> fg_now s'" and hist: "set (fg_history s) \<subseteq> set (fg_history s')"
    and group: "fg_group s' (key_of s j) = Some j \<longleftrightarrow> fg_group s (key_of s j) = Some j"
    and may: "phase_of s j = Missed True \<Longrightarrow> may_load ttl (key_of s j) (fg_now s) (fg_history s) \<Longrightarrow>
      may_load ttl (key_of s j) (fg_now s') (fg_history s')"
    and kept: "phase_of s i \<noteq> Idle \<Longrightarrow> key_of s' i = key_of s i" "\<And>r. phase_of s i \<noteq> Returned r"
    and leads: "in_flight (phase_of s i) \<Longrightarrow>
      in_flight (phase_of s' i) \<or> (\<exists>r. phase_of s' i = Returned r \<and> ca_last (fg_callers s' i) = fg_now s' \<and>
        rests_on ttl (fg_history s') (fg_callers s' i) r)"
  shows "caller_ok ttl s' j"
proof -
  note j = same [OF assms(2)]
  have times: "ca_began (fg_callers s j) \<le> ca_last (fg_callers s j)" "ca_last (fg_callers s j) \<le> fg_now s"
      "in_flight (phase_of s j) \<longleftrightarrow> fg_group s (key_of s j) = Some j"
    using ok by (simp_all add: caller_ok_def)
  have waits: "key_of s' m = key_of s j \<and> (in_flight (phase_of s' m) \<or>
      (\<exists>r. phase_of s' m = Returned r \<and> ca_began (fg_callers s j) \<le> ca_last (fg_callers s' m) \<and>
         rests_on ttl (fg_history s') (fg_callers s' m) r))"
    if "phase_of s j = Waiting m" for m
  proof -
    have m: "key_of s m = key_of s j" "in_flight (phase_of s m) \<or>
      (\<exists>r. phase_of s m = Returned r \<and> ca_began (fg_callers s j) \<le> ca_last (fg_callers s m) \<and>
         rests_on ttl (fg_history s) (fg_callers s m) r)"
      using ok that by (simp_all add: caller_ok_def)
    show ?thesis
    proof (cases "m = i")
      case True
      then have "in_flight (phase_of s i)"
        using m(2) kept(2) by auto
      moreover have "phase_of s i \<noteq> Idle"
        using calculation by auto
      ultimately show ?thesis
        using leads kept(1) m(1) times(1,2) now True by (metis order_trans)
    qed (use m same rests_on_mono [OF _ hist] in auto)
  qed
  have returns: "\<exists>m. key_of s' m = key_of s j \<and> rests_on ttl (fg_history s') (fg_callers s' m) r \<and>
      (m = j \<or> phase_of s' m = Returned r \<and> ca_began (fg_callers s j) \<le> ca_last (fg_callers s' m))"
    if "phase_of s j = Returned r" for r
  proof -
    have "standing ttl s j (Returned r)"
      using ok that by (metis caller_ok_def)
    then obtain m where m: "key_of s m = key_of s j" "rests_on ttl (fg_history s) (fg_callers s m) r"
        "m = j \<or> phase_of s m = Returned r \<and> ca_began (fg_callers s j) \<le> ca_last (fg_callers s m)"
      unfolding standing.simps by blast
    then have "m \<noteq> i"
      using kept(2) assms(2) by blast
    then show ?thesis
      using m rests_on_mono [OF m(2) hist] same by (intro exI [of _ m]) simp
  qed
  have "standing ttl s' j (phase_of s j)"
  proof (cases "phase_of s j")
    case (Missed flying)
    then show ?thesis
      using ok may j by (cases flying) (simp_all add: caller_ok_def)
  next
    case (Landing r)
    then show ?thesis
      using ok rests_on_mono [OF _ hist] j by (simp add: caller_ok_def)
  qed (use waits returns j in simp_all)
  then show ?thesis
    using times now group j by (simp add: caller_ok_def)
qed

lemma flights_invD:
  assumes "flights_inv ttl s"
  shows "agrees ttl (fg_cache s, stores_of (fg_history s), fg_now s)" and "loads_spaced ttl (fg_history s)"
    and "fg_group s k = Some i \<Longrightarrow> key_of s i = k"
    and "load_under_way k (fg_history s) \<longleftrightarrow> (\<exists>i. fg_group s k = Some i \<and> at_loader (phase_of s i))"
    and "caller_ok ttl s i"
    and "in_flight (phase_of s i) \<longleftrightarrow> fg_group s (key_of s i) = Some i"
    and "standing ttl s i (phase_of s i)"
    and "ca_began (fg_callers s i) \<le> ca_last (fg_callers s i)" and "ca_last (fg_callers s i) \<le> fg_now s"
  using assms by (auto simp: flights_inv_def caller_ok_def)

lemma leaders_differ: "flights_inv ttl s \<Longrightarrow> in_flight (phase_of s i) \<Longrightarrow> in_flight (phase_of s j) \<Longrightarrow> j \<noteq> i \<Longrightarrow> key_of s j \<noteq> key_of s i"
  by (metis flights_invD(6) option.inject)

lemma at_loader_in_flight: "at_loader p \<Longrightarrow> in_flight p"
  by (cases p) simp_all

text \<open>The invariant after a step of one call, from what the step does to this call.\<close>

lemma flights_invI:
  assumes inv: "flights_inv ttl s"
    and same: "\<And>m. m \<noteq> i \<Longrightarrow> fg_callers s' m = fg_callers s m"
    and now: "fg_now s \<le> fg_now s'"
    and kept: "phase_of s i \<noteq> Idle \<Longrightarrow> key_of s' i = key_of s i" "\<And>r. phase_of s i \<noteq> Returned r"
    and leads: "in_flight (phase_of s i) \<Longrightarrow>
      in_flight (phase_of s' i) \<or> (\<exists>r. phase_of s' i = Returned r \<and> ca_last (fg_callers s' i) = fg_now s' \<and>
        rests_on ttl (fg_history s') (fg_callers s' i) r)"
    and cache: "agrees ttl (fg_cache s', stores_of (fg_history s'), fg_now s')"
    and events: "fg_history s' = fg_history s \<or>
      in_flight (phase_of s i) \<and> (\<exists>e. event_key e = key_of s i \<and> fg_history s' = e # fg_history s)"
    and spaced: "loads_spaced ttl (fg_history s')"
    and under_way: "in_flight (phase_of s i) \<or> in_flight (phase_of s' i) \<Longrightarrow>
      load_under_way (key_of s' i) (fg_history s') = at_loader (phase_of s' i)"
    and group: "fg_group s' = (if in_flight (phase_of s' i) then (fg_group s)(key_of s' i \<mapsto> i)
      else if in_flight (phase_of s i) then (fg_group s)(key_of s i := None) else fg_group s)"
    and free: "in_flight (phase_of s' i) \<Longrightarrow> \<not> in_flight (phase_of s i) \<Longrightarrow> fg_group s (key_of s' i) = None"
    and ok: "ca_began (fg_callers s' i) \<le> ca_last (fg_callers s' i)" "ca_last (fg_callers s' i) \<le> fg_now s'"
      "standing ttl s' i (phase_of s' i)"
  shows "flights_inv ttl s'"
proof -
  note old = flights_invD [OF inv]
  have key: "key_of s' i = key_of s i" if "in_flight (phase_of s i)"
    using kept(1) that by (cases "phase_of s i") simp_all
  have group_leads: "fg_group s' = (fg_group s)(key_of s' i \<mapsto> i)" if "in_flight (phase_of s' i)"
    using group that by simp
  have group_ends: "fg_group s' = (fg_group s)(key_of s i := None)" if "in_flight (phase_of s i)" "\<not> in_flight (phase_of s' i)"
    using group that by simp
  have group_same: "fg_group s' = fg_group s" if "\<not> in_flight (phase_of s i)" "\<not> in_flight (phase_of s' i)"
    using group that by simp
  have own: "in_flight (phase_of s' i) \<longleftrightarrow> fg_group s' (key_of s' i) = Some i"
  proof (cases "in_flight (phase_of s' i)")
    case False
    have "fg_group s' (key_of s' i) \<noteq> Some i"
    proof (cases "in_flight (phase_of s i)")
      case True
      then show ?thesis
        unfolding group_ends [OF True False] key [OF True] by simp
    next
      case not: False
      then have "fg_group s (key_of s' i) \<noteq> Some i"
        using old(3) [of "key_of s' i" i] old(6) [of i] by metis
      then show ?thesis
        unfolding group_same [OF not False] .
    qed
    then show ?thesis
      using False by blast
  qed (simp add: group_leads)
  have elsewhere: "fg_group s' k = Some j \<longleftrightarrow> fg_group s k = Some j" if "j \<noteq> i" for j k
  proof (cases "in_flight (phase_of s' i)")
    case True
    have "fg_group s (key_of s' i) \<noteq> Some j"
    proof (cases "in_flight (phase_of s i)")
      case before: True
      then have "fg_group s (key_of s i) = Some i"
        using old(6) by blast
      then show ?thesis
        unfolding key [OF before] using that by simp
    qed (simp add: free True)
    then show ?thesis
      using that by (auto simp: group_leads [OF True])
  next
    case False
    then show ?thesis
      using group_ends group_same old(6) [of i] that by (cases "in_flight (phase_of s i)") auto
  qed
  have spread: "load_under_way k (fg_history s') = load_under_way k (fg_history s)"
    if "in_flight (phase_of s i) \<Longrightarrow> k \<noteq> key_of s i" for k
    using events that load_under_way_other by metis
  have groups: "key_of s' m = k" if "fg_group s' k = Some m" for k m
  proof (cases "m = i")
    case True
    then have "fg_group s k = Some i \<or> k = key_of s' i"
      using that group_leads group_ends group_same by (metis fun_upd_apply option.distinct(1))
    then show ?thesis
      using that own old(3) [of k i] old(6) [of i] True key group_ends group_same
      by (metis fun_upd_same option.distinct(1))
  next
    case False
    then show ?thesis
      using that elsewhere old(3) same by metis
  qed
  have loads: "load_under_way k (fg_history s') \<longleftrightarrow> (\<exists>m. fg_group s' k = Some m \<and> at_loader (phase_of s' m))" for k
  proof (cases "k = key_of s' i \<and> (in_flight (phase_of s i) \<or> in_flight (phase_of s' i))")
    case True
    have "fg_group s' k = (if in_flight (phase_of s' i) then Some i else None)"
      using True own group_ends key by (cases "in_flight (phase_of s' i)") auto
    then have "at_loader (phase_of s' i) \<longleftrightarrow> (\<exists>m. fg_group s' k = Some m \<and> at_loader (phase_of s' m))"
      using at_loader_in_flight [of "phase_of s' i"] by auto
    then show ?thesis
      using True under_way by simp
  next
    case False
    have none: "fg_group s k \<noteq> Some i" "fg_group s' k \<noteq> Some i"
      using False key old(3) [of k i] old(6) [of i] own groups [of k i] by metis+
    have "fg_group s' k = Some m \<longleftrightarrow> fg_group s k = Some m" for m
      using elsewhere none by (cases "m = i") simp_all
    then have "fg_group s' k = fg_group s k"
      by (metis option.exhaust)
    moreover note none
    moreover have "load_under_way k (fg_history s') = load_under_way k (fg_history s)"
      using False key by (intro spread) auto
    ultimately show ?thesis
      using old(4) same by metis
  qed
  have "caller_ok ttl s' j" for j
  proof (cases "j = i")
    case True
    then show ?thesis
      using ok own by (simp add: caller_ok_def)
  next
    case False
    show ?thesis
    proof (rule caller_ok_other [OF old(5) False same now _ elsewhere [OF False] _ kept leads])
      show "set (fg_history s) \<subseteq> set (fg_history s')"
        using events by auto
      assume j: "phase_of s j = Missed True" and may: "may_load ttl (key_of s j) (fg_now s) (fg_history s)"
      have "may_load ttl (key_of s j) (fg_now s) (fg_history s')"
        using events may leaders_differ [OF inv, of i j] j False may_load_other by (metis in_flight.simps(3))
      then show "may_load ttl (key_of s j) (fg_now s') (fg_history s')"
        using now by (rule may_load_later)
    qed
  qed
  then show ?thesis
    using cache spaced groups loads unfolding flights_inv_def by blast
qed


text \<open>A lookup that finds nothing finds no store that could still count.\<close>

lemma missed_may_load:
  assumes inv: "flights_inv ttl s" and "in_flight (phase_of s i)" and "\<not> at_loader (phase_of s i)" and "fg_now s \<le> now"
    and none: "\<And>v u. map_of (stores_of (fg_history s)) (key_of s i) = Some (v, u) \<Longrightarrow> u + ttl < now"
  shows "may_load ttl (key_of s i) now (fg_history s)"
proof -
  have "fg_group s (key_of s i) = Some i"
    using flights_invD(6) [OF inv] assms(2) by blast
  then have "\<not> load_under_way (key_of s i) (fg_history s)"
    using flights_invD(4) [OF inv] assms(3) by auto
  then show ?thesis
    using none by (auto simp: may_load_def split: option.split)
qed

lemma missing_store:
  assumes "agrees ttl (c, L, T)" and "read_section t k c = Missing" and "map_of L k = Some (v, u)" and "T \<le> now"
  shows "u + ttl < now"
proof -
  have "map_of (tc_entries c) k = None"
    using assms(2) by (auto simp: read_section_def split: option.splits if_splits)
  then have "\<not> T \<le> u + ttl"
    using assms(1,3) by (auto simp: agrees_def)
  then show ?thesis
    using assms(4) by linarith
qed

lemma fresh_store:
  assumes "agrees ttl (c, L, T)" and "read_section t k c = Fresh v"
  shows "\<exists>u. map_of L k = Some (v, u) \<and> t \<le> u + ttl"
  using assms by (fastforce simp: agrees_def read_section_def split: option.splits if_splits)

lemma looked_standing:
  assumes inv: "flights_inv ttl s" and phase: "phase_of s i = Looking flying" and now: "fg_now s \<le> now"
    and t: "ca_last (fg_callers s i) \<le> t"
    and s': "s' = move_call i (look_phase flying (read_section t (key_of s i) (fg_cache s))) now s"
  shows "standing ttl s' i (phase_of s' i)"
proof (cases "read_section t (key_of s i) (fg_cache s)")
  case Missing
  have "may_load ttl (key_of s i) now (fg_history s)" if flying
    by (rule missed_may_load [OF inv _ _ now])
      (use phase that missing_store [OF flights_invD(1) [OF inv] Missing _ now] in simp_all)
  then show ?thesis
    by (cases flying) (simp_all add: s' Missing look_phase_def move_call_def)
next
  case (Fresh v)
  have "ca_began (fg_callers s i) \<le> t"
    using flights_invD(8) [OF inv, of i] t by linarith
  then have "rests_on ttl (fg_history s) (fg_callers s i) (Inr v)"
    using fresh_store [OF flights_invD(1) [OF inv] Fresh] stored_last by (fastforce simp: rests_on_def)
  then have "rests_on ttl (fg_history s) (fg_callers s' i) (Inr v)"
    by (simp add: s' move_call_def rests_on_def)
  then show ?thesis
    by (cases flying) (auto simp: s' Fresh look_phase_def hit_phase_def move_call_def)
next
  case Expired
  then show ?thesis
    by (simp add: s' look_phase_def move_call_def)
qed

lemma rechecked_standing:
  assumes inv: "flights_inv ttl s" and phase: "phase_of s i = Rechecking flying" and now: "fg_now s \<le> now"
    and x: "expire_section now (key_of s i) (fg_cache s) = (x, c)"
    and s': "s' = (move_call i (recheck_phase flying x) now s)\<lparr>fg_cache := c\<rparr>"
  shows "standing ttl s' i (phase_of s' i)"
proof -
  note read = agrees_expire_read [OF flights_invD(1) [OF inv] now, of "key_of s i", unfolded x fst_conv]
  show ?thesis
  proof (cases x)
    case None
    have "may_load ttl (key_of s i) now (fg_history s)" if flying
      by (rule missed_may_load [OF inv _ _ now]) (use phase that read None in \<open>simp_all add: not_le [symmetric]\<close>)
    then show ?thesis
      by (cases flying) (simp_all add: s' None recheck_phase_def move_call_def)
  next
    case (Some v)
    have "ca_began (fg_callers s i) \<le> now"
      using flights_invD(8,9) [OF inv, of i] now by linarith
    then have "rests_on ttl (fg_history s) (fg_callers s i) (Inr v)"
      using read [of v] Some stored_last by (fastforce simp: rests_on_def)
    then have "rests_on ttl (fg_history s) (fg_callers s' i) (Inr v)"
      by (simp add: s' move_call_def rests_on_def)
    then show ?thesis
      by (cases flying) (auto simp: s' Some recheck_phase_def hit_phase_def move_call_def)
  qed
qed

lemma in_flight_looked [simp]:
  "in_flight (look_phase True x)" "in_flight (recheck_phase True y)" "\<not> in_flight (look_phase False x)" "\<not> in_flight (recheck_phase False y)"
  "\<not> at_loader (look_phase flying x)" "\<not> at_loader (recheck_phase flying y)"
  by (cases x; cases y; simp add: look_phase_def recheck_phase_def hit_phase_def)+

lemma flight_step_inv:
  assumes "flight_step s s'" and inv: "flights_inv ttl s" and positive: "0 \<le> ttl"
  shows "flights_inv ttl s'"
proof -
  note old = flights_invD [OF inv]
  have later: "agrees ttl (fg_cache s, stores_of (fg_history s), now)" if "fg_now s \<le> now" for now
    by (rule agrees_later [OF old(1) that])
  have under_way: "load_under_way (key_of s i) (fg_history s) = at_loader (phase_of s i)" if "in_flight (phase_of s i)" for i
    using old(4,6) that by auto
  have held: "(fg_group s)(key_of s i \<mapsto> i) = fg_group s" if "in_flight (phase_of s i)" for i
    using old(6) that by (simp add: fun_upd_idem)
  have began: "ca_began (fg_callers s i) \<le> fg_now s" for i
    using old(8,9) [of i] by linarith
  from assms(1) show ?thesis
  proof (cases rule: flight_step.cases)
    case (call i now key)
    show ?thesis
      by (rule flights_invI [OF inv, of i]) (use call later old(2) in simp_all)
  next
    case (look i flying now t)
    have "standing ttl s' i (phase_of s' i)"
      by (rule looked_standing [OF inv look(2,3,4,1)])
    then show ?thesis
      by (intro flights_invI [OF inv, of i])
        (use look later old(2) held [of i] under_way [of i] began [of i] in \<open>cases flying; simp add: move_call_def\<close>)+
  next
    case (recheck i flying now x c)
    have "standing ttl s' i (phase_of s' i)"
      by (rule rechecked_standing [OF inv recheck(2,3,4,1)])
    moreover have "agrees ttl (c, stores_of (fg_history s), now)"
      using agrees_expire [OF old(1) recheck(3), of "key_of s i"] recheck(4) by simp
    ultimately show ?thesis
      by (intro flights_invI [OF inv, of i])
        (use recheck old(2) held [of i] under_way [of i] began [of i] in \<open>cases flying; simp add: move_call_def\<close>)+
  next
    case (lead i now)
    have "\<not> load_under_way (key_of s i) (fg_history s)"
      using old(4) lead(4) by simp
    then show ?thesis
      by (intro flights_invI [OF inv, of i]) (use lead later old(2) began [of i] in \<open>simp_all add: move_call_def\<close>)
  next
    case (join i now j)
    have "in_flight (phase_of s j)" "key_of s j = key_of s i" "j \<noteq> i"
      using old(3) [OF join(4)] old(6) [of j] join(2,4) by auto
    then show ?thesis
      by (intro flights_invI [OF inv, of i]) (use join later old(2) began [of i] in \<open>simp_all add: move_call_def\<close>)
  next
    case (load i now)
    have "may_load ttl (key_of s i) now (fg_history s)"
      using old(7) [of i] load(2) by (intro may_load_later [OF _ load(3)]) simp
    then show ?thesis
      by (intro flights_invI [OF inv, of i])
        (use load later old(2) held [of i] began [of i] in \<open>simp_all add: move_call_def\<close>)
  next
    case (loaded i now v)
    then show ?thesis
      by (intro flights_invI [OF inv, of i])
        (use later old(2) held [of i] under_way [of i] began [of i] in \<open>simp_all add: move_call_def\<close>)
  next
    case (load_fails i now e)
    have "rests_on ttl (fg_history s') (fg_callers s' i) (Inl e)"
      using began [of i] load_fails(3) by (auto simp: load_fails(1) move_call_def rests_on_def)
    then show ?thesis
      by (intro flights_invI [OF inv, of i])
        (use load_fails later old(2) held [of i] began [of i] in \<open>simp_all add: move_call_def\<close>)
  next
    case (store i v now)
    have "rests_on ttl (fg_history s') (fg_callers s' i) (Inr v)"
      using began [of i] store(3) positive by (fastforce simp: store(1) move_call_def rests_on_def)
    then show ?thesis
      by (intro flights_invI [OF inv, of i])
        (use store agrees_store [OF old(1) store(3)] old(2) held [of i] began [of i] in \<open>simp_all add: move_call_def\<close>)
  next
    case (land i r now)
    have "rests_on ttl (fg_history s') (fg_callers s' i) r"
      using old(7) [of i] land(2) rests_on_caller [of "fg_callers s' i" "fg_callers s i"] by (simp add: land(1) move_call_def)
    then show ?thesis
      by (intro flights_invI [OF inv, of i])
        (use land later old(2) began [of i] under_way [of i] in \<open>auto simp: move_call_def\<close>)
  next
    case (receive i j now r)
    have j: "key_of s j = key_of s i" "ca_began (fg_callers s i) \<le> ca_last (fg_callers s j)"
        "rests_on ttl (fg_history s) (fg_callers s j) r"
      using old(7) [of i] receive(2,4) by auto
    have "j \<noteq> i"
      using receive(2,4) by auto
    then have "standing ttl s' i (phase_of s' i)"
      using j receive(4) by (auto simp: receive(1) move_call_def)
    then show ?thesis
      by (intro flights_invI [OF inv, of i]) (use receive later old(2) began [of i] in \<open>simp_all add: move_call_def\<close>)
  qed
qed


lemma flights_reachable_inv:
  assumes "flight_step\<^sup>*\<^sup>* (flights_start ttl start) s" and "0 \<le> ttl"
  shows "flights_inv ttl s"
  using assms(1)
proof (induction rule: rtranclp_induct)
  case base
  show ?case
    by (simp add: flights_inv_def flights_start_def caller_ok_def agrees_def newTTLCache_def)
next
  case (step s s')
  then show ?case
    using flight_step_inv assms(2) by blast
qed

section \<open>A caller who is alone\<close>

text \<open>
  The call of \<open>Uptime_Cache\<close>, from lookup to result in one piece, is a run of these steps when no flight of its key is under way.
\<close>

definition runs_alone :: "nat \<Rightarrow> 'v flights \<Rightarrow> 'v flights \<Rightarrow> bool" where
  "runs_alone i s s' =
     (flight_step\<^sup>*\<^sup>* s s' \<and> key_of s' i = key_of s i \<and> fg_group s' = fg_group s \<and>
      (\<forall>j. j \<noteq> i \<longrightarrow> fg_callers s' j = fg_callers s j))"

lemma get_alone:
  assumes g: "ttl_get clock (key_of s i) (fg_cache s) n = (x, c, n')" and phase: "phase_of s i = Looking flying"
    and now: "fg_now s \<le> clock n" "ca_last (fg_callers s i) \<le> clock n" and clock: "ticking clock"
  shows "\<exists>s'. runs_alone i s s' \<and> phase_of s' i = recheck_phase flying x \<and> fg_cache s' = c \<and> n \<le> n' \<and>
    fg_now s' \<le> clock n' \<and> ca_last (fg_callers s' i) \<le> clock n'"
proof -
  let ?s = "move_call i (look_phase flying (read_section (clock n) (key_of s i) (fg_cache s))) (clock n) s"
  have step: "flight_step s ?s"
    by (rule flight_step.look [OF phase now(1,2) order_refl])
  have le: "clock n \<le> clock (n + 1)" "clock (n + 1) \<le> clock (n + 2)"
    using ticking_le [OF clock] by simp_all
  show ?thesis
  proof (cases "read_section (clock n) (key_of s i) (fg_cache s)")
    case Missing
    then show ?thesis
      using g step le by (intro exI [of _ ?s]) (auto simp: runs_alone_def ttl_get_def move_call_def look_phase_def recheck_phase_def)
  next
    case (Fresh v)
    then show ?thesis
      using g step le by (intro exI [of _ ?s]) (auto simp: runs_alone_def ttl_get_def move_call_def look_phase_def recheck_phase_def)
  next
    case Expired
    have x: "expire_section (clock (n + 1)) (key_of s i) (fg_cache s) = (x, c)" "n' = n + 2"
      using g Expired by (auto simp: ttl_get_def split: prod.splits)
    let ?s2 = "(move_call i (recheck_phase flying x) (clock (n + 1)) ?s)\<lparr>fg_cache := c\<rparr>"
    have "flight_step ?s ?s2"
      by (rule flight_step.recheck) (use Expired x le in \<open>simp_all add: move_call_def look_phase_def\<close>)
    with step have "flight_step\<^sup>*\<^sup>* s ?s2"
      by (meson converse_rtranclp_into_rtranclp r_into_rtranclp)
    then show ?thesis
      using x le by (intro exI [of _ ?s2]) (auto simp: runs_alone_def move_call_def)
  qed
qed


lemma runs_alone_trans: "runs_alone i s s' \<Longrightarrow> runs_alone i s' s'' \<Longrightarrow> runs_alone i s s''"
  by (auto simp: runs_alone_def)

lemma load_alone:
  assumes l: "(case loader n of
           (Inl e, n) \<Rightarrow> (Inl e, fg_cache s, n)
         | (Inr v, n) \<Rightarrow> (case ttl_set clock (key_of s i) v (fg_cache s) n of (c, n) \<Rightarrow> (Inr v, c, n))) = (r, c, n')"
    and phase: "phase_of s i = Missed True" and now: "fg_now s \<le> clock n" and clock: "ticking clock" and f: "forward loader"
  shows "\<exists>s'. runs_alone i s s' \<and> phase_of s' i = Landing r \<and> fg_cache s' = c \<and> fg_now s' \<le> clock n'"
proof -
  obtain x m where x: "loader n = (x, m)" by fastforce
  have m: "clock n \<le> clock m" "clock m \<le> clock (m + 1)"
    using ticking_le [OF clock] f x by (simp_all add: forward_def) (metis snd_conv)
  let ?s1 = "(move_call i Loading (clock n) s)\<lparr>fg_history := LoadBegins (key_of s i) (clock n) # fg_history s\<rparr>"
  have 1: "flight_step s ?s1"
    by (rule flight_step.load [OF phase now])
  show ?thesis
  proof (cases x)
    case (Inl e)
    let ?s2 = "(move_call i (Landing (Inl e)) (clock m) ?s1)\<lparr>fg_history := LoadFails (key_of ?s1 i) e (clock m) # fg_history ?s1\<rparr>"
    have "flight_step ?s1 ?s2"
      by (rule flight_step.load_fails) (use m in \<open>simp_all add: move_call_def\<close>)
    with 1 have "flight_step\<^sup>*\<^sup>* s ?s2"
      by (meson converse_rtranclp_into_rtranclp r_into_rtranclp)
    then show ?thesis
      using l x Inl by (intro exI [of _ ?s2]) (auto simp: runs_alone_def move_call_def)
  next
    case (Inr v)
    let ?s2 = "move_call i (Storing v) (clock m) ?s1"
    let ?s3 = "(move_call i (Landing (Inr v)) (clock m) ?s2)\<lparr>fg_cache := set_section (clock m) (key_of ?s2 i) v (fg_cache ?s2),
      fg_history := Stored (key_of ?s2 i) v (clock m) # fg_history ?s2\<rparr>"
    have "flight_step ?s1 ?s2"
      by (rule flight_step.loaded) (use m in \<open>simp_all add: move_call_def\<close>)
    moreover have "flight_step ?s2 ?s3"
      by (rule flight_step.store) (simp_all add: move_call_def)
    ultimately have "flight_step\<^sup>*\<^sup>* s ?s3"
      using 1 by (meson converse_rtranclp_into_rtranclp r_into_rtranclp)
    then show ?thesis
      using l x Inr m by (intro exI [of _ ?s3]) (auto simp: runs_alone_def move_call_def ttl_set_def)
  qed
qed

lemma flight_alone:
  assumes l: "ttl_load clock (key_of s i) loader (fg_cache s) n = (r, c, n')" and phase: "phase_of s i = Looking True"
    and now: "fg_now s \<le> clock n" "ca_last (fg_callers s i) \<le> clock n" and clock: "ticking clock" and f: "forward loader"
  shows "\<exists>s'. runs_alone i s s' \<and> phase_of s' i = Landing r \<and> fg_cache s' = c \<and> fg_now s' \<le> clock n'"
proof -
  obtain x c1 n1 where g: "ttl_get clock (key_of s i) (fg_cache s) n = (x, c1, n1)"
    by (metis prod_cases3)
  obtain s1 where 1: "runs_alone i s s1" "phase_of s1 i = recheck_phase True x" "fg_cache s1 = c1" "fg_now s1 \<le> clock n1"
    using get_alone [OF g phase now clock] by blast
  show ?thesis
  proof (cases x)
    case None
    have key: "key_of s1 i = key_of s i"
      using 1(1) by (simp add: runs_alone_def)
    have "(case loader n1 of
           (Inl e, n) \<Rightarrow> (Inl e, fg_cache s1, n)
         | (Inr v, n) \<Rightarrow> (case ttl_set clock (key_of s1 i) v (fg_cache s1) n of (c, n) \<Rightarrow> (Inr v, c, n))) = (r, c, n')"
      unfolding 1(3) key using l g None by (simp add: ttl_load_def)
    then have "\<exists>s'. runs_alone i s1 s' \<and> phase_of s' i = Landing r \<and> fg_cache s' = c \<and> fg_now s' \<le> clock n'"
      by (rule load_alone [OF _ _ 1(4) clock f]) (simp add: 1(2) None recheck_phase_def)
    then show ?thesis
      using runs_alone_trans [OF 1(1)] by blast
  next
    case (Some v)
    then show ?thesis
      using l g 1 by (intro exI [of _ s1]) (auto simp: ttl_load_def recheck_phase_def hit_phase_def)
  qed
qed

lemma call_alone:
  assumes call: "ttl_getOrLoadContext clock key loader (Some (fg_cache s)) n = (r, c, n')"
    and idle: "phase_of s i = Idle" and free: "fg_group s key = None" and now: "fg_now s \<le> clock n"
    and clock: "ticking clock" and f: "forward loader"
  shows "\<exists>s'. flight_step\<^sup>*\<^sup>* s s' \<and> phase_of s' i = Returned r \<and> Some (fg_cache s') = c"
proof -
  let ?s = "s\<lparr>fg_callers := (fg_callers s)(i := \<lparr>ca_key = key, ca_began = clock n, ca_phase = Looking False, ca_last = clock n\<rparr>),
      fg_now := clock n\<rparr>"
  have starts: "flight_step s ?s"
    by (rule flight_step.call [OF idle now])
  obtain x c1 n1 where g: "ttl_get clock key (fg_cache s) n = (x, c1, n1)"
    by (metis prod_cases3)
  obtain s1 where 1: "runs_alone i ?s s1" "phase_of s1 i = recheck_phase False x" "fg_cache s1 = c1" "n \<le> n1" "fg_now s1 \<le> clock n1"
      "ca_last (fg_callers s1 i) \<le> clock n1"
    using get_alone [of clock ?s i n x c1 n1 False, OF _ _ _ _ clock] g by auto
  have key: "key_of s1 i = key" "fg_group s1 = fg_group s"
    using 1(1) by (simp_all add: runs_alone_def)
  have steps: "flight_step\<^sup>*\<^sup>* s s1"
    using starts 1(1) unfolding runs_alone_def by (meson converse_rtranclp_into_rtranclp)
  show ?thesis
  proof (cases x)
    case (Some v)
    then show ?thesis
      using call g 1 steps by (intro exI [of _ s1]) (auto simp: ttl_getOrLoadContext_def recheck_phase_def hit_phase_def)
  next
    case None
    let ?s2 = "(move_call i (Looking True) (clock n1) s1)\<lparr>fg_group := (fg_group s1)(key_of s1 i \<mapsto> i)\<rparr>"
    have lead: "flight_step s1 ?s2"
      by (rule flight_step.lead [OF _ 1(5)]) (use 1(2) None key free in \<open>simp_all add: recheck_phase_def\<close>)
    obtain c2 where l: "ttl_load clock key loader c1 n1 = (r, c2, n')" "c = Some c2"
      using call g None by (auto simp: ttl_getOrLoadContext_def split: prod.splits)
    obtain s3 where 3: "runs_alone i ?s2 s3" "phase_of s3 i = Landing r" "fg_cache s3 = c2" "fg_now s3 \<le> clock n'"
      using flight_alone [of clock ?s2 i loader n1 r c2 n', OF _ _ _ _ clock f] l(1) 1(3) key(1) by (auto simp: move_call_def)
    let ?s4 = "(move_call i (Returned r) (clock n') s3)\<lparr>fg_group := (fg_group s3)(key_of s3 i := None)\<rparr>"
    have "flight_step s3 ?s4"
      by (rule flight_step.land [OF 3(2,4)])
    with steps lead 3(1) have "flight_step\<^sup>*\<^sup>* s ?s4"
      unfolding runs_alone_def by (meson rtranclp.rtrancl_into_rtrancl rtranclp_trans)
    then show ?thesis
      using 3(3) l(2) by (intro exI [of _ ?s4]) (simp add: move_call_def)
  qed
qed

section \<open>Properties\<close>

text \<open>
  C13: What concurrent callers of the cache in memory receive. Any number of calls, interleaved in any way, share the flights of
  their keys. A call that returned rests on the work of a call of the same key, which is itself or one
  that returned the same result after this call had begun. A value was stored under the key, and
  at some moment after that call began it was not older than the time to live; an error is one that a
  load of the key answered after that call began.
\<close>

theorem calls_share_fresh_results:
  assumes "flight_step\<^sup>*\<^sup>* (flights_start ttl start) s" and "0 \<le> ttl" and "ca_phase (fg_callers s i) = Returned r"
  shows "\<exists>j. ca_key (fg_callers s j) = ca_key (fg_callers s i) \<and>
    (j = i \<or> ca_phase (fg_callers s j) = Returned r \<and> ca_began (fg_callers s i) \<le> ca_last (fg_callers s j)) \<and>
    (case r of
       Inr v \<Rightarrow> \<exists>u seen. Stored (ca_key (fg_callers s i)) v u \<in> set (fg_history s) \<and>
         ca_began (fg_callers s j) \<le> seen \<and> seen \<le> u + ttl
     | Inl e \<Rightarrow> \<exists>t. LoadFails (ca_key (fg_callers s i)) e t \<in> set (fg_history s) \<and> ca_began (fg_callers s j) \<le> t)"
proof -
  obtain j where j: "key_of s j = key_of s i" "rests_on ttl (fg_history s) (fg_callers s j) r"
      "j = i \<or> phase_of s j = Returned r \<and> ca_began (fg_callers s i) \<le> ca_last (fg_callers s j)"
    using flights_invD(7) [OF flights_reachable_inv [OF assms(1,2)], of i] unfolding assms(3) standing.simps by blast
  show ?thesis
    using j by (intro exI [of _ j]) (cases r; simp add: rests_on_def)
qed

text \<open>
  C24: Concurrent misses of a key load once. No load of a key begins while another is under way, nor
  before the value that was stored last under the key is older than the time to live.
\<close>

theorem one_load_per_lifetime:
  assumes "flight_step\<^sup>*\<^sup>* (flights_start ttl start) s" and "0 \<le> ttl"
    and "fg_history s = later @ LoadBegins key t # earlier"
  shows "\<not> load_under_way key earlier \<and>
    (case map_of (stores_of earlier) key of None \<Rightarrow> True | Some (v, u) \<Rightarrow> u + ttl < t)"
  using loads_spaced_split [of ttl later key t earlier] flights_invD(2) [OF flights_reachable_inv [OF assms(1,2)]]
  by (simp add: assms(3) may_load_def)


section \<open>A run\<close>

text \<open>
  Two calls miss the same key; the second joins the flight of the first and receives its value. A third call comes when the
  value has expired, and loads again.
\<close>

definition ex_call :: "nat \<Rightarrow> gotime \<Rightarrow> char flights \<Rightarrow> char flights" where
  "ex_call i now s =
     s\<lparr>fg_callers := (fg_callers s)(i := \<lparr>ca_key = ''k'', ca_began = now, ca_phase = Looking False, ca_last = now\<rparr>), fg_now := now\<rparr>"

definition ex_lead :: "nat \<Rightarrow> gotime \<Rightarrow> char flights \<Rightarrow> char flights" where
  "ex_lead i now s = (move_call i (Looking True) now s)\<lparr>fg_group := (fg_group s)(''k'' \<mapsto> i)\<rparr>"

definition ex_load :: "nat \<Rightarrow> gotime \<Rightarrow> char flights \<Rightarrow> char flights" where
  "ex_load i now s = (move_call i Loading now s)\<lparr>fg_history := LoadBegins ''k'' now # fg_history s\<rparr>"

definition ex_store :: "nat \<Rightarrow> gotime \<Rightarrow> char flights \<Rightarrow> char flights" where
  "ex_store i now s =
     (move_call i (Landing (Inr CHR ''v'')) now (move_call i (Storing CHR ''v'') now s))
       \<lparr>fg_cache := set_section now ''k'' CHR ''v'' (fg_cache s), fg_history := Stored ''k'' CHR ''v'' now # fg_history s\<rparr>"

definition ex_land :: "nat \<Rightarrow> gotime \<Rightarrow> char flights \<Rightarrow> char flights" where
  "ex_land i now s = (move_call i (Returned (Inr CHR ''v'')) now s)\<lparr>fg_group := (fg_group s)(''k'' := None)\<rparr>"

lemmas ex_moves = ex_call_def ex_lead_def ex_load_def ex_store_def ex_land_def

definition ex_joined :: "char flights" where
  "ex_joined = move_call 1 (Waiting 0) 2 (ex_lead 0 2 (move_call 1 (Missed False) 1 (move_call 0 (Missed False) 1
     (ex_call 1 1 (ex_call 0 0 (flights_start 10 0))))))"

definition ex_shared :: "char flights" where
  "ex_shared = move_call 1 (Returned (Inr CHR ''v'')) 4 (ex_land 0 4 (ex_store 0 3 (ex_load 0 3 (move_call 0 (Missed True) 3 ex_joined))))"

lemma stepsI: "flight_step\<^sup>*\<^sup>* s s1 \<Longrightarrow> flight_step s1 s2 \<Longrightarrow> flight_step\<^sup>*\<^sup>* s s2"
  by (rule rtranclp.rtrancl_into_rtrancl)

lemma call_steps:
  assumes "flight_step\<^sup>*\<^sup>* s0 s"
  shows "phase_of s i = Idle \<Longrightarrow> fg_now s \<le> now \<Longrightarrow> flight_step\<^sup>*\<^sup>* s0 (ex_call i now s)"
    and "phase_of s i = Looking flying \<Longrightarrow> fg_now s \<le> now \<Longrightarrow> ca_last (fg_callers s i) \<le> now \<Longrightarrow>
      look_phase flying (read_section now (key_of s i) (fg_cache s)) = p \<Longrightarrow> flight_step\<^sup>*\<^sup>* s0 (move_call i p now s)"
    and "phase_of s i = Missed False \<Longrightarrow> fg_now s \<le> now \<Longrightarrow> key_of s i = ''k'' \<Longrightarrow> fg_group s ''k'' = None \<Longrightarrow>
      flight_step\<^sup>*\<^sup>* s0 (ex_lead i now s)"
    and "phase_of s i = Missed False \<Longrightarrow> fg_now s \<le> now \<Longrightarrow> fg_group s (key_of s i) = Some j \<Longrightarrow>
      flight_step\<^sup>*\<^sup>* s0 (move_call i (Waiting j) now s)"
    and "phase_of s i = Missed True \<Longrightarrow> fg_now s \<le> now \<Longrightarrow> key_of s i = ''k'' \<Longrightarrow> flight_step\<^sup>*\<^sup>* s0 (ex_load i now s)"
    and "phase_of s i = Landing (Inr CHR ''v'') \<Longrightarrow> fg_now s \<le> now \<Longrightarrow> key_of s i = ''k'' \<Longrightarrow> flight_step\<^sup>*\<^sup>* s0 (ex_land i now s)"
    and "phase_of s i = Waiting j \<Longrightarrow> fg_now s \<le> now \<Longrightarrow> phase_of s j = Returned r \<Longrightarrow>
      flight_step\<^sup>*\<^sup>* s0 (move_call i (Returned r) now s)"
  using assms flight_step.intros unfolding ex_moves by (metis stepsI order_refl)+

lemma store_steps:
  assumes "flight_step\<^sup>*\<^sup>* s0 s" and "phase_of s i = Loading" "fg_now s \<le> now" "key_of s i = ''k''"
  shows "flight_step\<^sup>*\<^sup>* s0 (ex_store i now s)"
proof -
  have "flight_step s (move_call i (Storing CHR ''v'') now s)"
    by (rule flight_step.loaded [OF assms(2,3)])
  moreover have "flight_step (move_call i (Storing CHR ''v'') now s) (ex_store i now s)"
    using flight_step.store [of "move_call i (Storing CHR ''v'') now s" i "CHR ''v''" now] assms(4)
    by (simp add: ex_store_def move_call_def)
  ultimately show ?thesis
    using assms(1) by (meson stepsI)
qed


lemmas ex_state = ex_moves move_call_def flights_start_def newTTLCache_def read_section_def look_phase_def hit_phase_def set_section_def

lemma ex_joined_reachable: "flight_step\<^sup>*\<^sup>* (flights_start 10 0) ex_joined"
  unfolding ex_joined_def
  by (rule call_steps(4), rule call_steps(3), rule call_steps(2) [where flying = False], rule call_steps(2) [where flying = False],
      rule call_steps(1), rule call_steps(1), rule rtranclp.rtrancl_refl) (simp_all add: ex_state)

lemma ex_shared_reachable: "flight_step\<^sup>*\<^sup>* (flights_start 10 0) ex_shared"
  unfolding ex_shared_def
  by (rule call_steps(7) [where j = 0], rule call_steps(6), rule store_steps, rule call_steps(5), rule call_steps(2) [where flying = True],
      rule ex_joined_reachable) (simp_all add: ex_joined_def ex_state)

theorem calls_share_fresh_results_witness:
  "phase_of ex_shared 1 = Returned (Inr CHR ''v'') \<and> phase_of ex_shared 0 = Returned (Inr CHR ''v'') \<and>
   (\<exists>u. Stored ''k'' CHR ''v'' u \<in> set (fg_history ex_shared))"
proof -
  have p: "phase_of ex_shared 1 = Returned (Inr CHR ''v'')" "phase_of ex_shared 0 = Returned (Inr CHR ''v'')" "key_of ex_shared 1 = ''k''"
    by (simp_all add: ex_shared_def ex_joined_def ex_state)
  from calls_share_fresh_results [OF ex_shared_reachable _ p(1)] p show ?thesis
    by auto
qed

text \<open>The third call: its first lookup finds the expired value, and its flight loads.\<close>

definition ex_late :: "char flights" where
  "ex_late = move_call 2 (Rechecking False) 20 (ex_call 2 20 ex_shared)"

definition ex_reloading :: "char flights" where
  "ex_reloading = ex_load 2 20 (move_call 2 (Missed True) 20 (ex_lead 2 20 ((move_call 2 (Missed False) 20 ex_late)\<lparr>fg_cache := newTTLCache 10\<rparr>)))"

lemma ex_shared_state:
  "fg_now ex_shared = 4" "phase_of ex_shared 2 = Idle" "fg_group ex_shared ''k'' = None"
  "fg_cache ex_shared = \<lparr>tc_ttl = 10, tc_entries = [(''k'', \<lparr>entry_value = CHR ''v'', entry_expiresAt = 13\<rparr>)]\<rparr>"
  "fg_history ex_shared = [Stored ''k'' CHR ''v'' 3, LoadBegins ''k'' 3]"
  by (simp_all add: ex_shared_def ex_joined_def ex_state)

lemma ex_reloading_reachable: "flight_step\<^sup>*\<^sup>* (flights_start 10 0) ex_reloading"
proof -
  have late: "flight_step\<^sup>*\<^sup>* (flights_start 10 0) ex_late"
    unfolding ex_late_def
    by (rule call_steps(2) [where flying = False], rule call_steps(1), rule ex_shared_reachable)
      (simp_all add: ex_call_def ex_shared_state read_section_def look_phase_def)
  have "flight_step ex_late ((move_call 2 (recheck_phase False None) 20 ex_late)\<lparr>fg_cache := newTTLCache 10\<rparr>)"
    by (rule flight_step.recheck) (simp_all add: ex_late_def ex_call_def move_call_def ex_shared_state expire_section_def newTTLCache_def)
  then have "flight_step\<^sup>*\<^sup>* (flights_start 10 0) ((move_call 2 (Missed False) 20 ex_late)\<lparr>fg_cache := newTTLCache 10\<rparr>)"
    using late by (simp add: recheck_phase_def)
  then show ?thesis
    unfolding ex_reloading_def
    by (rule call_steps(5) [OF call_steps(2) [where flying = True, OF call_steps(3)]])
      (simp_all add: ex_late_def ex_call_def ex_lead_def move_call_def ex_shared_state newTTLCache_def read_section_def look_phase_def)
qed

theorem one_load_per_lifetime_witness:
  "fg_history ex_reloading = LoadBegins ''k'' 20 # [Stored ''k'' CHR ''v'' 3, LoadBegins ''k'' 3] \<and> (3::gotime) + 10 < 20"
proof -
  have h: "fg_history ex_reloading = [] @ LoadBegins ''k'' 20 # [Stored ''k'' CHR ''v'' 3, LoadBegins ''k'' 3]"
    by (simp add: ex_reloading_def ex_late_def ex_call_def ex_lead_def ex_load_def move_call_def ex_shared_state)
  from one_load_per_lifetime [OF ex_reloading_reachable _ h] h show ?thesis
    by simp
qed

end
