(* ===== verification/Spec2Isabelle.thy ===== *)
theory Spec2Isabelle
  imports Pipeline_Days Cleanup_Lifecycle Cache_Flights
begin

text \<open>
  Eyrie, an uptime monitor: the development.

  The program. Checkers in several regions probe the configured monitors and send one message per
  check to the server (\<^verbatim>\<open>checker.go\<close>, \<^verbatim>\<open>server.go\<close>). The server puts the message on two
  queues. The processor (\<^verbatim>\<open>worker_processor.go\<close>) looks at the recent minutes of a monitor, decides
  whether it is healthy, degraded or down, keeps the state and the incident of the monitor in the
  database, and puts an alert on a third queue when the state changes. The ingester
  (\<^verbatim>\<open>worker_ingester.go\<close>) stores the checks and keeps one aggregate per monitor and day. The alerter
  (\<^verbatim>\<open>worker_alerter.go\<close>, \<^verbatim>\<open>alerter_*.go\<close>) hands the alerts to the configured targets. The cleanup
  (\<^verbatim>\<open>worker_cleanup.go\<close>) deletes what is older than the retention.

  The theories, in the order of their imports.

  \<^item> \<open>Prelude\<close>: lemmas on lists, options and maps that several theories use, and the development's
    collections of facts.
  \<^item> \<open>Go_Strings\<close>, \<open>Go_Time\<close>, \<open>Go_Duration\<close>, \<open>Go_Float\<close>, \<open>Go_Calendar\<close>, \<open>Go_Http\<close>: what the source
    uses of Go's standard library. Strings are lists of bytes, times are nanoseconds since the epoch,
    durations wrap around at 64 bits, float64 is a rational rounded to 53 bits, the calendar is Go's
    civil dates in UTC, and headers are kept under their canonical names.
  \<^item> \<open>Config_Monitor\<close>, \<open>Config_Server\<close>: \<^verbatim>\<open>config_monitor.go\<close>, \<^verbatim>\<open>config_server.go\<close>,
    \<^verbatim>\<open>config_checker.go\<close>; the records, the merge of a group into its monitors, validation, the
    credentials of a checker.
  \<^item> \<open>Failure_Reason\<close>: \<^verbatim>\<open>failure_reason.go\<close>.
  \<^item> \<open>Json\<close>: the part of \<^verbatim>\<open>encoding/json\<close> the source stores and reads back: strings, lists of
    strings, and maps from strings to strings, as bytes.
  \<^item> \<open>Incident\<close>: \<^verbatim>\<open>incident.go\<close>, the evaluation of a monitor and its columns.
  \<^item> \<open>Tables\<close>, \<open>Messages\<close>: \<^verbatim>\<open>monitor_historical.go\<close> and the tables of \<^verbatim>\<open>migrations/\<close> as lists of
    records; the statements of the source are functions on these lists, each of which may fail.
  \<^item> \<open>Processor_Eval\<close>: the functions of \<^verbatim>\<open>worker_processor.go\<close> from rows to an evaluation.
  \<^item> \<open>Processor_Worker\<close>: the handler of one message, with every statement that may fail. Detecting a
    change of state is a locale, interpreted on the table of states.
  \<^item> \<open>Alert_Format\<close>, \<open>Ntfy_Buffered\<close>, \<open>Alerter_Worker\<close>: the texts and requests of the alerts, the
    buffered ntfy target with its digest, and the worker over all targets. What the worker relies on
    of a target is a locale, interpreted on the program's targets.
  \<^item> \<open>Ingester\<close>, \<open>Cleanup\<close>: the two workers that own the history. The set of dirty days between the
    two halves of the ingester is a locale, interpreted on the worker's map.
  \<^item> \<open>Uptime_Cache\<close>, \<open>Uptime_Summaries\<close>: \<^verbatim>\<open>uptime_cache.go\<close>, \<^verbatim>\<open>uptime_cache_backend.go\<close>,
    \<^verbatim>\<open>uptime_aggregate_summaries.go\<close>; the interface of the two caches is a locale, which the server's
    pages rest on and which is interpreted on the cache in memory.
  \<^item> \<open>Cache_Flights\<close>: concurrent calls of the cache in memory, which share the flights of
    \<^verbatim>\<open>singleflight\<close>, as a step relation; the call of \<open>Uptime_Cache\<close> is its run of one caller alone.
  \<^item> \<open>Server_Data\<close>, \<open>Server_Handlers\<close>: \<^verbatim>\<open>server.go\<close>, first its queries, then its handlers.
  \<^item> \<open>Root_Handler\<close>: \<^verbatim>\<open>root_handler.go\<close>, \<^verbatim>\<open>spa_server.go\<close>; the page for command line clients and
    the static files.
  \<^item> \<open>Checker_Tracer\<close>, \<open>Checker_Probe\<close>, \<open>Checker_Probe_HTTP\<close>: \<^verbatim>\<open>checker_tracer.go\<close>,
    \<^verbatim>\<open>checker_probe*.go\<close>; the probes of every type and what they report.
  \<^item> \<open>Checker\<close>: \<^verbatim>\<open>checker.go\<close>; registering, one check, sending a submission, and the goroutines of the
    program as a step relation.
  \<^item> \<open>Database_Migration\<close>: \<^verbatim>\<open>database_migration.go\<close>, \<^verbatim>\<open>duckdb_error.go\<close>.
  \<^item> \<open>Program_Entry\<close>: \<^verbatim>\<open>main.go\<close> and \<^verbatim>\<open>NewServer\<close>; the start, the routes and the shutdown.
  \<^item> \<open>Cleanup_Lifecycle\<close>: \<open>Start\<close> and \<open>Stop\<close> of the cleanup worker with their goroutines and callers.
  \<^item> \<open>Pipeline\<close>, \<open>Pipeline_Days\<close>: the server as a whole, a step relation over one database, the three
    queues and the workers that \<^verbatim>\<open>main.go\<close> starts, with restarts: its database is one of a run of the
    processor, no submission and no alert is lost with queues that outlive the process, and no day of the
    aggregates is forgotten.

  This theory joins components: a checker that registers with the server, a submission that becomes
  a row, and an alert that shows on the page of incidents.

  What the code calls and src/ does not hold is a parameter: the digests of the webhook, the order
  in which Go visits a map, the answers of the network, of the HTTP client, of Redis and its codec,
  the PEM and X.509 functions and the file system, the YAML decoder and the environment, and which
  statements of the database fail. Of the queues and of \<^verbatim>\<open>singleflight\<close> the step relations have what they
  document: delivery at least once, the queues of the default configuration only until the process ends; one
  flight for a key, whose result all callers that wait for it receive. Of a transaction they have that it is seen when it
  commits. Every call returns: a probe that hangs, as the one of Redis may over TLS with a timeout of 0, is
  outside of the model. Calls are numbered where the answer may depend on the moment:
  the \<open>n\<close>th interaction with the clock, the network or the database has its own answer.

  Loops. All loops over lists are structural. The deletion in batches of the cleanup and the two loops
  over PEM blocks are partial functions; \<open>cleanup_returns\<close> shows that the first returns, and
  \<open>key_decryption_returns\<close> that the others do, for a decoder whose rest is shorter than its input.
  The fuel of \<open>pem_blocks\<close>, the reference for them, is the length of the text, which bounds the number
  of blocks. Sending a submission is bounded by its three attempts. The main loop of the checker and
  the interleaving of the goroutines, of the cleanup worker with its callers and of the workers of the server, are inductive step relations, of which properties hold in every
  reachable state.

  Approximations. \<^verbatim>\<open>strings.ToUpper\<close> and \<^verbatim>\<open>ToLower\<close> are exact on ASCII. Where \<^verbatim>\<open>ORDER BY\<close> leaves the order
  of equal rows open, the model keeps the order of the table. A check of the checker is one step, so
  that two checks that overlap in time are told apart only by their clocks. A step of the server is one
  handler; the statements of two handlers are interleaved only in \<open>Ingester\<close>, between its two goroutines.
  The pages are built with the cache's call of one caller; that another caller's load may answer it is in
  \<open>Cache_Flights\<close> only.

  Not modelled: logging, metrics, tracing, flags and signals, the tickers around the handlers (each
  handler, and each tick, is one operation here), the middlewares and time limits of the HTTP server,
  the redirects of its mux, and what SQL does inside a migration.
\<close>

section \<open>From a checker to the server\<close>

text \<open>
  A checker's upstream is this server: requests reach it with their headers, and JSON carries the
  bodies faithfully both ways.
\<close>

definition api_key :: "'b checker_post \<Rightarrow> string" where
  "api_key request = (case map_of (cp_Headers request) (canonical_header ''X-API-Key'') of Some k \<Rightarrow> k | None \<Rightarrow> [])"

definition register_answer :: "Server \<Rightarrow> CheckerRegistrationRequest checker_post \<Rightarrow> int \<times> MonitorConfig result" where
  "register_answer srv request =
     (case CheckerRegistration srv (api_key request) (Some (cp_Body request)) of
        Answer status monitorConfig \<Rightarrow> (status, Inr monitorConfig)
      | ErrorAnswer status e \<Rightarrow> (status, Inl e))"

definition connected :: "upstream \<Rightarrow> Server \<Rightarrow> string \<Rightarrow> bool" where
  "connected up srv upstreamURL =
     ((\<exists>url. up_JoinPath up upstreamURL ''/checker/register'' = Inr url \<and> up_NewRequest up url = None) \<and>
      (\<forall>n request. up_register up n request = Inr (register_answer srv request)))"

lemma api_key_headers: "api_key \<lparr>cp_URL = url, cp_Headers = checker_headers config, cp_Body = b\<rparr> = cc_ApiKey config"
  by (simp add: api_key_def checker_headers_def set_headers_def set_header_def update_conv)
    (code_simp | simp)+

text \<open>
  C18: A checker that registers with this server holds afterwards exactly its share of the monitors, the
  groups cut down to it, if the server knows its key, region and name; otherwise it keeps what it
  had and is told 401, which it retries. Each monitor it then checks is one that runs on it.
\<close>

theorem registration_delivers_its_share:
  assumes "connected up srv (cc_UpstreamURL (ck_config c))"
  defines "found \<equiv> FindRegisteredChecker (srv_serverConfig srv) (checker_config_EffectiveName (ck_config c))
      (cc_Region (ck_config c)) (cc_ApiKey (ck_config c))"
  shows "registerToUpstream up n c =
      (case found of
         None \<Rightarrow> (Some (RegistrationFailed 401), c)
       | Some checker \<Rightarrow> (None, c\<lparr>ck_monitors := ForChecker (srv_monitorConfig srv) (EffectiveName checker)\<rparr>)) \<and>
    (case found of None \<Rightarrow> True
     | Some checker \<Rightarrow> mc_Monitors (ck_monitors (snd (registerToUpstream up n c))) =
         filter (\<lambda>m. RunsOnChecker m (EffectiveName checker)) (mc_Monitors (srv_monitorConfig srv)))"
proof -
  obtain url where url: "up_JoinPath up (cc_UpstreamURL (ck_config c)) ''/checker/register'' = Inr url"
      "up_NewRequest up url = None"
    using assms(1) by (auto simp: connected_def)
  have "registerToUpstream up n c =
      (case found of
         None \<Rightarrow> (Some (RegistrationFailed 401), c)
       | Some checker \<Rightarrow> (None, c\<lparr>ck_monitors := ForChecker (srv_monitorConfig srv) (EffectiveName checker)\<rparr>))"
    using url assms(1)
    by (auto simp: registerToUpstream_def connected_def register_answer_def registration_request_def
        api_key_headers CheckerRegistration_def found_def split: option.split)
  then show ?thesis
    by (simp add: ForChecker_def Let_def split: option.split)
qed

section \<open>From a submission to a row\<close>

lemma ingest_message_calm:
  assumes "msg_body message = Some request"
  shows "ingest_message no_ingest_faults message w db =
    (Ack, enqueueAggregationTask (sub_MonitorID request) (sub_Timestamp request) w,
     db\<lparr>tbl_historical := insert_or_ignore historical_key (historical_row w request (message_region message))
          (tbl_historical db)\<rparr>)"
  using assms
  by (simp add: ingest_message_def ingestMonitorHistorical_def insert_historical_def no_ingest_faults_def attempt_def)

text \<open>
  C7: What a checker submits is stored under its own region. A submission is accepted only with the key
  of a registered checker; unless the send fails, the ingester's topic then gets one message, and
  the ingester, when its calls succeed, keeps all rows it has, holds a row for the monitor, the
  region of the checker that owns the key and the time of the check, and marks that day.
\<close>

theorem accepted_submission_is_stored:
  assumes "CheckerSubmission env srv marshal nackable apiKey body topics n = (Answer 200 (), topics', n')"
    and "en_fault env (n + 4) = None"
  shows "\<exists>checker request message. checker \<in> set (sc_RegisteredCheckers (srv_serverConfig srv)) \<and>
      checker_ApiKey checker = apiKey \<and> body = Some request \<and> tp_ingester topics' = tp_ingester topics @ [message] \<and>
      (\<forall>w db. case ingest_message no_ingest_faults message w db of (a, w', db') \<Rightarrow>
         a = Ack \<and> set (tbl_historical db) \<subseteq> set (tbl_historical db') \<and>
         (sub_MonitorID request, checker_Region checker, timestamptz (sub_Timestamp request)) \<in>
           historical_key ` set (tbl_historical db') \<and>
         map_of (iw_dirtyAggregationTasks w') (aggregationTaskKey (sub_MonitorID request) (sub_Timestamp request)) =
           Some (AggregationTask (sub_MonitorID request) (normalizeAggregationDate (sub_Timestamp request))))"
proof -
  obtain checker where c: "List.find (\<lambda>checker. checker_ApiKey checker = apiKey)
      (sc_RegisteredCheckers (srv_serverConfig srv)) = Some checker"
    using assms(1) by (auto simp: CheckerSubmission_def split: option.splits)
  obtain request where r: "body = Some request"
    using assms(1) c by (auto simp: CheckerSubmission_def Let_def split: option.splits)
  define message where "message = submission_message env (snd nackable) request (checker_Region checker)
      (sub_MonitorID request @ ''-'' @ int_str (en_clock env n)) (n + 3)"
  have m: "msg_body message = Some request" "message_region message = checker_Region checker"
    by (simp_all add: message_def submission_message_def message_region_def)
  have "marshal request = None"
    using assms(1) c r by (auto simp: CheckerSubmission_def Let_def split: if_splits)
  then have "tp_ingester topics' = tp_ingester topics @ [message]"
    using assms c r by (auto simp: CheckerSubmission_def send_def message_def Let_def)
  moreover have "historical_key (historical_row w request (checker_Region checker)) =
      (sub_MonitorID request, checker_Region checker, timestamptz (sub_Timestamp request))" for w
    by (simp add: historical_key_def historical_row_def Let_def)
  moreover have "normalizeAggregationDate (normalizeAggregationDate t) = normalizeAggregationDate t" for t
    by (simp add: normalizeAggregationDate_def utcDayStart_def)
  ultimately show ?thesis
    using find_Some_in [OF c] r
    by (intro exI [of _ checker] exI [of _ request] exI [of _ message])
      (auto simp: ingest_message_calm [OF m(1)] m(2) insert_or_ignore_keys enqueueAggregationTask_def update_conv
        aggregationTaskKey_def Let_def dest: subsetD [OF insert_or_ignore_keys(2)])
qed

section \<open>From an alert to the page of incidents\<close>

lemma active_incident_active:
  assumes "list_all (\<lambda>r. inc_Source (fst r) = IncidentSourceProgrammatic) (tbl_incidents db)"
  shows "active_incidents m db = [] \<Longrightarrow> active_incident m db = None"
    and "active_incidents m db = [i] \<Longrightarrow> active_incident m db = Some i"
proof -
  have "filter (\<lambda>i. inc_MonitorID i = m \<and> inc_ResolvedAt i = None) (map fst (tbl_incidents db)) = active_incidents m db"
    using assms unfolding active_incidents_def
    by (intro filter_cong) (auto simp: is_active_def list_all_iff)
  then show "active_incidents m db = [] \<Longrightarrow> active_incident m db = None"
    "active_incidents m db = [i] \<Longrightarrow> active_incident m db = Some i"
    by (simp_all add: active_incident_def)
qed

lemma stored_state:
  "Status (stored_evaluation m db) = state_Status (state_of m db)"
  "Scope (stored_evaluation m db) = state_Scope (state_of m db)"
  by (simp_all add: stored_evaluation_def state_of_def HealthyIncidentEvaluation_def split: option.split)

text \<open>
  C3: What an alert says is what the page of incidents shows. In any run of the processor: when a message
  makes it send an alert, and the page is then built from the database it left, without failures and
  with the same monitors, and the monitor has a raw row of the last day before the page is built (the page leaves out the
  monitors without one), then the page has an entry of the monitor with the status and the scope of the alert, and it
  shows the incident the alert names, or none when the monitor recovered.
\<close>

theorem incidents_page_shows_the_alert:
  assumes "processor_run monitors cfg db alerts"
    and "process_message monitors cfg penv db msg = (a, db', Some (alert, meta))"
    and "buildMonitorIncidentsResponse env srv n = (Inr page, n')"
    and "\<And>k. en_fault env k = None" and "\<And>k. en_db env k = db'" and "srv_monitorConfig srv = monitors"
    and "alert_MonitorID alert \<in> set (recent_monitors (add_days (en_clock env (n + 1)) (- 1)) db')"
  shows "\<exists>s \<in> set (mi_Incidents page). mis_MonitorID s = alert_MonitorID alert \<and>
     mis_Status s = alert_Status alert \<and> mis_Scope s = alert_Scope alert \<and>
     mis_IncidentID s = (if alert_Status alert = MonitorStatusHealthy then [] else alert_IncidentID alert)"
proof -
  let ?m = "alert_MonitorID alert"
  note page = incidents_page [OF assms(3)]
  have programmatic: "list_all (\<lambda>r. inc_Source (fst r) = IncidentSourceProgrammatic) (tbl_incidents db')"
    using process_message_programmatic [OF assms(2) processor_run_programmatic [OF assms(1)]] .
  note told = published_alert [OF assms(2) processor_run_inv [OF assms(1)]]
  have "findMonitor monitors ?m \<noteq> None"
    using assms(2) by (cases rule: process_published)
      (auto dest!: publishAlert_Inr simp: alert_message_def Let_def)
  moreover have "mset (map mis_MonitorID (mi_Incidents page)) =
      mset (filter (\<lambda>i. findMonitor monitors i \<noteq> None) (recent_monitors (add_days (en_clock env (n + 1)) (- 1)) db'))"
    using page(1) assms(4,5,6) by auto
  ultimately have "?m \<in> set (map mis_MonitorID (mi_Incidents page))"
    using assms(7) by (metis (mono_tags, lifting) filter_set mem_Collect_eq mset_eq_setD set_filter)
  then obtain s where s: "s \<in> set (mi_Incidents page)" "mis_MonitorID s = ?m"
    by auto
  then have "reports env srv s"
    using page(2) by (simp add: list_all_iff)
  then obtain monitor where r: "s = incident_summary (metadata_of monitors ?m) monitor (state_of ?m db') (active_incident ?m db')"
    unfolding reports_def assms(5,6) s(2) by blast
  have "active_incident ?m db' = None" if "alert_Status alert = MonitorStatusHealthy"
    using told that by (simp add: active_incident_active(1) [OF programmatic])
  moreover have "\<exists>i. active_incident ?m db' = Some i \<and> inc_ID i = alert_IncidentID alert"
    if "alert_Status alert \<noteq> MonitorStatusHealthy"
    using told that active_incident_active(2) [OF programmatic] by auto
  ultimately have "mis_Status s = alert_Status alert \<and> mis_Scope s = alert_Scope alert \<and>
     mis_IncidentID s = (if alert_Status alert = MonitorStatusHealthy then [] else alert_IncidentID alert)"
    using told by (auto simp: r incident_summary_def stored_state)
  with s show ?thesis by blast
qed

section \<open>Concrete runs\<close>

text \<open>A server with one registered checker and a monitor that runs on it, and the connection to it.\<close>

definition ex_root_server :: Server where
  "ex_root_server = \<lparr>srv_serverConfig = ex_server_config, srv_monitorConfig = ex_monitors\<rparr>"

definition ex_connection :: upstream where
  "ex_connection = ex_upstream\<lparr>up_JoinPath := (\<lambda>base path. Inr (base @ path)), up_NewRequest := (\<lambda>_. None),
     up_register := (\<lambda>n request. Inr (register_answer ex_root_server request))\<rparr>"

definition ex_eu_checker :: Checker where
  "ex_eu_checker = NewChecker (ex_checker_config\<lparr>cc_Name := ''b'', cc_Region := ''eu'', cc_ApiKey := ''k2''\<rparr>)"

theorem registration_delivers_its_share_witness:
  "fst (registerToUpstream ex_connection 0 ex_eu_checker) = None \<and>
   map mon_ID (mc_Monitors (ck_monitors (snd (registerToUpstream ex_connection 0 ex_eu_checker)))) = [''api'']"
proof -
  have c: "connected ex_connection ex_root_server (cc_UpstreamURL (ck_config ex_eu_checker))"
    by (simp add: connected_def ex_connection_def)
  have f: "FindRegisteredChecker (srv_serverConfig ex_root_server) (checker_config_EffectiveName (ck_config ex_eu_checker))
      (cc_Region (ck_config ex_eu_checker)) (cc_ApiKey (ck_config ex_eu_checker)) =
      Some \<lparr>checker_Name = ''b'', checker_Region = ''eu'', checker_ApiKey = ''k2''\<rparr>"
    by code_simp
  have "map mon_ID (filter (\<lambda>m. RunsOnChecker m (EffectiveName \<lparr>checker_Name = ''b'', checker_Region = ''eu'', checker_ApiKey = ''k2''\<rparr>))
      (mc_Monitors (srv_monitorConfig ex_root_server))) = [''api'']"
    by code_simp
  moreover note d = registration_delivers_its_share [OF c, of 0, unfolded f option.case]
  have "fst (registerToUpstream ex_connection 0 ex_eu_checker) = None"
    using conjunct1 [OF d] by simp
  ultimately show ?thesis
    by (simp only: conjunct2 [OF d] simp_thms)
qed

theorem accepted_submission_is_stored_witness:
  "\<exists>topics'. CheckerSubmission Server_Handlers.ex_env ex_root_server (\<lambda>_. None) (True, True) ''k2''
       (Some (zero_submission\<lparr>sub_MonitorID := ''api'', sub_Timestamp := ex_now\<rparr>)) \<lparr>tp_processor = [], tp_ingester = []\<rparr> 0 =
       (Answer 200 (), topics', 5) \<and> length (tp_ingester topics') = 1"
proof -
  let ?s = "zero_submission\<lparr>sub_MonitorID := ''api'', sub_Timestamp := ex_now\<rparr>"
  let ?r = "CheckerSubmission Server_Handlers.ex_env ex_root_server (\<lambda>_. None) (True, True) ''k2'' (Some ?s)
       \<lparr>tp_processor = [], tp_ingester = []\<rparr> 0"
  have "List.find (\<lambda>checker. checker_ApiKey checker = ''k2'') (sc_RegisteredCheckers (srv_serverConfig ex_root_server)) =
      Some \<lparr>checker_Name = ''b'', checker_Region = ''eu'', checker_ApiKey = ''k2''\<rparr>"
    by code_simp
  then have "fst ?r = Answer 200 ()" "snd (snd ?r) = 5"
    by (simp_all add: CheckerSubmission_def Let_def)
  then obtain topics' where r: "?r = (Answer 200 (), topics', 5)"
    by (metis prod.collapse)
  moreover have "en_fault Server_Handlers.ex_env (0 + 4) = None"
    by (simp add: Server_Handlers.ex_env_def)
  ultimately show ?thesis
    using accepted_submission_is_stored [OF r] by auto
qed

lemma ex_recent_check:
  "case process_message ex_monitors ex_dataset Processor_Worker.ex_env ex_db ex_message of
     (a, db, Some (alert, m)) \<Rightarrow> alert_MonitorID alert \<in> set (recent_monitors (add_days ex_now (- 1)) db)
   | _ \<Rightarrow> False"
  by code_simp

theorem incidents_page_shows_the_alert_witness:
  "\<exists>db' alert meta page n'. process_message ex_monitors ex_dataset Processor_Worker.ex_env ex_db ex_message = (Ack, db', Some (alert, meta)) \<and>
     buildMonitorIncidentsResponse \<lparr>en_clock = (\<lambda>_. ex_now), en_fault = (\<lambda>_. None), en_db = (\<lambda>_. db'), en_cut = (\<lambda>_. 0)\<rparr>
       ex_root_server 0 = (Inr page, n') \<and>
     list_ex (\<lambda>s. mis_Status s = MonitorStatusDown \<and> mis_IncidentID s = alert_IncidentID alert) (mi_Incidents page)"
proof -
  obtain db' alert meta where r: "process_message ex_monitors ex_dataset Processor_Worker.ex_env ex_db ex_message = (Ack, db', Some (alert, meta))"
    and s: "alert_Status alert = MonitorStatusDown"
    by (rule ex_run)
  let ?env = "\<lparr>en_clock = (\<lambda>_. ex_now), en_fault = (\<lambda>_. None), en_db = (\<lambda>_. db'), en_cut = (\<lambda>_. 0)\<rparr>"
  have e: "en_fault ?env k = None" "en_db ?env k = db'" "en_clock ?env k = ex_now" for k
    by simp_all
  have "alert_MonitorID alert \<in> set (recent_monitors (add_days ex_now (- 1)) db')"
    using ex_recent_check r by simp
  then have recent: "alert_MonitorID alert \<in> set (recent_monitors (add_days (en_clock ?env (0 + 1)) (- 1)) db')"
    by simp
  have down: "MonitorStatusDown \<noteq> MonitorStatusHealthy"
    by (simp add: statuses)
  obtain page n' where p: "buildMonitorIncidentsResponse ?env ex_root_server 0 = (Inr page, n')"
    using incidents_page_succeeds [of ?env ex_root_server 0] e(1) by blast
  have "srv_monitorConfig ex_root_server = ex_monitors"
    by (simp add: ex_root_server_def)
  from incidents_page_shows_the_alert [OF ex_processor_run r p e(1,2) this recent]
  have "list_ex (\<lambda>s. mis_Status s = MonitorStatusDown \<and> mis_IncidentID s = alert_IncidentID alert) (mi_Incidents page)"
    using s down by (auto simp: list_ex_iff)
  then show ?thesis
    using r p by blast
qed

end
